(* ===== verification/Prelude.thy ===== *)
theory Prelude
  imports Main "HOL-Library.Word" "HOL-Library.List_Lexorder" "HOL-Library.Product_Lexorder"
    "HOL-Library.Sublist"
begin

text \<open>
  Shared vocabulary of the development: the machine types the source uses, the two shapes of
  fallible code (\<open>Result\<close> values and state-changing operations that may fail), and generic
  facts on lists, prefixes and the byte order that the component theories rely on.

  \<^item> \<open>u8\<close> and \<open>u64\<close> are words of that width; a byte string (\<open>Bytes\<close>, \<open>Vec<u8>\<close>, \<open>&[u8]\<close>,
    \<open>[u8; N]\<close>) is a list of bytes, ordered lexicographically as Rust orders slices.
  \<^item> \<open>Result<T, E>\<close> is \<open>'e + 'a\<close> with the error on the left.
  \<^item> A method taking \<open>&mut self\<close> and returning a \<open>Result\<close> is a function
    \<open>'s \<Rightarrow> ('e + 'a) \<times> 's\<close>: the state that a failing call leaves behind is kept, as in the source.
\<close>

type_synonym byte = "8 word"
type_synonym bytes = "byte list"
type_synonym u32 = "32 word"
type_synonym u64 = "64 word"

text \<open>Unfolding rules of the two monads, ordered-table laws and range facts.\<close>

named_theorems monad_simps
named_theorems table_laws
named_theorems range_simps

section \<open>Fallible values\<close>

text \<open>The question mark operator on a plain \<open>Result\<close>.\<close>

definition rbind :: "'e + 'a \<Rightarrow> ('a \<Rightarrow> 'e + 'b) \<Rightarrow> 'e + 'b" where
  "rbind r f = (case r of Inl e \<Rightarrow> Inl e | Inr x \<Rightarrow> f x)"

lemma rbind_simps [simp, monad_simps]:
  "rbind (Inl e) f = Inl e"
  "rbind (Inr x) f = f x"
  by (simp_all add: rbind_def)

lemma rbind_Inr_iff: "rbind r f = Inr y \<longleftrightarrow> (\<exists>x. r = Inr x \<and> f x = Inr y)"
  by (cases r) simp_all

text \<open>\<open>iter.collect::<Result<Vec<_>, _>>()\<close>: the first error, or all values.\<close>

fun collect_results :: "('e + 'a) list \<Rightarrow> 'e + 'a list" where
  "collect_results [] = Inr []"
| "collect_results (Inl e # rs) = Inl e"
| "collect_results (Inr x # rs) = rbind (collect_results rs) (\<lambda>xs. Inr (x # xs))"

lemma collect_results_Inr [simp]: "collect_results (map Inr xs) = Inr xs"
  by (induction xs) simp_all

section \<open>State-changing fallible operations\<close>

type_synonym ('s, 'e, 'a) op = "'s \<Rightarrow> ('e + 'a) \<times> 's"

definition op_return :: "'a \<Rightarrow> ('s, 'e, 'a) op" where
  "op_return x s = (Inr x, s)"

definition op_fail :: "'e \<Rightarrow> ('s, 'e, 'a) op" where
  "op_fail e s = (Inl e, s)"

definition op_bind :: "('s, 'e, 'a) op \<Rightarrow> ('a \<Rightarrow> ('s, 'e, 'b) op) \<Rightarrow> ('s, 'e, 'b) op" where
  "op_bind m f s = (case m s of (Inl e, s') \<Rightarrow> (Inl e, s') | (Inr x, s') \<Rightarrow> f x s')"

text \<open>Lift a plain result (the question mark operator applied to a value at hand).\<close>

definition op_lift :: "'e + 'a \<Rightarrow> ('s, 'e, 'a) op" where
  "op_lift r s = (r, s)"

text \<open>A \<open>for\<close> loop whose body updates an accumulator and may leave the function with an error.\<close>

fun op_for :: "('x \<Rightarrow> 'a \<Rightarrow> ('s, 'e, 'a) op) \<Rightarrow> 'x list \<Rightarrow> 'a \<Rightarrow> ('s, 'e, 'a) op" where
  "op_for f [] acc = op_return acc"
| "op_for f (x # xs) acc = op_bind (f x acc) (\<lambda>acc'. op_for f xs acc')"

text \<open>\<open>map_err\<close>, or the \<open>From\<close> conversion the question mark operator applies.\<close>

definition op_map_err :: "('e \<Rightarrow> 'f) \<Rightarrow> ('s, 'e, 'a) op \<Rightarrow> ('s, 'f, 'a) op" where
  "op_map_err g m s = (case m s of (Inl e, s') \<Rightarrow> (Inl (g e), s') | (Inr x, s') \<Rightarrow> (Inr x, s'))"

lemma op_return_apply [monad_simps]: "op_return x s = (Inr x, s)"
  by (simp add: op_return_def)

lemma op_fail_apply [monad_simps]: "op_fail e s = (Inl e, s)"
  by (simp add: op_fail_def)

lemma op_lift_apply [monad_simps]: "op_lift r s = (r, s)"
  by (simp add: op_lift_def)

lemma op_bind_apply [monad_simps]:
  "m s = (Inr x, s') \<Longrightarrow> op_bind m f s = f x s'"
  "m s = (Inl e, s') \<Longrightarrow> op_bind m f s = (Inl e, s')"
  by (simp_all add: op_bind_def)

lemma op_bind_InrE:
  assumes "op_bind m f s = (Inr y, t)"
  obtains x s' where "m s = (Inr x, s')" and "f x s' = (Inr y, t)"
  using assms by (auto simp: op_bind_def split: prod.splits sum.splits)

lemma op_bind_cases:
  assumes "op_bind m f s = (r, t)"
  obtains (fails) e where "m s = (Inl e, t)" and "r = Inl e"
        | (continues) x s' where "m s = (Inr x, s')" and "f x s' = (r, t)"
  using assms by (auto simp: op_bind_def split: prod.splits sum.splits)

text \<open>An invariant of the loop body is an invariant of the loop, error exits included.\<close>

lemma op_for_invariant:
  assumes "\<And>x a u. x \<in> set xs \<Longrightarrow> P u \<Longrightarrow> P (snd (f x a u))" and "P s"
  shows "P (snd (op_for f xs acc s))"
  using assms
proof (induction xs arbitrary: acc s)
  case Nil
  then show ?case by (simp add: op_return_def)
next
  case (Cons x xs)
  obtain r s' where m: "f x acc s = (r, s')" by fastforce
  have P': "P s'" using Cons.prems(1)[of x s acc] Cons.prems(2) m by simp
  show ?case
  proof (cases r)
    case (Inl e)
    then show ?thesis using m P' by (simp add: op_bind_def)
  next
    case (Inr a)
    then show ?thesis using m P' Cons by (simp add: op_bind_def)
  qed
qed

lemma op_for_append: "op_for f (xs @ ys) acc s = op_bind (op_for f xs acc) (\<lambda>a. op_for f ys a) s"
  by (induction xs arbitrary: acc s) (auto simp: op_bind_def op_return_def split: prod.splits sum.splits)

section \<open>Byte strings: order and prefixes\<close>

text \<open>Fixed-length heads: comparing two concatenations with equally long heads compares the
  heads first, then the tails.\<close>

lemma append_less_iff:
  fixes a b :: "'a::linorder list"
  assumes "length a = length b"
  shows "a @ x < b @ y \<longleftrightarrow> a < b \<or> a = b \<and> x < y"
  using assms by (induction a b rule: list_induct2) auto

lemma append_eq_iff_len:
  assumes "length a = length b"
  shows "a @ x = b @ y \<longleftrightarrow> a = b \<and> x = y"
  using assms by auto

text \<open>\<open>key.starts_with(p)\<close>.\<close>

definition starts_with :: "bytes \<Rightarrow> bytes \<Rightarrow> bool" where
  "starts_with k p \<longleftrightarrow> take (length p) k = p"

lemma starts_with_prefix: "starts_with k p \<longleftrightarrow> prefix p k"
  unfolding starts_with_def by (metis append_eq_conv_conj prefix_def take_is_prefix)

lemma prefix_le_bytes: "prefix p k \<Longrightarrow> p \<le> (k :: 'a::linorder list)"
proof (induction p arbitrary: k)
  case Nil
  then show ?case by (cases k) (simp_all add: list_le_def)
next
  case (Cons a p)
  then show ?case by (cases k) (auto simp: list_le_def)
qed

text \<open>All-zero byte strings are least among the strings of their length, all-255 ones greatest.\<close>

lemma replicate_zero_le: "length b = n \<Longrightarrow> replicate n (0::byte) \<le> b"
proof (induction n arbitrary: b)
  case (Suc n)
  then show ?case
    by (cases b) (auto simp: list_le_def word_gt_0)
qed simp

lemma replicate_255_ge: "length b = n \<Longrightarrow> b \<le> replicate n (255::byte)"
proof (induction n arbitrary: b)
  case (Suc n)
  then obtain x xs where b: "b = x # xs" "length xs = n" by (cases b) auto
  have "unat x < 2 ^ LENGTH(8)" by (rule unsigned_less)
  then have "x \<le> 255" by (simp add: word_le_nat_alt)
  then show ?case using Suc.IH[of xs] b by (auto simp: list_le_def)
qed simp

section \<open>Big-endian integers\<close>

text \<open>\<open>to_be_bytes\<close> and \<open>from_be_bytes\<close> of the unsigned integers of \<open>n\<close> bytes.\<close>

fun be_bytes :: "nat \<Rightarrow> nat \<Rightarrow> bytes" where
  "be_bytes 0 v = []"
| "be_bytes (Suc n) v = be_bytes n (v div 256) @ [word_of_nat (v mod 256)]"

definition be_value :: "bytes \<Rightarrow> nat" where
  "be_value b = foldl (\<lambda>acc x. acc * 256 + unat x) 0 b"

definition u64_to_be_bytes :: "u64 \<Rightarrow> bytes" where
  "u64_to_be_bytes w = be_bytes 8 (unat w)"

lemma be_bytes_length [simp]: "length (be_bytes n v) = n"
  by (induction n arbitrary: v) simp_all

lemma be_value_snoc: "be_value (b @ [x]) = be_value b * 256 + unat x"
  by (simp add: be_value_def)

lemma unat_of_byte: "unat (word_of_nat (v mod 256) :: byte) = v mod 256"
  by (simp add: unat_of_nat)

lemma be_value_be_bytes: "be_value (be_bytes n v) = v mod 256 ^ n"
proof (induction n arbitrary: v)
  case 0
  then show ?case by (simp add: be_value_def)
next
  case (Suc n)
  have "v mod (256 * 256 ^ n) = 256 * (v div 256 mod 256 ^ n) + v mod 256"
    by (rule mod_mult2_eq)
  then show ?case by (simp add: be_value_snoc unat_of_byte Suc.IH mult.commute)
qed

lemma u64_to_be_bytes_length [simp]: "length (u64_to_be_bytes w) = 8"
  by (simp add: u64_to_be_bytes_def)

lemma u64_to_be_bytes_value: "be_value (u64_to_be_bytes w) = unat w"
proof -
  have "unat w < 2 ^ LENGTH(64)" by (rule unsigned_less)
  then show ?thesis by (simp add: u64_to_be_bytes_def be_value_be_bytes)
qed

lemma u64_to_be_bytes_inject [simp]: "u64_to_be_bytes v = u64_to_be_bytes w \<longleftrightarrow> v = w"
  by (metis u64_to_be_bytes_value word_unat_eq_iff)

section \<open>Lists\<close>

lemma sorted_wrt_less_distinct:
  fixes xs :: "'a::order list"
  assumes "sorted_wrt (<) xs" shows "distinct xs"
  using assms by (induction xs) auto

lemma sorted_wrt_map_filter:
  assumes "sorted_wrt R (map f xs)" shows "sorted_wrt R (map f (filter P xs))"
  using assms by (induction xs) auto

lemma length_filter_split:
  "length (filter P xs) + length (filter (\<lambda>x. \<not> P x) xs) = length xs"
  by (induction xs) auto

lemma map_filter_cong:
  "(\<And>x. x \<in> set xs \<Longrightarrow> f x = g x) \<Longrightarrow> List.map_filter f xs = List.map_filter g xs"
  by (induction xs) (auto simp: List.map_filter_simps split: option.splits)

lemma set_map_filter: "set (List.map_filter f xs) = {y. \<exists>x \<in> set xs. f x = Some y}"
  by (induction xs) (auto simp: List.map_filter_simps split: option.splits)

end
