(* ===== verification/Keys.thy ===== *)
theory Keys
  imports Prelude
begin

text \<open>
  The key types of \<^verbatim>\<open>src/src/keys.rs\<close> and the public key cache of \<^verbatim>\<open>src/src/store/pubkeys.rs\<close>.

  A secret key is represented by the 32 bytes of \<open>SecretKey::to_bytes\<close>, a public key by the bytes of
  \<open>PublicKey::as_bytes\<close>, a signature by the 64 bytes of \<open>Signature::to_bytes\<close>. The signature scheme,
  the BLAKE3 hash and the hex codec are libraries outside the repository: they are the parameters
  \<open>crypto\<close> and \<open>hexlib\<close>, and what the code relies on is the hypothesis \<open>crypto_ok\<close>.
\<close>

record crypto =
  sk_public :: "bytes \<Rightarrow> bytes"
  sk_sign :: "bytes \<Rightarrow> bytes \<Rightarrow> bytes"
  pk_verify :: "bytes \<Rightarrow> bytes \<Rightarrow> bytes \<Rightarrow> bool"
  pk_valid :: "bytes \<Rightarrow> bool"
  hash_fn :: "bytes \<Rightarrow> bytes"

record hexlib =
  hex_encode :: "bytes \<Rightarrow> string"
  hex_decode_to_slice :: "nat \<Rightarrow> string \<Rightarrow> bytes option"

text \<open>Documented behaviour of the libraries: a derived public key parses, has 32 bytes and
  accepts its own signatures; digests have 32 bytes and signatures 64.\<close>

definition crypto_ok :: "crypto \<Rightarrow> bool" where
  "crypto_ok C \<longleftrightarrow>
     (\<forall>s. length (sk_public C s) = 32 \<and> pk_valid C (sk_public C s)) \<and>
     (\<forall>s m. pk_verify C (sk_public C s) m (sk_sign C s m) \<and> length (sk_sign C s m) = 64) \<and>
     (\<forall>m. length (hash_fn C m) = 32)"

section \<open>Key types\<close>

type_synonym namespace_id = bytes
type_synonym author_id = bytes

datatype author = Author (author_signing_key: bytes)
datatype author_public_key = AuthorPublicKey bytes
datatype namespace_secret = NamespaceSecret (namespace_signing_key: bytes)
datatype namespace_public_key = NamespacePublicKey bytes
datatype key_parsing_error = KeyParsingError
datatype signature_error = SignatureError
datatype parse_error = HexError | KeyError key_parsing_error

text \<open>\<open>PublicKey::from_bytes\<close>.\<close>

definition public_key_from_bytes :: "crypto \<Rightarrow> bytes \<Rightarrow> key_parsing_error + bytes" where
  "public_key_from_bytes C b = (if pk_valid C b then Inr b else Inl KeyParsingError)"

text \<open>\<open>Author::new\<close> takes the 32 bytes the random generator filled in.\<close>

definition author_new :: "bytes \<Rightarrow> author" where
  "author_new rng_bytes = Author rng_bytes"

definition author_from_bytes :: "bytes \<Rightarrow> author" where
  "author_from_bytes b = Author b"

definition author_to_bytes :: "author \<Rightarrow> bytes" where
  "author_to_bytes a = author_signing_key a"

definition author_public_key :: "crypto \<Rightarrow> author \<Rightarrow> author_public_key" where
  "author_public_key C a = AuthorPublicKey (sk_public C (author_signing_key a))"

fun author_pk_as_bytes :: "author_public_key \<Rightarrow> bytes" where
  "author_pk_as_bytes (AuthorPublicKey b) = b"

definition author_id :: "crypto \<Rightarrow> author \<Rightarrow> author_id" where
  "author_id C a = author_pk_as_bytes (author_public_key C a)"

definition author_sign :: "crypto \<Rightarrow> author \<Rightarrow> bytes \<Rightarrow> bytes" where
  "author_sign C a msg = sk_sign C (author_signing_key a) msg"

definition author_verify :: "crypto \<Rightarrow> author \<Rightarrow> bytes \<Rightarrow> bytes \<Rightarrow> signature_error + unit" where
  "author_verify C a msg sig =
     (if pk_verify C (sk_public C (author_signing_key a)) msg sig then Inr () else Inl SignatureError)"

fun author_pk_verify :: "crypto \<Rightarrow> author_public_key \<Rightarrow> bytes \<Rightarrow> bytes \<Rightarrow> signature_error + unit" where
  "author_pk_verify C (AuthorPublicKey k) msg sig =
     (if pk_verify C k msg sig then Inr () else Inl SignatureError)"

definition author_pk_from_bytes :: "crypto \<Rightarrow> bytes \<Rightarrow> key_parsing_error + author_public_key" where
  "author_pk_from_bytes C b = rbind (public_key_from_bytes C b) (\<lambda>k. Inr (AuthorPublicKey k))"

definition namespace_new :: "bytes \<Rightarrow> namespace_secret" where
  "namespace_new rng_bytes = NamespaceSecret rng_bytes"

definition namespace_from_bytes :: "bytes \<Rightarrow> namespace_secret" where
  "namespace_from_bytes b = NamespaceSecret b"

definition namespace_to_bytes :: "namespace_secret \<Rightarrow> bytes" where
  "namespace_to_bytes n = namespace_signing_key n"

definition namespace_public_key :: "crypto \<Rightarrow> namespace_secret \<Rightarrow> namespace_public_key" where
  "namespace_public_key C n = NamespacePublicKey (sk_public C (namespace_signing_key n))"

fun namespace_pk_as_bytes :: "namespace_public_key \<Rightarrow> bytes" where
  "namespace_pk_as_bytes (NamespacePublicKey b) = b"

definition namespace_id :: "crypto \<Rightarrow> namespace_secret \<Rightarrow> namespace_id" where
  "namespace_id C n = namespace_pk_as_bytes (namespace_public_key C n)"

definition namespace_sign :: "crypto \<Rightarrow> namespace_secret \<Rightarrow> bytes \<Rightarrow> bytes" where
  "namespace_sign C n msg = sk_sign C (namespace_signing_key n) msg"

definition namespace_verify ::
  "crypto \<Rightarrow> namespace_secret \<Rightarrow> bytes \<Rightarrow> bytes \<Rightarrow> signature_error + unit" where
  "namespace_verify C n msg sig =
     (if pk_verify C (sk_public C (namespace_signing_key n)) msg sig then Inr () else Inl SignatureError)"

fun namespace_pk_verify ::
  "crypto \<Rightarrow> namespace_public_key \<Rightarrow> bytes \<Rightarrow> bytes \<Rightarrow> signature_error + unit" where
  "namespace_pk_verify C (NamespacePublicKey k) msg sig =
     (if pk_verify C k msg sig then Inr () else Inl SignatureError)"

definition namespace_pk_from_bytes :: "crypto \<Rightarrow> bytes \<Rightarrow> key_parsing_error + namespace_public_key" where
  "namespace_pk_from_bytes C b = rbind (public_key_from_bytes C b) (\<lambda>k. Inr (NamespacePublicKey k))"

text \<open>\<open>AuthorId::into_public_key\<close>, \<open>NamespaceId::into_public_key\<close> and the \<open>TryFrom\<close> instances.\<close>

definition author_id_into_public_key :: "crypto \<Rightarrow> author_id \<Rightarrow> key_parsing_error + author_public_key" where
  "author_id_into_public_key C i = author_pk_from_bytes C i"

definition namespace_id_into_public_key ::
  "crypto \<Rightarrow> namespace_id \<Rightarrow> key_parsing_error + namespace_public_key" where
  "namespace_id_into_public_key C i = namespace_pk_from_bytes C i"

text \<open>Default identifiers are all zero; \<open>fmt_short\<close> is the first ten hex characters.\<close>

definition id_default :: bytes where
  "id_default = replicate 32 0"

definition author_fmt_short :: "hexlib \<Rightarrow> author_id \<Rightarrow> string" where
  "author_fmt_short H i = take 10 (hex_encode H i)"

definition namespace_fmt_short :: "hexlib \<Rightarrow> namespace_id \<Rightarrow> string" where
  "namespace_fmt_short H i = take 10 (hex_encode H i)"

section \<open>Printing and parsing\<close>

definition author_display :: "hexlib \<Rightarrow> author \<Rightarrow> string" where
  "author_display H a = hex_encode H (author_to_bytes a)"

definition namespace_secret_display :: "hexlib \<Rightarrow> namespace_secret \<Rightarrow> string" where
  "namespace_secret_display H n = hex_encode H (namespace_to_bytes n)"

definition author_id_display :: "hexlib \<Rightarrow> author_id \<Rightarrow> string" where
  "author_id_display H i = hex_encode H i"

definition namespace_id_display :: "hexlib \<Rightarrow> namespace_id \<Rightarrow> string" where
  "namespace_id_display H i = hex_encode H i"

definition parse_hex_array :: "hexlib \<Rightarrow> string \<Rightarrow> parse_error + bytes" where
  "parse_hex_array H s =
     (case hex_decode_to_slice H 32 s of None \<Rightarrow> Inl HexError | Some b \<Rightarrow> Inr b)"

definition author_from_str :: "hexlib \<Rightarrow> string \<Rightarrow> parse_error + author" where
  "author_from_str H s = rbind (parse_hex_array H s) (\<lambda>b. Inr (author_from_bytes b))"

definition namespace_secret_from_str :: "hexlib \<Rightarrow> string \<Rightarrow> parse_error + namespace_secret" where
  "namespace_secret_from_str H s = rbind (parse_hex_array H s) (\<lambda>b. Inr (namespace_from_bytes b))"

definition map_key_error :: "key_parsing_error + 'a \<Rightarrow> parse_error + 'a" where
  "map_key_error r = (case r of Inl e \<Rightarrow> Inl (KeyError e) | Inr x \<Rightarrow> Inr x)"

definition author_pk_from_str :: "crypto \<Rightarrow> hexlib \<Rightarrow> string \<Rightarrow> parse_error + author_public_key" where
  "author_pk_from_str C H s =
     rbind (parse_hex_array H s) (\<lambda>b. map_key_error (author_pk_from_bytes C b))"

definition namespace_pk_from_str ::
  "crypto \<Rightarrow> hexlib \<Rightarrow> string \<Rightarrow> parse_error + namespace_public_key" where
  "namespace_pk_from_str C H s =
     rbind (parse_hex_array H s) (\<lambda>b. map_key_error (namespace_pk_from_bytes C b))"

definition author_id_from_str :: "crypto \<Rightarrow> hexlib \<Rightarrow> string \<Rightarrow> parse_error + author_id" where
  "author_id_from_str C H s = rbind (author_pk_from_str C H s) (\<lambda>k. Inr (author_pk_as_bytes k))"

definition namespace_id_from_str :: "crypto \<Rightarrow> hexlib \<Rightarrow> string \<Rightarrow> parse_error + namespace_id" where
  "namespace_id_from_str C H s =
     rbind (namespace_pk_from_str C H s) (\<lambda>k. Inr (namespace_pk_as_bytes k))"

section \<open>The public key cache\<close>

type_synonym mem_public_key_store = "bytes \<rightharpoonup> bytes"

definition mem_public_key ::
  "crypto \<Rightarrow> bytes \<Rightarrow> (mem_public_key_store, key_parsing_error, bytes) op" where
  "mem_public_key C b m =
     (case m b of
        Some k \<Rightarrow> (Inr k, m)
      | None \<Rightarrow> (case public_key_from_bytes C b of
           Inl e \<Rightarrow> (Inl e, m)
         | Inr k \<Rightarrow> (Inr k, m(b \<mapsto> k))))"

text \<open>The unit instance, which caches nothing.\<close>

definition unit_public_key :: "crypto \<Rightarrow> bytes \<Rightarrow> (unit, key_parsing_error, bytes) op" where
  "unit_public_key C b u = (public_key_from_bytes C b, u)"

text \<open>The provided trait methods, over any instance's \<open>public_key\<close>.\<close>

definition namespace_key ::
  "(bytes \<Rightarrow> ('s, key_parsing_error, bytes) op) \<Rightarrow> namespace_id
     \<Rightarrow> ('s, key_parsing_error, namespace_public_key) op" where
  "namespace_key pk i = op_bind (pk i) (\<lambda>k. op_return (NamespacePublicKey k))"

definition author_key ::
  "(bytes \<Rightarrow> ('s, key_parsing_error, bytes) op) \<Rightarrow> author_id
     \<Rightarrow> ('s, key_parsing_error, author_public_key) op" where
  "author_key pk i = op_bind (pk i) (\<lambda>k. op_return (AuthorPublicKey k))"

text \<open>A cache that only ever holds keys that parse to themselves.\<close>

definition key_cache_ok :: "crypto \<Rightarrow> mem_public_key_store \<Rightarrow> bool" where
  "key_cache_ok C m \<longleftrightarrow> (\<forall>b k. m b = Some k \<longrightarrow> public_key_from_bytes C b = Inr k)"

text \<open>The interface: whatever an instance caches, a lookup answers as the parser would.\<close>

locale public_key_store =
  fixes C :: crypto
    and public_key :: "bytes \<Rightarrow> ('s, key_parsing_error, bytes) op"
    and inv :: "'s \<Rightarrow> bool"
  assumes public_key_answer: "inv s \<Longrightarrow> fst (public_key b s) = public_key_from_bytes C b"
    and public_key_inv: "inv s \<Longrightarrow> inv (snd (public_key b s))"
begin

lemma namespace_key_answer:
  "inv s \<Longrightarrow> fst (namespace_key public_key i s) = namespace_pk_from_bytes C i"
  using public_key_answer[of s i] unfolding namespace_key_def namespace_pk_from_bytes_def op_bind_def
  by (cases "public_key i s") (auto simp: op_return_def split: sum.splits)

lemma author_key_answer:
  "inv s \<Longrightarrow> fst (author_key public_key i s) = author_pk_from_bytes C i"
  using public_key_answer[of s i] unfolding author_key_def author_pk_from_bytes_def op_bind_def
  by (cases "public_key i s") (auto simp: op_return_def split: sum.splits)

lemma namespace_key_inv: "inv s \<Longrightarrow> inv (snd (namespace_key public_key i s))"
  using public_key_inv[of s i] unfolding namespace_key_def op_bind_def
  by (cases "public_key i s") (auto simp: op_return_def split: sum.splits)

lemma author_key_inv: "inv s \<Longrightarrow> inv (snd (author_key public_key i s))"
  using public_key_inv[of s i] unfolding author_key_def op_bind_def
  by (cases "public_key i s") (auto simp: op_return_def split: sum.splits)

end

interpretation mem_keys: public_key_store C "mem_public_key C" "key_cache_ok C" for C
  by unfold_locales
     (auto simp: mem_public_key_def key_cache_ok_def split: option.splits sum.splits)

interpretation unit_keys: public_key_store C "unit_public_key C" "\<lambda>_. True" for C
  by unfold_locales (auto simp: unit_public_key_def)

section \<open>Facts the other components use\<close>

lemma namespace_id_eq: "namespace_id C (NamespaceSecret s) = sk_public C s"
  by (simp add: namespace_id_def namespace_public_key_def)

lemma author_id_eq: "author_id C (Author s) = sk_public C s"
  by (simp add: author_id_def author_public_key_def)

lemma id_default_length [simp]: "length id_default = 32"
  by (simp add: id_default_def)

lemma crypto_ok_lengths:
  assumes "crypto_ok C"
  shows "length (namespace_id C n) = 32" and "length (author_id C a) = 32"
    and "length (hash_fn C m) = 32"
  using assms
  by (simp_all add: crypto_ok_def namespace_id_def author_id_def namespace_public_key_def
      author_public_key_def)

lemma crypto_ok_roundtrip:
  assumes "crypto_ok C"
  shows "author_pk_verify C (author_public_key C a) msg (author_sign C a msg) = Inr ()"
    and "namespace_pk_verify C (namespace_public_key C n) msg (namespace_sign C n msg) = Inr ()"
    and "author_pk_from_bytes C (author_id C a) = Inr (author_public_key C a)"
    and "namespace_pk_from_bytes C (namespace_id C n) = Inr (namespace_public_key C n)"
  using assms
  by (simp_all add: crypto_ok_def author_public_key_def author_sign_def namespace_public_key_def
      namespace_sign_def author_pk_from_bytes_def namespace_pk_from_bytes_def author_id_def
      namespace_id_def public_key_from_bytes_def)

section \<open>A concrete scheme\<close>

text \<open>A toy signature scheme and digest that meet \<open>crypto_ok\<close>, for closed instances of the theorems.\<close>

definition pad :: "nat \<Rightarrow> bytes \<Rightarrow> bytes" where
  "pad n b = take n (b @ replicate n 0)"

definition sample_crypto :: crypto where
  "sample_crypto = \<lparr>sk_public = pad 32, sk_sign = (\<lambda>s m. pad 64 (pad 32 s @ m)),
     pk_verify = (\<lambda>k m sig. sig = pad 64 (k @ m)), pk_valid = (\<lambda>k. length k = 32),
     hash_fn = (\<lambda>m. pad 32 (1 # m))\<rparr>"

lemma pad_length [simp]: "length (pad n b) = n"
  by (simp add: pad_def)

lemma sample_crypto_ok: "crypto_ok sample_crypto"
  by (simp add: crypto_ok_def sample_crypto_def)

end
