(* ===== verification/Records.thy ===== *)
theory Records
  imports Keys
begin

text \<open>
  The data model of \<^verbatim>\<open>src/src/sync.rs\<close>: records, record identifiers, entries, signatures and
  rejection ids, with their orderings, canonical encodings and validity checks.

  A record identifier is a byte string whose first 32 bytes are the namespace and whose next 32
  are the author. The accessors slice it without a check, so every identifier must carry that
  head (\<open>rid_ok\<close>); \<open>rid_new\<close> always writes it for 32-byte ids and the deserializer refuses anything
  shorter.
\<close>

section \<open>Orderings\<close>

text \<open>\<open>std::cmp::Ordering\<close>, \<open>cmp\<close> of a totally ordered type and \<open>then_with\<close>.\<close>

datatype ordering = Less | Equal | Greater

definition cmp :: "'a::linorder \<Rightarrow> 'a \<Rightarrow> ordering" where
  "cmp a b = (if a < b then Less else if a = b then Equal else Greater)"

fun then_with :: "ordering \<Rightarrow> ordering \<Rightarrow> ordering" where
  "then_with Equal o2 = o2"
| "then_with o1 o2 = o1"

section \<open>Records\<close>

record doc_record =
  rec_len :: u64
  rec_hash :: bytes
  rec_timestamp :: u64

text \<open>\<open>Hash::EMPTY\<close> is the hash of the empty byte string.\<close>

definition hash_empty :: "crypto \<Rightarrow> bytes" where
  "hash_empty C = hash_fn C []"

text \<open>The \<open>Ord\<close> instance: first the timestamp, then the content hash. The length does not
  take part, so this is coarser than equality.\<close>

definition record_cmp :: "doc_record \<Rightarrow> doc_record \<Rightarrow> ordering" where
  "record_cmp a b =
     then_with (cmp (rec_timestamp a) (rec_timestamp b)) (cmp (rec_hash a) (rec_hash b))"

definition record_le :: "doc_record \<Rightarrow> doc_record \<Rightarrow> bool" where
  "record_le a b \<longleftrightarrow> record_cmp a b \<noteq> Greater"

definition record_new :: "bytes \<Rightarrow> u64 \<Rightarrow> u64 \<Rightarrow> doc_record" where
  "record_new hash len timestamp = \<lparr>rec_len = len, rec_hash = hash, rec_timestamp = timestamp\<rparr>"

definition record_empty :: "crypto \<Rightarrow> u64 \<Rightarrow> doc_record" where
  "record_empty C timestamp = record_new (hash_empty C) 0 timestamp"

text \<open>\<open>new_current\<close> and \<open>empty_current\<close> read the system clock; the reading is their argument.\<close>

definition record_new_current :: "u64 \<Rightarrow> bytes \<Rightarrow> u64 \<Rightarrow> doc_record" where
  "record_new_current now hash len = record_new hash len now"

definition record_empty_current :: "crypto \<Rightarrow> u64 \<Rightarrow> doc_record" where
  "record_empty_current C now = record_new_current now (hash_empty C) 0"

definition record_is_empty :: "crypto \<Rightarrow> doc_record \<Rightarrow> bool" where
  "record_is_empty C r \<longleftrightarrow> rec_hash r = hash_empty C"

definition record_encode :: "doc_record \<Rightarrow> bytes" where
  "record_encode r = u64_to_be_bytes (rec_len r) @ rec_hash r @ u64_to_be_bytes (rec_timestamp r)"

section \<open>Record identifiers\<close>

datatype record_identifier = RecordIdentifier (rid_bytes: bytes)

text \<open>The derived order of the newtype is the order of its bytes.\<close>

instantiation record_identifier :: linorder
begin

definition less_record_identifier :: "record_identifier \<Rightarrow> record_identifier \<Rightarrow> bool" where
  "less_record_identifier a b \<longleftrightarrow> rid_bytes a < rid_bytes b"

definition less_eq_record_identifier :: "record_identifier \<Rightarrow> record_identifier \<Rightarrow> bool" where
  "less_eq_record_identifier a b \<longleftrightarrow> rid_bytes a \<le> rid_bytes b"

instance
  by standard
     (auto simp: less_record_identifier_def less_eq_record_identifier_def record_identifier.expand)

end

definition id_head_bytes :: nat where
  "id_head_bytes = 64"

definition rid_ok :: "record_identifier \<Rightarrow> bool" where
  "rid_ok r \<longleftrightarrow> id_head_bytes \<le> length (rid_bytes r)"

datatype invalid_length = InvalidLength nat

definition record_identifier_from_bytes :: "bytes \<Rightarrow> invalid_length + record_identifier" where
  "record_identifier_from_bytes b =
     (if length b < id_head_bytes then Inl (InvalidLength (length b)) else Inr (RecordIdentifier b))"

definition rid_new :: "namespace_id \<Rightarrow> author_id \<Rightarrow> bytes \<Rightarrow> record_identifier" where
  "rid_new namespace author key = RecordIdentifier (namespace @ author @ key)"

definition rid_default :: record_identifier where
  "rid_default = rid_new id_default id_default []"

definition rid_encode :: "record_identifier \<Rightarrow> bytes" where
  "rid_encode r = rid_bytes r"

definition rid_namespace :: "record_identifier \<Rightarrow> namespace_id" where
  "rid_namespace r = take 32 (rid_bytes r)"

definition rid_author :: "record_identifier \<Rightarrow> author_id" where
  "rid_author r = take 32 (drop 32 (rid_bytes r))"

definition rid_key :: "record_identifier \<Rightarrow> bytes" where
  "rid_key r = drop 64 (rid_bytes r)"

definition rid_to_byte_tuple :: "record_identifier \<Rightarrow> bytes \<times> bytes \<times> bytes" where
  "rid_to_byte_tuple r = (rid_namespace r, rid_author r, rid_key r)"

section \<open>Entries\<close>

record entry =
  entry_id :: record_identifier
  entry_record :: doc_record

definition entry_new :: "record_identifier \<Rightarrow> doc_record \<Rightarrow> entry" where
  "entry_new i r = \<lparr>entry_id = i, entry_record = r\<rparr>"

definition entry_new_empty :: "crypto \<Rightarrow> u64 \<Rightarrow> record_identifier \<Rightarrow> entry" where
  "entry_new_empty C now i = \<lparr>entry_id = i, entry_record = record_empty_current C now\<rparr>"

definition entry_cmp :: "entry \<Rightarrow> entry \<Rightarrow> ordering" where
  "entry_cmp a b =
     then_with (cmp (entry_id a) (entry_id b)) (record_cmp (entry_record a) (entry_record b))"

definition entry_namespace :: "entry \<Rightarrow> namespace_id" where
  "entry_namespace e = rid_namespace (entry_id e)"

definition entry_author :: "entry \<Rightarrow> author_id" where
  "entry_author e = rid_author (entry_id e)"

definition entry_key :: "entry \<Rightarrow> bytes" where
  "entry_key e = rid_key (entry_id e)"

definition entry_content_hash :: "entry \<Rightarrow> bytes" where
  "entry_content_hash e = rec_hash (entry_record e)"

definition entry_content_len :: "entry \<Rightarrow> u64" where
  "entry_content_len e = rec_len (entry_record e)"

definition entry_timestamp :: "entry \<Rightarrow> u64" where
  "entry_timestamp e = rec_timestamp (entry_record e)"

definition entry_encode :: "entry \<Rightarrow> bytes" where
  "entry_encode e = rid_encode (entry_id e) @ record_encode (entry_record e)"

text \<open>Why the validation of an entry fails; \<open>validate_empty\<close> is the check on its content.\<close>

datatype validation_failure =
  InvalidNamespace | BadSignature | TooFarInTheFuture | InvalidEmptyEntry | Unauthorized | NotAdmitted

definition entry_validate_empty :: "crypto \<Rightarrow> entry \<Rightarrow> validation_failure + unit" where
  "entry_validate_empty C e =
     (case (entry_content_hash e = hash_empty C, entry_content_len e = 0) of
        (True, True) \<Rightarrow> Inr ()
      | (False, False) \<Rightarrow> Inr ()
      | (True, False) \<Rightarrow> Inl InvalidEmptyEntry
      | (False, True) \<Rightarrow> Inl InvalidEmptyEntry)"

section \<open>Signatures\<close>

record entry_signature =
  author_signature :: bytes
  namespace_signature :: bytes

definition entry_signature_from_entry ::
  "crypto \<Rightarrow> entry \<Rightarrow> namespace_secret \<Rightarrow> author \<Rightarrow> entry_signature" where
  "entry_signature_from_entry C e namespace author =
     (let b = entry_encode e
      in \<lparr>author_signature = author_sign C author b,
          namespace_signature = namespace_sign C namespace b\<rparr>)"

definition entry_signature_verify ::
  "crypto \<Rightarrow> entry_signature \<Rightarrow> entry \<Rightarrow> namespace_public_key \<Rightarrow> author_public_key
     \<Rightarrow> signature_error + unit" where
  "entry_signature_verify C sig e namespace author =
     (let b = entry_encode e
      in rbind (namespace_pk_verify C namespace b (namespace_signature sig))
           (\<lambda>_. rbind (author_pk_verify C author b (author_signature sig)) (\<lambda>_. Inr ())))"

definition entry_signature_from_parts :: "bytes \<Rightarrow> bytes \<Rightarrow> entry_signature" where
  "entry_signature_from_parts namespace_sig author_sig =
     \<lparr>author_signature = author_sig, namespace_signature = namespace_sig\<rparr>"

record signed_entry =
  se_signature :: entry_signature
  se_entry :: entry

definition signed_entry_new :: "entry_signature \<Rightarrow> entry \<Rightarrow> signed_entry" where
  "signed_entry_new sig e = \<lparr>se_signature = sig, se_entry = e\<rparr>"

definition signed_entry_from_entry ::
  "crypto \<Rightarrow> entry \<Rightarrow> namespace_secret \<Rightarrow> author \<Rightarrow> signed_entry" where
  "signed_entry_from_entry C e namespace author =
     \<lparr>se_signature = entry_signature_from_entry C e namespace author, se_entry = e\<rparr>"

definition entry_sign :: "crypto \<Rightarrow> entry \<Rightarrow> namespace_secret \<Rightarrow> author \<Rightarrow> signed_entry" where
  "entry_sign C e namespace author = signed_entry_from_entry C e namespace author"

definition signed_entry_from_parts ::
  "crypto \<Rightarrow> namespace_secret \<Rightarrow> author \<Rightarrow> bytes \<Rightarrow> doc_record \<Rightarrow> signed_entry" where
  "signed_entry_from_parts C namespace author key r =
     (let i = rid_new (namespace_id C namespace) (author_id C author) key
      in signed_entry_from_entry C (entry_new i r) namespace author)"

datatype signed_entry_verify_error = KeyParsing key_parsing_error | SignatureFailure signature_error

text \<open>\<open>SignedEntry::verify\<close> looks both keys up in the key store it is given, then checks the
  namespace signature and the author signature.\<close>

definition signed_entry_verify ::
  "crypto \<Rightarrow> (bytes \<Rightarrow> ('s, key_parsing_error, bytes) op) \<Rightarrow> signed_entry
     \<Rightarrow> ('s, signed_entry_verify_error, unit) op" where
  "signed_entry_verify C pk e =
     op_bind (op_map_err KeyParsing (namespace_key pk (entry_namespace (se_entry e)))) (\<lambda>nk.
     op_bind (op_map_err KeyParsing (author_key pk (entry_author (se_entry e)))) (\<lambda>ak.
     op_map_err SignatureFailure
       (op_lift (entry_signature_verify C (se_signature e) (se_entry e) nk ak))))"

definition signed_entry_validate_empty :: "crypto \<Rightarrow> signed_entry \<Rightarrow> validation_failure + unit" where
  "signed_entry_validate_empty C e = entry_validate_empty C (se_entry e)"

definition signed_entry_cmp :: "signed_entry \<Rightarrow> signed_entry \<Rightarrow> ordering" where
  "signed_entry_cmp a b = entry_cmp (se_entry a) (se_entry b)"

abbreviation se_id :: "signed_entry \<Rightarrow> record_identifier" where
  "se_id e \<equiv> entry_id (se_entry e)"

abbreviation se_record :: "signed_entry \<Rightarrow> doc_record" where
  "se_record e \<equiv> entry_record (se_entry e)"

section \<open>Reconciliation view of an entry\<close>

record reject_id =
  rej_author :: author_id
  rej_key :: bytes
  rej_timestamp :: u64
  rej_content_hash :: bytes

definition signed_entry_reject_id :: "signed_entry \<Rightarrow> reject_id" where
  "signed_entry_reject_id e =
     \<lparr>rej_author = entry_author (se_entry e), rej_key = entry_key (se_entry e),
      rej_timestamp = entry_timestamp (se_entry e), rej_content_hash = entry_content_hash (se_entry e)\<rparr>"

type_synonym fingerprint = bytes

definition signed_entry_as_fingerprint :: "crypto \<Rightarrow> signed_entry \<Rightarrow> fingerprint" where
  "signed_entry_as_fingerprint C e =
     hash_fn C (entry_namespace (se_entry e) @ entry_author (se_entry e) @ entry_key (se_entry e)
       @ u64_to_be_bytes (entry_timestamp (se_entry e)) @ entry_content_hash (se_entry e))"

section \<open>Properties\<close>

lemma cmp_simps:
  "cmp a b = Less \<longleftrightarrow> a < b" "cmp a b = Equal \<longleftrightarrow> a = b" "cmp a b = Greater \<longleftrightarrow> b < a"
  by (auto simp: cmp_def)

lemma then_with_simps:
  "then_with a b = Less \<longleftrightarrow> a = Less \<or> a = Equal \<and> b = Less"
  "then_with a b = Equal \<longleftrightarrow> a = Equal \<and> b = Equal"
  "then_with a b = Greater \<longleftrightarrow> a = Greater \<or> a = Equal \<and> b = Greater"
  by (cases a; simp)+

lemma record_le_iff:
  "record_le a b \<longleftrightarrow> rec_timestamp a < rec_timestamp b \<or>
     rec_timestamp a = rec_timestamp b \<and> rec_hash a \<le> rec_hash b"
  by (auto simp: record_le_def record_cmp_def then_with_simps cmp_simps not_less)

lemma record_le_refl [simp]: "record_le a a"
  by (simp add: record_le_iff)

lemma record_le_trans [trans]: "record_le a b \<Longrightarrow> record_le b c \<Longrightarrow> record_le a c"
  by (auto simp: record_le_iff)

lemma record_le_total: "record_le a b \<or> record_le b a"
  by (auto simp: record_le_iff)

lemma rid_less_iff: "(a::record_identifier) < b \<longleftrightarrow> rid_bytes a < rid_bytes b"
  by (simp add: less_record_identifier_def)

lemma rid_le_iff: "(a::record_identifier) \<le> b \<longleftrightarrow> rid_bytes a \<le> rid_bytes b"
  by (simp add: less_eq_record_identifier_def)

lemma rid_new_accessors [simp]:
  assumes "length n = 32" "length a = 32"
  shows "rid_namespace (rid_new n a k) = n" "rid_author (rid_new n a k) = a"
    "rid_key (rid_new n a k) = k" "rid_ok (rid_new n a k)"
  using assms
  by (simp_all add: rid_new_def rid_namespace_def rid_author_def rid_key_def rid_ok_def id_head_bytes_def)

lemma rid_ok_lengths:
  assumes "rid_ok r"
  shows "length (rid_namespace r) = 32" "length (rid_author r) = 32"
  using assms by (simp_all add: rid_ok_def id_head_bytes_def rid_namespace_def rid_author_def)

lemma rid_new_parts: "rid_new (rid_namespace r) (rid_author r) (rid_key r) = r"
proof -
  have "take 32 b @ take 32 (drop 32 b) @ drop 64 b = b" for b :: bytes
    by (metis append_take_drop_id drop_drop numeral_Bit0)
  then show ?thesis
    by (cases r) (simp add: rid_new_def rid_namespace_def rid_author_def rid_key_def)
qed

lemma rid_new_inject:
  assumes "length n = length n'" "length a = length a'"
  shows "rid_new n a k = rid_new n' a' k' \<longleftrightarrow> n = n' \<and> a = a' \<and> k = k'"
  using assms by (auto simp: rid_new_def)

text \<open>Reading back an identifier's parts, and order: on identifiers that carry the fixed head, the
  byte order of the identifier is the order of the (namespace, author, key) tuple the tables use.\<close>

lemma rid_tuple_less:
  assumes "rid_ok r" "rid_ok q"
  shows "r < q \<longleftrightarrow> rid_to_byte_tuple r < rid_to_byte_tuple q"
proof -
  have "rid_bytes x = rid_namespace x @ rid_author x @ rid_key x" for x
    using rid_new_parts[of x] by (metis record_identifier.sel rid_new_def)
  then show ?thesis
    using rid_ok_lengths[OF assms(1)] rid_ok_lengths[OF assms(2)]
    by (auto simp: rid_less_iff rid_to_byte_tuple_def append_less_iff less_prod_def)
qed

lemma rid_tuple_eq: "rid_to_byte_tuple r = rid_to_byte_tuple q \<longleftrightarrow> r = q"
  by (metis rid_to_byte_tuple_def rid_new_parts prod.inject)

lemma rid_tuple_le:
  assumes "rid_ok r" "rid_ok q"
  shows "r \<le> q \<longleftrightarrow> rid_to_byte_tuple r \<le> rid_to_byte_tuple q"
  using rid_tuple_less[OF assms] rid_tuple_eq[of r q] by (auto simp: le_less)

end
