(* ===== verification/Ranger.thy ===== *)
theory Ranger
  imports Records
begin

text \<open>
  Range-based set reconciliation, \<^verbatim>\<open>src/src/ranger.rs\<close>: ranges, fingerprints, messages, the store
  interface and the message handler \<open>process_message\<close>.

  The \<open>RangeEntry\<close> trait is the record \<open>range_entry\<close> of its methods (the order of the values is the
  field \<open>re_value_le\<close>, because it is coarser than equality for the one instance the program has).
  The \<open>Store\<close> trait is the record \<open>store_ops\<close> of its required methods; its provided methods are the
  definitions below over such a record. An iterator over results is a list of results. A panic is
  a failure of its own, so that its absence can be stated.
\<close>

section \<open>Ranges and fingerprints\<close>

datatype 'k range = Range (range_x: 'k) (range_y: 'k)

definition range_new :: "'k \<Rightarrow> 'k \<Rightarrow> 'k range" where
  "range_new x y = Range x y"

definition range_is_all :: "'k range \<Rightarrow> bool" where
  "range_is_all r \<longleftrightarrow> range_x r = range_y r"

definition range_contains :: "'k::linorder range \<Rightarrow> 'k \<Rightarrow> bool" where
  "range_contains r t =
     (case cmp (range_x r) (range_y r) of
        Equal \<Rightarrow> True
      | Less \<Rightarrow> range_x r \<le> t \<and> t < range_y r
      | Greater \<Rightarrow> range_x r \<le> t \<or> t < range_y r)"

definition fingerprint_empty :: "crypto \<Rightarrow> fingerprint" where
  "fingerprint_empty C = hash_fn C []"

definition fingerprint_xor :: "fingerprint \<Rightarrow> fingerprint \<Rightarrow> fingerprint" where
  "fingerprint_xor a b = map2 xor a b"

section \<open>Messages\<close>

datatype content_status = Complete | Incomplete | Missing

datatype validate_outcome = Accept | Drop | Reject

datatype insert_outcome = NotInserted | Inserted (removed: nat)

record ('x, 'k, 'v, 'r) range_entry =
  re_key :: "'x \<Rightarrow> 'k"
  re_value :: "'x \<Rightarrow> 'v"
  re_value_le :: "'v \<Rightarrow> 'v \<Rightarrow> bool"
  re_reject_id :: "'x \<Rightarrow> 'r"
  re_as_fingerprint :: "'x \<Rightarrow> fingerprint"

datatype ('x, 'k, 'r) message_part =
    RangeFingerprint "'k range" fingerprint
  | RangeItem "'k range" "('x \<times> content_status) list" bool
  | Rejected 'r

type_synonym ('x, 'k, 'r) message = "('x, 'k, 'r) message_part list"

fun part_values :: "('x, 'k, 'r) message_part \<Rightarrow> ('x \<times> content_status) list option" where
  "part_values (RangeFingerprint r fp) = None"
| "part_values (RangeItem r values have_local) = Some values"
| "part_values (Rejected i) = None"

fun part_rejected :: "('x, 'k, 'r) message_part \<Rightarrow> 'r option" where
  "part_rejected (Rejected i) = Some i"
| "part_rejected _ = None"

definition message_values :: "('x, 'k, 'r) message \<Rightarrow> ('x \<times> content_status) list" where
  "message_values msg = concat (List.map_filter part_values msg)"

definition message_value_count :: "('x, 'k, 'r) message \<Rightarrow> nat" where
  "message_value_count msg = length (message_values msg)"

section \<open>The store interface\<close>

record ('s, 'e, 'k, 'x, 'v) store_ops =
  so_get_first :: "('s, 'e, 'k) op"
  so_get_fingerprint :: "'k range \<Rightarrow> ('s, 'e, fingerprint) op"
  so_entry_put :: "'x \<Rightarrow> ('s, 'e, unit) op"
  so_get_range :: "'k range \<Rightarrow> ('s, 'e, ('e + 'x) list) op"
  so_prefixes_of :: "'k \<Rightarrow> ('s, 'e, ('e + 'x) list) op"
  so_remove_prefix_filtered :: "'k \<Rightarrow> ('v \<Rightarrow> bool) \<Rightarrow> ('s, 'e, nat) op"

record sync_config =
  max_set_size :: nat
  split_factor :: nat

definition sync_config_default :: sync_config where
  "sync_config_default = \<lparr>max_set_size = 1, split_factor = 2\<rparr>"

definition get_range_len :: "('s, 'e, 'k, 'x, 'v) store_ops \<Rightarrow> 'k range \<Rightarrow> ('s, 'e, nat) op" where
  "get_range_len S r =
     op_bind (so_get_range S r) (\<lambda>it. op_lift (rbind (collect_results it) (\<lambda>els. Inr (length els))))"

definition message_init ::
  "('s, 'e, 'k, 'x, 'v) store_ops \<Rightarrow> ('s, 'e, ('x, 'k, 'r) message) op" where
  "message_init S =
     op_bind (so_get_first S) (\<lambda>x.
     op_bind (so_get_fingerprint S (range_new x x)) (\<lambda>fp.
     op_return [RangeFingerprint (range_new x x) fp]))"

definition initial_message ::
  "('s, 'e, 'k, 'x, 'v) store_ops \<Rightarrow> ('s, 'e, ('x, 'k, 'r) message) op" where
  "initial_message S = message_init S"

text \<open>\<open>would_insert\<close>: no stored entry at a prefix of the key (the key included) is at or above
  the new value; \<open>put\<close> then removes what the new entry supersedes and stores it.\<close>

fun newer_than_all :: "('x, 'k, 'v, 'r) range_entry \<Rightarrow> 'x \<Rightarrow> ('e + 'x) list \<Rightarrow> 'e + bool" where
  "newer_than_all E x [] = Inr True"
| "newer_than_all E x (Inl e # ps) = Inl e"
| "newer_than_all E x (Inr p # ps) =
     (if re_value_le E (re_value E x) (re_value E p) then Inr False else newer_than_all E x ps)"

definition would_insert ::
  "('x, 'k, 'v, 'r) range_entry \<Rightarrow> ('s, 'e, 'k, 'x, 'v) store_ops \<Rightarrow> 'x \<Rightarrow> ('s, 'e, bool) op" where
  "would_insert E S x =
     op_bind (so_prefixes_of S (re_key E x)) (\<lambda>ps. op_lift (newer_than_all E x ps))"

definition ranger_put ::
  "('x, 'k, 'v, 'r) range_entry \<Rightarrow> ('s, 'e, 'k, 'x, 'v) store_ops \<Rightarrow> 'x
     \<Rightarrow> ('s, 'e, insert_outcome) op" where
  "ranger_put E S x =
     op_bind (would_insert E S x) (\<lambda>fresh.
       if \<not> fresh then op_return NotInserted
       else op_bind (so_remove_prefix_filtered S (re_key E x) (\<lambda>v. re_value_le E v (re_value E x)))
              (\<lambda>n. op_bind (so_entry_put S x) (\<lambda>_. op_return (Inserted n))))"

section \<open>Processing a message\<close>

text \<open>
  The handler runs over the store state and the state \<open>'c\<close> its insert callback captures. The
  validation callback may look at the store, whose key cache it can fill, so it runs on the store
  state as well.
\<close>

datatype 'e failure = Failure 'e | Panic

definition on_store :: "('s, 'e, 'a) op \<Rightarrow> ('s \<times> 'c, 'e failure, 'a) op" where
  "on_store m st =
     (case m (fst st) of (r, s') \<Rightarrow> (map_sum Failure id r, (s', snd st)))"

record ('x, 's, 'c) callbacks =
  validate_cb :: "'x \<Rightarrow> content_status \<Rightarrow> 's \<Rightarrow> validate_outcome \<times> 's"
  on_insert_cb :: "'x \<Rightarrow> content_status \<Rightarrow> 'c \<Rightarrow> 'c"
  content_status_cb :: "'x \<Rightarrow> content_status"

definition with_status ::
  "('x, 's, 'c) callbacks \<Rightarrow> 'x list \<Rightarrow> ('x \<times> content_status) list" where
  "with_status B xs = map (\<lambda>x. (x, content_status_cb B x)) xs"

text \<open>The local entries of a received range that the peer does not already have at least as new.\<close>

definition peer_lacks ::
  "('x, 'k, 'v, 'r) range_entry \<Rightarrow> ('x \<times> content_status) list \<Rightarrow> 'x \<Rightarrow> bool" where
  "peer_lacks E values our =
     (\<not> list_ex (\<lambda>(their, _). re_key E our = re_key E their \<and>
          re_value_le E (re_value E our) (re_value E their)) values)"

definition item_diff ::
  "('x, 'k, 'v, 'r) range_entry \<Rightarrow> ('s, 'e, 'k, 'x, 'v) store_ops \<Rightarrow> ('x, 's, 'c) callbacks
     \<Rightarrow> 'k range \<Rightarrow> ('x \<times> content_status) list \<Rightarrow> bool
     \<Rightarrow> ('s \<times> 'c, 'e failure, ('x \<times> content_status) list option) op" where
  "item_diff E S B rng values have_local =
     (if have_local then op_return None
      else op_bind (on_store (so_get_range S rng)) (\<lambda>it.
           op_bind (op_lift (map_sum Failure id (collect_results
               (filter (\<lambda>r. case r of Inl e \<Rightarrow> True | Inr our \<Rightarrow> peer_lacks E values our) it))))
             (\<lambda>items. op_return (Some (with_status B items)))))"

text \<open>One received value: accept and store it, drop it, or refuse it and name it to the sender.\<close>

definition store_value ::
  "('x, 'k, 'v, 'r) range_entry \<Rightarrow> ('s, 'e, 'k, 'x, 'v) store_ops \<Rightarrow> ('x, 's, 'c) callbacks
     \<Rightarrow> 'x \<times> content_status \<Rightarrow> ('x, 'k, 'r) message
     \<Rightarrow> ('s \<times> 'c, 'e failure, ('x, 'k, 'r) message) op" where
  "store_value E S B value out st =
     (case value of (x, cs) \<Rightarrow>
        (case validate_cb B x cs (fst st) of (outcome, s') \<Rightarrow>
           (case outcome of
              Accept \<Rightarrow>
                op_bind (on_store (ranger_put E S x)) (\<lambda>ins st'.
                  (Inr out,
                   case ins of Inserted _ \<Rightarrow> (fst st', on_insert_cb B x cs (snd st'))
                             | NotInserted \<Rightarrow> st')) (s', snd st)
            | Drop \<Rightarrow> (Inr out, (s', snd st))
            | Reject \<Rightarrow>
                op_bind (on_store (would_insert E S x)) (\<lambda>news.
                  op_return (if news then out @ [Rejected (re_reject_id E x)] else out)) (s', snd st))))"

definition process_item ::
  "('x, 'k, 'v, 'r) range_entry \<Rightarrow> ('s, 'e, 'k, 'x, 'v) store_ops \<Rightarrow> ('x, 's, 'c) callbacks
     \<Rightarrow> 'k range \<times> ('x \<times> content_status) list \<times> bool \<Rightarrow> ('x, 'k, 'r) message
     \<Rightarrow> ('s \<times> 'c, 'e failure, ('x, 'k, 'r) message) op" where
  "process_item E S B item out =
     (case item of (rng, values, have_local) \<Rightarrow>
        op_bind (item_diff E S B rng values have_local) (\<lambda>diff.
        op_bind (op_for (store_value E S B) values out) (\<lambda>out'.
        op_return (case diff of
            Some d \<Rightarrow> if d \<noteq> [] then out' @ [RangeItem rng d True] else out'
          | None \<Rightarrow> out'))))"

text \<open>Splitting a range at pivot entries. \<open>start_index\<close> counts the leading entries below the
  start of the range, which only a wrapped-around range has.\<close>

fun start_index :: "('x, 'k::linorder, 'v, 'r) range_entry \<Rightarrow> 'k \<Rightarrow> ('e + 'x) list \<Rightarrow> 'e + nat" where
  "start_index E x [] = Inr 0"
| "start_index E x (Inl e # els) = Inl e"
| "start_index E x (Inr el # els) =
     (if x \<le> re_key E el then Inr 0 else rbind (start_index E x els) (\<lambda>n. Inr (Suc n)))"

definition pivot ::
  "('x, 'k, 'v, 'r) range_entry \<Rightarrow> ('s, 'e, 'k, 'x, 'v) store_ops \<Rightarrow> sync_config \<Rightarrow> 'k range
     \<Rightarrow> nat \<Rightarrow> nat \<Rightarrow> nat \<Rightarrow> ('s \<times> 'c, 'e failure, 'k) op" where
  "pivot E S cfg rng num start i =
     (if split_factor cfg = 0 \<or> num = 0 then op_fail Panic
      else let i = i mod split_factor cfg;
               offset = (num * (i + 1)) div split_factor cfg;
               offset = (start + offset) mod num
           in op_bind (on_store (so_get_range S rng)) (\<lambda>it.
                if offset < length it
                then (case it ! offset of
                        Inl e \<Rightarrow> op_fail (Failure e)
                      | Inr el \<Rightarrow> op_return (re_key E el))
                else op_fail Panic))"

definition split_between ::
  "('x, 'k, 'v, 'r) range_entry \<Rightarrow> ('s, 'e, 'k, 'x, 'v) store_ops \<Rightarrow> sync_config \<Rightarrow> 'k range
     \<Rightarrow> nat \<Rightarrow> nat \<Rightarrow> nat \<Rightarrow> 'k range list \<Rightarrow> ('s \<times> 'c, 'e failure, 'k range list) op" where
  "split_between E S cfg rng num start i ranges =
     op_bind (pivot E S cfg rng num start i) (\<lambda>x.
     op_bind (pivot E S cfg rng num start (i + 1)) (\<lambda>y.
     op_return (if x \<noteq> y then ranges @ [Range x y] else ranges)))"

definition split_ranges ::
  "('x, 'k, 'v, 'r) range_entry \<Rightarrow> ('s, 'e, 'k, 'x, 'v) store_ops \<Rightarrow> sync_config \<Rightarrow> 'k range
     \<Rightarrow> nat \<Rightarrow> nat \<Rightarrow> ('s \<times> 'c, 'e failure, 'k range list) op" where
  "split_ranges E S cfg rng num start =
     (if range_is_all rng
      then op_for (split_between E S cfg rng num start) [0..<split_factor cfg] []
      else op_bind (pivot E S cfg rng num start 0) (\<lambda>p0.
           if split_factor cfg < 2 then op_fail Panic
           else op_bind (op_for (split_between E S cfg rng num start) [0..<split_factor cfg - 2]
                           [Range (range_x rng) p0]) (\<lambda>ranges.
                op_bind (pivot E S cfg rng num start (split_factor cfg - 2)) (\<lambda>pl.
                op_return (ranges @ [Range pl (range_y rng)])))))"

definition emit_range ::
  "('s, 'e, 'k, 'x, 'v) store_ops \<Rightarrow> ('x, 's, 'c) callbacks \<Rightarrow> sync_config
     \<Rightarrow> 'k range \<Rightarrow> ('x, 'k, 'r) message \<Rightarrow> ('s \<times> 'c, 'e failure, ('x, 'k, 'r) message) op" where
  "emit_range S B cfg rng out =
     op_bind (on_store (so_get_range S rng)) (\<lambda>chunk.
     op_bind (on_store (so_get_fingerprint S rng)) (\<lambda>fp.
     op_return (out @
       [if max_set_size cfg < length chunk then RangeFingerprint rng fp
        else RangeItem rng
               (with_status B (List.map_filter (\<lambda>r. case r of Inl e \<Rightarrow> None | Inr x \<Rightarrow> Some x) chunk))
               False])))"

definition process_fingerprint ::
  "crypto \<Rightarrow> ('x, 'k::linorder, 'v, 'r) range_entry \<Rightarrow> ('s, 'e, 'k, 'x, 'v) store_ops
     \<Rightarrow> ('x, 's, 'c) callbacks \<Rightarrow> sync_config
     \<Rightarrow> 'k range \<times> fingerprint \<Rightarrow> ('x, 'k, 'r) message
     \<Rightarrow> ('s \<times> 'c, 'e failure, ('x, 'k, 'r) message) op" where
  "process_fingerprint C E S B cfg part out =
     (case part of (rng, fp) \<Rightarrow>
        op_bind (on_store (so_get_fingerprint S rng)) (\<lambda>local_fp.
        if local_fp = fp then op_return out
        else op_bind (on_store (get_range_len S rng)) (\<lambda>num.
          if num \<le> 1 \<or> fp = fingerprint_empty C
          then op_bind (on_store (so_get_range S rng)) (\<lambda>it.
               op_bind (op_lift (map_sum Failure id (collect_results it))) (\<lambda>values.
               op_return (out @ [RangeItem rng (with_status B values) False])))
          else op_bind (on_store (so_get_range S rng)) (\<lambda>it.
               op_bind (op_lift (map_sum Failure id (start_index E (range_x rng) it))) (\<lambda>start.
               op_bind (split_ranges E S cfg rng num start) (\<lambda>ranges.
               op_for (emit_range S B cfg) ranges out))))))"

fun message_items ::
  "('x, 'k, 'r) message \<Rightarrow> ('k range \<times> ('x \<times> content_status) list \<times> bool) list" where
  "message_items [] = []"
| "message_items (RangeItem r vs hl # ps) = (r, vs, hl) # message_items ps"
| "message_items (_ # ps) = message_items ps"

fun message_fingerprints :: "('x, 'k, 'r) message \<Rightarrow> ('k range \<times> fingerprint) list" where
  "message_fingerprints [] = []"
| "message_fingerprints (RangeFingerprint r fp # ps) = (r, fp) # message_fingerprints ps"
| "message_fingerprints (_ # ps) = message_fingerprints ps"

definition process_message ::
  "crypto \<Rightarrow> ('x, 'k::linorder, 'v, 'r) range_entry \<Rightarrow> ('s, 'e, 'k, 'x, 'v) store_ops
     \<Rightarrow> ('x, 's, 'c) callbacks \<Rightarrow> sync_config \<Rightarrow> ('x, 'k, 'r) message
     \<Rightarrow> ('s \<times> 'c, 'e failure, ('x, 'k, 'r) message option) op" where
  "process_message C E S B cfg msg =
     op_bind (op_for (process_item E S B) (message_items msg) []) (\<lambda>out.
     op_bind (op_for (process_fingerprint C E S B cfg) (message_fingerprints msg) out) (\<lambda>out'.
     op_return (if out' \<noteq> [] then Some out' else None)))"

end
