(* ===== verification/Ranger_Laws.thy ===== *)
theory Ranger_Laws
  imports Ranger
begin

text \<open>
  What reconciliation relies on and what it guarantees. \<open>entries_in\<close> is the reference meaning of a
  range over an ordered entry list; the locale \<open>range_store\<close> is the read contract of a store, and
  \<open>fingerprint_reply\<close> the reference answer to one fingerprint, which \<open>process_fingerprint\<close> is shown to
  compute on any store that meets the contract. \<open>split_at\<close> is the reference partition.
\<close>

section \<open>Ranges over an ordered entry list\<close>

definition entries_in ::
  "('x, 'k::linorder, 'v, 'r) range_entry \<Rightarrow> 'x list \<Rightarrow> 'k range \<Rightarrow> 'x list" where
  "entries_in E es r =
     (case cmp (range_x r) (range_y r) of
        Equal \<Rightarrow> es
      | Less \<Rightarrow> filter (\<lambda>e. range_x r \<le> re_key E e \<and> re_key E e < range_y r) es
      | Greater \<Rightarrow> filter (\<lambda>e. re_key E e < range_y r) es @ filter (\<lambda>e. range_x r \<le> re_key E e) es)"

definition fingerprint_of ::
  "crypto \<Rightarrow> ('x, 'k, 'v, 'r) range_entry \<Rightarrow> 'x list \<Rightarrow> fingerprint" where
  "fingerprint_of C E es =
     fold (\<lambda>e fp. fingerprint_xor fp (re_as_fingerprint E e)) es (fingerprint_empty C)"

lemma range_contains_iff [range_simps]:
  "range_contains (Range x y) t \<longleftrightarrow>
     (if x = y then True else if x < y then x \<le> t \<and> t < y else x \<le> t \<or> t < y)"
  by (auto simp: range_contains_def cmp_def)

lemma entries_in_Range [range_simps]:
  "entries_in E es (Range x y) =
     (if x = y then es
      else if x < y then filter (\<lambda>e. x \<le> re_key E e \<and> re_key E e < y) es
      else filter (\<lambda>e. re_key E e < y) es @ filter (\<lambda>e. x \<le> re_key E e) es)"
  by (auto simp: entries_in_def cmp_def)

lemma set_entries_in: "set (entries_in E es r) = {e \<in> set es. range_contains r (re_key E e)}"
  by (cases r) (auto simp: range_simps)

lemma distinct_entries_in:
  assumes "sorted_wrt (<) (map (re_key E) es)"
  shows "distinct (map (re_key E) (entries_in E es r))"
proof (cases r)
  case (Range x y)
  have f: "distinct (map (re_key E) (filter P es))" for P
    using sorted_wrt_less_distinct[OF sorted_wrt_map_filter[OF assms]] .
  show ?thesis
    using f[of "\<lambda>_. True"] f Range by (auto simp: range_simps)
qed

text \<open>A proper range cut at one of its keys, and the whole set cut at two keys.\<close>

lemma range_cut:
  fixes x y p :: "'k::linorder"
  assumes "x \<noteq> y" and "range_contains (Range x y) p" and "p \<noteq> x"
  shows "range_contains (Range x p) t \<and> \<not> range_contains (Range p y) t \<or>
         \<not> range_contains (Range x p) t \<and> range_contains (Range p y) t \<longleftrightarrow> range_contains (Range x y) t"
    and "range_contains (Range x p) t \<Longrightarrow> \<not> range_contains (Range p y) t"
  using assms by (auto simp: range_simps split: if_splits)

lemma range_cut_all:
  fixes p q :: "'k::linorder"
  assumes "p \<noteq> q"
  shows "range_contains (Range p q) t \<longleftrightarrow> \<not> range_contains (Range q p) t"
  using assms by (auto simp: range_simps)

section \<open>The reference partition\<close>

definition wrap_start :: "('x, 'k::linorder, 'v, 'r) range_entry \<Rightarrow> 'k \<Rightarrow> 'x list \<Rightarrow> nat" where
  "wrap_start E x v = length (takeWhile (\<lambda>e. re_key E e < x) v)"

definition split_at ::
  "('x, 'k::linorder, 'v, 'r) range_entry \<Rightarrow> 'k range \<Rightarrow> 'x list \<Rightarrow> 'k range list" where
  "split_at E r v =
     (let n = length v; st = wrap_start E (range_x r) v;
          p = re_key E (v ! ((st + n div 2) mod n)); q = re_key E (v ! (st mod n))
      in if range_is_all r then [Range p q, Range q p]
         else [Range (range_x r) p, Range p (range_y r)])"

lemma start_index_eq: "start_index E x (map Inr v) = Inr (wrap_start E x v)"
  by (induction v) (auto simp: wrap_start_def not_less)

lemma wrap_start_sorted:
  assumes "\<forall>e \<in> set v. x \<le> re_key E e" shows "wrap_start E x v = 0"
  using assms by (cases v) (auto simp: wrap_start_def not_less)

lemma wrap_start_append:
  assumes "\<forall>e \<in> set a. re_key E e < x" and "\<forall>e \<in> set b. x \<le> re_key E e"
  shows "wrap_start E x (a @ b) = length a"
proof -
  have "takeWhile (\<lambda>e. re_key E e < x) b = []"
    using assms(2) by (cases b) (auto simp: not_less)
  then show ?thesis
    using assms(1) by (simp add: wrap_start_def takeWhile_append2)
qed

lemma mid_index_less:
  assumes "2 \<le> (n::nat)" shows "(st + n div 2) mod n < n" and "(st + n div 2) mod n \<noteq> st mod n"
proof -
  show "(st + n div 2) mod n < n" using assms by simp
  show "(st + n div 2) mod n \<noteq> st mod n"
  proof
    assume "(st + n div 2) mod n = st mod n"
    then have "n dvd n div 2" by (metis mod_add_self2 mod_eq_dvd_iff_nat add_diff_cancel_left' le_add1)
    then show False using assms by (auto dest: dvd_imp_le)
  qed
qed

lemma pivots_differ:
  assumes "distinct (map (re_key E) v)" and "2 \<le> length v"
  shows "re_key E (v ! ((st + length v div 2) mod length v)) \<noteq> re_key E (v ! (st mod length v))"
proof -
  let ?n = "length v" and ?ks = "map (re_key E) v"
  have "0 < ?n" using assms(2) by linarith
  then have bounds: "(st + ?n div 2) mod ?n < ?n" "st mod ?n < ?n" by simp_all
  then have "?ks ! ((st + ?n div 2) mod ?n) \<noteq> ?ks ! (st mod ?n)"
    using assms(1) mid_index_less(2)[OF assms(2)] by (simp add: nth_eq_iff_index_eq del: nth_map)
  with bounds show ?thesis by simp
qed

lemma sorted_keys_less:
  assumes "sorted_wrt (<) (map f v)" and "i < j" and "j < length v"
  shows "f (v ! i) < f (v ! j)"
  using assms sorted_wrt_nth_less[of "(<)" "map f v" i j] by simp

text \<open>In a proper range the pivot is never the start of the range, and the first entry (in the
  order of the range) lies before the pivot.\<close>

lemma pivot_position:
  fixes E :: "('x, 'k::linorder, 'v, 'r) range_entry" and es :: "'x list" and x y :: 'k
  defines "v \<equiv> entries_in E es (Range x y)"
  defines "n \<equiv> length v"
  defines "st \<equiv> wrap_start E x v"
  defines "p \<equiv> re_key E (v ! ((st + n div 2) mod n))" and "q \<equiv> re_key E (v ! (st mod n))"
  assumes sorted: "sorted_wrt (<) (map (re_key E) es)" and "x \<noteq> y" and two: "2 \<le> n"
  shows "p \<noteq> x" and "range_contains (Range x p) q"
proof -
  have "0 < n" "n div 2 < n" "0 < n div 2" using two by simp_all
  note half = this
  note sub = sorted_wrt_map_filter[OF sorted]
  have "p \<noteq> x \<and> range_contains (Range x p) q"
  proof (cases "x < y")
    case True
    then have v: "v = filter (\<lambda>e. x \<le> re_key E e \<and> re_key E e < y) es"
      by (simp add: v_def range_simps)
    then have "st = 0" unfolding st_def by (intro wrap_start_sorted) auto
    then have pq: "p = re_key E (v ! (n div 2))" "q = re_key E (v ! 0)"
      using half by (simp_all add: p_def q_def)
    have "v ! 0 \<in> set v" using half n_def by auto
    then have "x \<le> q" using v pq by auto
    moreover have "q < p" unfolding pq
      by (rule sorted_keys_less) (use sub v half n_def in auto)
    ultimately show ?thesis by (auto simp: range_simps)
  next
    case False
    then have yx: "y < x" using \<open>x \<noteq> y\<close> by simp
    define a where "a = filter (\<lambda>e. re_key E e < y) es"
    define b where "b = filter (\<lambda>e. x \<le> re_key E e) es"
    have v: "v = a @ b" using yx by (auto simp: v_def a_def b_def range_simps)
    have st: "st = length a"
      unfolding st_def v by (rule wrap_start_append) (use yx in \<open>auto simp: a_def b_def\<close>)
    define i where "i = (st + n div 2) mod n"
    have i: "i < n" "i \<noteq> st mod n" "p = re_key E (v ! i)"
      using mid_index_less[OF two, of st] half by (auto simp: i_def p_def)
    have ka: "re_key E (a ! j) < y" if "j < length a" for j
      using nth_mem[OF that] by (auto simp: a_def)
    have kb: "x \<le> re_key E (b ! j)" if "j < length b" for j
      using nth_mem[OF that] by (auto simp: b_def)
    have n: "n = length a + length b" using n_def v by simp
    show ?thesis
    proof (cases "b = []")
      case True
      then have "st mod n = 0" "i < length a" "0 < i" using i n st by (auto simp: mod_self intro: gr0I)
      moreover from this have "re_key E (a ! 0) < re_key E (a ! i)"
        by (intro sorted_keys_less) (use sub a_def in auto)
      moreover have "q = re_key E (a ! 0)" "p = re_key E (a ! i)"
        using True v i calculation by (simp_all add: q_def)
      ultimately show ?thesis using ka[of i] yx by (auto simp: range_simps)
    next
      case False
      then have q: "q = re_key E (b ! 0)" and st_mod: "st mod n = length a"
        using st n v by (auto simp: q_def nth_append)
      have xq: "x \<le> q" using False kb[of 0] q by simp
      show ?thesis
      proof (cases "i < length a")
        case True
        then have "p < y" using i ka v by (simp add: nth_append)
        then show ?thesis using yx xq by (auto simp: range_simps)
      next
        case False
        then have "p = re_key E (b ! (i - length a))" "0 < i - length a" "i - length a < length b"
          using i n v st_mod by (auto simp: nth_append)
        moreover from this have "re_key E (b ! 0) < re_key E (b ! (i - length a))"
          by (intro sorted_keys_less) (use sub b_def in auto)
        ultimately show ?thesis using xq q by (auto simp: range_simps)
      qed
    qed
  qed
  then show "p \<noteq> x" and "range_contains (Range x p) q" by auto
qed

text \<open>What a correct split of a range is: two sub-ranges that together hold exactly the keys of
  the range, no key twice, and each of them at least one local entry.\<close>

definition good_split ::
  "('x, 'k::linorder, 'v, 'r) range_entry \<Rightarrow> 'x list \<Rightarrow> 'k range \<Rightarrow> 'k range list \<Rightarrow> bool" where
  "good_split E es r rs \<longleftrightarrow>
     (\<exists>a b. rs = [a, b] \<and>
        (\<forall>t. range_contains r t \<longleftrightarrow> range_contains a t \<or> range_contains b t) \<and>
        (\<forall>t. \<not> (range_contains a t \<and> range_contains b t)) \<and>
        entries_in E es a \<noteq> [] \<and> entries_in E es b \<noteq> [])"

lemma good_split_lengths:
  assumes "good_split E es r [a, b]" and "sorted_wrt (<) (map (re_key E) es)"
  shows "length (entries_in E es a) + length (entries_in E es b) = length (entries_in E es r)"
proof -
  have len: "length (entries_in E es u) = card (set (entries_in E es u))" for u
    using distinct_entries_in[OF assms(2), of u] by (metis distinct_card distinct_map)
  have "set (entries_in E es r) = set (entries_in E es a) \<union> set (entries_in E es b)"
    and "set (entries_in E es a) \<inter> set (entries_in E es b) = {}"
    using assms(1) by (auto simp: good_split_def set_entries_in)
  then show ?thesis by (simp add: len card_Un_disjoint)
qed

lemma range_contains_start: "range_contains (Range t u) t"
  by (auto simp: range_simps)

lemma entries_in_nonempty:
  "e \<in> set es \<Longrightarrow> range_contains r (re_key E e) \<Longrightarrow> entries_in E es r \<noteq> []"
  using set_entries_in[of E es r] by force

lemma split_at_good:
  assumes sorted: "sorted_wrt (<) (map (re_key E) es)" and two: "2 \<le> length (entries_in E es r)"
  shows "good_split E es r (split_at E r (entries_in E es r))"
proof (cases r)
  case (Range x y)
  let ?v = "entries_in E es r" and ?st = "wrap_start E x (entries_in E es r)"
  let ?p = "re_key E (?v ! ((?st + length ?v div 2) mod length ?v))"
    and ?q = "re_key E (?v ! (?st mod length ?v))"
  have "0 < length ?v" using two by linarith
  then have mem: "?v ! (i mod length ?v) \<in> set es" "range_contains r (re_key E (?v ! (i mod length ?v)))"
    for i using nth_mem[of "i mod length ?v" ?v] by (simp_all add: set_entries_in)
  show ?thesis
  proof (cases "x = y")
    case True
    have neq: "?p \<noteq> ?q" using pivots_differ[OF distinct_entries_in[OF sorted] two] .
    have all: "range_contains r t" for t using True Range by (simp add: range_contains_iff)
    have "entries_in E es (Range ?p ?q) \<noteq> []" "entries_in E es (Range ?q ?p) \<noteq> []"
      by (rule entries_in_nonempty[OF mem(1) range_contains_start])+
    then have "good_split E es r [Range ?p ?q, Range ?q ?p]"
      unfolding good_split_def using range_cut_all[OF neq] all by blast
    then show ?thesis using True Range by (simp add: split_at_def range_is_all_def Let_def)
  next
    case False
    have pq: "?p \<noteq> x" "range_contains (Range x ?p) ?q"
      using pivot_position[OF sorted False] two Range by simp_all
    have cut: "range_contains (Range x ?p) t \<and> \<not> range_contains (Range ?p y) t \<or>
         \<not> range_contains (Range x ?p) t \<and> range_contains (Range ?p y) t \<longleftrightarrow> range_contains (Range x y) t"
      and dis: "range_contains (Range x ?p) t \<Longrightarrow> \<not> range_contains (Range ?p y) t" for t
      using range_cut[OF False _ pq(1)] mem(2) Range by auto
    have "entries_in E es (Range x ?p) \<noteq> []" using entries_in_nonempty[OF mem(1) pq(2)] .
    moreover have "entries_in E es (Range ?p y) \<noteq> []" by (rule entries_in_nonempty[OF mem(1) range_contains_start])
    ultimately have "good_split E es r [Range x ?p, Range ?p y]"
      unfolding good_split_def using cut dis Range by blast
    then show ?thesis using False Range by (simp add: split_at_def range_is_all_def Let_def)
  qed
qed

section \<open>The read contract of a store\<close>

text \<open>A boundary is admissible when it belongs to the replica the store serves; the whole-set range
  carries no boundary.\<close>

definition admissible :: "('k \<Rightarrow> bool) \<Rightarrow> 'k range \<Rightarrow> bool" where
  "admissible bound_ok r \<longleftrightarrow> range_is_all r \<or> bound_ok (range_x r) \<and> bound_ok (range_y r)"

text \<open>Two states that hold the same data for readers and for ingest.\<close>

definition same_view ::
  "('s \<Rightarrow> bool) \<Rightarrow> ('s \<Rightarrow> 'x list) \<Rightarrow> ('s \<Rightarrow> 'y) \<Rightarrow> 's \<Rightarrow> 's \<Rightarrow> bool" where
  "same_view valid entries live s s' \<longleftrightarrow> valid s' \<and> entries s' = entries s \<and> live s' = live s"

definition first_key :: "('x, 'k, 'v, 'r) range_entry \<Rightarrow> 'k \<Rightarrow> 'x list \<Rightarrow> 'k" where
  "first_key E default_key es = (case es of [] \<Rightarrow> default_key | e # _ \<Rightarrow> re_key E e)"

text \<open>The reference answer to a received fingerprint.\<close>

definition range_reply ::
  "crypto \<Rightarrow> ('x, 'k::linorder, 'v, 'r) range_entry \<Rightarrow> ('x, 's, 'c) callbacks \<Rightarrow> nat
     \<Rightarrow> 'x list \<Rightarrow> 'k range \<Rightarrow> ('x, 'k, 'r) message_part" where
  "range_reply C E B max_size es r =
     (let v = entries_in E es r
      in if max_size < length v then RangeFingerprint r (fingerprint_of C E v)
         else RangeItem r (with_status B v) False)"

definition fingerprint_reply ::
  "crypto \<Rightarrow> ('x, 'k::linorder, 'v, 'r) range_entry \<Rightarrow> ('x, 's, 'c) callbacks \<Rightarrow> nat
     \<Rightarrow> 'x list \<Rightarrow> 'k range \<times> fingerprint \<Rightarrow> ('x, 'k, 'r) message" where
  "fingerprint_reply C E B max_size es part =
     (case part of (r, fp) \<Rightarrow>
        let v = entries_in E es r
        in if fingerprint_of C E v = fp then []
           else if length v \<le> 1 \<or> fp = fingerprint_empty C then [RangeItem r (with_status B v) False]
           else map (range_reply C E B max_size es) (split_at E r v))"

lemma on_store_Inr: "m s = (Inr x, s') \<Longrightarrow> on_store m (s, c) = (Inr x, (s', c))"
  by (simp add: on_store_def)

lemma map_filter_results: "List.map_filter (\<lambda>r. case r of Inl e \<Rightarrow> None | Inr x \<Rightarrow> Some x) (map Inr v) = v"
  by (induction v) (simp_all add: List.map_filter_simps)

locale range_store =
  fixes C :: crypto
    and E :: "('x, 'k::linorder, 'v, 'r) range_entry"
    and S :: "('s, 'e, 'k, 'x, 'v) store_ops"
    and valid :: "'s \<Rightarrow> bool"
    and entries :: "'s \<Rightarrow> 'x list"
    and live :: "'s \<Rightarrow> 'y"
    and bound_ok :: "'k \<Rightarrow> bool"
    and default_key :: 'k
  assumes entries_sorted: "valid s \<Longrightarrow> sorted_wrt (<) (map (re_key E) (entries s))"
    and entries_bound: "valid s \<Longrightarrow> x \<in> set (entries s) \<Longrightarrow> bound_ok (re_key E x)"
    and get_range_law: "valid s \<Longrightarrow> admissible bound_ok r \<Longrightarrow>
      \<exists>s'. so_get_range S r s = (Inr (map Inr (entries_in E (entries s) r)), s') \<and>
           same_view valid entries live s s'"
    and get_fingerprint_law: "valid s \<Longrightarrow> admissible bound_ok r \<Longrightarrow>
      \<exists>s'. so_get_fingerprint S r s = (Inr (fingerprint_of C E (entries_in E (entries s) r)), s') \<and>
           same_view valid entries live s s'"
    and get_first_law: "valid s \<Longrightarrow>
      \<exists>s'. so_get_first S s = (Inr (first_key E default_key (entries s)), s') \<and>
           same_view valid entries live s s'"
begin

abbreviation same :: "'s \<Rightarrow> 's \<Rightarrow> bool" where
  "same \<equiv> same_view valid entries live"

lemma same_trans: "same s t \<Longrightarrow> same t u \<Longrightarrow> same s u"
  by (simp add: same_view_def)

lemma same_valid: "same s t \<Longrightarrow> valid t"
  by (simp add: same_view_def)

lemma same_entries: "same s t \<Longrightarrow> entries t = entries s"
  by (simp add: same_view_def)

lemma read_range:
  assumes "valid s" "admissible bound_ok r"
  obtains s' where "on_store (so_get_range S r) (s, c) = (Inr (map Inr (entries_in E (entries s) r)), (s', c))"
    and "same s s'"
  using get_range_law[OF assms] on_store_Inr by metis

lemma read_fingerprint:
  assumes "valid s" "admissible bound_ok r"
  obtains s' where "on_store (so_get_fingerprint S r) (s, c) =
      (Inr (fingerprint_of C E (entries_in E (entries s) r)), (s', c))" and "same s s'"
  using get_fingerprint_law[OF assms] on_store_Inr by metis

lemma read_range_len:
  assumes "valid s" "admissible bound_ok r"
  obtains s' where "on_store (get_range_len S r) (s, c) = (Inr (length (entries_in E (entries s) r)), (s', c))"
    and "same s s'"
proof -
  obtain s' where s': "so_get_range S r s = (Inr (map Inr (entries_in E (entries s) r)), s')" "same s s'"
    using get_range_law[OF assms] by blast
  then have "get_range_len S r s = (Inr (length (entries_in E (entries s) r)), s')"
    by (simp add: get_range_len_def op_bind_def op_lift_def)
  then show thesis using that on_store_Inr s'(2) by metis
qed

text \<open>The first message of an exchange: the whole set, from its first key.\<close>

lemma initial_message_eq:
  assumes "valid s"
  obtains s' where "initial_message S s =
      (Inr [RangeFingerprint (Range (first_key E default_key (entries s)) (first_key E default_key (entries s)))
              (fingerprint_of C E (entries s))], s')"
    and "same s s'"
proof -
  let ?k = "first_key E default_key (entries s)"
  obtain t where t: "so_get_first S s = (Inr ?k, t)" "same s t"
    using get_first_law[OF assms] by blast
  have "admissible bound_ok (Range ?k ?k)" by (simp add: admissible_def range_is_all_def)
  then obtain u where u: "so_get_fingerprint S (Range ?k ?k) t =
      (Inr (fingerprint_of C E (entries_in E (entries t) (Range ?k ?k))), u)" "same t u"
    using get_fingerprint_law[OF same_valid[OF t(2)]] by blast
  have "initial_message S s = (Inr [RangeFingerprint (Range ?k ?k) (fingerprint_of C E (entries s))], u)"
    using t u same_entries[OF t(2)]
    by (simp add: initial_message_def message_init_def op_bind_def op_return_def range_new_def range_simps)
  then show thesis using that same_trans[OF t(2) u(2)] by blast
qed

lemma pivot_eq:
  assumes "valid s" "admissible bound_ok r" "entries_in E (entries s) r \<noteq> []" "split_factor cfg = 2"
  obtains s' where "pivot E S cfg r (length (entries_in E (entries s) r)) st i (s, c) =
      (Inr (re_key E (entries_in E (entries s) r !
         ((st + length (entries_in E (entries s) r) * (i mod 2 + 1) div 2) mod length (entries_in E (entries s) r)))),
       (s', c))"
    and "same s s'"
proof -
  let ?v = "entries_in E (entries s) r"
  obtain s' where s': "on_store (so_get_range S r) (s, c) = (Inr (map Inr ?v), (s', c))" "same s s'"
    by (rule read_range[OF assms(1,2)])
  define k where "k = (st + length ?v * (i mod 2 + 1) div 2) mod length ?v"
  have k: "k < length ?v" using assms(3) by (simp add: k_def)
  have "pivot E S cfg r (length ?v) st i (s, c) =
      op_bind (on_store (so_get_range S r)) (\<lambda>it.
        if k < length it then (case it ! k of Inl e \<Rightarrow> op_fail (Failure e) | Inr el \<Rightarrow> op_return (re_key E el))
        else op_fail Panic) (s, c)"
    using assms(3) unfolding pivot_def Let_def assms(4) k_def by simp
  also have "\<dots> = (Inr (re_key E (?v ! k)), (s', c))"
    using k by (simp add: op_bind_def s'(1) op_return_def)
  finally show thesis using that s'(2) unfolding k_def by blast
qed

lemma split_ranges_eq:
  assumes "valid s" "admissible bound_ok r" "2 \<le> length (entries_in E (entries s) r)" "split_factor cfg = 2"
  obtains s' where "split_ranges E S cfg r (length (entries_in E (entries s) r))
        (wrap_start E (range_x r) (entries_in E (entries s) r)) (s, c) =
      (Inr (split_at E r (entries_in E (entries s) r)), (s', c))"
    and "same s s'"
proof -
  let ?v = "entries_in E (entries s) r"
  let ?n = "length ?v" and ?st = "wrap_start E (range_x r) ?v"
  let ?p = "re_key E (?v ! ((?st + ?n div 2) mod ?n))" and ?q = "re_key E (?v ! (?st mod ?n))"
  have ne: "?v \<noteq> []" using assms(3) by auto
  have piv: "\<exists>t'. pivot E S cfg r ?n ?st i (t, c) = (Inr (if even i then ?p else ?q), (t', c)) \<and> same s t'"
    if t: "same s t" for t i
  proof -
    have v: "entries_in E (entries t) r = ?v" using same_entries[OF t] by simp
    obtain t' where "pivot E S cfg r ?n ?st i (t, c) =
        (Inr (re_key E (?v ! ((?st + ?n * (i mod 2 + 1) div 2) mod ?n))), (t', c))" "same t t'"
      by (rule pivot_eq[OF same_valid[OF t] assms(2) _ assms(4), of ?st i c, unfolded v, OF ne])
    moreover have "(?st + ?n * (i mod 2 + 1) div 2) mod ?n =
        (if even i then (?st + ?n div 2) mod ?n else ?st mod ?n)"
      by (cases "even i") (simp_all add: mod_2_eq_odd)
    ultimately show ?thesis using same_trans[OF t] by (auto split: if_splits)
  qed
  have s0: "same s s" using assms(1) by (simp add: same_view_def)
  obtain t1 where t1: "pivot E S cfg r ?n ?st 0 (s, c) = (Inr ?p, (t1, c))" "same s t1"
    using piv[OF s0, of 0] by auto
  obtain t2 where t2: "pivot E S cfg r ?n ?st 0 (t1, c) = (Inr ?p, (t2, c))" "same s t2"
    using piv[OF t1(2), of 0] by auto
  obtain u1 where u1: "pivot E S cfg r ?n ?st 1 (t1, c) = (Inr ?q, (u1, c))" "same s u1"
    using piv[OF t1(2), of 1] by auto
  obtain u2 where u2: "pivot E S cfg r ?n ?st 1 (u1, c) = (Inr ?q, (u2, c))" "same s u2"
    using piv[OF u1(2), of 1] by auto
  obtain u3 where u3: "pivot E S cfg r ?n ?st 2 (u2, c) = (Inr ?p, (u3, c))" "same s u3"
    using piv[OF u2(2), of 2] by auto
  show thesis
  proof (cases "range_is_all r")
    case True
    have "?p \<noteq> ?q"
      using pivots_differ[OF distinct_entries_in[OF entries_sorted[OF assms(1)]] assms(3)] .
    then have "split_ranges E S cfg r ?n ?st (s, c) = (Inr [Range ?p ?q, Range ?q ?p], (u3, c))"
      using True assms(4) t1 u1 u2 u3
      by (simp add: split_ranges_def split_between_def op_bind_def op_return_def upt_rec numeral_2_eq_2)
    then show thesis using that u3(2) True by (simp add: split_at_def Let_def)
  next
    case False
    then have "split_ranges E S cfg r ?n ?st (s, c) = (Inr [Range (range_x r) ?p, Range ?p (range_y r)], (t2, c))"
      using assms(4) t1 t2 by (simp add: split_ranges_def op_bind_def op_return_def)
    then show thesis using that t2(2) False by (simp add: split_at_def Let_def)
  qed
qed

lemma emit_ranges_eq:
  assumes "valid s" "\<forall>r \<in> set rs. admissible bound_ok r"
  shows "\<exists>s'. op_for (emit_range S B cfg) rs out (s, c) =
      (Inr (out @ map (range_reply C E B (max_set_size cfg) (entries s)) rs), (s', c)) \<and> same s s'"
  using assms
proof (induction rs arbitrary: s out)
  case Nil
  then show ?case by (auto simp: op_return_def same_view_def)
next
  case (Cons r rs)
  then have r: "admissible bound_ok r" by simp
  obtain t where t: "on_store (so_get_range S r) (s, c) = (Inr (map Inr (entries_in E (entries s) r)), (t, c))"
    "same s t" by (rule read_range[OF Cons.prems(1) r])
  obtain u where u: "on_store (so_get_fingerprint S r) (t, c) =
      (Inr (fingerprint_of C E (entries_in E (entries t) r)), (u, c))" "same t u"
    by (rule read_fingerprint[OF same_valid[OF t(2)] r])
  have su: "same s u" using same_trans[OF t(2) u(2)] .
  have one: "emit_range S B cfg r out (s, c) =
      (Inr (out @ [range_reply C E B (max_set_size cfg) (entries s) r]), (u, c))"
    using t u same_entries[OF t(2)]
    by (simp add: emit_range_def op_bind_def op_return_def map_filter_results range_reply_def Let_def)
  obtain s' where "op_for (emit_range S B cfg) rs (out @ [range_reply C E B (max_set_size cfg) (entries s) r]) (u, c) =
      (Inr ((out @ [range_reply C E B (max_set_size cfg) (entries s) r]) @
         map (range_reply C E B (max_set_size cfg) (entries u)) rs), (s', c))" "same u s'"
    using Cons.IH[OF same_valid[OF su], of "out @ [range_reply C E B (max_set_size cfg) (entries s) r]"] Cons.prems(2)
    by auto
  then show ?case using one same_trans[OF su] same_entries[OF su] by (auto simp: op_bind_def)
qed

lemma split_at_admissible:
  assumes "valid s" "admissible bound_ok r" "entries_in E (entries s) r \<noteq> []"
  shows "\<forall>a \<in> set (split_at E r (entries_in E (entries s) r)). admissible bound_ok a"
proof -
  let ?v = "entries_in E (entries s) r"
  have "bound_ok (re_key E (?v ! (i mod length ?v)))" for i
  proof -
    have "?v ! (i mod length ?v) \<in> set ?v" using assms(3) by simp
    then show ?thesis using entries_bound[OF assms(1)] by (simp add: set_entries_in)
  qed
  then show ?thesis
    using assms(2) by (auto simp: split_at_def Let_def admissible_def range_is_all_def)
qed

lemma process_fingerprint_eq:
  assumes "valid s" "admissible bound_ok (fst part)" "split_factor cfg = 2"
  shows "\<exists>s'. process_fingerprint C E S B cfg part out (s, c) =
      (Inr (out @ fingerprint_reply C E B (max_set_size cfg) (entries s) part), (s', c)) \<and> same s s'"
proof (cases part)
  case (Pair r fp)
  let ?v = "entries_in E (entries s) r"
  have r: "admissible bound_ok r" using assms(2) Pair by simp
  obtain s1 where s1: "on_store (so_get_fingerprint S r) (s, c) = (Inr (fingerprint_of C E ?v), (s1, c))"
    "same s s1" by (rule read_fingerprint[OF assms(1) r])
  have v1: "entries_in E (entries s1) r = ?v" using same_entries[OF s1(2)] by simp
  obtain s2 where s2: "on_store (get_range_len S r) (s1, c) = (Inr (length ?v), (s2, c))" "same s1 s2"
    by (rule read_range_len[OF same_valid[OF s1(2)] r, of c, unfolded v1])
  have ss2: "same s s2" using same_trans[OF s1(2) s2(2)] .
  have v2: "entries_in E (entries s2) r = ?v" using same_entries[OF ss2] by simp
  obtain s3 where s3: "on_store (so_get_range S r) (s2, c) = (Inr (map Inr ?v), (s3, c))" "same s2 s3"
    by (rule read_range[OF same_valid[OF ss2] r, of c, unfolded v2])
  have ss3: "same s s3" using same_trans[OF ss2 s3(2)] .
  have v3: "entries_in E (entries s3) r = ?v" using same_entries[OF ss3] by simp
  consider (equal) "fingerprint_of C E ?v = fp"
    | (anchor) "fingerprint_of C E ?v \<noteq> fp" "length ?v \<le> 1 \<or> fp = fingerprint_empty C"
    | (split) "fingerprint_of C E ?v \<noteq> fp" "\<not> (length ?v \<le> 1 \<or> fp = fingerprint_empty C)"
    by blast
  then show ?thesis
  proof cases
    case equal
    then show ?thesis using Pair s1
      by (auto simp: process_fingerprint_def fingerprint_reply_def op_bind_def op_return_def)
  next
    case anchor
    then show ?thesis using Pair s1 s2 s3 ss3
      by (auto simp: process_fingerprint_def fingerprint_reply_def op_bind_def op_return_def op_lift_def Let_def)
  next
    case split
    then have two: "2 \<le> length ?v" by linarith
    obtain s4 where s4: "split_ranges E S cfg r (length ?v) (wrap_start E (range_x r) ?v) (s3, c) =
        (Inr (split_at E r ?v), (s4, c))" "same s3 s4"
      by (rule split_ranges_eq[OF same_valid[OF ss3] r _ assms(3), of c, unfolded v3, OF two])
    have ss4: "same s s4" using same_trans[OF ss3 s4(2)] .
    have ne: "?v \<noteq> []" using two by auto
    have "\<forall>a \<in> set (split_at E r ?v). admissible bound_ok a"
      by (rule split_at_admissible[OF assms(1) r ne])
    then obtain s5 where s5: "op_for (emit_range S B cfg) (split_at E r ?v) out (s4, c) =
        (Inr (out @ map (range_reply C E B (max_set_size cfg) (entries s4)) (split_at E r ?v)), (s5, c))"
      "same s4 s5" using emit_ranges_eq[OF same_valid[OF ss4], where out = out and B = B and cfg = cfg and c = c] by metis
    show ?thesis
      using split Pair s1 s2 s3 s4 s5 same_trans[OF ss4 s5(2)] same_entries[OF ss4]
      by (auto simp: process_fingerprint_def fingerprint_reply_def op_bind_def op_lift_def Let_def start_index_eq)
  qed
qed

lemma process_fingerprints_eq:
  assumes "valid s" "\<forall>part \<in> set parts. admissible bound_ok (fst part)" "split_factor cfg = 2"
  shows "\<exists>s'. op_for (process_fingerprint C E S B cfg) parts out (s, c) =
      (Inr (out @ concat (map (fingerprint_reply C E B (max_set_size cfg) (entries s)) parts)), (s', c)) \<and>
      same s s'"
  using assms
proof (induction parts arbitrary: s out)
  case Nil
  then show ?case by (auto simp: op_return_def same_view_def)
next
  case (Cons part parts)
  let ?reply = "fingerprint_reply C E B (max_set_size cfg) (entries s) part"
  obtain t where t: "process_fingerprint C E S B cfg part out (s, c) = (Inr (out @ ?reply), (t, c))" "same s t"
    using process_fingerprint_eq[OF Cons.prems(1) _ Cons.prems(3), where part = part and out = out and B = B and c = c]
      Cons.prems(2) by auto
  obtain u where u: "op_for (process_fingerprint C E S B cfg) parts (out @ ?reply) (t, c) =
      (Inr ((out @ ?reply) @ concat (map (fingerprint_reply C E B (max_set_size cfg) (entries t)) parts)), (u, c))"
    "same t u"
    using Cons.IH[OF same_valid[OF t(2)], of "out @ ?reply"] Cons.prems(2,3) by auto
  show ?case
    using t u same_trans[OF t(2) u(2)] same_entries[OF t(2)] by (auto simp: op_bind_def)
qed

end

section \<open>What a reply reveals\<close>

text \<open>Every entry in an answer to a fingerprint is an entry of the served view, in the range.\<close>

lemma range_reply_values:
  "part_values (range_reply C E B m es r) = Some vs \<Longrightarrow> vs = with_status B (entries_in E es r)"
  by (auto simp: range_reply_def Let_def split: if_splits)

lemma message_values_set:
  "(x, cs) \<in> set (message_values msg) \<longleftrightarrow> (\<exists>part \<in> set msg. \<exists>vs. part_values part = Some vs \<and> (x, cs) \<in> set vs)"
  by (force simp: message_values_def List.map_filter_def)

lemma with_status_set: "(x, cs) \<in> set (with_status B xs) \<longleftrightarrow> x \<in> set xs \<and> cs = content_status_cb B x"
  by (auto simp: with_status_def)

lemma fingerprint_reply_values:
  assumes "(x, cs) \<in> set (message_values (fingerprint_reply C E B m es part))"
  shows "x \<in> set es" and "cs = content_status_cb B x"
proof -
  have "x \<in> set es \<and> cs = content_status_cb B x"
    using assms
    by (cases part)
       (auto simp: message_values_set fingerprint_reply_def Let_def with_status_set set_entries_in
             dest!: range_reply_values split: if_splits)
  then show "x \<in> set es" and "cs = content_status_cb B x" by auto
qed

end
