(* ===== verification/Ordered_Table.thy ===== *)
theory Ordered_Table
  imports Prelude
begin

text \<open>
  The contents of a database table (\<open>redb::Table\<close>), the storage every store operation works on.
  A table is used by the source only as an ordered map: \<open>get\<close>, \<open>insert\<close>, \<open>remove\<close>, iteration over
  a key range in key order, and the two bulk removals \<open>retain_in\<close> and \<open>extract_from_if\<close>. Its
  contents are the list of its rows in ascending key order. The interface the store relies on is
  the locale \<open>ordered_table\<close>, interpreted on these rows at the end.
\<close>

type_synonym ('k, 'v) table = "('k \<times> 'v) list"

text \<open>\<open>std::ops::Bound\<close> and membership of a key between two bounds.\<close>

datatype 'k bound = Included 'k | Excluded 'k | Unbounded

fun above_start :: "'k::linorder bound \<Rightarrow> 'k \<Rightarrow> bool" where
  "above_start (Included a) k = (a \<le> k)"
| "above_start (Excluded a) k = (a < k)"
| "above_start Unbounded k = True"

fun below_end :: "'k::linorder bound \<Rightarrow> 'k \<Rightarrow> bool" where
  "below_end (Included b) k = (k \<le> b)"
| "below_end (Excluded b) k = (k < b)"
| "below_end Unbounded k = True"

definition in_bounds :: "'k::linorder bound \<times> 'k bound \<Rightarrow> 'k \<Rightarrow> bool" where
  "in_bounds b k \<longleftrightarrow> above_start (fst b) k \<and> below_end (snd b) k"

definition table_ok :: "('k::linorder, 'v) table \<Rightarrow> bool" where
  "table_ok t \<longleftrightarrow> sorted_wrt (<) (map fst t)"

definition table_get :: "('k, 'v) table \<Rightarrow> 'k \<Rightarrow> 'v option" where
  "table_get t k = map_of t k"

fun table_insert :: "'k::linorder \<Rightarrow> 'v \<Rightarrow> ('k, 'v) table \<Rightarrow> ('k, 'v) table" where
  "table_insert k v [] = [(k, v)]"
| "table_insert k v (row # rows) =
     (if fst row < k then row # table_insert k v rows
      else if fst row = k then (k, v) # rows
      else (k, v) # row # rows)"

definition table_remove :: "'k \<Rightarrow> ('k, 'v) table \<Rightarrow> ('k, 'v) table" where
  "table_remove k t = filter (\<lambda>row. fst row \<noteq> k) t"

definition table_range :: "'k::linorder bound \<times> 'k bound \<Rightarrow> ('k, 'v) table \<Rightarrow> ('k, 'v) table" where
  "table_range b t = filter (\<lambda>row. in_bounds b (fst row)) t"

text \<open>\<open>retain_in\<close> keeps the rows outside the bounds and those inside that satisfy the predicate;
  \<open>extract_from_if\<close> removes, and yields, the rows inside the bounds that satisfy it.\<close>

definition table_retain_in ::
  "'k::linorder bound \<times> 'k bound \<Rightarrow> ('k \<Rightarrow> 'v \<Rightarrow> bool) \<Rightarrow> ('k, 'v) table \<Rightarrow> ('k, 'v) table" where
  "table_retain_in b p t = filter (\<lambda>(k, v). \<not> in_bounds b k \<or> p k v) t"

definition table_extract_from_if ::
  "'k::linorder bound \<times> 'k bound \<Rightarrow> ('k \<Rightarrow> 'v \<Rightarrow> bool) \<Rightarrow> ('k, 'v) table
     \<Rightarrow> ('k, 'v) table \<times> ('k, 'v) table" where
  "table_extract_from_if b p t =
     (filter (\<lambda>(k, v). in_bounds b k \<and> p k v) t, filter (\<lambda>(k, v). \<not> (in_bounds b k \<and> p k v)) t)"

section \<open>Laws\<close>

lemma table_ok_Nil [simp]: "table_ok []"
  by (simp add: table_ok_def)

lemma table_ok_Cons:
  "table_ok (row # rows) \<longleftrightarrow> (\<forall>r \<in> set rows. fst row < fst r) \<and> table_ok rows"
  by (auto simp: table_ok_def)

lemma table_ok_filter [simp, intro]: "table_ok t \<Longrightarrow> table_ok (filter p t)"
  by (simp add: table_ok_def sorted_wrt_map_filter)

lemma table_ok_distinct: "table_ok t \<Longrightarrow> distinct (map fst t)"
  unfolding table_ok_def by (rule sorted_wrt_less_distinct)

lemma table_get_Some_iff:
  "table_ok t \<Longrightarrow> table_get t k = Some v \<longleftrightarrow> (k, v) \<in> set t"
  by (simp add: table_get_def table_ok_distinct)

lemma table_get_None_iff: "table_get t k = None \<longleftrightarrow> k \<notin> fst ` set t"
  by (simp add: table_get_def map_of_eq_None_iff)

lemma set_table_insert:
  "table_ok t \<Longrightarrow> set (table_insert k v t) = insert (k, v) {row \<in> set t. fst row \<noteq> k}"
  by (induction t) (auto simp: table_ok_Cons)

lemma table_insert_ok: "table_ok t \<Longrightarrow> table_ok (table_insert k v t)"
  by (induction t) (auto simp: table_ok_Cons set_table_insert)

lemma table_get_insert: "table_get (table_insert k v t) k' = (if k' = k then Some v else table_get t k')"
  by (induction t) (auto simp: table_get_def)

lemma option_ext: "(\<And>v. a = Some v \<longleftrightarrow> b = Some v) \<Longrightarrow> a = b"
  by (cases a; cases b) auto

lemma table_get_filter:
  "table_ok t \<Longrightarrow> table_get (filter p t) k =
     (case table_get t k of None \<Rightarrow> None | Some v \<Rightarrow> if p (k, v) then Some v else None)"
proof (rule option_ext)
  fix v assume ok: "table_ok t"
  have "table_get (filter p t) k = Some v \<longleftrightarrow> table_get t k = Some v \<and> p (k, v)"
    using ok by (simp add: table_get_Some_iff)
  then show "table_get (filter p t) k = Some v \<longleftrightarrow>
      (case table_get t k of None \<Rightarrow> None | Some v \<Rightarrow> if p (k, v) then Some v else None) = Some v"
    by (auto split: option.splits)
qed

lemma table_remove_ok: "table_ok t \<Longrightarrow> table_ok (table_remove k t)"
  by (simp add: table_remove_def)

lemma table_get_remove: "table_get (table_remove k t) k' = (if k' = k then None else table_get t k')"
  by (induction t) (auto simp: table_get_def table_remove_def)

lemma set_table_range: "set (table_range b t) = {row \<in> set t. in_bounds b (fst row)}"
  by (auto simp: table_range_def)

text \<open>Two tables with the same lookups have the same rows.\<close>

lemma table_eqI:
  assumes "table_ok t" and "table_ok u" and "\<And>k. table_get t k = table_get u k"
  shows "t = u"
proof -
  have same: "set t = set u"
    using assms by (auto simp flip: table_get_Some_iff)
  moreover have "inj_on fst (set t \<union> set u)"
    using same table_ok_distinct[OF assms(1)] by (simp add: distinct_map)
  ultimately show ?thesis
    using assms(1,2) unfolding table_ok_def
    by (auto intro!: map_sorted_distinct_set_unique[where f = fst]
        simp: sorted_wrt_less_distinct strict_sorted_imp_sorted)
qed

lemma table_insert_commute:
  "table_ok t \<Longrightarrow> k \<noteq> k' \<Longrightarrow>
     table_insert k v (table_insert k' v' t) = table_insert k' v' (table_insert k v t)"
  by (rule table_eqI) (auto simp: table_insert_ok table_get_insert)

lemma table_remove_absent: "table_get t k = None \<Longrightarrow> table_remove k t = t"
  by (auto simp: table_get_None_iff table_remove_def filter_id_conv)

lemmas table_facts [table_laws] =
  table_insert_ok table_remove_ok table_get_insert table_get_remove table_get_filter

section \<open>The interface\<close>

text \<open>
  What the store relies on: lookups see exactly the inserted and not removed rows, and a range
  scan yields the rows between the bounds, each once and in ascending key order.
\<close>

locale ordered_table =
  fixes get :: "'t \<Rightarrow> 'k::linorder \<Rightarrow> 'v option"
    and ins :: "'k \<Rightarrow> 'v \<Rightarrow> 't \<Rightarrow> 't"
    and del :: "'k \<Rightarrow> 't \<Rightarrow> 't"
    and scan :: "'k bound \<times> 'k bound \<Rightarrow> 't \<Rightarrow> ('k \<times> 'v) list"
    and ok :: "'t \<Rightarrow> bool"
  assumes get_ins: "ok t \<Longrightarrow> get (ins k v t) k' = (if k' = k then Some v else get t k')"
    and get_del: "ok t \<Longrightarrow> get (del k t) k' = (if k' = k then None else get t k')"
    and scan_sorted: "ok t \<Longrightarrow> sorted_wrt (<) (map fst (scan b t))"
    and scan_iff: "ok t \<Longrightarrow> (k, v) \<in> set (scan b t) \<longleftrightarrow> in_bounds b k \<and> get t k = Some v"
    and ok_ins: "ok t \<Longrightarrow> ok (ins k v t)"
    and ok_del: "ok t \<Longrightarrow> ok (del k t)"
begin

lemma scan_after_ins:
  "ok t \<Longrightarrow> set (scan b (ins k v t)) =
     {row \<in> set (scan b t). fst row \<noteq> k} \<union> (if in_bounds b k then {(k, v)} else {})"
  using ok_ins by (auto simp: scan_iff get_ins split: if_splits)

lemma scan_after_del:
  "ok t \<Longrightarrow> set (scan b (del k t)) = {row \<in> set (scan b t). fst row \<noteq> k}"
  using ok_del by (auto simp: scan_iff get_del split: if_splits)

lemma scan_unique: "ok t \<Longrightarrow> (k, v) \<in> set (scan b t) \<Longrightarrow> (k, w) \<in> set (scan b t) \<Longrightarrow> v = w"
  by (simp add: scan_iff)

end

lemma table_range_sorted: "table_ok t \<Longrightarrow> sorted_wrt (<) (map fst (table_range b t))"
  by (simp add: table_range_def table_ok_def sorted_wrt_map_filter)

interpretation rows: ordered_table table_get table_insert table_remove table_range table_ok
  by unfold_locales
     (auto simp: table_laws table_range_sorted set_table_range table_get_Some_iff)

section \<open>Multimaps\<close>

text \<open>A \<open>redb::MultimapTable\<close> holds a set of values per key, in ascending order.\<close>

type_synonym ('k, 'v) multimap = "('k \<times> 'v, unit) table"

definition multimap_get :: "('k, 'v) multimap \<Rightarrow> 'k \<Rightarrow> 'v list" where
  "multimap_get t k = map (\<lambda>row. snd (fst row)) (filter (\<lambda>row. fst (fst row) = k) t)"

definition multimap_insert :: "'k::linorder \<Rightarrow> 'v::linorder \<Rightarrow> ('k, 'v) multimap \<Rightarrow> ('k, 'v) multimap" where
  "multimap_insert k v t = table_insert (k, v) () t"

definition multimap_remove :: "'k \<Rightarrow> 'v \<Rightarrow> ('k, 'v) multimap \<Rightarrow> ('k, 'v) multimap" where
  "multimap_remove k v t = table_remove (k, v) t"

definition multimap_remove_all :: "'k \<Rightarrow> ('k, 'v) multimap \<Rightarrow> ('k, 'v) multimap" where
  "multimap_remove_all k t = filter (\<lambda>row. fst (fst row) \<noteq> k) t"

lemma multimap_get_sorted:
  assumes "table_ok t" shows "sorted_wrt (<) (multimap_get t k)"
  using assms by (induction t) (force simp: multimap_get_def table_ok_Cons less_prod_def)+

lemma set_multimap_get: "set (multimap_get t k) = {v. ((k, v), ()) \<in> set t}"
  by (force simp: multimap_get_def)

lemma set_multimap_insert:
  "table_ok t \<Longrightarrow> set (multimap_get (multimap_insert k v t) k') =
     (if k' = k then insert v (set (multimap_get t k')) else set (multimap_get t k'))"
  by (auto simp: set_multimap_get multimap_insert_def set_table_insert)

lemma set_multimap_remove:
  "set (multimap_get (multimap_remove k v t) k') =
     (if k' = k then set (multimap_get t k') - {v} else set (multimap_get t k'))"
  by (auto simp: set_multimap_get multimap_remove_def table_remove_def)

lemma multimap_ok:
  "table_ok t \<Longrightarrow> table_ok (multimap_insert k v t)"
  "table_ok t \<Longrightarrow> table_ok (multimap_remove k v t)"
  "table_ok t \<Longrightarrow> table_ok (multimap_remove_all k t)"
  by (simp_all add: multimap_insert_def multimap_remove_def multimap_remove_all_def table_insert_ok table_remove_ok)

lemma length_multimap_get: "table_ok t \<Longrightarrow> length (multimap_get t k) = card (set (multimap_get t k))"
  using sorted_wrt_less_distinct[OF multimap_get_sorted] by (metis distinct_card)

end
