(* ===== verification/Bounds.thy ===== *)
theory Bounds
  imports Records Ordered_Table
begin

text \<open>
  Key filters of \<^verbatim>\<open>src/src/store.rs\<close> and the table bounds of \<^verbatim>\<open>src/src/store/fs/bounds.rs\<close> that select
  a namespace, an author, or the keys with a prefix.
\<close>

section \<open>Filters\<close>

datatype key_filter = AnyKey | ExactKey bytes | PrefixKey bytes

fun key_filter_matches :: "key_filter \<Rightarrow> bytes \<Rightarrow> bool" where
  "key_filter_matches AnyKey key = True"
| "key_filter_matches (ExactKey k) key = (k = key)"
| "key_filter_matches (PrefixKey p) key = starts_with key p"

datatype author_filter = AnyAuthor | ExactAuthor author_id

fun author_filter_matches :: "author_filter \<Rightarrow> author_id \<Rightarrow> bool" where
  "author_filter_matches AnyAuthor a = True"
| "author_filter_matches (ExactAuthor b) a = (b = a)"

section \<open>Incrementing a byte string\<close>

text \<open>The loop runs over the bytes from the last to the first; on the reversed string it is a
  structural recursion. The result is whether a byte could be incremented, and the new bytes.\<close>

fun increment_rev :: "bytes \<Rightarrow> bool \<times> bytes" where
  "increment_rev [] = (False, [])"
| "increment_rev (c # cs) =
     (if c \<noteq> 255 then (True, (c + 1) # cs)
      else case increment_rev cs of (done, cs') \<Rightarrow> (done, 0 # cs'))"

definition increment_by_one :: "bytes \<Rightarrow> bool \<times> bytes" where
  "increment_by_one value =
     (case increment_rev (rev value) of (done, r) \<Rightarrow> (done, rev r))"

section \<open>Bounds on the records table\<close>

type_synonym records_id = "bytes \<times> bytes \<times> bytes"
type_synonym records_bounds = "records_id bound \<times> records_id bound"

definition records_bounds_new :: "records_id bound \<Rightarrow> records_id bound \<Rightarrow> records_bounds" where
  "records_bounds_new start end = (start, end)"

definition zero_id :: bytes where
  "zero_id = replicate 32 0"

definition records_bounds_author_key ::
  "namespace_id \<Rightarrow> author_id \<Rightarrow> key_filter \<Rightarrow> records_bounds" where
  "records_bounds_author_key ns author key_matcher =
     (let key_is_exact = (case key_matcher of ExactKey _ \<Rightarrow> True | _ \<Rightarrow> False);
          key = (case key_matcher of AnyKey \<Rightarrow> [] | ExactKey k \<Rightarrow> k | PrefixKey p \<Rightarrow> p);
          start = (ns, author, key);
          (key_inc, key_end) = increment_by_one key;
          (author_inc, author_end) = increment_by_one author;
          (ns_inc, ns_end) = increment_by_one ns;
          end = (if key_is_exact then Included start
                 else if key_inc then Excluded (ns, author, key_end)
                 else if author_inc then Excluded (ns, author_end, [])
                 else if ns_inc then Excluded (ns_end, zero_id, [])
                 else Unbounded)
      in (Included start, end))"

definition records_bounds_author_prefix ::
  "namespace_id \<Rightarrow> author_id \<Rightarrow> bytes \<Rightarrow> records_bounds" where
  "records_bounds_author_prefix ns author p = records_bounds_author_key ns author (PrefixKey p)"

definition namespace_start :: "namespace_id \<Rightarrow> records_id bound" where
  "namespace_start ns = Included (ns, zero_id, [])"

definition namespace_end :: "namespace_id \<Rightarrow> records_id bound" where
  "namespace_end ns =
     (case increment_by_one ns of (inc, ns_end) \<Rightarrow>
        if inc then Excluded (ns_end, zero_id, []) else Unbounded)"

definition records_bounds_namespace :: "namespace_id \<Rightarrow> records_bounds" where
  "records_bounds_namespace ns = records_bounds_new (namespace_start ns) (namespace_end ns)"

definition records_bounds_from_start :: "namespace_id \<Rightarrow> records_id bound \<Rightarrow> records_bounds" where
  "records_bounds_from_start ns end = records_bounds_new (namespace_start ns) end"

definition records_bounds_to_end :: "namespace_id \<Rightarrow> records_id bound \<Rightarrow> records_bounds" where
  "records_bounds_to_end ns start = records_bounds_new start (namespace_end ns)"

section \<open>Bounds on the by-key index\<close>

type_synonym by_key_id = "bytes \<times> bytes \<times> bytes"
type_synonym by_key_bounds = "by_key_id bound \<times> by_key_id bound"

definition by_key_bounds_namespace :: "namespace_id \<Rightarrow> by_key_bounds" where
  "by_key_bounds_namespace ns =
     (Included (ns, [], zero_id),
      case increment_by_one ns of (inc, ns_end) \<Rightarrow>
        if inc then Excluded (ns_end, [], zero_id) else Unbounded)"

definition by_key_bounds_new :: "namespace_id \<Rightarrow> key_filter \<Rightarrow> by_key_bounds" where
  "by_key_bounds_new ns matcher =
     (case matcher of
        AnyKey \<Rightarrow> by_key_bounds_namespace ns
      | ExactKey key \<Rightarrow> (Included (ns, key, zero_id), Included (ns, key, replicate 32 255))
      | PrefixKey p \<Rightarrow>
          (let (key_inc, key_end) = increment_by_one p;
               (ns_inc, ns_end) = increment_by_one ns;
               end = (if key_inc then Excluded (ns, key_end, zero_id)
                      else if ns_inc then Excluded (ns_end, [], zero_id)
                      else Unbounded)
           in (Included (ns, p, zero_id), end)))"

section \<open>What the increment does\<close>

text \<open>Every byte string is its part up to the last byte that is not 255, followed by 255s.\<close>

lemma split_255: obtains j where "p = replicate j (255::byte)"
  | q c j where "p = q @ c # replicate j 255" "c \<noteq> 255"
proof (induction p arbitrary: thesis rule: rev_induct)
  case Nil
  then show ?case by (metis replicate_0)
next
  case (snoc x xs)
  show ?case
  proof (cases "x = 255")
    case False
    then show ?thesis using snoc.prems(2)[of xs x 0] by simp
  next
    case True
    show ?thesis
    proof (rule snoc.IH)
      fix j assume "xs = replicate j (255::byte)"
      then show thesis using snoc.prems(1)[of "Suc j"] True by (simp add: replicate_append_same)
    next
      fix q c j assume "xs = q @ c # replicate j (255::byte)" "c \<noteq> 255"
      then show thesis using snoc.prems(2)[of q c "Suc j"] True by (simp add: replicate_append_same)
    qed
  qed
qed

lemma increment_rev_255: "increment_rev (replicate j 255 @ cs) =
    (fst (increment_rev cs), replicate j 0 @ snd (increment_rev cs))"
  by (induction j) (auto split: prod.splits)

lemma increment_all_255 [simp]: "increment_by_one (replicate j 255) = (False, replicate j 0)"
  using increment_rev_255[of j "[]"] by (simp add: increment_by_one_def)

lemma increment_snoc [simp]:
  "c \<noteq> 255 \<Longrightarrow> increment_by_one (q @ c # replicate j 255) = (True, q @ (c + 1) # replicate j 0)"
  using increment_rev_255[of j "c # rev q"] by (simp add: increment_by_one_def)

lemma increment_length: "length (snd (increment_by_one v)) = length v"
  by (cases v rule: split_255) auto

lemma byte_succ_less: "c \<noteq> (255::byte) \<Longrightarrow> (x < c + 1) = (x \<le> c)"
  by (uint_arith, simp)

section \<open>What lies between a prefix and its increment\<close>

text \<open>
  The increment keeps the length: a trailing run of 255s becomes a run of zeros. The keys between
  a prefix and its increment are therefore the keys with that prefix, and in addition the keys
  that end inside the run of zeros, which do not have the prefix.
\<close>

definition overshoot :: "bytes \<Rightarrow> bytes \<Rightarrow> bool" where
  "overshoot p k \<longleftrightarrow>
     (\<exists>q c j i. p = q @ c # replicate j 255 \<and> c \<noteq> 255 \<and> i < j \<and> k = q @ (c + 1) # replicate i 0)"

lemma between_append:
  fixes q a b k :: "'a::linorder list"
  shows "q @ a \<le> k \<and> k < q @ b \<longleftrightarrow> (\<exists>r. k = q @ r \<and> a \<le> r \<and> r < b)"
proof (induction q arbitrary: k)
  case (Cons x q)
  show ?case
  proof (cases k)
    case (Cons y k')
    then show ?thesis using Cons.IH[of k'] by (auto simp: list_le_def)
  qed (simp add: list_le_def)
qed simp

lemma Nil_le_bytes [simp]: "[] \<le> (k :: bytes)"
  by (cases k) (simp_all add: list_le_def)

lemma Nil_less_bytes [simp]: "[] < (k :: bytes) \<longleftrightarrow> k \<noteq> []"
  by (cases k) simp_all

lemma byte_le_255: "x \<le> (255::byte)"
proof -
  have "unat x < 2 ^ LENGTH(8)" by (rule unsigned_less)
  then show ?thesis by (simp add: word_le_nat_alt)
qed

lemma ge_all_255: "replicate j (255::byte) \<le> r \<longleftrightarrow> prefix (replicate j 255) r"
proof (induction j arbitrary: r)
  case (Suc j)
  have "\<not> (255::byte) < x" for x using byte_le_255[of x] by simp
  then show ?case using Suc.IH by (cases r) (auto simp: list_le_def)
qed simp

lemma less_zeros: "r < replicate j (0::byte) \<longleftrightarrow> (\<exists>i < j. r = replicate i 0)"
proof (induction j arbitrary: r)
  case (Suc j)
  show ?case
  proof (cases r)
    case Nil
    then show ?thesis by (auto intro: exI[of _ 0])
  next
    case (Cons x r')
    then have "r < replicate (Suc j) 0 \<longleftrightarrow> x = 0 \<and> (\<exists>i < j. r' = replicate i 0)"
      using Suc.IH by simp
    also have "\<dots> \<longleftrightarrow> (\<exists>i < Suc j. r = replicate i 0)"
      using Cons by (auto simp: less_Suc_eq_0_disj)
    finally show ?thesis .
  qed
qed simp

lemma overshoot_snoc:
  assumes "c \<noteq> 255"
  shows "overshoot (q @ c # replicate j 255) k \<longleftrightarrow> (\<exists>i < j. k = q @ (c + 1) # replicate i 0)"
proof
  assume "overshoot (q @ c # replicate j 255) k"
  then obtain q' c' j' i where *: "q @ c # replicate j 255 = q' @ c' # replicate j' 255" "c' \<noteq> 255"
    "i < j'" "k = q' @ (c' + 1) # replicate i 0" by (auto simp: overshoot_def)
  have "takeWhile (\<lambda>b. b = 255) (rev (q @ c # replicate j 255)) = replicate j 255"
    "takeWhile (\<lambda>b. b = 255) (rev (q' @ c' # replicate j' 255)) = replicate j' 255"
    using assms *(2) by (simp_all add: takeWhile_append)
  then have "j = j'" using *(1) by (metis length_replicate)
  then show "\<exists>i < j. k = q @ (c + 1) # replicate i 0" using * by auto
qed (use assms in \<open>auto simp: overshoot_def\<close>)

lemma prefix_bound:
  assumes "increment_by_one p = (True, e)"
  shows "p \<le> k \<and> k < e \<longleftrightarrow> prefix p k \<or> overshoot p k"
proof (cases p rule: split_255)
  case (2 q c j)
  then have e: "e = q @ (c + 1) # replicate j 0" using assms by simp
  have "c # replicate j 255 \<le> r \<and> r < (c + 1) # replicate j 0 \<longleftrightarrow>
      prefix (c # replicate j 255) r \<or> (\<exists>i < j. r = (c + 1) # replicate i 0)" for r
  proof (cases r)
    case (Cons d r')
    have "(c < d \<or> c = d \<and> A) \<and> (d < c + 1 \<or> d = c + 1 \<and> B) \<longleftrightarrow> c = d \<and> A \<or> d = c + 1 \<and> B" for A B
      using byte_succ_less[OF 2(2), of d] byte_succ_less[OF 2(2), of c] by auto
    then show ?thesis using Cons ge_all_255 less_zeros
      by (simp add: list_le_def[of "_ # _"] list_le_def[symmetric]) (auto simp: list_le_def)
  qed (auto simp: list_le_def)
  then show ?thesis
    using between_append[of q "c # replicate j 255" k "(c + 1) # replicate j 0"] overshoot_snoc[OF 2(2)] 2(1) e
    by (auto simp: prefix_def)
qed (use assms in simp)

text \<open>Among strings of one length, the increment bounds exactly the string itself; a string of
  255s has no successor of its length.\<close>

lemma prefix_same_length: "prefix v w \<Longrightarrow> length w = length v \<Longrightarrow> w = v"
  by (auto simp: prefix_def)

lemma overshoot_shorter: "overshoot p k \<Longrightarrow> length k < length p"
  by (auto simp: overshoot_def)

lemma fixed_bound:
  assumes "increment_by_one v = (True, e)" "length w = length v"
  shows "v \<le> w \<and> w < e \<longleftrightarrow> w = v"
  using prefix_bound[OF assms(1), of w] overshoot_shorter[of v w] prefix_same_length[of v w] assms(2)
  by auto

lemma increment_FalseD: "increment_by_one v = (False, e) \<Longrightarrow> v = replicate (length v) 255"
  by (cases v rule: split_255) auto

lemma fixed_top:
  assumes "increment_by_one v = (False, e)" "length w = length v"
  shows "v \<le> w \<longleftrightarrow> w = v"
  using replicate_255_ge[of w "length v"] increment_FalseD[OF assms(1)] assms(2)
  by (metis order_antisym order_refl)

lemma prefix_top:
  assumes "increment_by_one p = (False, e)"
  shows "p \<le> k \<longleftrightarrow> prefix p k"
  using ge_all_255[of "length p" k] increment_FalseD[OF assms] by metis

lemma overshoot_top: "increment_by_one p = (False, e) \<Longrightarrow> \<not> overshoot p k"
  by (auto simp: overshoot_def)

lemma fixed_succ:
  assumes "increment_by_one v = (True, e)" "length w = length v"
  shows "w < e \<longleftrightarrow> w \<le> v"
proof
  show "w < e" if "w \<le> v"
    using fixed_bound[OF assms(1) refl] that by (meson le_less_trans order_refl)
  show "w \<le> v" if "w < e"
    using fixed_bound[OF assms] that by (meson linear order_refl)
qed

section \<open>What the bounds select\<close>

lemma in_bounds_simps [simp]:
  "in_bounds (Included a, b) k \<longleftrightarrow> a \<le> k \<and> below_end b k"
  "in_bounds (Excluded a, b) k \<longleftrightarrow> a < k \<and> below_end b k"
  "in_bounds (Unbounded, b) k \<longleftrightarrow> below_end b k"
  by (simp_all add: in_bounds_def)

lemma zero_id_le: "length a = 32 \<Longrightarrow> zero_id \<le> a"
  unfolding zero_id_def by (rule replicate_zero_le)

lemma zero_id_length [simp]: "length zero_id = 32"
  by (simp add: zero_id_def)

lemma not_less_zero_id: "length a = 32 \<Longrightarrow> \<not> a < zero_id"
  using zero_id_le by (simp add: not_less)

lemma above_namespace_start:
  assumes "length a = 32"
  shows "above_start (namespace_start ns) (n, a, k) \<longleftrightarrow> ns \<le> n"
  using zero_id_le[OF assms] by (auto simp: namespace_start_def less_eq_prod_def le_less)

lemma below_namespace_end:
  assumes "length ns = 32" "length n = 32" "length a = 32"
  shows "below_end (namespace_end ns) (n, a, k) \<longleftrightarrow> n \<le> ns"
proof (cases "increment_by_one ns")
  case (Pair inc e)
  show ?thesis
  proof (cases inc)
    case True
    have len: "length n = length ns" using assms(1,2) by simp
    have inc: "increment_by_one ns = (True, e)" using Pair True by simp
    have "\<not> (a, k) < (zero_id, [])"
      using not_less_zero_id[OF assms(3)] by (auto simp: less_prod_def)
    then have "below_end (namespace_end ns) (n, a, k) \<longleftrightarrow> n < e"
      using Pair True by (auto simp: namespace_end_def less_prod_def)
    then show ?thesis using fixed_succ[OF inc len] by simp
  next
    case False
    then have "ns = replicate 32 255" using increment_FalseD[of ns e] Pair assms(1) by simp
    then have "n \<le> ns" using replicate_255_ge[OF assms(2)] by simp
    then show ?thesis using Pair False by (simp add: namespace_end_def)
  qed
qed

lemma in_namespace_bounds:
  assumes "length ns = 32" "length n = 32" "length a = 32"
  shows "in_bounds (records_bounds_namespace ns) (n, a, k) \<longleftrightarrow> n = ns"
  using above_namespace_start[OF assms(3)] below_namespace_end[OF assms]
  by (auto simp: in_bounds_def records_bounds_namespace_def records_bounds_new_def)

lemma from_start_upto:
  assumes "length ns = 32" "length n = 32" "length a = 32"
  shows "in_bounds (records_bounds_from_start ns end) (n, a, k) \<longleftrightarrow> ns \<le> n \<and> below_end end (n, a, k)"
    and "in_bounds (records_bounds_to_end ns start) (n, a, k) \<longleftrightarrow> above_start start (n, a, k) \<and> n \<le> ns"
  using above_namespace_start[OF assms(3)] below_namespace_end[OF assms]
  by (auto simp: in_bounds_def records_bounds_from_start_def records_bounds_to_end_def records_bounds_new_def)

lemma in_exact_key_bounds:
  "in_bounds (records_bounds_author_key ns a (ExactKey key)) (n, b, k) \<longleftrightarrow> n = ns \<and> b = a \<and> k = key"
  by (auto simp: records_bounds_author_key_def Let_def less_eq_prod_def split: prod.splits)

text \<open>The prefix bounds select one author's keys with the prefix, and the overshoot.\<close>

lemma in_author_prefix_bounds:
  assumes len: "length ns = 32" "length a = 32" "length n = 32" "length b = 32"
  shows "in_bounds (records_bounds_author_prefix ns a p) (n, b, k) \<longleftrightarrow>
     n = ns \<and> b = a \<and> (prefix p k \<or> overshoot p k)"
proof -
  obtain ki ke ai ae ni ne where inc: "increment_by_one p = (ki, ke)" "increment_by_one a = (ai, ae)"
    "increment_by_one ns = (ni, ne)" by (metis surj_pair)
  note defs = records_bounds_author_prefix_def records_bounds_author_key_def Let_def inc
  have lens: "length n = length ns" "length b = length a" using len by simp_all
  consider (key) ki | (author) "\<not> ki" ai | (namespace) "\<not> ki" "\<not> ai" ni | (top) "\<not> ki" "\<not> ai" "\<not> ni"
    by blast
  then show ?thesis
  proof cases
    case key
    then show ?thesis using prefix_bound[of p ke k] inc(1)
      by (auto simp: defs less_eq_prod_def less_prod_def)
  next
    case author
    then show ?thesis
      using prefix_top[of p ke k] overshoot_top[of p ke k] fixed_bound[of a ae b] inc lens(2)
      by (auto simp: defs less_eq_prod_def less_prod_def)
  next
    case namespace
    then have "\<not> (b, k) < (zero_id, [])" "a \<le> b \<longleftrightarrow> b = a"
      using not_less_zero_id[OF len(4)] fixed_top[of a ae b] inc lens(2) by (auto simp: less_prod_def)
    then show ?thesis
      using namespace prefix_top[of p ke k] overshoot_top[of p ke k] fixed_bound[of ns ne n] inc lens(1)
      by (auto simp: defs less_eq_prod_def less_prod_def)
  next
    case top
    then show ?thesis
      using prefix_top[of p ke k] overshoot_top[of p ke k] fixed_top[of a ae b] fixed_top[of ns ne n] inc lens
      by (auto simp: defs less_eq_prod_def less_prod_def)
  qed
qed

lemma in_by_key_namespace:
  assumes "length ns = 32" "length n = 32" "length a = 32"
  shows "in_bounds (by_key_bounds_namespace ns) (n, k, a) \<longleftrightarrow> n = ns"
proof -
  obtain ni ne where inc: "increment_by_one ns = (ni, ne)" by (metis surj_pair)
  have len: "length n = length ns" using assms by simp
  have start: "(ns, [], zero_id) \<le> (n, k, a) \<longleftrightarrow> ns \<le> n"
    using zero_id_le[OF assms(3)] by (auto simp: less_eq_prod_def)
  have no: "\<not> (k, a) < ([], zero_id)"
    using not_less_zero_id[OF assms(3)] by (auto simp: less_prod_def)
  then have fin: "(n, k, a) < (ne, [], zero_id) \<longleftrightarrow> n < ne" by (auto simp: less_prod_def)
  show ?thesis
    using start fin fixed_bound[of ns ne n] fixed_top[of ns ne n] inc len
    by (cases ni) (auto simp: by_key_bounds_namespace_def)
qed

lemma in_by_key_exact:
  assumes "length a = 32"
  shows "in_bounds (by_key_bounds_new ns (ExactKey key)) (n, k, a) \<longleftrightarrow> n = ns \<and> k = key"
  using zero_id_le[OF assms] replicate_255_ge[OF assms]
  by (auto simp: by_key_bounds_new_def less_eq_prod_def)

lemma in_by_key_prefix:
  assumes "length ns = 32" "length n = 32" "length a = 32"
  shows "in_bounds (by_key_bounds_new ns (PrefixKey p)) (n, k, a) \<longleftrightarrow>
     n = ns \<and> (prefix p k \<or> overshoot p k)"
proof -
  obtain ki ke ni ne where inc: "increment_by_one p = (ki, ke)" "increment_by_one ns = (ni, ne)"
    by (metis surj_pair)
  have len: "length n = length ns" using assms by simp
  have start: "(ns, p, zero_id) \<le> (n, k, a) \<longleftrightarrow> ns < n \<or> ns = n \<and> p \<le> k"
    using zero_id_le[OF assms(3)] by (auto simp: less_eq_prod_def)
  have no: "\<not> a < zero_id" using not_less_zero_id[OF assms(3)] .
  show ?thesis
  proof (cases ki)
    case True
    then show ?thesis using start no prefix_bound[of p ke k] inc(1)
      by (auto simp: by_key_bounds_new_def Let_def inc less_prod_def)
  next
    case False
    then show ?thesis
      using start no prefix_top[of p ke k] overshoot_top[of p ke k] fixed_bound[of ns ne n]
        fixed_top[of ns ne n] inc len
      by (cases ni) (auto simp: by_key_bounds_new_def Let_def less_prod_def)
  qed
qed

end
