(* ===== verification/Store_Types.thy ===== *)
theory Store_Types
  imports Bounds
begin

text \<open>
  The plain data of \<^verbatim>\<open>src/src/store.rs\<close>: download policies with their printed form, queries with
  their builders, and the outcomes of store operations.

  A Rust string is its UTF-8 bytes, one \<open>char\<close> per byte. The hex and postcard codecs are libraries
  outside the repository: they are the parameters \<open>hexlib\<close> and \<open>postcard\<close>.
\<close>

section \<open>The postcard codec\<close>

record 'a postcard =
  pc_to_stdvec :: "'a \<Rightarrow> bytes"
  pc_from_bytes :: "bytes \<Rightarrow> 'a option"
  pc_serialized_size :: "'a \<Rightarrow> nat"

text \<open>Documented behaviour: what was serialized deserializes to itself, and the size it computes
  is the length of the serialization.\<close>

definition postcard_ok :: "'a postcard \<Rightarrow> bool" where
  "postcard_ok P \<longleftrightarrow>
     (\<forall>x. pc_from_bytes P (pc_to_stdvec P x) = Some x \<and> pc_serialized_size P x = length (pc_to_stdvec P x))"

text \<open>A concrete codec, which shows that the assumption can be met: a value is given as a list of
  byte strings, each byte is written behind a 1 and each string is closed by a 0.\<close>

definition chunk_encode :: "bytes \<Rightarrow> bytes" where
  "chunk_encode p = concat (map (\<lambda>c. [1, c]) p) @ [0]"

fun chunks_decode :: "bytes \<Rightarrow> bytes \<Rightarrow> bytes list option" where
  "chunks_decode cur [] = (if cur = [] then Some [] else None)"
| "chunks_decode cur (x # xs) =
     (if x = 0 then map_option (\<lambda>r. cur # r) (chunks_decode [] xs)
      else (case xs of c # ys \<Rightarrow> chunks_decode (cur @ [c]) ys | [] \<Rightarrow> None))"

definition chunk_postcard :: "('a \<Rightarrow> bytes list) \<Rightarrow> (bytes list \<Rightarrow> 'a option) \<Rightarrow> 'a postcard" where
  "chunk_postcard f g =
     \<lparr>pc_to_stdvec = (\<lambda>x. concat (map chunk_encode (f x))),
      pc_from_bytes = (\<lambda>b. case chunks_decode [] b of None \<Rightarrow> None | Some cs \<Rightarrow> g cs),
      pc_serialized_size = (\<lambda>x. length (concat (map chunk_encode (f x))))\<rparr>"

lemma chunks_decode_chunk:
  "chunks_decode cur (chunk_encode p @ rest) = map_option (\<lambda>r. (cur @ p) # r) (chunks_decode [] rest)"
  by (induction p arbitrary: cur) (simp_all add: chunk_encode_def)

lemma chunks_decode_encode: "chunks_decode [] (concat (map chunk_encode ps)) = Some ps"
  by (induction ps) (simp_all add: chunks_decode_chunk)

lemma chunk_postcard_ok: "(\<And>x. g (f x) = Some x) \<Longrightarrow> postcard_ok (chunk_postcard f g)"
  by (simp add: postcard_ok_def chunk_postcard_def chunks_decode_encode)

section \<open>Download policies\<close>

datatype filter_kind = FilterPrefix bytes | FilterExact bytes

datatype download_policy = NothingExcept "filter_kind list" | EverythingExcept "filter_kind list"

definition download_policy_default :: download_policy where
  "download_policy_default = EverythingExcept []"

fun filter_kind_matches :: "filter_kind \<Rightarrow> bytes \<Rightarrow> bool" where
  "filter_kind_matches (FilterPrefix p) key = starts_with key p"
| "filter_kind_matches (FilterExact e) key = (e = key)"

fun download_policy_matches :: "download_policy \<Rightarrow> entry \<Rightarrow> bool" where
  "download_policy_matches (NothingExcept patterns) e =
     list_ex (\<lambda>p. filter_kind_matches p (entry_key e)) patterns"
| "download_policy_matches (EverythingExcept patterns) e =
     list_all (\<lambda>p. \<not> filter_kind_matches p (entry_key e)) patterns"

text \<open>\<open>String::from_utf8\<close>: the well-formed byte sequences of the UTF-8 standard.\<close>

definition utf8_cont :: "byte \<Rightarrow> bool" where
  "utf8_cont b \<longleftrightarrow> 128 \<le> b \<and> b \<le> 191"

fun utf8_valid :: "bytes \<Rightarrow> bool" where
  "utf8_valid [] = True"
| "utf8_valid (a # r) =
     (if a < 128 then utf8_valid r
      else if 194 \<le> a \<and> a \<le> 223 then
        (case r of b # r2 \<Rightarrow> utf8_cont b \<and> utf8_valid r2 | _ \<Rightarrow> False)
      else if 224 \<le> a \<and> a \<le> 239 then
        (case r of b # c # r3 \<Rightarrow> utf8_cont b \<and> utf8_cont c \<and> (a = 224 \<longrightarrow> 160 \<le> b) \<and>
             (a = 237 \<longrightarrow> b \<le> 159) \<and> utf8_valid r3
         | _ \<Rightarrow> False)
      else if 240 \<le> a \<and> a \<le> 244 then
        (case r of b # c # d # r4 \<Rightarrow> utf8_cont b \<and> utf8_cont c \<and> utf8_cont d \<and> (a = 240 \<longrightarrow> 144 \<le> b) \<and>
             (a = 244 \<longrightarrow> b \<le> 143) \<and> utf8_valid r4
         | _ \<Rightarrow> False)
      else False)"

definition string_of_bytes :: "bytes \<Rightarrow> string" where
  "string_of_bytes b = map (\<lambda>w. char_of (unat w)) b"

definition bytes_of_string :: "string \<Rightarrow> bytes" where
  "bytes_of_string s = map (\<lambda>c. word_of_nat (of_char c)) s"

fun filter_kind_display :: "hexlib \<Rightarrow> filter_kind \<Rightarrow> string" where
  "filter_kind_display H f =
     (let (kind, b) = (case f of FilterPrefix b \<Rightarrow> (''prefix'', b) | FilterExact b \<Rightarrow> (''exact'', b));
          (encoding, repr) = (if utf8_valid b then (''utf8'', string_of_bytes b)
                              else (''hex'', hex_encode H b))
      in kind @ '':'' @ encoding @ '':'' @ repr)"

text \<open>\<open>str::split_once\<close>, and \<open>hex::decode\<close> as a function of the string alone.\<close>

fun split_once :: "char \<Rightarrow> string \<Rightarrow> (string \<times> string) option" where
  "split_once c [] = None"
| "split_once c (x # xs) =
     (if x = c then Some ([], xs)
      else case split_once c xs of None \<Rightarrow> None | Some (a, b) \<Rightarrow> Some (x # a, b))"

datatype filter_parse_error =
  MissingKind | MissingEncoding | UnknownFilterKind string | HexFailed | UnknownEncoding string

definition filter_kind_from_str ::
  "(string \<Rightarrow> bytes option) \<Rightarrow> string \<Rightarrow> filter_parse_error + filter_kind" where
  "filter_kind_from_str hex_decode s =
     (case split_once CHR '':'' s of
        None \<Rightarrow> Inl MissingKind
      | Some (kind, rest) \<Rightarrow>
     (case split_once CHR '':'' rest of
        None \<Rightarrow> Inl MissingEncoding
      | Some (encoding, rest) \<Rightarrow>
          rbind (if kind = ''exact'' then Inr True
                 else if kind = ''prefix'' then Inr False
                 else Inl (UnknownFilterKind kind)) (\<lambda>is_exact.
          rbind (if encoding = ''utf8'' then Inr (bytes_of_string rest)
                 else if encoding = ''hex'' then
                   (case hex_decode rest of Some b \<Rightarrow> Inr b | None \<Rightarrow> Inl HexFailed)
                 else Inl (UnknownEncoding encoding)) (\<lambda>decoded.
          Inr (if is_exact then FilterExact decoded else FilterPrefix decoded)))))"

section \<open>Queries\<close>

datatype sort_by = KeyAuthor | AuthorKey

datatype sort_direction = Asc | Desc

datatype query_kind = Flat sort_by | SingleLatestPerKey

text \<open>A builder carries the same fields as the query it builds; \<open>'kind\<close> is its type parameter
  (\<open>sort_by\<close> for \<open>FlatQuery\<close>, \<open>unit\<close> for \<open>SingleLatestPerKeyQuery\<close>).\<close>

record 'kind query_builder =
  qb_kind :: 'kind
  qb_filter_author :: author_filter
  qb_filter_key :: key_filter
  qb_limit :: "u64 option"
  qb_offset :: u64
  qb_include_empty :: bool
  qb_sort_direction :: sort_direction

type_synonym query = "query_kind query_builder"

definition builder_default :: "'kind \<Rightarrow> 'kind query_builder" where
  "builder_default kind = \<lparr>qb_kind = kind, qb_filter_author = AnyAuthor, qb_filter_key = AnyKey,
     qb_limit = None, qb_offset = 0, qb_include_empty = False, qb_sort_direction = Asc\<rparr>"

definition qb_with_empty :: "'kind query_builder \<Rightarrow> 'kind query_builder" where
  "qb_with_empty q = q\<lparr>qb_include_empty := True\<rparr>"

definition qb_key_exact :: "bytes \<Rightarrow> 'kind query_builder \<Rightarrow> 'kind query_builder" where
  "qb_key_exact key q = q\<lparr>qb_filter_key := ExactKey key\<rparr>"

definition qb_key_prefix :: "bytes \<Rightarrow> 'kind query_builder \<Rightarrow> 'kind query_builder" where
  "qb_key_prefix key q = q\<lparr>qb_filter_key := PrefixKey key\<rparr>"

definition qb_author :: "author_id \<Rightarrow> 'kind query_builder \<Rightarrow> 'kind query_builder" where
  "qb_author a q = q\<lparr>qb_filter_author := ExactAuthor a\<rparr>"

definition qb_set_limit :: "u64 \<Rightarrow> 'kind query_builder \<Rightarrow> 'kind query_builder" where
  "qb_set_limit n q = q\<lparr>qb_limit := Some n\<rparr>"

definition qb_set_offset :: "u64 \<Rightarrow> 'kind query_builder \<Rightarrow> 'kind query_builder" where
  "qb_set_offset n q = q\<lparr>qb_offset := n\<rparr>"

definition qb_sort_by :: "sort_by \<Rightarrow> sort_direction \<Rightarrow> sort_by query_builder \<Rightarrow> sort_by query_builder" where
  "qb_sort_by by dir q = q\<lparr>qb_kind := by, qb_sort_direction := dir\<rparr>"

definition qb_set_direction :: "sort_direction \<Rightarrow> unit query_builder \<Rightarrow> unit query_builder" where
  "qb_set_direction dir q = q\<lparr>qb_sort_direction := dir\<rparr>"

definition build_with :: "query_kind \<Rightarrow> 'kind query_builder \<Rightarrow> query" where
  "build_with kind q = \<lparr>qb_kind = kind, qb_filter_author = qb_filter_author q,
     qb_filter_key = qb_filter_key q, qb_limit = qb_limit q, qb_offset = qb_offset q,
     qb_include_empty = qb_include_empty q, qb_sort_direction = qb_sort_direction q\<rparr>"

definition build_flat :: "sort_by query_builder \<Rightarrow> query" where
  "build_flat q = build_with (Flat (qb_kind q)) q"

definition build_single_latest :: "unit query_builder \<Rightarrow> query" where
  "build_single_latest q = build_with SingleLatestPerKey q"

definition query_all :: "sort_by query_builder" where
  "query_all = builder_default AuthorKey"

definition query_single_latest_per_key :: "unit query_builder" where
  "query_single_latest_per_key = builder_default ()"

definition query_author :: "author_id \<Rightarrow> sort_by query_builder" where
  "query_author a = qb_author a query_all"

definition query_key_exact :: "bytes \<Rightarrow> sort_by query_builder" where
  "query_key_exact key = qb_key_exact key query_all"

definition query_key_prefix :: "bytes \<Rightarrow> sort_by query_builder" where
  "query_key_prefix p = qb_key_prefix p query_all"

section \<open>Outcomes\<close>

datatype import_namespace_outcome = ImportInserted | ImportUpgraded | ImportNoChange

definition PEERS_PER_DOC_CACHE_SIZE :: nat where
  "PEERS_PER_DOC_CACHE_SIZE = 5"

section \<open>The printed form of a filter reads back\<close>

lemma split_once_append [simp]: "c \<notin> set a \<Longrightarrow> split_once c (a @ c # b) = Some (a, b)"
  by (induction a) auto

lemma bytes_of_string_of_bytes [simp]: "bytes_of_string (string_of_bytes b) = b"
proof -
  have "word_of_nat (of_char (char_of (unat w) :: char)) = w" for w :: byte
  proof -
    have "unat w < 2 ^ LENGTH(8)" by (rule unsigned_less)
    then have "unat w mod 256 = unat w" by simp
    then show ?thesis by simp
  qed
  then show ?thesis by (simp add: bytes_of_string_def string_of_bytes_def comp_def map_idI)
qed

text \<open>A download filter printed by \<open>Display\<close> parses back to itself through \<open>FromStr\<close>, also
  when its bytes are not UTF-8 or contain colons, given that the hex codec round trips.\<close>

theorem filter_kind_roundtrip:
  assumes "\<And>b. hex_decode (hex_encode H b) = Some b"
  shows "filter_kind_from_str hex_decode (filter_kind_display H f) = Inr f"
proof -
  have kinds: "CHR '':'' \<notin> set ''prefix''" "CHR '':'' \<notin> set ''exact''" "CHR '':'' \<notin> set ''utf8''"
    "CHR '':'' \<notin> set ''hex''" by simp_all
  have split: "split_once CHR '':'' (a @ '':'' @ r) = Some (a, r)" if "CHR '':'' \<notin> set a" for a r
    using split_once_append[OF that] by simp
  show ?thesis
    by (cases f) (simp_all add: filter_kind_from_str_def Let_def split[OF kinds(1)] split[OF kinds(2)]
        split[OF kinds(3)] split[OF kinds(4)] assms del: append.simps)
qed

text \<open>A concrete filter with a byte that is not UTF-8, under a codec that writes each byte as a
  character.\<close>

definition plain_hex :: hexlib where
  "plain_hex = \<lparr>hex_encode = string_of_bytes, hex_decode_to_slice = (\<lambda>n s. Some (bytes_of_string s))\<rparr>"

theorem filter_kind_roundtrip_witness:
  "filter_kind_from_str (\<lambda>s. Some (bytes_of_string s))
     (filter_kind_display plain_hex (FilterPrefix [255, 58, 97])) = Inr (FilterPrefix [255, 58, 97])"
  by (rule filter_kind_roundtrip) (simp add: plain_hex_def)

text \<open>A concrete codec for download policies.\<close>

fun filter_chunks :: "filter_kind \<Rightarrow> bytes" where
  "filter_chunks (FilterPrefix b) = 0 # b"
| "filter_chunks (FilterExact b) = 1 # b"

fun chunks_filter :: "bytes \<Rightarrow> filter_kind" where
  "chunks_filter [] = FilterPrefix []"
| "chunks_filter (t # b) = (if t = 0 then FilterPrefix b else FilterExact b)"

fun policy_chunks :: "download_policy \<Rightarrow> bytes list" where
  "policy_chunks (NothingExcept fs) = [0] # map filter_chunks fs"
| "policy_chunks (EverythingExcept fs) = [1] # map filter_chunks fs"

fun chunks_policy :: "bytes list \<Rightarrow> download_policy option" where
  "chunks_policy [] = None"
| "chunks_policy (t # cs) =
     Some (if t = [0] then NothingExcept (map chunks_filter cs) else EverythingExcept (map chunks_filter cs))"

definition policy_postcard :: "download_policy postcard" where
  "policy_postcard = chunk_postcard policy_chunks chunks_policy"

lemma policy_postcard_ok: "postcard_ok policy_postcard"
proof -
  have "chunks_filter (filter_chunks f) = f" for f by (cases f) auto
  then have "chunks_policy (policy_chunks p) = Some p" for p by (cases p) (simp_all add: comp_def)
  then show ?thesis unfolding policy_postcard_def by (rule chunk_postcard_ok)
qed

end
