(* ===== verification/Heads.thy ===== *)
theory Heads
  imports Store_Types
begin

text \<open>
  \<^verbatim>\<open>src/src/heads.rs\<close>: the latest timestamp seen of each author, exchanged between peers to decide
  whether a sync is worth it. The \<open>BTreeMap\<close> is an ordered table.
\<close>

type_synonym author_heads = "(author_id, u64) table"

definition heads_default :: author_heads where
  "heads_default = []"

definition heads_insert :: "author_id \<Rightarrow> u64 \<Rightarrow> author_heads \<Rightarrow> author_heads" where
  "heads_insert author timestamp h =
     (case table_get h author of
        Some t \<Rightarrow> table_insert author (max t timestamp) h
      | None \<Rightarrow> table_insert author timestamp h)"

definition heads_len :: "author_heads \<Rightarrow> nat" where
  "heads_len h = length h"

definition heads_is_empty :: "author_heads \<Rightarrow> bool" where
  "heads_is_empty h \<longleftrightarrow> h = []"

definition heads_get :: "author_heads \<Rightarrow> author_id \<Rightarrow> u64 option" where
  "heads_get h author = table_get h author"

text \<open>The number of authors with news, \<open>None\<close> for zero (\<open>NonZeroU64::new\<close>).\<close>

definition heads_has_news_for :: "author_heads \<Rightarrow> author_heads \<Rightarrow> nat option" where
  "heads_has_news_for self other =
     (let updates = length (filter (\<lambda>(author, ts_ours).
            case heads_get other author of Some ts_theirs \<Rightarrow> ts_theirs < ts_ours | None \<Rightarrow> True) self)
      in if updates = 0 then None else Some updates)"

definition heads_merge :: "author_heads \<Rightarrow> author_heads \<Rightarrow> author_heads" where
  "heads_merge self other = fold (\<lambda>(a, t). heads_insert a t) other self"

text \<open>Encoding with a size limit. The heads are first re-keyed by timestamp, then taken from the
  newest on until the serialization would exceed the limit.\<close>

definition heads_by_timestamp :: "author_heads \<Rightarrow> (u64, author_id) table" where
  "heads_by_timestamp h = fold (\<lambda>(author, ts). table_insert ts author) h []"

fun take_within ::
  "(u64 \<times> author_id) list postcard \<Rightarrow> nat option \<Rightarrow> (u64 \<times> author_id) list
     \<Rightarrow> (u64 \<times> author_id) list \<Rightarrow> (u64 \<times> author_id) list" where
  "take_within P limit items [] = items"
| "take_within P limit items (x # rest) =
     (case limit of
        Some size_limit \<Rightarrow>
          if size_limit < pc_serialized_size P (items @ [x]) then items
          else take_within P limit (items @ [x]) rest
      | None \<Rightarrow> take_within P limit (items @ [x]) rest)"

definition heads_encode ::
  "(u64 \<times> author_id) list postcard \<Rightarrow> author_heads \<Rightarrow> nat option \<Rightarrow> bytes" where
  "heads_encode P h size_limit =
     pc_to_stdvec P (take_within P size_limit [] (rev (heads_by_timestamp h)))"

definition heads_decode ::
  "(u64 \<times> author_id) list postcard \<Rightarrow> bytes \<Rightarrow> author_heads option" where
  "heads_decode P b =
     (case pc_from_bytes P b of
        None \<Rightarrow> None
      | Some items \<Rightarrow> Some (fold (\<lambda>(ts, author). heads_insert author ts) items heads_default))"

text \<open>\<open>FromIterator\<close>: a later pair of the same author replaces an earlier one.\<close>

definition heads_from_iter :: "(author_id \<times> u64) list \<Rightarrow> author_heads" where
  "heads_from_iter items = fold (\<lambda>(a, t). table_insert a t) items []"

definition heads_from_iter_ts :: "(u64 \<times> author_id) list \<Rightarrow> author_heads" where
  "heads_from_iter_ts items = heads_from_iter (map (\<lambda>(t, a). (a, t)) items)"

section \<open>Insert, merge and news\<close>

lemma heads_insert_ok: "table_ok h \<Longrightarrow> table_ok (heads_insert a t h)"
  by (auto simp: heads_insert_def table_insert_ok split: option.splits)

lemma heads_get_insert:
  "heads_get (heads_insert a t h) b =
     (if b = a then Some (case heads_get h a of None \<Rightarrow> t | Some u \<Rightarrow> max u t) else heads_get h b)"
  by (auto simp: heads_insert_def heads_get_def table_get_insert split: option.splits)

text \<open>The greater of two optional timestamps; an absent one is below all others.\<close>

definition max_head :: "u64 option \<Rightarrow> u64 option \<Rightarrow> u64 option" where
  "max_head x y = (case x of None \<Rightarrow> y | Some a \<Rightarrow> (case y of None \<Rightarrow> x | Some b \<Rightarrow> Some (max a b)))"

lemma heads_merge_step:
  "table_ok other \<Longrightarrow> table_ok self \<Longrightarrow>
     heads_get (fold (\<lambda>(a, t). heads_insert a t) other self) b =
       max_head (heads_get self b) (heads_get other b)"
proof (induction other arbitrary: self)
  case Nil
  then show ?case by (simp add: max_head_def heads_get_def table_get_def split: option.splits)
next
  case (Cons row rest)
  obtain a t where row: "row = (a, t)" by fastforce
  have fresh: "heads_get rest a = None"
    using Cons.prems(1) row by (auto simp: table_ok_Cons heads_get_def table_get_None_iff)
  have here: "heads_get (row # rest) b = (if b = a then Some t else heads_get rest b)"
    using row by (simp add: heads_get_def table_get_def)
  have "heads_get (fold (\<lambda>(a, t). heads_insert a t) (row # rest) self) b =
      max_head (heads_get (heads_insert a t self) b) (heads_get rest b)"
    using Cons.IH[OF _ heads_insert_ok] Cons.prems row by (simp add: table_ok_Cons)
  then show ?case
    using fresh here by (auto simp: heads_get_insert max_head_def split: option.splits)
qed

lemma heads_merge_get:
  "table_ok self \<Longrightarrow> table_ok other \<Longrightarrow>
     heads_get (heads_merge self other) b = max_head (heads_get self b) (heads_get other b)"
  unfolding heads_merge_def by (rule heads_merge_step)

lemma heads_fold_ok: "table_ok self \<Longrightarrow> table_ok (fold (\<lambda>(a, t). heads_insert a t) other self)"
  by (induction other arbitrary: self) (auto simp: heads_insert_ok)

lemma heads_no_news_iff:
  assumes "table_ok self"
  shows "heads_has_news_for self other = None \<longleftrightarrow>
     (\<forall>a t. heads_get self a = Some t \<longrightarrow> (\<exists>u. heads_get other a = Some u \<and> t \<le> u))"
proof -
  have "heads_has_news_for self other = None \<longleftrightarrow>
     (\<forall>(a, t) \<in> set self. \<not> (case heads_get other a of Some u \<Rightarrow> u < t | None \<Rightarrow> True))"
    by (auto simp: heads_has_news_for_def Let_def filter_empty_conv)
  also have "\<dots> \<longleftrightarrow> (\<forall>a t. heads_get self a = Some t \<longrightarrow> (\<exists>u. heads_get other a = Some u \<and> t \<le> u))"
    using table_get_Some_iff[OF assms] unfolding heads_get_def
    by (auto simp: not_less split: option.splits) fastforce+
  finally show ?thesis .
qed

section \<open>Encoding\<close>

lemma take_within_size:
  "pc_serialized_size P items \<le> s \<Longrightarrow> pc_serialized_size P (take_within P (Some s) items rest) \<le> s"
  by (induction rest arbitrary: items) auto

lemma take_within_prefix: "\<exists>n. take_within P limit items rest = items @ take n rest"
proof (induction rest arbitrary: items)
  case (Cons x rest)
  have stop: "\<exists>n. items = items @ take n (x # rest)" by (rule exI[of _ 0]) simp
  obtain n where "take_within P limit (items @ [x]) rest = (items @ [x]) @ take n rest"
    using Cons.IH by blast
  moreover have "\<exists>m. x # take n rest = take m (x # rest)" by (rule exI[of _ "Suc n"]) simp
  ultimately show ?case using stop by (auto split: option.splits)
qed simp

lemma take_within_None: "take_within P None items rest = items @ rest"
  by (induction rest arbitrary: items) auto

text \<open>Re-keying by timestamp keeps one author per timestamp.\<close>

lemma by_timestamp_step:
  "table_ok t \<Longrightarrow> set (fold (\<lambda>(a, ts). table_insert ts a) h t) \<subseteq> prod.swap ` set h \<union> set t \<and>
     table_ok (fold (\<lambda>(a, ts). table_insert ts a) h t) \<and>
     (distinct (map snd h) \<longrightarrow> snd ` set h \<inter> fst ` set t = {} \<longrightarrow>
        prod.swap ` set h \<union> set t \<subseteq> set (fold (\<lambda>(a, ts). table_insert ts a) h t))"
proof (induction h arbitrary: t)
  case (Cons row h)
  obtain a ts where row: "row = (a, ts)" by fastforce
  have t': "set (table_insert ts a t) = insert (ts, a) {r \<in> set t. fst r \<noteq> ts}"
    "table_ok (table_insert ts a t)"
    by (rule set_table_insert[OF Cons.prems], rule table_insert_ok[OF Cons.prems])
  show ?case using Cons.IH[OF t'(2)] row unfolding t'(1) by force
qed simp

lemma by_timestamp_rows:
  shows "set (heads_by_timestamp h) \<subseteq> prod.swap ` set h" and "table_ok (heads_by_timestamp h)"
    and "distinct (map snd h) \<Longrightarrow> set (heads_by_timestamp h) = prod.swap ` set h"
  using by_timestamp_step[of "[]" h] unfolding heads_by_timestamp_def by auto

lemma decode_step:
  "heads_get (fold (\<lambda>(ts, a). heads_insert a ts) items []) a = Some t \<Longrightarrow> (t, a) \<in> set items"
  "(t, a) \<in> set items \<Longrightarrow> \<exists>u \<ge> t. heads_get (fold (\<lambda>(ts, a). heads_insert a ts) items []) a = Some u"
proof (induction items arbitrary: t rule: rev_induct)
  case Nil
  { case 1 then show ?case by (simp add: heads_get_def table_get_def) }
  { case 2 then show ?case by simp }
next
  case (snoc x items)
  obtain ts b where x: "x = (ts, b)" by fastforce
  { case 1
    then show ?case using snoc(1) x
      by (auto simp: heads_get_insert max_def split: if_splits option.splits) }
  { case 2
    then show ?case using snoc(2) x
      by (fastforce simp: heads_get_insert max_def split: if_splits option.splits) }
qed

lemma decode_ok: "table_ok (fold (\<lambda>(ts, a). heads_insert a ts) items [])"
  by (induction items rule: rev_induct) (auto simp: heads_insert_ok)

text \<open>The decoded heads are the encoded rows, when those come from a table of heads.\<close>

lemma decode_rows:
  assumes "table_ok h" "set items \<subseteq> prod.swap ` set h"
  shows "heads_get (fold (\<lambda>(ts, a). heads_insert a ts) items []) a = Some t \<longleftrightarrow> (t, a) \<in> set items"
proof
  assume "(t, a) \<in> set items"
  then obtain u where u: "heads_get (fold (\<lambda>(ts, a). heads_insert a ts) items []) a = Some u"
    using decode_step(2) by blast
  then have "(u, a) \<in> set items" by (rule decode_step(1))
  with \<open>(t, a) \<in> set items\<close> have "table_get h a = Some t" "table_get h a = Some u"
    using assms by (auto simp: table_get_Some_iff)
  then show "heads_get (fold (\<lambda>(ts, a). heads_insert a ts) items []) a = Some t" using u by simp
qed (rule decode_step(1))

text \<open>C40. Author heads: with a size limit the encoding never exceeds the limit (if an empty list
  fits), and what decodes from it are heads of the original state.\<close>

theorem heads_encode_within_limit:
  assumes "postcard_ok P" "table_ok h" "length (pc_to_stdvec P []) \<le> s"
  shows "length (heads_encode P h (Some s)) \<le> s \<and>
     (\<exists>h'. heads_decode P (heads_encode P h (Some s)) = Some h' \<and>
           (\<forall>a t. heads_get h' a = Some t \<longrightarrow> heads_get h a = Some t))"
proof -
  let ?rows = "rev (heads_by_timestamp h)"
  let ?items = "take_within P (Some s) [] ?rows"
  have size: "pc_serialized_size P x = length (pc_to_stdvec P x)"
    and parse: "pc_from_bytes P (pc_to_stdvec P x) = Some x" for x
    using assms(1) by (simp_all add: postcard_ok_def)
  have "length (heads_encode P h (Some s)) \<le> s"
    using take_within_size[of P "[]" s ?rows] size assms(3) by (simp add: heads_encode_def)
  moreover obtain n where "?items = [] @ take n ?rows" using take_within_prefix by blast
  then have "set ?items \<subseteq> set (heads_by_timestamp h)" by (metis append_Nil set_rev set_take_subset)
  then have sub: "set ?items \<subseteq> prod.swap ` set h" using by_timestamp_rows(1)[of h] by blast
  moreover have "heads_decode P (heads_encode P h (Some s)) =
      Some (fold (\<lambda>(ts, a). heads_insert a ts) ?items [])"
    by (simp add: heads_decode_def heads_encode_def parse heads_default_def)
  moreover have "heads_get (fold (\<lambda>(ts, a). heads_insert a ts) ?items []) a = Some t \<longrightarrow>
      heads_get h a = Some t" for a t
    using decode_rows[OF assms(2) sub] sub assms(2) by (auto simp: heads_get_def table_get_Some_iff)
  ultimately show ?thesis by blast
qed

text \<open>Without a limit the round trip is exact as long as no two authors share a timestamp; two that
  do are one row of the re-keyed map, and one of them is lost.\<close>

lemma heads_encode_roundtrip:
  assumes "postcard_ok P" "table_ok h" "distinct (map snd h)"
  shows "heads_decode P (heads_encode P h None) = Some h"
proof -
  let ?items = "rev (heads_by_timestamp h)"
  have parse: "pc_from_bytes P (pc_to_stdvec P x) = Some x" for x
    using assms(1) by (simp add: postcard_ok_def)
  have rows: "set ?items = prod.swap ` set h" using by_timestamp_rows(3)[OF assms(3)] by simp
  have "heads_get (fold (\<lambda>(ts, a). heads_insert a ts) ?items []) a = heads_get h a" for a
    by (rule option_ext)
       (use decode_rows[OF assms(2)] rows assms(2) in \<open>auto simp: heads_get_def table_get_Some_iff\<close>)
  then have "fold (\<lambda>(ts, a). heads_insert a ts) ?items [] = h"
    by (intro table_eqI[OF decode_ok assms(2)]) (simp add: heads_get_def)
  then show ?thesis
    by (simp add: heads_decode_def heads_encode_def parse take_within_None heads_default_def)
qed

text \<open>Two authors whose latest entries carry the same timestamp do not both survive the encoding,
  also without a size limit: only the one with the greater id is advertised.\<close>

theorem heads_encode_collision:
  assumes "postcard_ok P" "a < b"
  shows "heads_decode P (heads_encode P [(a, t), (b, t)] None) = Some [(b, t)]"
proof -
  have parse: "pc_from_bytes P (pc_to_stdvec P x) = Some x" for x
    using assms(1) by (simp add: postcard_ok_def)
  show ?thesis
    by (simp add: heads_decode_def heads_encode_def heads_by_timestamp_def parse take_within_None
        heads_default_def heads_insert_def table_get_def)
qed

text \<open>A concrete codec: each head is its timestamp and its id.\<close>

definition heads_to_chunks :: "(u64 \<times> author_id) list \<Rightarrow> bytes list" where
  "heads_to_chunks items = map (\<lambda>(t, a). u64_to_be_bytes t @ a) items"

definition heads_from_chunks :: "bytes list \<Rightarrow> (u64 \<times> author_id) list option" where
  "heads_from_chunks cs = Some (map (\<lambda>c. (word_of_nat (be_value (take 8 c)), drop 8 c)) cs)"

definition heads_postcard :: "(u64 \<times> author_id) list postcard" where
  "heads_postcard = chunk_postcard heads_to_chunks heads_from_chunks"

lemma heads_postcard_ok: "postcard_ok heads_postcard"
  unfolding heads_postcard_def
  by (rule chunk_postcard_ok)
     (simp add: heads_to_chunks_def heads_from_chunks_def comp_def case_prod_unfold u64_to_be_bytes_value map_idI)

theorem heads_encode_within_limit_witness:
  "length (heads_encode heads_postcard [([1], 5), ([2], 7)] (Some 20)) \<le> 20 \<and>
     (\<exists>h'. heads_decode heads_postcard (heads_encode heads_postcard [([1], 5), ([2], 7)] (Some 20)) = Some h' \<and>
           (\<forall>a t. heads_get h' a = Some t \<longrightarrow> heads_get [([1], 5), ([2], 7)] a = Some t))"
  by (rule heads_encode_within_limit[OF heads_postcard_ok])
     (simp_all add: table_ok_def heads_postcard_def chunk_postcard_def heads_to_chunks_def)

theorem heads_encode_collision_witness:
  "heads_decode heads_postcard (heads_encode heads_postcard [([1], 5), ([2], 5)] None) = Some [([2], 5)]"
  by (rule heads_encode_collision[OF heads_postcard_ok]) simp

end
