(* ===== verification/Capabilities.thy ===== *)
theory Capabilities
  imports Keys
begin

text \<open>
  Namespace capabilities of \<^verbatim>\<open>src/src/sync.rs\<close>: write access holds the namespace secret, read access
  only its id. A capability is stored as its kind byte and 32 key bytes.
\<close>

datatype capability_kind = KindWrite | KindRead

datatype capability = Write namespace_secret | Read namespace_id

datatype read_only = ReadOnlyError

datatype capability_error = NamespaceMismatch

datatype raw_capability_error = UnknownKind byte

fun capability_id :: "crypto \<Rightarrow> capability \<Rightarrow> namespace_id" where
  "capability_id C (Write secret) = namespace_id C secret"
| "capability_id C (Read i) = i"

fun capability_secret_key :: "capability \<Rightarrow> read_only + namespace_secret" where
  "capability_secret_key (Write secret) = Inr secret"
| "capability_secret_key (Read i) = Inl ReadOnlyError"

fun kind_of_capability :: "capability \<Rightarrow> capability_kind" where
  "kind_of_capability (Write secret) = KindWrite"
| "kind_of_capability (Read i) = KindRead"

text \<open>The kind's \<open>repr(u8)\<close> and its checked inverse.\<close>

fun kind_to_u8 :: "capability_kind \<Rightarrow> byte" where
  "kind_to_u8 KindWrite = 1"
| "kind_to_u8 KindRead = 2"

definition kind_from_u8 :: "byte \<Rightarrow> raw_capability_error + capability_kind" where
  "kind_from_u8 b = (if b = 1 then Inr KindWrite else if b = 2 then Inr KindRead else Inl (UnknownKind b))"

definition capability_raw :: "capability \<Rightarrow> byte \<times> bytes" where
  "capability_raw c =
     (kind_to_u8 (kind_of_capability c),
      case c of Write secret \<Rightarrow> namespace_to_bytes secret | Read i \<Rightarrow> i)"

definition capability_from_raw :: "byte \<Rightarrow> bytes \<Rightarrow> raw_capability_error + capability" where
  "capability_from_raw kind b =
     rbind (kind_from_u8 kind) (\<lambda>k. Inr (case k of
         KindWrite \<Rightarrow> Write (namespace_from_bytes b)
       | KindRead \<Rightarrow> Read b))"

text \<open>\<open>merge\<close> returns the changed flag and leaves the merged capability in \<open>self\<close>.\<close>

definition capability_merge ::
  "crypto \<Rightarrow> capability \<Rightarrow> capability \<Rightarrow> (capability_error + bool) \<times> capability" where
  "capability_merge C self other =
     (if capability_id C other \<noteq> capability_id C self then (Inl NamespaceMismatch, self)
      else (case (self, other) of
              (Read _, Write _) \<Rightarrow> (Inr True, other)
            | _ \<Rightarrow> (Inr False, self)))"

section \<open>Properties\<close>

lemma capability_raw_roundtrip: "case_prod capability_from_raw (capability_raw c) = Inr c"
  by (cases c) (simp_all add: capability_raw_def capability_from_raw_def kind_from_u8_def
      namespace_from_bytes_def namespace_to_bytes_def)

lemma capability_from_raw_Inr:
  "capability_from_raw k b = Inr c \<Longrightarrow> capability_raw c = (k, b)"
  by (auto simp: capability_from_raw_def kind_from_u8_def capability_raw_def rbind_Inr_iff
      namespace_from_bytes_def namespace_to_bytes_def split: if_splits)

lemma capability_merge_id: "capability_id C (snd (capability_merge C a b)) = capability_id C a"
  by (cases a; cases b) (auto simp: capability_merge_def)

text \<open>Merging never loses write access, and a merge of a write capability for the same namespace
  always ends in write access.\<close>

lemma capability_merge_kind:
  assumes "capability_id C b = capability_id C a"
  shows "kind_of_capability (snd (capability_merge C a b)) =
     (if kind_of_capability a = KindWrite \<or> kind_of_capability b = KindWrite then KindWrite else KindRead)"
  using assms by (cases a; cases b) (auto simp: capability_merge_def)

lemma capability_merge_changed:
  "fst (capability_merge C a b) = Inr True \<longleftrightarrow>
     capability_id C b = capability_id C a \<and> kind_of_capability a = KindRead \<and> kind_of_capability b = KindWrite"
  by (cases a; cases b) (auto simp: capability_merge_def)

end
