(* ===== verification/Fs_Store.thy ===== *)
theory Fs_Store
  imports Heads Capabilities
begin

text \<open>
  The replica store, \<^verbatim>\<open>src/src/store/fs.rs\<close> over the tables of \<^verbatim>\<open>src/src/store/fs/tables.rs\<close>.

  A database file is the contents of its tables; a read transaction is a copy of them, a write
  transaction a copy that a commit writes back. The store keeps at most one transaction open and
  reuses it. The monotonic clock is the field \<open>st_clock\<close>: its n-th reading, in nanoseconds; \<open>st_ticks\<close>
  counts the readings taken. Input/output errors of the database are not modelled: every table
  operation succeeds.
\<close>

section \<open>Tables\<close>

type_synonym records_value = "u64 \<times> bytes \<times> bytes \<times> u64 \<times> bytes"
type_synonym records_table = "(records_id, records_value) table"

record tables =
  t_records :: records_table
  t_records_by_key :: "(by_key_id, unit) table"
  t_namespaces :: "(bytes, byte \<times> bytes) table"
  t_latest_per_author :: "(bytes \<times> bytes, u64 \<times> bytes) table"
  t_namespace_peers :: "(bytes, u64 \<times> bytes) multimap"
  t_download_policy :: "(bytes, bytes) table"
  t_authors :: "(bytes, bytes) table"

definition tables_empty :: tables where
  "tables_empty = \<lparr>t_records = [], t_records_by_key = [], t_namespaces = [], t_latest_per_author = [],
     t_namespace_peers = [], t_download_policy = [], t_authors = []\<rparr>"

record transaction_and_tables =
  tx_tables :: tables
  tx_since :: nat
  tx_dirty :: bool

definition transaction_new :: "tables \<Rightarrow> nat \<Rightarrow> transaction_and_tables" where
  "transaction_new t now = \<lparr>tx_tables = t, tx_since = now, tx_dirty = False\<rparr>"

definition with_tables_mut ::
  "(tables, 'e, 'a) op \<Rightarrow> (transaction_and_tables, 'e, 'a) op" where
  "with_tables_mut f w =
     (case f (tx_tables w) of (r, t) \<Rightarrow> (r, w\<lparr>tx_tables := t, tx_dirty := True\<rparr>))"

datatype current_transaction = NoTransaction | ReadTransaction tables | WriteTransaction transaction_and_tables

section \<open>The store\<close>

record fs_store =
  st_db :: tables
  st_transaction :: current_transaction
  st_open_replicas :: "namespace_id set"
  st_pubkeys :: mem_public_key_store
  st_clock :: "nat \<Rightarrow> nat"
  st_ticks :: nat

text \<open>\<open>Store::memory\<close>: an empty database with all tables created.\<close>

definition store_memory :: "(nat \<Rightarrow> nat) \<Rightarrow> fs_store" where
  "store_memory clock = \<lparr>st_db = tables_empty, st_transaction = NoTransaction, st_open_replicas = {},
     st_pubkeys = Map.empty, st_clock = clock, st_ticks = 0\<rparr>"

definition instant_now :: "fs_store \<Rightarrow> nat \<times> fs_store" where
  "instant_now s = (st_clock s (st_ticks s), s\<lparr>st_ticks := Suc (st_ticks s)\<rparr>)"

text \<open>\<open>MAX_COMMIT_DELAY\<close> of \<open>actor.rs\<close>, half a second in nanoseconds.\<close>

definition MAX_COMMIT_DELAY :: nat where
  "MAX_COMMIT_DELAY = 500000000"

definition finish_write :: "transaction_and_tables \<Rightarrow> fs_store \<Rightarrow> fs_store" where
  "finish_write w s = (if \<not> tx_dirty w then s else s\<lparr>st_db := tx_tables w\<rparr>)"

text \<open>\<open>std::mem::take\<close> leaves no transaction behind.\<close>

definition take_transaction :: "fs_store \<Rightarrow> current_transaction \<times> fs_store" where
  "take_transaction s = (st_transaction s, s\<lparr>st_transaction := NoTransaction\<rparr>)"

definition flush :: "fs_store \<Rightarrow> fs_store" where
  "flush s = (case take_transaction s of (tx, s') \<Rightarrow>
     (case tx of WriteTransaction w \<Rightarrow> finish_write w s' | _ \<Rightarrow> s'))"

definition snapshot :: "fs_store \<Rightarrow> tables \<times> fs_store" where
  "snapshot s = (case take_transaction s of (tx, s') \<Rightarrow>
     (case tx of
        NoTransaction \<Rightarrow> (st_db s', s'\<lparr>st_transaction := ReadTransaction (st_db s')\<rparr>)
      | WriteTransaction w \<Rightarrow>
          (let s'' = finish_write w s' in (st_db s'', s''\<lparr>st_transaction := ReadTransaction (st_db s'')\<rparr>))
      | ReadTransaction t \<Rightarrow> (t, s'\<lparr>st_transaction := ReadTransaction t\<rparr>)))"

definition snapshot_owned :: "fs_store \<Rightarrow> tables \<times> fs_store" where
  "snapshot_owned s = (let s' = flush s in (st_db s', s'))"

definition begin_write :: "fs_store \<Rightarrow> transaction_and_tables \<times> fs_store" where
  "begin_write s = (case instant_now s of (now, s') \<Rightarrow> (transaction_new (st_db s') now, s'))"

definition current_write_transaction :: "fs_store \<Rightarrow> transaction_and_tables \<times> fs_store" where
  "current_write_transaction s = (case take_transaction s of (tx, s') \<Rightarrow>
     (case tx of
        WriteTransaction w \<Rightarrow>
          (case instant_now s' of (now, s'') \<Rightarrow>
             if now - tx_since w \<le> MAX_COMMIT_DELAY then (w, s'')
             else begin_write (finish_write w s''))
      | _ \<Rightarrow> begin_write s'))"

definition store_tables :: "fs_store \<Rightarrow> tables \<times> fs_store" where
  "store_tables s = (case current_write_transaction s of (w, s') \<Rightarrow>
     (tx_tables w, s'\<lparr>st_transaction := WriteTransaction w\<rparr>))"

definition modify :: "(tables, 'e, 'a) op \<Rightarrow> (fs_store, 'e, 'a) op" where
  "modify f s = (case current_write_transaction s of (w, s') \<Rightarrow>
     (case with_tables_mut f w of (r, w') \<Rightarrow> (r, s'\<lparr>st_transaction := WriteTransaction w'\<rparr>)))"

section \<open>Rows and entries\<close>

definition into_entry :: "records_id \<times> records_value \<Rightarrow> signed_entry" where
  "into_entry row = (case row of ((namespace, author, key), (timestamp, namespace_sig, author_sig, len, hash)) \<Rightarrow>
     signed_entry_new (entry_signature_from_parts namespace_sig author_sig)
       (entry_new (rid_new namespace author key) (record_new hash len timestamp)))"

text \<open>The row \<open>entry_put\<close> writes for an entry.\<close>

definition records_row :: "signed_entry \<Rightarrow> records_id \<times> records_value" where
  "records_row e =
     ((rid_namespace (se_id e), rid_author (se_id e), rid_key (se_id e)),
      (entry_timestamp (se_entry e), namespace_signature (se_signature e), author_signature (se_signature e),
       entry_content_len (se_entry e), entry_content_hash (se_entry e)))"

datatype store_error =
    ReplicaNotClosed
  | DocumentNotCreated
  | ForeignBoundary
  | BadCapability raw_capability_error
  | MergeFailed capability_error
  | ClockBeforeEpoch
  | PolicyDecode

datatype open_error = NotFound | OpenOther store_error

definition parse_capability :: "byte \<times> bytes \<Rightarrow> store_error + capability" where
  "parse_capability raw = map_sum BadCapability id (capability_from_raw (fst raw) (snd raw))"

definition signed_entry_is_empty :: "crypto \<Rightarrow> signed_entry \<Rightarrow> bool" where
  "signed_entry_is_empty C e = record_is_empty C (se_record e)"

definition table_get_exact ::
  "crypto \<Rightarrow> records_table \<Rightarrow> namespace_id \<Rightarrow> author_id \<Rightarrow> bytes \<Rightarrow> bool \<Rightarrow> signed_entry option" where
  "table_get_exact C t namespace author key include_empty =
     (let id = (namespace, author, key) in
      case table_get t id of
        None \<Rightarrow> None
      | Some v \<Rightarrow> (let e = into_entry (id, v) in
          if include_empty \<or> \<not> signed_entry_is_empty C e then Some e else None))"

text \<open>The loop over the shrinking key; the results are reversed at the end, so the shortest parent
  comes first.\<close>

function parents_loop ::
  "crypto \<Rightarrow> records_table \<Rightarrow> namespace_id \<Rightarrow> author_id \<Rightarrow> bytes \<Rightarrow> signed_entry list \<Rightarrow> signed_entry list" where
  "parents_loop C t namespace author key res =
     (if key = [] then res
      else parents_loop C t namespace author (butlast key)
             (case table_get_exact C t namespace author key False of
                Some e \<Rightarrow> res @ [e] | None \<Rightarrow> res))"
  by pat_completeness auto
termination by (relation "measure (\<lambda>(_, _, _, _, key, _). length key)") auto

declare parents_loop.simps [simp del]

definition parents ::
  "crypto \<Rightarrow> records_table \<Rightarrow> namespace_id \<Rightarrow> author_id \<Rightarrow> bytes \<Rightarrow> signed_entry list" where
  "parents C t namespace author key = rev (parents_loop C t namespace author key [])"

section \<open>Replicas and authors\<close>

definition import_namespace_tables ::
  "crypto \<Rightarrow> capability \<Rightarrow> (tables, store_error, import_namespace_outcome) op" where
  "import_namespace_tables C cap t =
     (let put = (\<lambda>c outcome. (Inr outcome,
                   t\<lparr>t_namespaces := table_insert (capability_id C c) (capability_raw c) (t_namespaces t)\<rparr>))
      in case table_get (t_namespaces t) (capability_id C cap) of
           None \<Rightarrow> put cap ImportInserted
         | Some raw \<Rightarrow>
             (case parse_capability raw of
                Inl e \<Rightarrow> (Inl e, t)
              | Inr existing \<Rightarrow>
                  (case capability_merge C existing cap of
                     (Inl e, _) \<Rightarrow> (Inl (MergeFailed e), t)
                   | (Inr changed, merged) \<Rightarrow>
                       put merged (if changed then ImportUpgraded else ImportNoChange))))"

definition import_namespace ::
  "crypto \<Rightarrow> capability \<Rightarrow> (fs_store, store_error, import_namespace_outcome) op" where
  "import_namespace C cap = modify (import_namespace_tables C cap)"

text \<open>\<open>load_replica_info\<close> returns the capability; the \<open>ReplicaInfo\<close> built from it starts without
  subscribers and callbacks.\<close>

definition load_replica_info :: "crypto \<Rightarrow> namespace_id \<Rightarrow> (fs_store, open_error, capability) op" where
  "load_replica_info C ns s =
     (case store_tables s of (t, s') \<Rightarrow>
        (case table_get (t_namespaces t) ns of
           None \<Rightarrow> (Inl NotFound, s')
         | Some (raw_kind, raw_bytes) \<Rightarrow>
             (case capability_from_raw raw_kind raw_bytes of
                Inl e \<Rightarrow> (Inl (OpenOther (BadCapability e)), s')
              | Inr cap \<Rightarrow>
                  (Inr cap, s'\<lparr>st_open_replicas := insert (capability_id C cap) (st_open_replicas s')\<rparr>))))"

definition open_replica :: "crypto \<Rightarrow> namespace_id \<Rightarrow> (fs_store, open_error, capability) op" where
  "open_replica C ns = load_replica_info C ns"

definition new_replica :: "crypto \<Rightarrow> namespace_secret \<Rightarrow> (fs_store, open_error, capability) op" where
  "new_replica C secret =
     op_bind (op_map_err OpenOther (import_namespace C (Write secret)))
       (\<lambda>_. open_replica C (namespace_id C secret))"

definition close_replica :: "namespace_id \<Rightarrow> fs_store \<Rightarrow> fs_store" where
  "close_replica ns s = s\<lparr>st_open_replicas := st_open_replicas s - {ns}\<rparr>"

definition list_namespaces ::
  "crypto \<Rightarrow> fs_store \<Rightarrow> (store_error + namespace_id \<times> capability_kind) list \<times> fs_store" where
  "list_namespaces C s =
     (case snapshot s of (t, s') \<Rightarrow>
        (map (\<lambda>(_, raw). rbind (parse_capability raw) (\<lambda>cap.
            Inr (capability_id C cap, kind_of_capability cap))) (t_namespaces t), s'))"

definition get_author :: "author_id \<Rightarrow> fs_store \<Rightarrow> author option \<times> fs_store" where
  "get_author i s = (case store_tables s of (t, s') \<Rightarrow>
     (map_option author_from_bytes (table_get (t_authors t) i), s'))"

definition import_author :: "crypto \<Rightarrow> author \<Rightarrow> (fs_store, store_error, unit) op" where
  "import_author C a = modify (\<lambda>t.
     (Inr (), t\<lparr>t_authors := table_insert (author_id C a) (author_to_bytes a) (t_authors t)\<rparr>))"

definition delete_author :: "author_id \<Rightarrow> (fs_store, store_error, unit) op" where
  "delete_author i = modify (\<lambda>t. (Inr (), t\<lparr>t_authors := table_remove i (t_authors t)\<rparr>))"

definition new_author :: "crypto \<Rightarrow> bytes \<Rightarrow> (fs_store, store_error, author) op" where
  "new_author C rng_bytes =
     (let a = author_new rng_bytes in op_bind (import_author C a) (\<lambda>_. op_return a))"

definition list_authors :: "fs_store \<Rightarrow> author list \<times> fs_store" where
  "list_authors s = (case snapshot s of (t, s') \<Rightarrow>
     (map (\<lambda>(_, v). author_from_bytes v) (t_authors t), s'))"

definition remove_replica_tables :: "namespace_id \<Rightarrow> (tables, store_error, unit) op" where
  "remove_replica_tables ns t =
     (Inr (), t\<lparr>
        t_records := table_retain_in (records_bounds_namespace ns) (\<lambda>_ _. False) (t_records t),
        t_records_by_key := table_retain_in (by_key_bounds_namespace ns) (\<lambda>_ _. False) (t_records_by_key t),
        t_namespaces := table_remove ns (t_namespaces t),
        t_namespace_peers := multimap_remove_all ns (t_namespace_peers t),
        t_download_policy := table_remove ns (t_download_policy t)\<rparr>)"

definition remove_replica :: "namespace_id \<Rightarrow> (fs_store, store_error, unit) op" where
  "remove_replica ns s =
     (if ns \<in> st_open_replicas s then (Inl ReplicaNotClosed, s)
      else modify (remove_replica_tables ns) s)"

section \<open>Entries\<close>

definition get_exact ::
  "crypto \<Rightarrow> namespace_id \<Rightarrow> author_id \<Rightarrow> bytes \<Rightarrow> bool \<Rightarrow> fs_store \<Rightarrow> signed_entry option \<times> fs_store" where
  "get_exact C ns author key include_empty s = (case store_tables s of (t, s') \<Rightarrow>
     (table_get_exact C (t_records t) ns author key include_empty, s'))"

definition retract_entry_tables ::
  "namespace_id \<Rightarrow> author_id \<Rightarrow> bytes \<Rightarrow> u64 \<Rightarrow> (tables, store_error, bool) op" where
  "retract_entry_tables ns author key up_to t =
     (case table_get (t_records t) (ns, author, key) of
        None \<Rightarrow> (Inr False, t)
      | Some v \<Rightarrow>
          if up_to < fst v then (Inr False, t)
          else (Inr True, t\<lparr>t_records := table_remove (ns, author, key) (t_records t),
                            t_records_by_key := table_remove (ns, key, author) (t_records_by_key t)\<rparr>))"

definition retract_entry ::
  "namespace_id \<Rightarrow> author_id \<Rightarrow> bytes \<Rightarrow> u64 \<Rightarrow> (fs_store, store_error, bool) op" where
  "retract_entry ns author key up_to = modify (retract_entry_tables ns author key up_to)"

definition content_hashes :: "fs_store \<Rightarrow> bytes list \<times> fs_store" where
  "content_hashes s = (case snapshot_owned s of (t, s') \<Rightarrow>
     (map (\<lambda>row. entry_content_hash (se_entry (into_entry row))) (t_records t), s'))"

definition latest_iterator :: "tables \<Rightarrow> namespace_id \<Rightarrow> (author_id \<times> u64 \<times> bytes) list" where
  "latest_iterator t ns =
     map (\<lambda>((_, author), (timestamp, key)). (author, timestamp, key))
       (table_range (Included (ns, replicate 32 0), Included (ns, replicate 32 255)) (t_latest_per_author t))"

definition get_latest_for_each_author ::
  "namespace_id \<Rightarrow> fs_store \<Rightarrow> (author_id \<times> u64 \<times> bytes) list \<times> fs_store" where
  "get_latest_for_each_author ns s = (case store_tables s of (t, s') \<Rightarrow> (latest_iterator t ns, s'))"

definition has_news_for_us :: "namespace_id \<Rightarrow> author_heads \<Rightarrow> fs_store \<Rightarrow> nat option \<times> fs_store" where
  "has_news_for_us ns heads s = (case get_latest_for_each_author ns s of (latest, s') \<Rightarrow>
     (heads_has_news_for heads
        (fold (\<lambda>(author, timestamp, _). heads_insert author timestamp) latest heads_default), s'))"

section \<open>Peers and download policies\<close>

text \<open>The scan after the oldest row: how many rows there are, and the first row of this peer.\<close>

fun scan_peers :: "bytes \<Rightarrow> (u64 \<times> bytes) list \<Rightarrow> nat \<times> u64 option \<Rightarrow> nat \<times> u64 option" where
  "scan_peers peer [] acc = acc"
| "scan_peers peer ((nanos, p) # rest) (len, prev) =
     scan_peers peer rest (len + 1, if prev = None \<and> p = peer then Some nanos else prev)"

definition register_peer_tables :: "namespace_id \<Rightarrow> bytes \<Rightarrow> u64 \<Rightarrow> (tables, store_error, unit) op" where
  "register_peer_tables ns peer nanos t =
     (if table_get (t_namespaces t) ns = None then (Inl DocumentNotCreated, t)
      else let peers = t_namespace_peers t;
               set_peers = (\<lambda>p. (Inr (), t\<lparr>t_namespace_peers := p\<rparr>))
           in case multimap_get peers ns of
                [] \<Rightarrow> set_peers (multimap_insert ns (nanos, peer) peers)
              | (oldest_nanos, oldest_peer) # rest \<Rightarrow>
                  if oldest_peer = peer
                  then set_peers (multimap_insert ns (nanos, peer)
                         (multimap_remove ns (oldest_nanos, oldest_peer) peers))
                  else (case scan_peers peer rest (1, None) of
                      (len, Some prev_nanos) \<Rightarrow>
                        set_peers (multimap_insert ns (nanos, peer) (multimap_remove ns (prev_nanos, peer) peers))
                    | (len, None) \<Rightarrow>
                        let inserted = multimap_insert ns (nanos, peer) peers
                        in if PEERS_PER_DOC_CACHE_SIZE < len + 1
                           then set_peers (multimap_remove ns (oldest_nanos, oldest_peer) inserted)
                           else set_peers inserted))"

text \<open>The wall clock reading is an argument: the nanoseconds since the epoch, or \<open>None\<close> before it.\<close>

definition register_useful_peer ::
  "nat option \<Rightarrow> namespace_id \<Rightarrow> bytes \<Rightarrow> (fs_store, store_error, unit) op" where
  "register_useful_peer since_epoch ns peer s =
     (case since_epoch of
        None \<Rightarrow> (Inl ClockBeforeEpoch, s)
      | Some nanos \<Rightarrow> modify (register_peer_tables ns peer (word_of_nat nanos)) s)"

definition get_sync_peers :: "namespace_id \<Rightarrow> fs_store \<Rightarrow> bytes list option \<times> fs_store" where
  "get_sync_peers ns s = (case store_tables s of (t, s') \<Rightarrow>
     (let peers = map snd (rev (multimap_get (t_namespace_peers t) ns))
      in (if peers = [] then None else Some peers, s')))"

definition set_download_policy ::
  "download_policy postcard \<Rightarrow> namespace_id \<Rightarrow> download_policy \<Rightarrow> (fs_store, store_error, unit) op" where
  "set_download_policy P ns policy = modify (\<lambda>t.
     if table_get (t_namespaces t) ns = None then (Inl DocumentNotCreated, t)
     else (Inr (), t\<lparr>t_download_policy := table_insert ns (pc_to_stdvec P policy) (t_download_policy t)\<rparr>))"

definition get_download_policy ::
  "download_policy postcard \<Rightarrow> namespace_id \<Rightarrow> (fs_store, store_error, download_policy) op" where
  "get_download_policy P ns s = (case store_tables s of (t, s') \<Rightarrow>
     (case table_get (t_download_policy t) ns of
        None \<Rightarrow> (Inr download_policy_default, s')
      | Some value \<Rightarrow>
          (case pc_from_bytes P value of
             Some policy \<Rightarrow> (Inr policy, s')
           | None \<Rightarrow> (Inl PolicyDecode, s'))))"

definition store_public_key :: "crypto \<Rightarrow> bytes \<Rightarrow> (fs_store, key_parsing_error, bytes) op" where
  "store_public_key C i s = (case mem_public_key C i (st_pubkeys s) of (r, m) \<Rightarrow> (r, s\<lparr>st_pubkeys := m\<rparr>))"

end
