(* ===== verification/Fs_Laws.thy ===== *)
theory Fs_Laws
  imports Fs_Store
begin

text \<open>
  The laws of the store: what the transaction handling guarantees (\<open>visible\<close> is the state a client
  of the store sees, \<open>st_db\<close> the state a reopened file has), the well-formedness of the tables and
  its preservation, and the functional behaviour of the operations on tables.
\<close>

section \<open>The visible state and transactions\<close>

definition visible :: "fs_store \<Rightarrow> tables" where
  "visible s = (case st_transaction s of WriteTransaction w \<Rightarrow> tx_tables w | _ \<Rightarrow> st_db s)"

definition tx_ok :: "fs_store \<Rightarrow> bool" where
  "tx_ok s \<longleftrightarrow>
     (case st_transaction s of
        NoTransaction \<Rightarrow> True
      | ReadTransaction t \<Rightarrow> t = st_db s
      | WriteTransaction w \<Rightarrow> tx_dirty w \<or> tx_tables w = st_db s)"

text \<open>What no transaction step touches.\<close>

definition same_rest :: "fs_store \<Rightarrow> fs_store \<Rightarrow> bool" where
  "same_rest s s' \<longleftrightarrow> st_open_replicas s' = st_open_replicas s \<and> st_pubkeys s' = st_pubkeys s \<and>
     st_clock s' = st_clock s"

lemmas store_unfold = visible_def tx_ok_def same_rest_def take_transaction_def finish_write_def
  flush_def snapshot_def snapshot_owned_def instant_now_def begin_write_def transaction_new_def Let_def

lemma flush_laws:
  assumes "tx_ok s"
  shows "visible (flush s) = visible s" "st_db (flush s) = visible s"
    "st_transaction (flush s) = NoTransaction" "tx_ok (flush s)" "same_rest s (flush s)"
  using assms by (auto simp: store_unfold split: current_transaction.splits)

lemma snapshot_laws:
  assumes "tx_ok s" "snapshot s = (t, s')"
  shows "t = visible s" "visible s' = visible s" "st_db s' = visible s" "tx_ok s'" "same_rest s s'"
  using assms by (auto simp: store_unfold split: current_transaction.splits if_splits)

lemma snapshot_owned_laws:
  assumes "tx_ok s" "snapshot_owned s = (t, s')"
  shows "t = visible s" "visible s' = visible s" "st_db s' = visible s" "tx_ok s'" "same_rest s s'"
  using assms flush_laws[OF assms(1)] by (auto simp: snapshot_owned_def Let_def)

lemma current_write_transaction_laws:
  assumes "tx_ok s" "current_write_transaction s = (w, s')"
  shows "tx_tables w = visible s" "tx_dirty w \<or> tx_tables w = st_db s'" "same_rest s s'"
    "st_db s' = st_db s \<or> st_db s' = visible s"
  using assms
  by (auto simp: current_write_transaction_def store_unfold split: current_transaction.splits if_splits)

lemma store_tables_laws:
  assumes "tx_ok s" "store_tables s = (t, s')"
  shows "t = visible s" "visible s' = visible s" "tx_ok s'" "same_rest s s'"
    "st_db s' = st_db s \<or> st_db s' = visible s"
proof -
  obtain w u where w: "current_write_transaction s = (w, u)" by fastforce
  note laws = current_write_transaction_laws[OF assms(1) w]
  have s': "t = tx_tables w" "s' = u\<lparr>st_transaction := WriteTransaction w\<rparr>"
    using assms(2) w by (auto simp: store_tables_def)
  show "t = visible s" "visible s' = visible s" "tx_ok s'" "same_rest s s'"
    "st_db s' = st_db s \<or> st_db s' = visible s"
    using laws by (auto simp: s' visible_def tx_ok_def same_rest_def)
qed

lemma modify_laws:
  assumes "tx_ok s" "modify f s = (r, s')"
  shows "f (visible s) = (r, visible s')" "tx_ok s'" "same_rest s s'"
    "st_db s' = st_db s \<or> st_db s' = visible s"
proof -
  obtain w u where w: "current_write_transaction s = (w, u)" by fastforce
  note laws = current_write_transaction_laws[OF assms(1) w]
  obtain t where t: "f (tx_tables w) = (r, t)"
    "s' = u\<lparr>st_transaction := WriteTransaction (w\<lparr>tx_tables := t, tx_dirty := True\<rparr>)\<rparr>"
    using assms(2) w by (auto simp: modify_def with_tables_mut_def split: prod.splits)
  show "f (visible s) = (r, visible s')" "tx_ok s'" "same_rest s s'"
    "st_db s' = st_db s \<or> st_db s' = visible s"
    using laws t(1) by (auto simp: t(2) visible_def tx_ok_def same_rest_def)
qed

text \<open>A modification seen from the visible state.\<close>

lemma modify_eq:
  assumes "tx_ok s" "f (visible s) = (r, t)"
  obtains s' where "modify f s = (r, s')" "visible s' = t" "tx_ok s'" "same_rest s s'"
    "st_db s' = st_db s \<or> st_db s' = visible s"
proof -
  obtain r' s' where m: "modify f s = (r', s')" by fastforce
  show thesis using that[of s'] modify_laws[OF assms(1) m] m assms(2) by auto
qed

lemma store_tables_eq:
  assumes "tx_ok s"
  obtains s' where "store_tables s = (visible s, s')" "visible s' = visible s" "tx_ok s'" "same_rest s s'"
proof -
  obtain t s' where m: "store_tables s = (t, s')" by fastforce
  show thesis using that[of s'] store_tables_laws[OF assms m] m by auto
qed

section \<open>Well-formed tables\<close>

definition records_id_ok :: "records_id \<Rightarrow> bool" where
  "records_id_ok i \<longleftrightarrow> length (fst i) = 32 \<and> length (fst (snd i)) = 32"

definition by_key_of :: "records_id \<Rightarrow> by_key_id" where
  "by_key_of i = (case i of (n, a, k) \<Rightarrow> (n, k, a))"

definition by_key_id_ok :: "by_key_id \<Rightarrow> bool" where
  "by_key_id_ok i \<longleftrightarrow> length (fst i) = 32 \<and> length (snd (snd i)) = 32"

definition records_ok :: "records_table \<Rightarrow> bool" where
  "records_ok rs \<longleftrightarrow> table_ok rs \<and>
     (\<forall>row \<in> set rs. records_id_ok (fst row))"

text \<open>The by-key index may hold stale rows, but no record is missing from it.\<close>

definition index_ok :: "records_table \<Rightarrow> (by_key_id, unit) table \<Rightarrow> bool" where
  "index_ok rs ix \<longleftrightarrow> table_ok ix \<and>
     (\<forall>row \<in> set ix. by_key_id_ok (fst row)) \<and>
     (\<forall>row \<in> set rs. (by_key_of (fst row), ()) \<in> set ix)"

definition namespaces_ok :: "crypto \<Rightarrow> (bytes, byte \<times> bytes) table \<Rightarrow> bool" where
  "namespaces_ok C ns \<longleftrightarrow> table_ok ns \<and>
     (\<forall>(n, raw) \<in> set ns. \<exists>cap. parse_capability raw = Inr cap \<and> capability_id C cap = n)"

definition latest_ok :: "(bytes \<times> bytes, u64 \<times> bytes) table \<Rightarrow> bool" where
  "latest_ok l \<longleftrightarrow> table_ok l \<and> (\<forall>row \<in> set l. length (fst (fst row)) = 32 \<and> length (snd (fst row)) = 32)"

definition peers_ok :: "(bytes, u64 \<times> bytes) multimap \<Rightarrow> bool" where
  "peers_ok p \<longleftrightarrow> table_ok p \<and> (\<forall>ns. distinct (map snd (multimap_get p ns)) \<and>
     length (multimap_get p ns) \<le> PEERS_PER_DOC_CACHE_SIZE)"

definition tables_ok :: "crypto \<Rightarrow> tables \<Rightarrow> bool" where
  "tables_ok C t \<longleftrightarrow> records_ok (t_records t) \<and> index_ok (t_records t) (t_records_by_key t) \<and>
     namespaces_ok C (t_namespaces t) \<and> latest_ok (t_latest_per_author t) \<and>
     peers_ok (t_namespace_peers t) \<and> table_ok (t_download_policy t) \<and> table_ok (t_authors t)"

lemma tables_ok_empty: "tables_ok C tables_empty"
  by (simp add: tables_ok_def tables_empty_def records_ok_def index_ok_def namespaces_ok_def latest_ok_def
      peers_ok_def multimap_get_def)

lemma records_ok_filter: "records_ok rs \<Longrightarrow> records_ok (filter p rs)"
  by (auto simp: records_ok_def)

lemma index_ok_filter:
  assumes "index_ok rs ix" "\<And>row. row \<in> set rs \<Longrightarrow> p row \<Longrightarrow> q (by_key_of (fst row), ())"
  shows "index_ok (filter p rs) (filter q ix)"
  using assms unfolding index_ok_def by auto

lemma records_ok_insert: "records_ok rs \<Longrightarrow> records_id_ok i \<Longrightarrow> records_ok (table_insert i v rs)"
  by (auto simp: records_ok_def table_insert_ok set_table_insert)

lemma index_ok_insert:
  assumes "records_ok rs" "index_ok rs ix" "records_id_ok i"
  shows "index_ok (table_insert i v rs) (table_insert (by_key_of i) () ix)"
proof -
  have "table_ok rs" "table_ok ix" using assms by (auto simp: records_ok_def index_ok_def)
  then show ?thesis
    using assms(2,3) unfolding index_ok_def
    by (auto simp: table_insert_ok set_table_insert by_key_id_ok_def records_id_ok_def by_key_of_def
        split: prod.splits)
qed

section \<open>Namespaces\<close>

lemma parse_capability_raw [simp]: "parse_capability (capability_raw c) = Inr c"
  using capability_raw_roundtrip[of c] by (simp add: parse_capability_def case_prod_unfold)

lemma namespaces_ok_insert:
  "namespaces_ok C ns \<Longrightarrow> namespaces_ok C (table_insert (capability_id C c) (capability_raw c) ns)"
  by (auto simp: namespaces_ok_def table_insert_ok set_table_insert)

lemma namespaces_ok_get:
  assumes "namespaces_ok C ns" "table_get ns n = Some raw"
  obtains cap where "parse_capability raw = Inr cap" "capability_id C cap = n"
  using assms by (force simp: namespaces_ok_def table_get_Some_iff)

text \<open>What the capability table holds for a namespace.\<close>

definition stored_capability :: "tables \<Rightarrow> namespace_id \<Rightarrow> capability option" where
  "stored_capability t ns =
     (case table_get (t_namespaces t) ns of
        None \<Rightarrow> None
      | Some raw \<Rightarrow> (case parse_capability raw of Inl _ \<Rightarrow> None | Inr c \<Rightarrow> Some c))"

lemma import_namespace_tables_eq:
  assumes "namespaces_ok C (t_namespaces t)"
  shows "import_namespace_tables C cap t =
     (case stored_capability t (capability_id C cap) of
        None \<Rightarrow> (Inr ImportInserted,
          t\<lparr>t_namespaces := table_insert (capability_id C cap) (capability_raw cap) (t_namespaces t)\<rparr>)
      | Some old \<Rightarrow>
          (Inr (if fst (capability_merge C old cap) = Inr True then ImportUpgraded else ImportNoChange),
           t\<lparr>t_namespaces := table_insert (capability_id C cap)
               (capability_raw (snd (capability_merge C old cap))) (t_namespaces t)\<rparr>))"
proof (cases "table_get (t_namespaces t) (capability_id C cap)")
  case None
  then show ?thesis by (simp add: import_namespace_tables_def stored_capability_def Let_def)
next
  case (Some raw)
  obtain old where old: "parse_capability raw = Inr old" "capability_id C old = capability_id C cap"
    by (rule namespaces_ok_get[OF assms Some])
  obtain b where "capability_merge C old cap = (Inr b, snd (capability_merge C old cap))"
    using old(2) by (cases old; cases cap) (auto simp: capability_merge_def)
  then show ?thesis using Some old capability_merge_id[of C old cap]
    by (auto simp: import_namespace_tables_def stored_capability_def Let_def split: prod.splits)
qed

lemma import_namespace_tables_ok:
  assumes "tables_ok C t" "import_namespace_tables C cap t = (r, t')"
  shows "tables_ok C t'"
proof -
  have ns: "namespaces_ok C (t_namespaces t)" using assms(1) by (simp add: tables_ok_def)
  have "\<exists>c. t' = t \<or> t' = t\<lparr>t_namespaces := table_insert (capability_id C c) (capability_raw c) (t_namespaces t)\<rparr>"
    using assms(2)
    by (auto simp: import_namespace_tables_def Let_def split: option.splits sum.splits prod.splits)
  then show ?thesis using assms(1) namespaces_ok_insert[OF ns] by (auto simp: tables_ok_def)
qed

section \<open>Removing a replica, retracting an entry\<close>

lemma remove_replica_tables_ok:
  assumes "tables_ok C t" "length ns = 32" "remove_replica_tables ns t = (r, t')"
  shows "tables_ok C t'"
proof -
  have t': "t' = t\<lparr>
      t_records := filter (\<lambda>row. \<not> in_bounds (records_bounds_namespace ns) (fst row)) (t_records t),
      t_records_by_key := filter (\<lambda>row. \<not> in_bounds (by_key_bounds_namespace ns) (fst row)) (t_records_by_key t),
      t_namespaces := table_remove ns (t_namespaces t),
      t_namespace_peers := multimap_remove_all ns (t_namespace_peers t),
      t_download_policy := table_remove ns (t_download_policy t)\<rparr>"
    using assms(3) by (auto simp: remove_replica_tables_def table_retain_in_def case_prod_unfold)
  have "index_ok (filter (\<lambda>row. \<not> in_bounds (records_bounds_namespace ns) (fst row)) (t_records t))
      (filter (\<lambda>row. \<not> in_bounds (by_key_bounds_namespace ns) (fst row)) (t_records_by_key t))"
  proof (rule index_ok_filter)
    show "index_ok (t_records t) (t_records_by_key t)" using assms(1) by (simp add: tables_ok_def)
    fix row assume row: "row \<in> set (t_records t)" "\<not> in_bounds (records_bounds_namespace ns) (fst row)"
    then have "records_id_ok (fst row)" using assms(1) by (simp add: tables_ok_def records_ok_def)
    then show "\<not> in_bounds (by_key_bounds_namespace ns) (fst (by_key_of (fst row), ()))"
      using row(2) in_namespace_bounds[OF assms(2)] in_by_key_namespace[OF assms(2)]
      by (auto simp: records_id_ok_def by_key_of_def split: prod.splits)
  qed
  then have "index_ok (t_records t') (t_records_by_key t')" by (simp add: t')
  moreover have "records_ok (t_records t')"
    using assms(1) by (simp add: t' tables_ok_def records_ok_filter)
  moreover have "peers_ok (t_namespace_peers t')"
  proof -
    have "multimap_get (multimap_remove_all ns p) n = (if n = ns then [] else multimap_get p n)"
      for p :: "(bytes, u64 \<times> bytes) multimap" and n
      by (auto simp: multimap_get_def multimap_remove_all_def filter_empty_conv intro!: arg_cong[where f = "map _"] filter_cong)
    then show ?thesis using assms(1) by (auto simp: t' tables_ok_def peers_ok_def multimap_ok)
  qed
  moreover have "namespaces_ok C (t_namespaces t')"
    using assms(1) by (auto simp: t' tables_ok_def namespaces_ok_def table_remove_def)
  ultimately show ?thesis using assms(1) by (simp add: t' tables_ok_def table_remove_ok)
qed

lemma retract_entry_tables_ok:
  assumes "tables_ok C t" "retract_entry_tables ns a k up_to t = (r, t')"
  shows "tables_ok C t'"
proof -
  have "index_ok (table_remove (ns, a, k) (t_records t)) (table_remove (ns, k, a) (t_records_by_key t))"
    unfolding table_remove_def
    by (rule index_ok_filter) (use assms(1) in \<open>auto simp: tables_ok_def by_key_of_def split: prod.splits\<close>)
  then show ?thesis
    using assms records_ok_filter
    by (auto simp: retract_entry_tables_def tables_ok_def table_remove_def split: option.splits if_splits)
qed

section \<open>The useful peers of a document\<close>

lemma scan_peers_len: "fst (scan_peers peer rest (len, prev)) = len + length rest"
  by (induction rest arbitrary: len prev) auto

lemma scan_peers_Some: "prev \<noteq> None \<Longrightarrow> snd (scan_peers peer rest (len, prev)) = prev"
  by (induction rest arbitrary: len) auto

lemma scan_peers_prev:
  "snd (scan_peers peer rest (len, None)) =
     map_option fst (List.find (\<lambda>(_, p). p = peer) rest)"
  by (induction rest arbitrary: len) (auto simp: scan_peers_Some)

lemma peers_ok_alt:
  "peers_ok p \<longleftrightarrow> table_ok p \<and> (\<forall>ns. inj_on snd (set (multimap_get p ns)) \<and>
     card (set (multimap_get p ns)) \<le> PEERS_PER_DOC_CACHE_SIZE)"
  unfolding peers_ok_def
  using length_multimap_get sorted_wrt_less_distinct[OF multimap_get_sorted]
  by (metis distinct_map)

lemma peers_ok_update:
  assumes "peers_ok p" "table_ok p'"
    "\<And>n. n \<noteq> ns \<Longrightarrow> set (multimap_get p' n) = set (multimap_get p n)"
    "inj_on snd (set (multimap_get p' ns))" "card (set (multimap_get p' ns)) \<le> PEERS_PER_DOC_CACHE_SIZE"
  shows "peers_ok p'"
  using assms unfolding peers_ok_alt by metis

lemma peers_ok_replace:
  assumes p: "peers_ok p" and old: "(u, peer) \<in> set (multimap_get p ns)"
  shows "peers_ok (multimap_insert ns (n, peer) (multimap_remove ns (u, peer) p))"
proof (rule peers_ok_update[OF p, where ns = ns])
  let ?V = "set (multimap_get p ns)"
  have ok: "table_ok p" "inj_on snd ?V" "card ?V \<le> PEERS_PER_DOC_CACHE_SIZE"
    using p by (auto simp: peers_ok_alt)
  then show "table_ok (multimap_insert ns (n, peer) (multimap_remove ns (u, peer) p))"
    by (intro multimap_ok)
  have V': "set (multimap_get (multimap_insert ns (n, peer) (multimap_remove ns (u, peer) p)) ns) =
      insert (n, peer) (?V - {(u, peer)})"
    using ok(1) by (simp add: set_multimap_insert set_multimap_remove multimap_ok)
  show "inj_on snd (set (multimap_get (multimap_insert ns (n, peer) (multimap_remove ns (u, peer) p)) ns))"
    using ok(2) old unfolding V' by (fastforce simp: inj_on_def)
  have "card (insert (n, peer) (?V - {(u, peer)})) \<le> Suc (card (?V - {(u, peer)}))"
    by (rule card_insert_le_m1) simp_all
  also have "\<dots> = card ?V" by (rule card_Suc_Diff1[OF _ old]) simp
  finally show "card (set (multimap_get (multimap_insert ns (n, peer) (multimap_remove ns (u, peer) p)) ns))
      \<le> PEERS_PER_DOC_CACHE_SIZE"
    using ok(3) unfolding V' by simp
qed (use p in \<open>simp add: peers_ok_alt set_multimap_insert set_multimap_remove multimap_ok\<close>)

lemma peers_ok_add:
  assumes p: "peers_ok p" and new: "peer \<notin> snd ` set (multimap_get p ns)"
    and room: "card (set (multimap_get p ns)) < PEERS_PER_DOC_CACHE_SIZE"
  shows "peers_ok (multimap_insert ns (n, peer) p)"
proof (rule peers_ok_update[OF p, where ns = ns])
  have ok: "table_ok p" "inj_on snd (set (multimap_get p ns))" using p by (auto simp: peers_ok_alt)
  then have V': "set (multimap_get (multimap_insert ns (n, peer) p) ns) =
      insert (n, peer) (set (multimap_get p ns))"
    by (simp add: set_multimap_insert)
  show "inj_on snd (set (multimap_get (multimap_insert ns (n, peer) p) ns))"
    using ok(2) new unfolding V' by (auto simp: inj_on_def image_iff)
  show "card (set (multimap_get (multimap_insert ns (n, peer) p) ns)) \<le> PEERS_PER_DOC_CACHE_SIZE"
    using room unfolding V' by (simp add: card_insert_if)
qed (use p in \<open>auto simp: peers_ok_alt set_multimap_insert multimap_ok\<close>)

lemma peers_ok_evict:
  assumes p: "peers_ok p" and new: "peer \<notin> snd ` set (multimap_get p ns)"
    and old: "(u, q) \<in> set (multimap_get p ns)"
  shows "peers_ok (multimap_remove ns (u, q) (multimap_insert ns (n, peer) p))"
proof (rule peers_ok_update[OF p, where ns = ns])
  let ?V = "set (multimap_get p ns)"
  have ok: "table_ok p" "inj_on snd ?V" "card ?V \<le> PEERS_PER_DOC_CACHE_SIZE"
    using p by (auto simp: peers_ok_alt)
  have fresh: "(n, peer) \<notin> ?V" "q \<noteq> peer" using new old by force+
  have V': "set (multimap_get (multimap_remove ns (u, q) (multimap_insert ns (n, peer) p)) ns) =
      insert (n, peer) (?V - {(u, q)})"
    using ok(1) fresh(2) by (auto simp: set_multimap_insert set_multimap_remove)
  show "inj_on snd (set (multimap_get (multimap_remove ns (u, q) (multimap_insert ns (n, peer) p)) ns))"
    using ok(2) new unfolding V' by (auto simp: inj_on_def image_iff)
  show "card (set (multimap_get (multimap_remove ns (u, q) (multimap_insert ns (n, peer) p)) ns))
      \<le> PEERS_PER_DOC_CACHE_SIZE"
    using ok(3) fresh(1) card_Suc_Diff1[OF _ old] unfolding V' by simp
qed (use p in \<open>simp_all add: peers_ok_alt set_multimap_insert set_multimap_remove multimap_ok\<close>)

text \<open>The scan finds the row of the peer if there is one.\<close>

lemma scan_peers_found:
  assumes "scan_peers peer rest (1, None) = (len, Some prev)" shows "(prev, peer) \<in> set rest"
proof -
  have "\<exists>row. List.find (\<lambda>(_, p). p = peer) rest = Some row \<and> prev = fst row"
    using scan_peers_prev[of peer rest 1] assms by (cases "List.find (\<lambda>(_, p). p = peer) rest") auto
  then show ?thesis by (auto simp: find_Some_iff) (metis nth_mem)
qed

lemma scan_peers_absent:
  assumes "scan_peers peer rest (1, None) = (len, None)"
  shows "peer \<notin> snd ` set rest" "len = Suc (length rest)"
  using scan_peers_prev[of peer rest 1] scan_peers_len[of peer rest 1 None] assms
  by (auto simp: find_None_iff)

lemma register_peer_tables_ok:
  assumes "tables_ok C t" "register_peer_tables ns peer nanos t = (r, t')"
  shows "tables_ok C t'"
proof -
  let ?p = "t_namespace_peers t"
  have p: "peers_ok ?p" using assms(1) by (simp add: tables_ok_def)
  have "t' = t \<or> (\<exists>p'. t' = t\<lparr>t_namespace_peers := p'\<rparr> \<and> peers_ok p')"
  proof (cases "table_get (t_namespaces t) ns = None")
    case True
    then show ?thesis using assms(2) by (simp add: register_peer_tables_def)
  next
    case exists: False
    show ?thesis
    proof (cases "multimap_get ?p ns")
      case Nil
      then have "peers_ok (multimap_insert ns (nanos, peer) ?p)"
        by (intro peers_ok_add[OF p]) (simp_all add: PEERS_PER_DOC_CACHE_SIZE_def)
      then show ?thesis using assms(2) exists Nil by (auto simp: register_peer_tables_def Let_def)
    next
      case (Cons row rest)
      obtain on q where row: "row = (on, q)" by fastforce
      have old: "(on, q) \<in> set (multimap_get ?p ns)" using Cons row by simp
      have card: "card (set (multimap_get ?p ns)) = Suc (length rest)"
        using length_multimap_get[of ?p ns] p Cons by (simp add: peers_ok_def)
      obtain len prev where scan: "scan_peers peer rest (1, None) = (len, prev)" by fastforce
      consider (oldest) "q = peer" | (known) prev_nanos where "q \<noteq> peer" "prev = Some prev_nanos"
        | (new) "q \<noteq> peer" "prev = None" by (cases prev) auto
      then show ?thesis
      proof cases
        case oldest
        then show ?thesis using assms(2) exists Cons row peers_ok_replace[OF p, of on peer ns nanos] old
          by (auto simp: register_peer_tables_def Let_def)
      next
        case known
        then have "(prev_nanos, peer) \<in> set (multimap_get ?p ns)"
          using scan_peers_found[of peer rest len prev_nanos] scan Cons by simp
        then show ?thesis using assms(2) exists Cons row known scan peers_ok_replace[OF p]
          by (auto simp: register_peer_tables_def Let_def)
      next
        case new
        note absent = scan_peers_absent[of peer rest len]
        have fresh: "peer \<notin> snd ` set (multimap_get ?p ns)" "len = Suc (length rest)"
          using absent scan new Cons row by auto
        then show ?thesis
          using assms(2) exists Cons row new scan card peers_ok_evict[OF p fresh(1) old] peers_ok_add[OF p fresh(1)]
          by (auto simp: register_peer_tables_def Let_def split: if_splits)
      qed
    qed
  qed
  then show ?thesis using assms(1) by (auto simp: tables_ok_def)
qed

end
