(* ===== verification/Store_Instance.thy ===== *)
theory Store_Instance
  imports Ranger_Laws Fs_Laws
begin

text \<open>
  \<open>StoreInstance\<close> of \<^verbatim>\<open>src/src/store/fs.rs\<close>: the replica store narrowed to one namespace, as the
  reconciliation store of \<^verbatim>\<open>ranger.rs\<close>. The namespace and the optional session snapshot are
  parameters of every operation; the state is the store itself. Reads that serve the peer come
  from the snapshot when there is one, ingest always works on the current state.
\<close>

section \<open>Entries as range entries\<close>

definition signed_entry_range :: "crypto \<Rightarrow> (signed_entry, record_identifier, doc_record, reject_id) range_entry" where
  "signed_entry_range C =
     \<lparr>re_key = (\<lambda>e. se_id e), re_value = (\<lambda>e. se_record e), re_value_le = record_le,
      re_reject_id = signed_entry_reject_id, re_as_fingerprint = signed_entry_as_fingerprint C\<rparr>"

section \<open>Operations\<close>

definition read_source :: "tables option \<Rightarrow> fs_store \<Rightarrow> tables \<times> fs_store" where
  "read_source session_snapshot s =
     (case session_snapshot of Some t \<Rightarrow> (t, s) | None \<Rightarrow> store_tables s)"

definition first_record :: "records_table \<Rightarrow> records_bounds \<Rightarrow> record_identifier option" where
  "first_record rs bounds =
     (case table_range bounds rs of
        [] \<Rightarrow> None
      | ((namespace, author, key), _) # _ \<Rightarrow> Some (rid_new namespace author key))"

definition instance_get_first ::
  "namespace_id \<Rightarrow> tables option \<Rightarrow> (fs_store, store_error, record_identifier) op" where
  "instance_get_first ns session_snapshot s =
     (case read_source session_snapshot s of (t, s') \<Rightarrow>
        (Inr (case first_record (t_records t) (records_bounds_namespace ns) of
                Some i \<Rightarrow> i | None \<Rightarrow> rid_default), s'))"

definition range_pair ::
  "records_table \<Rightarrow> records_bounds \<Rightarrow> records_bounds option \<Rightarrow> signed_entry list \<times> signed_entry list option" where
  "range_pair rs bounds wrap_bounds =
     (map into_entry (table_range bounds rs), map_option (\<lambda>b. map into_entry (table_range b rs)) wrap_bounds)"

definition range_bounds ::
  "namespace_id \<Rightarrow> record_identifier range \<Rightarrow> records_bounds \<times> records_bounds option" where
  "range_bounds ns r =
     (case cmp (range_x r) (range_y r) of
        Equal \<Rightarrow> (records_bounds_namespace ns, None)
      | Less \<Rightarrow> (records_bounds_new (Included (rid_to_byte_tuple (range_x r)))
                   (Excluded (rid_to_byte_tuple (range_y r))), None)
      | Greater \<Rightarrow> (records_bounds_from_start ns (Excluded (rid_to_byte_tuple (range_y r))),
                   Some (records_bounds_to_end ns (Included (rid_to_byte_tuple (range_x r))))))"

definition instance_get_range ::
  "namespace_id \<Rightarrow> tables option \<Rightarrow> record_identifier range
     \<Rightarrow> (fs_store, store_error, (store_error + signed_entry) list) op" where
  "instance_get_range ns session_snapshot r s =
     (if cmp (range_x r) (range_y r) \<noteq> Equal \<and>
         (rid_namespace (range_x r) \<noteq> ns \<or> rid_namespace (range_y r) \<noteq> ns)
      then (Inl ForeignBoundary, s)
      else (case range_bounds ns r of (bounds, wrap_bounds) \<Rightarrow>
            (case read_source session_snapshot s of (t, s') \<Rightarrow>
            (case range_pair (t_records t) bounds wrap_bounds of (iter, wrap_iter) \<Rightarrow>
               (Inr (map Inr (iter @ (case wrap_iter of Some w \<Rightarrow> w | None \<Rightarrow> []))), s')))))"

text \<open>The fingerprint loop over a range iterator, which ends at the first error.\<close>

definition fold_fingerprint ::
  "crypto \<Rightarrow> ('e + signed_entry) list \<Rightarrow> 'e + fingerprint" where
  "fold_fingerprint C els =
     rbind (collect_results els) (\<lambda>es.
       Inr (fold (\<lambda>e fp. fingerprint_xor fp (signed_entry_as_fingerprint C e)) es (fingerprint_empty C)))"

definition instance_get_fingerprint ::
  "crypto \<Rightarrow> namespace_id \<Rightarrow> tables option \<Rightarrow> record_identifier range
     \<Rightarrow> (fs_store, store_error, fingerprint) op" where
  "instance_get_fingerprint C ns session_snapshot r =
     op_bind (instance_get_range ns session_snapshot r) (\<lambda>els. op_lift (fold_fingerprint C els))"

definition entry_put_tables :: "signed_entry \<Rightarrow> (tables, store_error, unit) op" where
  "entry_put_tables e t =
     (let i = se_id e; n = rid_namespace i; a = rid_author i; k = rid_key i
      in (Inr (), t\<lparr>
            t_records := table_insert (n, a, k) (snd (records_row e)) (t_records t),
            t_records_by_key := table_insert (n, k, a) () (t_records_by_key t),
            t_latest_per_author := table_insert (n, a) (entry_timestamp (se_entry e), k) (t_latest_per_author t)\<rparr>))"

definition instance_entry_put :: "signed_entry \<Rightarrow> (fs_store, store_error, unit) op" where
  "instance_entry_put e = modify (entry_put_tables e)"

definition instance_prefixes_of ::
  "crypto \<Rightarrow> record_identifier \<Rightarrow> (fs_store, store_error, (store_error + signed_entry) list) op" where
  "instance_prefixes_of C i s =
     (case store_tables s of (t, s') \<Rightarrow>
        (Inr (map Inr (parents C (t_records t) (rid_namespace i) (rid_author i) (rid_key i))), s'))"

definition value_record :: "records_value \<Rightarrow> doc_record" where
  "value_record v = (case v of (timestamp, _, _, len, hash) \<Rightarrow> record_new hash len timestamp)"

definition remove_prefix_tables ::
  "record_identifier \<Rightarrow> (doc_record \<Rightarrow> bool) \<Rightarrow> (tables, store_error, nat) op" where
  "remove_prefix_tables i predicate t =
     (case table_extract_from_if (records_bounds_author_prefix (rid_namespace i) (rid_author i) (rid_key i))
             (\<lambda>_ v. predicate (value_record v)) (t_records t) of
        (extracted, kept) \<Rightarrow> (Inr (length extracted), t\<lparr>t_records := kept\<rparr>))"

definition instance_remove_prefix_filtered ::
  "record_identifier \<Rightarrow> (doc_record \<Rightarrow> bool) \<Rightarrow> (fs_store, store_error, nat) op" where
  "instance_remove_prefix_filtered i predicate = modify (remove_prefix_tables i predicate)"

definition instance_ops ::
  "crypto \<Rightarrow> namespace_id \<Rightarrow> tables option
     \<Rightarrow> (fs_store, store_error, record_identifier, signed_entry, doc_record) store_ops" where
  "instance_ops C ns session_snapshot =
     \<lparr>so_get_first = instance_get_first ns session_snapshot,
      so_get_fingerprint = instance_get_fingerprint C ns session_snapshot,
      so_entry_put = instance_entry_put,
      so_get_range = instance_get_range ns session_snapshot,
      so_prefixes_of = instance_prefixes_of C,
      so_remove_prefix_filtered = instance_remove_prefix_filtered\<rparr>"

section \<open>Rows and entries\<close>

lemma signed_entry_range_simps [simp]:
  "re_key (signed_entry_range C) = (\<lambda>e. se_id e)"
  "re_value (signed_entry_range C) = (\<lambda>e. se_record e)"
  "re_value_le (signed_entry_range C) = record_le"
  "re_reject_id (signed_entry_range C) = signed_entry_reject_id"
  "re_as_fingerprint (signed_entry_range C) = signed_entry_as_fingerprint C"
  by (simp_all add: signed_entry_range_def)

lemma into_entry_id: "se_id (into_entry ((n, a, k), v)) = rid_new n a k"
  by (cases v) (simp add: into_entry_def signed_entry_new_def entry_new_def)

lemma into_entry_record: "se_record (into_entry (i, v)) = value_record v"
  by (cases i; cases v) (simp add: into_entry_def signed_entry_new_def entry_new_def value_record_def)

lemma into_entry_tuple:
  assumes "records_id_ok (fst row)"
  shows "rid_to_byte_tuple (se_id (into_entry row)) = fst row" "rid_ok (se_id (into_entry row))"
  using assms
  by (cases row rule: prod.exhaust, cases "fst row" rule: prod_cases3,
      simp add: into_entry_id records_id_ok_def rid_to_byte_tuple_def)+

lemma into_entry_records_row: "into_entry (records_row e) = e"
  by (simp add: into_entry_def records_row_def signed_entry_new_def entry_signature_from_parts_def
      entry_new_def rid_new_parts record_new_def entry_timestamp_def entry_content_len_def
      entry_content_hash_def)

lemma into_entry_less:
  assumes "records_id_ok (fst r)" "records_id_ok (fst q)"
  shows "se_id (into_entry r) < se_id (into_entry q) \<longleftrightarrow> fst r < fst q"
  using rid_tuple_less[OF into_entry_tuple(2)[OF assms(1)] into_entry_tuple(2)[OF assms(2)]]
  by (simp add: into_entry_tuple(1) assms)

lemma into_entries_sorted:
  "records_ok rs \<Longrightarrow> sorted_wrt (<) (map (\<lambda>row. se_id (into_entry row)) (filter p rs))"
proof (induction rs)
  case (Cons row rs)
  then have ok: "records_ok rs" by (simp add: records_ok_def table_ok_Cons)
  show ?case using Cons.IH[OF ok] Cons.prems
    by (auto simp: records_ok_def table_ok_Cons into_entry_less)
qed simp

section \<open>The view of an instance\<close>

definition read_tables :: "tables option \<Rightarrow> fs_store \<Rightarrow> tables" where
  "read_tables session_snapshot s = (case session_snapshot of Some t \<Rightarrow> t | None \<Rightarrow> visible s)"

definition namespace_entries :: "namespace_id \<Rightarrow> tables \<Rightarrow> signed_entry list" where
  "namespace_entries ns t = map into_entry (table_range (records_bounds_namespace ns) (t_records t))"

definition instance_entries :: "namespace_id \<Rightarrow> tables option \<Rightarrow> fs_store \<Rightarrow> signed_entry list" where
  "instance_entries ns session_snapshot s = namespace_entries ns (read_tables session_snapshot s)"

definition instance_valid :: "crypto \<Rightarrow> namespace_id \<Rightarrow> tables option \<Rightarrow> fs_store \<Rightarrow> bool" where
  "instance_valid C ns session_snapshot s \<longleftrightarrow> length ns = 32 \<and> tx_ok s \<and> tables_ok C (visible s) \<and>
     key_cache_ok C (st_pubkeys s) \<and>
     (case session_snapshot of Some t \<Rightarrow> tables_ok C t | None \<Rightarrow> True)"

definition own_boundary :: "namespace_id \<Rightarrow> record_identifier \<Rightarrow> bool" where
  "own_boundary ns i \<longleftrightarrow> rid_ok i \<and> rid_namespace i = ns"

lemma read_source_laws:
  assumes "instance_valid C ns snap s"
  obtains s' where "read_source snap s = (read_tables snap s, s')"
    "same_view (instance_valid C ns snap) (instance_entries ns snap) visible s s'" "same_rest s s'"
proof (cases snap)
  case None
  have "tx_ok s" using assms by (simp add: instance_valid_def)
  then obtain s' where s': "store_tables s = (visible s, s')" "visible s' = visible s" "tx_ok s'" "same_rest s s'"
    by (rule store_tables_eq)
  show thesis using that[of s'] s' None assms
    by (simp add: read_source_def read_tables_def same_view_def instance_valid_def instance_entries_def same_rest_def)
next
  case (Some t)
  then show thesis using that[of s] assms
    by (simp add: read_source_def read_tables_def same_view_def same_rest_def)
qed

lemma read_tables_ok:
  "instance_valid C ns snap s \<Longrightarrow> records_ok (t_records (read_tables snap s))"
  by (auto simp: instance_valid_def read_tables_def tables_ok_def split: option.splits)

lemma namespace_row:
  assumes "length ns = 32" "records_id_ok i"
  shows "in_bounds (records_bounds_namespace ns) i \<longleftrightarrow> fst i = ns"
  using in_namespace_bounds[OF assms(1)] assms(2)
  by (cases i rule: prod_cases3) (simp add: records_id_ok_def)

text \<open>Every entry of the view belongs to the namespace.\<close>

lemma namespace_entries_own:
  assumes "records_ok (t_records t)" "length ns = 32" "e \<in> set (namespace_entries ns t)"
  shows "own_boundary ns (se_id e)"
proof -
  obtain row where row: "row \<in> set (t_records t)" "in_bounds (records_bounds_namespace ns) (fst row)"
    "e = into_entry row" using assms(3) by (auto simp: namespace_entries_def set_table_range)
  have ok: "records_id_ok (fst row)" using assms(1) row(1) by (simp add: records_ok_def)
  have "rid_namespace (se_id e) = fst (fst row)"
    using into_entry_tuple(1)[OF ok] row(3) by (metis fst_conv rid_to_byte_tuple_def)
  then show ?thesis
    using namespace_row[OF assms(2) ok] into_entry_tuple(2)[OF ok] row(2,3) by (simp add: own_boundary_def)
qed

section \<open>Ranges of the view\<close>

lemma row_le:
  assumes "records_id_ok (fst row)" "rid_ok i"
  shows "rid_to_byte_tuple i \<le> fst row \<longleftrightarrow> i \<le> se_id (into_entry row)"
    and "fst row < rid_to_byte_tuple i \<longleftrightarrow> se_id (into_entry row) < i"
  using rid_tuple_le[OF assms(2) into_entry_tuple(2)[OF assms(1)]]
    rid_tuple_less[OF into_entry_tuple(2)[OF assms(1)] assms(2)] into_entry_tuple(1)[OF assms(1)]
  by simp_all

lemma own_between:
  assumes "own_boundary ns x" "records_id_ok i"
  shows "rid_to_byte_tuple x \<le> i \<Longrightarrow> ns \<le> fst i" and "i < rid_to_byte_tuple x \<Longrightarrow> fst i \<le> ns"
  using assms by (cases i rule: prod_cases3; auto simp: own_boundary_def rid_to_byte_tuple_def
      less_eq_prod_def less_prod_def)+

lemma own_start_end:
  assumes "length ns = 32" "records_id_ok i"
  shows "in_bounds (records_bounds_from_start ns b) i \<longleftrightarrow> ns \<le> fst i \<and> below_end b i"
    and "in_bounds (records_bounds_to_end ns b) i \<longleftrightarrow> above_start b i \<and> fst i \<le> ns"
  using from_start_upto[OF assms(1)] assms(2)
  by (cases i rule: prod_cases3; simp add: records_id_ok_def)+

lemma view_range:
  assumes rs: "records_ok (t_records t)" and ns: "length ns = 32" and r: "admissible (own_boundary ns) r"
    and b: "range_bounds ns r = (bounds, wrap)"
  shows "map into_entry (table_range bounds (t_records t)) @
      (case wrap of Some w \<Rightarrow> map into_entry (table_range w (t_records t)) | None \<Rightarrow> []) =
    entries_in (signed_entry_range C) (namespace_entries ns t) r"
proof (cases r)
  case (Range x y)
  have ids: "records_id_ok (fst row)" if "row \<in> set (t_records t)" for row
    using rs that by (simp add: records_ok_def)
  have pick: "map into_entry (table_range c (t_records t)) =
      filter q (namespace_entries ns t)"
    if "\<And>row. row \<in> set (t_records t) \<Longrightarrow> in_bounds c (fst row) \<longleftrightarrow> fst (fst row) = ns \<and> q (into_entry row)" for c q
    unfolding namespace_entries_def table_range_def filter_map comp_def filter_filter
    using that namespace_row[OF ns] ids by (intro arg_cong[where f = "map into_entry"] filter_cong) auto
  consider (all) "x = y" | (plain) "x < y" | (wrapped) "y < x" by fastforce
  then show ?thesis
  proof cases
    case all
    then show ?thesis using b Range
      by (auto simp: range_bounds_def cmp_def entries_in_Range namespace_entries_def)
  next
    case plain
    then have own: "own_boundary ns x" "own_boundary ns y"
      using r Range by (auto simp: admissible_def range_is_all_def)
    have "map into_entry (table_range bounds (t_records t)) =
        filter (\<lambda>e. x \<le> se_id e \<and> se_id e < y) (namespace_entries ns t)"
    proof (rule pick)
      fix row assume row: "row \<in> set (t_records t)"
      have "bounds = (Included (rid_to_byte_tuple x), Excluded (rid_to_byte_tuple y))"
        using b Range plain by (auto simp: range_bounds_def cmp_def records_bounds_new_def)
      then show "in_bounds bounds (fst row) \<longleftrightarrow>
          fst (fst row) = ns \<and> x \<le> se_id (into_entry row) \<and> se_id (into_entry row) < y"
        using own row_le[OF ids[OF row], of x] row_le[OF ids[OF row], of y]
          own_between(1)[OF own(1) ids[OF row]] own_between(2)[OF own(2) ids[OF row]]
        by (auto simp: own_boundary_def)
    qed
    then show ?thesis using b Range plain
      by (auto simp: range_bounds_def cmp_def entries_in_Range)
  next
    case wrapped
    then have own: "own_boundary ns x" "own_boundary ns y"
      using r Range by (auto simp: admissible_def range_is_all_def)
    have yo: "rid_ok y" and xo: "rid_ok x" using own by (simp_all add: own_boundary_def)
    have low: "map into_entry (table_range (records_bounds_from_start ns (Excluded (rid_to_byte_tuple y))) (t_records t)) =
        filter (\<lambda>e. se_id e < y) (namespace_entries ns t)"
    proof (rule pick)
      fix row assume row: "row \<in> set (t_records t)"
      show "in_bounds (records_bounds_from_start ns (Excluded (rid_to_byte_tuple y))) (fst row) \<longleftrightarrow>
          fst (fst row) = ns \<and> se_id (into_entry row) < y"
        using row_le(2)[OF ids[OF row] yo] own_between(2)[OF own(2) ids[OF row]]
        by (auto simp: own_start_end[OF ns ids[OF row]])
    qed
    have high: "map into_entry (table_range (records_bounds_to_end ns (Included (rid_to_byte_tuple x))) (t_records t)) =
        filter (\<lambda>e. x \<le> se_id e) (namespace_entries ns t)"
    proof (rule pick)
      fix row assume row: "row \<in> set (t_records t)"
      show "in_bounds (records_bounds_to_end ns (Included (rid_to_byte_tuple x))) (fst row) \<longleftrightarrow>
          fst (fst row) = ns \<and> x \<le> se_id (into_entry row)"
        using row_le(1)[OF ids[OF row] xo] own_between(1)[OF own(1) ids[OF row]]
        by (auto simp: own_start_end[OF ns ids[OF row]])
    qed
    show ?thesis using b Range wrapped low high
      by (auto simp: range_bounds_def cmp_def entries_in_Range)
  qed
qed

lemma instance_get_range_eq:
  assumes v: "instance_valid C ns snap s" and r: "admissible (own_boundary ns) r"
  obtains s' where "instance_get_range ns snap r s =
      (Inr (map Inr (entries_in (signed_entry_range C) (instance_entries ns snap s) r)), s')"
    "same_view (instance_valid C ns snap) (instance_entries ns snap) visible s s'"
proof -
  have ns: "length ns = 32" using v by (simp add: instance_valid_def)
  obtain bounds wrap where b: "range_bounds ns r = (bounds, wrap)" by fastforce
  obtain s' where s': "read_source snap s = (read_tables snap s, s')"
    "same_view (instance_valid C ns snap) (instance_entries ns snap) visible s s'"
    by (rule read_source_laws[OF v])
  have "\<not> (cmp (range_x r) (range_y r) \<noteq> Equal \<and>
         (rid_namespace (range_x r) \<noteq> ns \<or> rid_namespace (range_y r) \<noteq> ns))"
    using r by (auto simp: admissible_def range_is_all_def cmp_simps own_boundary_def)
  then have "instance_get_range ns snap r s =
      (Inr (map Inr (entries_in (signed_entry_range C) (instance_entries ns snap s) r)), s')"
    using b s'(1) view_range[OF read_tables_ok[OF v] ns r b, of C, symmetric]
    by (auto simp: instance_get_range_def range_pair_def instance_entries_def split: option.splits)
  then show thesis using that s'(2) by blast
qed

lemma fold_fingerprint_Inr:
  "fold_fingerprint C (map Inr es) = Inr (fingerprint_of C (signed_entry_range C) es)"
  by (simp add: fold_fingerprint_def fingerprint_of_def)

lemma first_record_eq:
  "(case first_record (t_records t) (records_bounds_namespace ns) of Some i \<Rightarrow> i | None \<Rightarrow> rid_default) =
     first_key (signed_entry_range C) rid_default (namespace_entries ns t)"
  by (auto simp: first_record_def first_key_def namespace_entries_def into_entry_id split: list.splits)

interpretation instance_store: range_store C "signed_entry_range C" "instance_ops C ns snap"
  "instance_valid C ns snap" "instance_entries ns snap" visible "own_boundary ns" rid_default
  for C ns snap
proof
  fix s assume v: "instance_valid C ns snap s"
  then have ns: "length ns = 32" by (simp add: instance_valid_def)
  show "sorted_wrt (<) (map (re_key (signed_entry_range C)) (instance_entries ns snap s))"
    using into_entries_sorted[OF read_tables_ok[OF v]]
    by (simp add: instance_entries_def namespace_entries_def table_range_def comp_def)
  show "own_boundary ns (re_key (signed_entry_range C) x)" if "x \<in> set (instance_entries ns snap s)" for x
    using namespace_entries_own[OF read_tables_ok[OF v] ns] that by (simp add: instance_entries_def)
  show "\<exists>s'. so_get_first (instance_ops C ns snap) s =
        (Inr (first_key (signed_entry_range C) rid_default (instance_entries ns snap s)), s') \<and>
      same_view (instance_valid C ns snap) (instance_entries ns snap) visible s s'"
  proof -
    obtain s' where "read_source snap s = (read_tables snap s, s')"
      "same_view (instance_valid C ns snap) (instance_entries ns snap) visible s s'"
      by (rule read_source_laws[OF v])
    then show ?thesis
      by (simp add: instance_ops_def instance_get_first_def first_record_eq instance_entries_def)
  qed
  fix r assume r: "admissible (own_boundary ns) r"
  obtain s' where s': "instance_get_range ns snap r s =
      (Inr (map Inr (entries_in (signed_entry_range C) (instance_entries ns snap s) r)), s')"
    "same_view (instance_valid C ns snap) (instance_entries ns snap) visible s s'"
    by (rule instance_get_range_eq[OF v r])
  then show "\<exists>s'. so_get_range (instance_ops C ns snap) r s =
        (Inr (map Inr (entries_in (signed_entry_range C) (instance_entries ns snap s) r)), s') \<and>
      same_view (instance_valid C ns snap) (instance_entries ns snap) visible s s'"
    by (simp add: instance_ops_def)
  show "\<exists>s'. so_get_fingerprint (instance_ops C ns snap) r s =
        (Inr (fingerprint_of C (signed_entry_range C)
          (entries_in (signed_entry_range C) (instance_entries ns snap s) r)), s') \<and>
      same_view (instance_valid C ns snap) (instance_entries ns snap) visible s s'"
    using s' by (simp add: instance_ops_def instance_get_fingerprint_def op_bind_def op_lift_def
        fold_fingerprint_Inr)
qed

end
