(* ===== verification/Ranger_Ingest.thy ===== *)
theory Ranger_Ingest
  imports Ranger_Laws
begin

text \<open>
  The write contract of a reconciliation store and what the message handler does on a store that
  meets both contracts: it always answers, stores exactly the accepted values in order, and sends
  only entries of the view it serves.
\<close>

lemma newer_than_all_Inr:
  "newer_than_all E x (map Inr ps) =
     Inr (\<not> (\<exists>p \<in> set ps. re_value_le E (re_value E x) (re_value E p)))"
  by (induction ps) auto

section \<open>Specifications over a live state\<close>

text \<open>A live state knows which entries it blocks (\<open>blocked\<close>), how an entry's removal of what it
  supersedes changes it (\<open>prune\<close>, with the number of removed entries) and how an entry is stored
  (\<open>place\<close>). The specification of \<open>put\<close> over these:\<close>

definition put_spec ::
  "('m \<Rightarrow> 'x \<Rightarrow> bool) \<Rightarrow> ('x \<Rightarrow> 'm \<Rightarrow> nat \<times> 'm) \<Rightarrow> ('x \<Rightarrow> 'm \<Rightarrow> 'm) \<Rightarrow> 'x \<Rightarrow> 'm
     \<Rightarrow> insert_outcome \<times> 'm" where
  "put_spec blocked prune place x m =
     (if blocked m x then (NotInserted, m)
      else (Inserted (fst (prune x m)), place x (snd (prune x m))))"

text \<open>The effect of one received value on the live state and on the state of the insert callback, and
  what the reply says about it.\<close>

definition value_step ::
  "('x \<Rightarrow> 'm \<Rightarrow> insert_outcome \<times> 'm) \<Rightarrow> ('x \<Rightarrow> content_status \<Rightarrow> validate_outcome)
     \<Rightarrow> ('x \<Rightarrow> content_status \<Rightarrow> 'c \<Rightarrow> 'c) \<Rightarrow> 'x \<times> content_status \<Rightarrow> 'm \<times> 'c \<Rightarrow> 'm \<times> 'c" where
  "value_step put verdict on_insert received state =
     (case received of (x, cs) \<Rightarrow> case state of (m, c) \<Rightarrow>
        if verdict x cs = Accept
        then (snd (put x m), if fst (put x m) = NotInserted then c else on_insert x cs c)
        else (m, c))"

definition value_reply ::
  "('x, 'k, 'v, 'r) range_entry \<Rightarrow> ('m \<Rightarrow> 'x \<Rightarrow> bool) \<Rightarrow> ('x \<Rightarrow> content_status \<Rightarrow> validate_outcome)
     \<Rightarrow> 'x \<times> content_status \<Rightarrow> 'm \<Rightarrow> ('x, 'k, 'r) message" where
  "value_reply E blocked verdict received m =
     (case received of (x, cs) \<Rightarrow>
        if verdict x cs = Reject \<and> \<not> blocked m x then [Rejected (re_reject_id E x)] else [])"

text \<open>What a part of a reply may contain: entries of the served view with their content status, and
  refusals of received entries that were judged so.\<close>

fun part_ok ::
  "('x, 'k, 'v, 'r) range_entry \<Rightarrow> ('x \<Rightarrow> bool) \<Rightarrow> ('x \<Rightarrow> content_status)
     \<Rightarrow> ('x \<Rightarrow> content_status \<Rightarrow> validate_outcome) \<Rightarrow> ('x \<times> content_status) set
     \<Rightarrow> ('x, 'k, 'r) message_part \<Rightarrow> bool" where
  "part_ok E served status verdict received (RangeFingerprint r fp) = True"
| "part_ok E served status verdict received (RangeItem r vs hl) =
     (\<forall>(x, cs) \<in> set vs. served x \<and> cs = status x)"
| "part_ok E served status verdict received (Rejected i) =
     (\<exists>(x, cs) \<in> received. verdict x cs = Reject \<and> i = re_reject_id E x)"

lemma part_ok_mono:
  "part_ok E served status verdict A part \<Longrightarrow> A \<subseteq> A' \<Longrightarrow> part_ok E served status verdict A' part"
  by (cases part) auto

lemma item_values: "concat (map (\<lambda>item. fst (snd item)) (message_items msg)) = message_values msg"
  by (induction msg rule: message_items.induct) (auto simp: message_values_def List.map_filter_simps)

section \<open>The write contract\<close>

locale ingest_store =
  fixes E :: "('x, 'k, 'v, 'r) range_entry"
    and S :: "('s, 'e, 'k, 'x, 'v) store_ops"
    and valid :: "'s \<Rightarrow> bool"
    and live :: "'s \<Rightarrow> 'm"
    and blocked :: "'m \<Rightarrow> 'x \<Rightarrow> bool"
    and prune :: "'x \<Rightarrow> 'm \<Rightarrow> nat \<times> 'm"
    and place :: "'x \<Rightarrow> 'm \<Rightarrow> 'm"
    and entry_ok :: "'x \<Rightarrow> bool"
  assumes prefixes_law: "valid s \<Longrightarrow>
      \<exists>ps s'. so_prefixes_of S (re_key E x) s = (Inr (map Inr ps), s') \<and> valid s' \<and> live s' = live s \<and>
        (blocked (live s) x \<longleftrightarrow> (\<exists>p \<in> set ps. re_value_le E (re_value E x) (re_value E p)))"
    and remove_law: "valid s \<Longrightarrow> entry_ok x \<Longrightarrow>
      \<exists>s'. so_remove_prefix_filtered S (re_key E x) (\<lambda>v. re_value_le E v (re_value E x)) s =
             (Inr (fst (prune x (live s))), s') \<and> valid s' \<and> live s' = snd (prune x (live s))"
    and entry_put_law: "valid s \<Longrightarrow> entry_ok x \<Longrightarrow>
      \<exists>s'. so_entry_put S x s = (Inr (), s') \<and> valid s' \<and> live s' = place x (live s)"
begin

lemma would_insert_eq:
  assumes "valid s"
  obtains s' where "would_insert E S x s = (Inr (\<not> blocked (live s) x), s')" "valid s'" "live s' = live s"
proof -
  obtain ps s' where s': "so_prefixes_of S (re_key E x) s = (Inr (map Inr ps), s')" "valid s'" "live s' = live s"
    "blocked (live s) x \<longleftrightarrow> (\<exists>p \<in> set ps. re_value_le E (re_value E x) (re_value E p))"
    using prefixes_law[OF assms] by blast
  then have "would_insert E S x s = (Inr (\<not> blocked (live s) x), s')"
    by (simp add: would_insert_def op_bind_def op_lift_def newer_than_all_Inr)
  then show thesis using that s'(2,3) by blast
qed

lemma put_eq:
  assumes "valid s" "entry_ok x"
  obtains s' where "ranger_put E S x s = (Inr (fst (put_spec blocked prune place x (live s))), s')" "valid s'"
    "live s' = snd (put_spec blocked prune place x (live s))"
proof -
  obtain t where t: "would_insert E S x s = (Inr (\<not> blocked (live s) x), t)" "valid t" "live t = live s"
    by (rule would_insert_eq[OF assms(1)])
  show thesis
  proof (cases "blocked (live s) x")
    case True
    then have "ranger_put E S x s = (Inr NotInserted, t)"
      using t by (simp add: ranger_put_def op_bind_def op_return_def)
    then show thesis using that t True by (simp add: put_spec_def)
  next
    case False
    obtain u where u: "so_remove_prefix_filtered S (re_key E x) (\<lambda>v. re_value_le E v (re_value E x)) t =
        (Inr (fst (prune x (live t))), u)" "valid u" "live u = snd (prune x (live t))"
      using remove_law[OF t(2) assms(2)] by blast
    obtain w where w: "so_entry_put S x u = (Inr (), w)" "valid w" "live w = place x (live u)"
      using entry_put_law[OF u(2) assms(2)] by blast
    have "ranger_put E S x s = (Inr (Inserted (fst (prune x (live s)))), w)"
      using t u w False by (simp add: ranger_put_def op_bind_def op_return_def)
    then show thesis using that w u(3) t(3) False by (simp add: put_spec_def)
  qed
qed

end

section \<open>Both contracts together\<close>

text \<open>What the validation callback may do: its verdict is a function of the entry, and looking at the
  store leaves the view and the live state alone.\<close>

definition verdict_ok ::
  "('s \<Rightarrow> bool) \<Rightarrow> ('s \<Rightarrow> 'x list) \<Rightarrow> ('s \<Rightarrow> 'm) \<Rightarrow> ('x, 's, 'c) callbacks
     \<Rightarrow> ('x \<Rightarrow> content_status \<Rightarrow> validate_outcome) \<Rightarrow> bool" where
  "verdict_ok valid entries live B verdict \<longleftrightarrow>
     (\<forall>x cs s. valid s \<longrightarrow> fst (validate_cb B x cs s) = verdict x cs \<and>
        same_view valid entries live s (snd (validate_cb B x cs s)))"

locale reconcile_store =
  range_store C E S valid entries live bound_ok default_key +
  ingest_store E S valid live blocked prune place entry_ok
  for C :: crypto
    and E :: "('x, 'k::linorder, 'v, 'r) range_entry"
    and S :: "('s, 'e, 'k, 'x, 'v) store_ops"
    and valid :: "'s \<Rightarrow> bool"
    and entries :: "'s \<Rightarrow> 'x list"
    and live :: "'s \<Rightarrow> 'm"
    and bound_ok :: "'k \<Rightarrow> bool"
    and default_key :: 'k
    and blocked :: "'m \<Rightarrow> 'x \<Rightarrow> bool"
    and prune :: "'x \<Rightarrow> 'm \<Rightarrow> nat \<times> 'm"
    and place :: "'x \<Rightarrow> 'm \<Rightarrow> 'm"
    and entry_ok :: "'x \<Rightarrow> bool"
begin

abbreviation step ::
  "('x \<Rightarrow> content_status \<Rightarrow> validate_outcome) \<Rightarrow> ('x, 's, 'c) callbacks \<Rightarrow> 'x \<times> content_status
     \<Rightarrow> 'm \<times> 'c \<Rightarrow> 'm \<times> 'c" where
  "step verdict B \<equiv> value_step (put_spec blocked prune place) verdict (on_insert_cb B)"

lemma store_value_eq:
  assumes "valid s" "entry_ok (fst rv)" "verdict_ok valid entries live B verdict"
  obtains s' c' where "store_value E S B rv out (s, c) =
      (Inr (out @ value_reply E blocked verdict rv (live s)), (s', c'))" "valid s'"
    "step verdict B rv (live s, c) = (live s', c')"
proof -
  obtain x cs where v: "rv = (x, cs)" by fastforce
  obtain t where t: "validate_cb B x cs s = (verdict x cs, t)" "valid t" "live t = live s"
    using assms(1,3) unfolding verdict_ok_def same_view_def by (metis prod.collapse)
  have x: "entry_ok x" using assms(2) v by simp
  consider (accept) "verdict x cs = Accept" | (drop) "verdict x cs = Drop" | (reject) "verdict x cs = Reject"
    by (cases "verdict x cs") auto
  then show thesis
  proof cases
    case accept
    obtain s' where s': "ranger_put E S x t = (Inr (fst (put_spec blocked prune place x (live t))), s')" "valid s'"
      "live s' = snd (put_spec blocked prune place x (live t))" by (rule put_eq[OF t(2) x])
    then show thesis
      using that[of s' "if blocked (live s) x then c else on_insert_cb B x cs c"] t accept v
      by (auto simp: store_value_def op_bind_def on_store_def value_step_def value_reply_def put_spec_def
          split: if_splits)
  next
    case drop
    then show thesis using that[of t c] t v
      by (simp add: store_value_def value_step_def value_reply_def)
  next
    case reject
    obtain s' where s': "would_insert E S x t = (Inr (\<not> blocked (live t) x), s')" "valid s'" "live s' = live t"
      by (rule would_insert_eq[OF t(2)])
    then show thesis
      using that[of s' c] t reject v
      by (auto simp: store_value_def op_bind_def on_store_def op_return_def value_step_def value_reply_def)
  qed
qed

lemma store_values_eq:
  assumes "valid s" "\<forall>rv \<in> set rvs. entry_ok (fst rv)" "verdict_ok valid entries live B verdict"
  shows "\<exists>s' c' new. op_for (store_value E S B) rvs out (s, c) = (Inr (out @ new), (s', c')) \<and> valid s' \<and>
    fold (step verdict B) rvs (live s, c) = (live s', c') \<and>
    (\<forall>part \<in> set new. part_ok E served status verdict (set rvs) part)"
  using assms(1,2)
proof (induction rvs arbitrary: s c out)
  case Nil
  then show ?case by (auto simp: op_return_def)
next
  case (Cons rv rvs)
  let ?r = "value_reply E blocked verdict rv (live s)"
  obtain s1 c1 where one: "store_value E S B rv out (s, c) = (Inr (out @ ?r), (s1, c1))" "valid s1"
    "step verdict B rv (live s, c) = (live s1, c1)"
    by (rule store_value_eq[OF Cons.prems(1) _ assms(3), where rv = rv and out = out and c = c])
       (use Cons.prems(2) in auto)
  obtain s2 c2 new where two: "op_for (store_value E S B) rvs (out @ ?r) (s1, c1) = (Inr ((out @ ?r) @ new), (s2, c2))"
    "valid s2" "fold (step verdict B) rvs (live s1, c1) = (live s2, c2)"
    "\<forall>part \<in> set new. part_ok E served status verdict (set rvs) part"
    using Cons.IH[OF one(2), of "out @ ?r" c1] Cons.prems(2) by auto
  have "part_ok E served status verdict (set (rv # rvs)) part" if "part \<in> set (?r @ new)" for part
  proof (cases "part \<in> set new")
    case True
    show ?thesis by (rule part_ok_mono[OF two(4)[rule_format, OF True]]) auto
  next
    case False
    then show ?thesis using that by (auto simp: value_reply_def split: if_splits prod.splits)
  qed
  then show ?case using one two by (auto simp: op_bind_def)
qed

lemma item_diff_eq:
  assumes "valid s" "hl \<or> admissible bound_ok r"
  obtains s' where "item_diff E S B r rvs hl (s, c) =
      (Inr (if hl then None else Some (with_status B (filter (peer_lacks E rvs) (entries_in E (entries s) r)))), (s', c))"
    and "same s s'"
proof (cases hl)
  case True
  then show thesis using that[of s] assms(1) by (simp add: item_diff_def op_return_def same_view_def)
next
  case False
  obtain s' where s': "on_store (so_get_range S r) (s, c) = (Inr (map Inr (entries_in E (entries s) r)), (s', c))"
    "same s s'" using assms False by (auto intro: read_range[of s r c])
  have "collect_results (filter (\<lambda>r. case r of Inl e \<Rightarrow> True | Inr our \<Rightarrow> peer_lacks E rvs our) (map Inr v)) =
      (Inr (filter (peer_lacks E rvs) v) :: 'e + 'x list)" for v
    by (simp add: filter_map comp_def)
  then show thesis using that[of s'] s' False
    by (simp add: item_diff_def op_bind_def op_lift_def op_return_def)
qed

lemma process_item_eq:
  assumes "valid s" "snd (snd item) \<or> admissible bound_ok (fst item)"
    "\<forall>rv \<in> set (fst (snd item)). entry_ok (fst rv)"
    "verdict_ok valid entries live B verdict" "\<forall>s x. valid s \<longrightarrow> x \<in> set (entries s) \<longrightarrow> served x"
  shows "\<exists>s' c' new. process_item E S B item out (s, c) = (Inr (out @ new), (s', c')) \<and> valid s' \<and>
    fold (step verdict B) (fst (snd item)) (live s, c) = (live s', c') \<and>
    (\<forall>part \<in> set new. part_ok E served (content_status_cb B) verdict (set (fst (snd item))) part)"
proof -
  obtain r rvs hl where item: "item = (r, rvs, hl)" by (cases item rule: prod_cases3)
  let ?d = "filter (peer_lacks E rvs) (entries_in E (entries s) r)"
  have r: "hl \<or> admissible bound_ok r" using assms(2) item by simp
  obtain t where t: "item_diff E S B r rvs hl (s, c) = (Inr (if hl then None else Some (with_status B ?d)), (t, c))"
    "same s t" by (rule item_diff_eq[OF assms(1) r])
  obtain s' c' new where v: "op_for (store_value E S B) rvs out (t, c) = (Inr (out @ new), (s', c'))" "valid s'"
    "fold (step verdict B) rvs (live t, c) = (live s', c')"
    "\<forall>part \<in> set new. part_ok E served (content_status_cb B) verdict (set rvs) part"
    using store_values_eq[OF same_valid[OF t(2)] _ assms(4), of rvs out c] assms(3) item by (metis fst_conv snd_conv)
  have live: "live t = live s" using t(2) by (simp add: same_view_def)
  define extra :: "('x, 'k, 'r) message" where "extra = (if hl \<or> ?d = [] then [] else [RangeItem r (with_status B ?d) True])"
  have "process_item E S B item out (s, c) = (Inr (out @ new @ extra), (s', c'))"
    using t(1) v(1) by (auto simp: process_item_def item op_bind_def op_return_def extra_def with_status_def)
  moreover have "part_ok E served (content_status_cb B) verdict (set rvs) part" if "part \<in> set (new @ extra)" for part
    using that v(4) assms(1,5)
    by (auto simp: extra_def with_status_set set_entries_in split: if_splits)
  ultimately show ?thesis using v live item by (metis fst_conv snd_conv)
qed

lemma process_items_eq:
  assumes "valid s" "\<forall>item \<in> set items. (snd (snd item) \<or> admissible bound_ok (fst item)) \<and> (\<forall>rv \<in> set (fst (snd item)). entry_ok (fst rv))"
    "verdict_ok valid entries live B verdict" "\<forall>s x. valid s \<longrightarrow> x \<in> set (entries s) \<longrightarrow> served x"
  shows "\<exists>s' c' new. op_for (process_item E S B) items out (s, c) = (Inr (out @ new), (s', c')) \<and> valid s' \<and>
    fold (step verdict B) (concat (map (\<lambda>item. fst (snd item)) items)) (live s, c) = (live s', c') \<and>
    (\<forall>part \<in> set new. part_ok E served (content_status_cb B) verdict
       (set (concat (map (\<lambda>item. fst (snd item)) items))) part)"
  using assms(1,2)
proof (induction items arbitrary: s c out)
  case Nil
  then show ?case by (auto simp: op_return_def)
next
  case (Cons item items)
  obtain s1 c1 new1 where one: "process_item E S B item out (s, c) = (Inr (out @ new1), (s1, c1))" "valid s1"
    "fold (step verdict B) (fst (snd item)) (live s, c) = (live s1, c1)"
    "\<forall>part \<in> set new1. part_ok E served (content_status_cb B) verdict (set (fst (snd item))) part"
    using process_item_eq[OF Cons.prems(1) _ _ assms(3,4), where item = item and out = out and c = c] Cons.prems(2) by auto
  obtain s2 c2 new2 where two: "op_for (process_item E S B) items (out @ new1) (s1, c1) = (Inr ((out @ new1) @ new2), (s2, c2))"
    "valid s2" "fold (step verdict B) (concat (map (\<lambda>item. fst (snd item)) items)) (live s1, c1) = (live s2, c2)"
    "\<forall>part \<in> set new2. part_ok E served (content_status_cb B) verdict
       (set (concat (map (\<lambda>item. fst (snd item)) items))) part"
    using Cons.IH[OF one(2), of "out @ new1" c1] Cons.prems(2) by auto
  have "\<forall>part \<in> set (new1 @ new2). part_ok E served (content_status_cb B) verdict
       (set (concat (map (\<lambda>item. fst (snd item)) (item # items)))) part"
    using one(4) two(4) part_ok_mono[of E served "content_status_cb B" verdict] by (fastforce simp: ball_Un)
  then show ?case using one(1,3) two(1-3) by (auto simp: op_bind_def)
qed

text \<open>The whole handler. On a message whose ranges carry boundaries of this replica, it answers; the
  live state is the one the accepted values lead to, in order; the reply holds only entries of the
  served view and refusals of received entries; an empty reply is no message.\<close>

lemma process_message_eq:
  assumes "valid s" "split_factor cfg = 2"
    "\<forall>item \<in> set (message_items msg). (snd (snd item) \<or> admissible bound_ok (fst item)) \<and> (\<forall>rv \<in> set (fst (snd item)). entry_ok (fst rv))"
    "\<forall>part \<in> set (message_fingerprints msg). admissible bound_ok (fst part)"
    "verdict_ok valid entries live B verdict" "\<forall>s x. valid s \<longrightarrow> x \<in> set (entries s) \<longrightarrow> served x"
  shows "\<exists>reply s' c'. process_message C E S B cfg msg (s, c) = (Inr reply, (s', c')) \<and> valid s' \<and>
    fold (step verdict B) (message_values msg) (live s, c) = (live s', c') \<and> reply \<noteq> Some [] \<and>
    (\<forall>parts. reply = Some parts \<longrightarrow> (\<forall>part \<in> set parts.
       part_ok E served (content_status_cb B) verdict (set (message_values msg)) part))"
proof -
  obtain t c' new where t: "op_for (process_item E S B) (message_items msg) [] (s, c) = (Inr new, (t, c'))" "valid t"
    "fold (step verdict B) (message_values msg) (live s, c) = (live t, c')"
    "\<forall>part \<in> set new. part_ok E served (content_status_cb B) verdict (set (message_values msg)) part"
    using process_items_eq[OF assms(1,3,5,6), where out = "[]" and c = c] unfolding item_values by auto
  let ?fps = "concat (map (fingerprint_reply C E B (max_set_size cfg) (entries t)) (message_fingerprints msg))"
  obtain s' where s': "op_for (process_fingerprint C E S B cfg) (message_fingerprints msg) new (t, c') =
      (Inr (new @ ?fps), (s', c'))" "same t s'"
    using process_fingerprints_eq[OF t(2) assms(4,2), where B = B and out = new and c = c'] by blast
  have "part_ok E served (content_status_cb B) verdict (set (message_values msg)) part" if part: "part \<in> set ?fps" for part
  proof -
    have "served x \<and> cs = content_status_cb B x" if "part_values part = Some vs" "(x, cs) \<in> set vs" for x cs vs
    proof -
      obtain fp where "part \<in> set (fingerprint_reply C E B (max_set_size cfg) (entries t) fp)" using part by auto
      then have "(x, cs) \<in> set (message_values (fingerprint_reply C E B (max_set_size cfg) (entries t) fp))"
        using that by (auto simp: message_values_set)
      from fingerprint_reply_values[OF this] show ?thesis using assms(6) t(2) by auto
    qed
    moreover have "part_rejected part = None" using part
      by (auto simp: fingerprint_reply_def range_reply_def Let_def split: if_splits prod.splits)
    ultimately show ?thesis by (cases part) auto
  qed
  then have parts: "\<forall>part \<in> set (new @ ?fps). part_ok E served (content_status_cb B) verdict (set (message_values msg)) part"
    using t(4) by auto
  have live: "valid s'" "live s' = live t" using s'(2) by (simp_all add: same_view_def)
  define reply where "reply = (if new @ ?fps \<noteq> [] then Some (new @ ?fps) else None)"
  have "process_message C E S B cfg msg (s, c) = (Inr reply, (s', c'))"
    using t(1) s'(1) by (simp add: process_message_def op_bind_def op_return_def reply_def)
  moreover have "reply \<noteq> Some []" by (simp add: reply_def)
  moreover have "\<forall>ps. reply = Some ps \<longrightarrow> (\<forall>part \<in> set ps.
      part_ok E served (content_status_cb B) verdict (set (message_values msg)) part)"
    using parts by (simp add: reply_def)
  ultimately show ?thesis using live t(3) by auto
qed

end

section \<open>Messages with foreign boundaries\<close>

text \<open>A message whose ranges are all admissible (the range of an item is not looked at when the sender asks for no answer), and the values
  of a message that are read before the first item that is not.\<close>

definition item_own :: "('k range \<Rightarrow> bool) \<Rightarrow> 'k range \<times> 'a \<times> bool \<Rightarrow> bool" where
  "item_own own item \<longleftrightarrow> snd (snd item) \<or> own (fst item)"

definition message_own :: "('k range \<Rightarrow> bool) \<Rightarrow> ('x, 'k, 'r) message \<Rightarrow> bool" where
  "message_own own msg \<longleftrightarrow> list_all (item_own own) (message_items msg) \<and> list_all (\<lambda>part. own (fst part)) (message_fingerprints msg)"

definition values_read :: "('k range \<Rightarrow> bool) \<Rightarrow> ('x, 'k, 'r) message \<Rightarrow> ('x \<times> content_status) list" where
  "values_read own msg = concat (map (\<lambda>item. fst (snd item)) (takeWhile (item_own own) (message_items msg)))"

lemma values_read_all: "list_all (item_own own) (message_items msg) \<Longrightarrow> values_read own msg = message_values msg"
  unfolding values_read_def item_values[symmetric] by (metis list_all_iff takeWhile_eq_all_conv)

lemma values_read_subset: "set (values_read own msg) \<subseteq> set (message_values msg)"
  unfolding values_read_def item_values[symmetric] by (auto dest: set_takeWhileD)

text \<open>A store that answers a range whose boundaries are well formed but not its own with an error.\<close>

locale guarded_store =
  reconcile_store C E S valid entries live bound_ok default_key blocked prune place entry_ok
  for C :: crypto
    and E :: "('x, 'k::linorder, 'v, 'r) range_entry"
    and S :: "('s, 'e, 'k, 'x, 'v) store_ops"
    and valid :: "'s \<Rightarrow> bool"
    and entries :: "'s \<Rightarrow> 'x list"
    and live :: "'s \<Rightarrow> 'm"
    and bound_ok :: "'k \<Rightarrow> bool"
    and default_key :: 'k
    and blocked :: "'m \<Rightarrow> 'x \<Rightarrow> bool"
    and prune :: "'x \<Rightarrow> 'm \<Rightarrow> nat \<times> 'm"
    and place :: "'x \<Rightarrow> 'm \<Rightarrow> 'm"
    and entry_ok :: "'x \<Rightarrow> bool" +
  fixes wire_ok :: "'k \<Rightarrow> bool" and foreign :: 'e
  assumes range_foreign: "valid s \<Longrightarrow> wire_ok (range_x r) \<Longrightarrow> wire_ok (range_y r) \<Longrightarrow>
      \<not> admissible bound_ok r \<Longrightarrow> so_get_range S r s = (Inl foreign, s)"
    and fingerprint_foreign: "valid s \<Longrightarrow> wire_ok (range_x r) \<Longrightarrow> wire_ok (range_y r) \<Longrightarrow>
      \<not> admissible bound_ok r \<Longrightarrow> so_get_fingerprint S r s = (Inl foreign, s)"
begin

definition wire_range :: "'k range \<Rightarrow> bool" where
  "wire_range r \<longleftrightarrow> wire_ok (range_x r) \<and> wire_ok (range_y r)"

lemma process_item_foreign:
  assumes "valid s" "wire_range (fst item)" "\<not> (snd (snd item) \<or> admissible bound_ok (fst item))"
  shows "process_item E S B item out (s, c) = (Inl (Failure foreign), (s, c))"
  using range_foreign[OF assms(1), of "fst item"] assms(2,3)
  by (cases item rule: prod_cases3)
     (simp add: process_item_def item_diff_def op_bind_def on_store_def wire_range_def)

lemma process_fingerprint_foreign:
  assumes "valid s" "wire_range (fst part)" "\<not> admissible bound_ok (fst part)"
  shows "process_fingerprint C E S B cfg part out (s, c) = (Inl (Failure foreign), (s, c))"
  using fingerprint_foreign[OF assms(1), of "fst part"] assms(2,3)
  by (cases part) (simp add: process_fingerprint_def op_bind_def on_store_def wire_range_def)

lemma foreign_item:
  assumes "valid s" "\<forall>item \<in> set (message_items msg). wire_range (fst item) \<and> (\<forall>rv \<in> set (fst (snd item)). entry_ok (fst rv))"
    "verdict_ok valid entries live B verdict" "\<not> list_all (item_own (admissible bound_ok)) (message_items msg)"
  shows "\<exists>s' c'. process_message C E S B cfg msg (s, c) = (Inl (Failure foreign), (s', c')) \<and> valid s' \<and>
    fold (step verdict B) (values_read (admissible bound_ok) msg) (live s, c) = (live s', c')"
proof -
  let ?good = "item_own (admissible bound_ok) :: 'k range \<times> ('x \<times> content_status) list \<times> bool \<Rightarrow> bool"
  obtain good bad rest where split: "message_items msg = good @ bad # rest" "\<not> ?good bad" "\<forall>g \<in> set good. ?good g"
    using assms(4) split_list_first_prop[of "message_items msg" "\<lambda>i. \<not> ?good i"] by (auto simp: list_all_iff)
  have ok: "\<forall>item \<in> set good. (snd (snd item) \<or> admissible bound_ok (fst item)) \<and> (\<forall>rv \<in> set (fst (snd item)). entry_ok (fst rv))"
    using split assms(2) by (auto simp: item_own_def)
  have vs: "values_read (admissible bound_ok) msg = concat (map (\<lambda>item. fst (snd item)) good)"
    using split by (simp add: values_read_def)
  obtain s1 c1 new where pre: "op_for (process_item E S B) good [] (s, c) = (Inr new, (s1, c1))" "valid s1"
    "fold (step verdict B) (values_read (admissible bound_ok) msg) (live s, c) = (live s1, c1)"
    using process_items_eq[OF assms(1) ok assms(3), where served = "\<lambda>_. True" and out = "[]" and c = c] by (auto simp: vs)
  have "op_for (process_item E S B) (message_items msg) [] (s, c) = (Inl (Failure foreign), (s1, c1))"
    using pre process_item_foreign[OF pre(2), where item = bad and B = B and out = new and c = c1]
      split assms(2)
    by (simp add: op_for_append op_bind_def item_own_def)
  then have "process_message C E S B cfg msg (s, c) = (Inl (Failure foreign), (s1, c1))"
    by (simp add: process_message_def op_bind_def)
  then show ?thesis using pre(2,3) by blast
qed

lemma foreign_fingerprint:
  assumes "valid s" "split_factor cfg = 2"
    "\<forall>item \<in> set (message_items msg). (snd (snd item) \<or> admissible bound_ok (fst item)) \<and>
       (\<forall>rv \<in> set (fst (snd item)). entry_ok (fst rv))"
    "\<forall>part \<in> set (message_fingerprints msg). wire_range (fst part)" "verdict_ok valid entries live B verdict"
    "\<not> list_all (\<lambda>part. admissible bound_ok (fst part)) (message_fingerprints msg)"
  shows "\<exists>s' c'. process_message C E S B cfg msg (s, c) = (Inl (Failure foreign), (s', c')) \<and> valid s' \<and>
    fold (step verdict B) (message_values msg) (live s, c) = (live s', c')"
proof -
  let ?own = "\<lambda>part :: 'k range \<times> fingerprint. admissible bound_ok (fst part)"
  obtain good bad rest where split: "message_fingerprints msg = good @ bad # rest" "\<not> ?own bad" "\<forall>g \<in> set good. ?own g"
    using assms(6) split_list_first_prop[of "message_fingerprints msg" "\<lambda>i. \<not> ?own i"] by (auto simp: list_all_iff)
  obtain s1 c1 new where items: "op_for (process_item E S B) (message_items msg) [] (s, c) = (Inr new, (s1, c1))" "valid s1"
    "fold (step verdict B) (message_values msg) (live s, c) = (live s1, c1)"
    using process_items_eq[OF assms(1,3,5), where served = "\<lambda>_. True" and out = "[]" and c = c]
    unfolding item_values by auto
  obtain s2 fps where pre: "op_for (process_fingerprint C E S B cfg) good new (s1, c1) = (Inr fps, (s2, c1))" "valid s2"
    "live s2 = live s1"
    using process_fingerprints_eq[OF items(2) split(3) assms(2), where B = B and out = new and c = c1]
    by (auto simp: same_view_def)
  have "op_for (process_fingerprint C E S B cfg) (message_fingerprints msg) new (s1, c1) =
      (Inl (Failure foreign), (s2, c1))"
    using pre process_fingerprint_foreign[OF pre(2), where part = bad and B = B and cfg = cfg and out = fps and c = c1]
      split assms(4)
    by (simp add: op_for_append op_bind_def)
  then have "process_message C E S B cfg msg (s, c) = (Inl (Failure foreign), (s2, c1))"
    using items(1) by (simp add: process_message_def op_bind_def)
  then show ?thesis using items(3) pre(2,3) by auto
qed

text \<open>A message with a range that is not admissible is refused; the values of the items before it have been stored.\<close>

lemma process_message_foreign:
  assumes "valid s" "split_factor cfg = 2"
    "\<forall>item \<in> set (message_items msg). wire_range (fst item) \<and> (\<forall>rv \<in> set (fst (snd item)). entry_ok (fst rv))"
    "\<forall>part \<in> set (message_fingerprints msg). wire_range (fst part)"
    "verdict_ok valid entries live B verdict" "\<not> message_own (admissible bound_ok) msg"
  shows "\<exists>s' c'. process_message C E S B cfg msg (s, c) = (Inl (Failure foreign), (s', c')) \<and> valid s' \<and>
    fold (step verdict B) (values_read (admissible bound_ok) msg) (live s, c) = (live s', c')"
proof (cases "list_all (item_own (admissible bound_ok)) (message_items msg)")
  case True
  then have items: "\<forall>item \<in> set (message_items msg). (snd (snd item) \<or> admissible bound_ok (fst item)) \<and>
      (\<forall>rv \<in> set (fst (snd item)). entry_ok (fst rv))" using assms(3) by (simp add: list_all_iff item_own_def)
  show ?thesis using foreign_fingerprint[OF assms(1,2) items assms(4,5)] assms(6) True
    by (simp add: message_own_def values_read_all)
qed (use foreign_item[OF assms(1,3,5)] in blast)

text \<open>Whatever well-formed message a peer sends, the handler does not panic: it answers with a reply
  that is in order, or refuses the message because of a foreign boundary.\<close>

lemma process_message_total:
  assumes "valid s" "split_factor cfg = 2"
    "\<forall>item \<in> set (message_items msg). wire_range (fst item) \<and> (\<forall>rv \<in> set (fst (snd item)). entry_ok (fst rv))"
    "\<forall>part \<in> set (message_fingerprints msg). wire_range (fst part)"
    "verdict_ok valid entries live B verdict" "\<forall>s x. valid s \<longrightarrow> x \<in> set (entries s) \<longrightarrow> served x"
  shows "\<exists>r s' c' vs. process_message C E S B cfg msg (s, c) = (r, (s', c')) \<and> valid s' \<and>
    set vs \<subseteq> set (message_values msg) \<and> fold (step verdict B) vs (live s, c) = (live s', c') \<and>
    (r = Inl (Failure foreign) \<or>
     (\<exists>reply. r = Inr reply \<and> (\<forall>parts. reply = Some parts \<longrightarrow> (\<forall>part \<in> set parts.
       part_ok E served (content_status_cb B) verdict (set (message_values msg)) part))))"
proof (cases "message_own (admissible bound_ok) msg")
  case False
  then show ?thesis using process_message_foreign[OF assms(1-5)] values_read_subset[of "admissible bound_ok" msg] by blast
next
  case True
  then have items: "\<forall>item \<in> set (message_items msg). (snd (snd item) \<or> admissible bound_ok (fst item)) \<and>
      (\<forall>rv \<in> set (fst (snd item)). entry_ok (fst rv))"
    and own: "\<forall>part \<in> set (message_fingerprints msg). admissible bound_ok (fst part)"
    using assms(3) by (simp_all add: message_own_def item_own_def list_all_iff)
  show ?thesis using process_message_eq[OF assms(1,2) items own assms(5,6), of c] by blast
qed

end

end
