(* ===== verification/Store_Ingest.thy ===== *)
theory Store_Ingest
  imports Store_Instance Ranger_Ingest
begin

text \<open>
  Ingest into a replica: what \<open>prefixes_of\<close>, \<open>remove_prefix_filtered\<close>, \<open>entry_put\<close> and the provided
  methods \<open>would_insert\<close> and \<open>put\<close> do to the records. The abstract specification is a map from record
  ids to stored values (\<open>doc_map\<close>); \<open>put\<close> refines \<open>doc_put\<close> on it.
\<close>

section \<open>Parents\<close>

lemma parents_loop_eq:
  "parents_loop C t n a k res =
     res @ List.map_filter (\<lambda>j. table_get_exact C t n a (take j k) False) (rev [1..<Suc (length k)])"
proof (induction k arbitrary: res rule: rev_induct)
  case Nil
  then show ?case by (subst parents_loop.simps) (simp add: List.map_filter_simps)
next
  case (snoc x k)
  have shorter: "List.map_filter (\<lambda>j. table_get_exact C t n a (take j (k @ [x])) False) (rev [1..<Suc (length k)]) =
      List.map_filter (\<lambda>j. table_get_exact C t n a (take j k) False) (rev [1..<Suc (length k)])"
    by (rule map_filter_cong) auto
  have up: "rev [1..<Suc (length (k @ [x]))] = Suc (length k) # rev [1..<Suc (length k)]" by simp
  have step: "parents_loop C t n a (k @ [x]) res = parents_loop C t n a k
      (case table_get_exact C t n a (k @ [x]) False of Some e \<Rightarrow> res @ [e] | None \<Rightarrow> res)"
    by (subst parents_loop.simps) simp
  show ?case
    unfolding step snoc.IH up List.map_filter_simps shorter
    by (cases "table_get_exact C t n a (k @ [x]) False") (simp_all del: upt_Suc)
qed

text \<open>The parents of a key are the stored, not empty entries at its non-empty prefixes, the key
  itself included, shortest first.\<close>

lemma parents_eq:
  "parents C t n a k =
     List.map_filter (\<lambda>j. table_get_exact C t n a (take j k) False) [1..<Suc (length k)]"
proof -
  have "rev (List.map_filter f xs) = List.map_filter f (rev xs)" for f :: "nat \<Rightarrow> signed_entry option" and xs
    by (simp add: List.map_filter_def rev_map rev_filter)
  then show ?thesis by (simp add: parents_def parents_loop_eq)
qed

lemma table_get_exact_Some:
  "table_get_exact C t n a p False = Some e \<longleftrightarrow>
     (\<exists>v. table_get t (n, a, p) = Some v \<and> e = into_entry ((n, a, p), v) \<and> \<not> signed_entry_is_empty C e)"
  by (cases "table_get t (n, a, p)") (auto simp: table_get_exact_def Let_def)

lemma set_parents:
  "e \<in> set (parents C t n a k) \<longleftrightarrow>
     (\<exists>p v. p \<noteq> [] \<and> prefix p k \<and> table_get t (n, a, p) = Some v \<and> e = into_entry ((n, a, p), v) \<and>
            \<not> signed_entry_is_empty C e)"
proof -
  have "e \<in> set (parents C t n a k) \<longleftrightarrow>
      (\<exists>j. 1 \<le> j \<and> j \<le> length k \<and> table_get_exact C t n a (take j k) False = Some e)"
    unfolding parents_eq set_map_filter by auto
  also have "\<dots> \<longleftrightarrow> (\<exists>p. p \<noteq> [] \<and> prefix p k \<and> table_get_exact C t n a p False = Some e)"
  proof safe
    fix j assume "1 \<le> j" "j \<le> length k" "table_get_exact C t n a (take j k) False = Some e"
    then show "\<exists>p. p \<noteq> [] \<and> prefix p k \<and> table_get_exact C t n a p False = Some e"
      by (intro exI[of _ "take j k"]) (auto simp: take_is_prefix)
  next
    fix p assume "p \<noteq> []" "prefix p k" "table_get_exact C t n a p False = Some e"
    then show "\<exists>j\<ge>1. j \<le> length k \<and> table_get_exact C t n a (take j k) False = Some e"
      by (intro exI[of _ "length p"]) (auto simp: prefix_def Suc_le_eq)
  qed
  also have "\<dots> \<longleftrightarrow> (\<exists>p v. p \<noteq> [] \<and> prefix p k \<and> table_get t (n, a, p) = Some v \<and>
      e = into_entry ((n, a, p), v) \<and> \<not> signed_entry_is_empty C e)"
    unfolding table_get_exact_Some by blast
  finally show ?thesis .
qed

section \<open>The specification\<close>

type_synonym doc_map = "records_id \<Rightarrow> records_value option"

definition doc_map :: "tables \<Rightarrow> doc_map" where
  "doc_map t = table_get (t_records t)"

text \<open>An entry is superseded when a live entry at a non-empty prefix of its key is at or above it.\<close>

definition blocks :: "crypto \<Rightarrow> doc_map \<Rightarrow> doc_record \<Rightarrow> records_id \<Rightarrow> bool" where
  "blocks C m r i =
     (case m i of
        None \<Rightarrow> False
      | Some v \<Rightarrow> \<not> record_is_empty C (value_record v) \<and> record_le r (value_record v))"

definition superseded :: "crypto \<Rightarrow> doc_map \<Rightarrow> signed_entry \<Rightarrow> bool" where
  "superseded C m e =
     list_ex (\<lambda>p. p \<noteq> [] \<and> blocks C m (se_record e) (rid_namespace (se_id e), rid_author (se_id e), p))
       (prefixes (rid_key (se_id e)))"

lemma superseded_iff:
  "superseded C m e \<longleftrightarrow> (\<exists>p. p \<noteq> [] \<and> prefix p (rid_key (se_id e)) \<and>
     blocks C m (se_record e) (rid_namespace (se_id e), rid_author (se_id e), p))"
  by (auto simp: superseded_def list_ex_iff)

text \<open>The ids the prefix bounds of an entry cover.\<close>

definition covers :: "signed_entry \<Rightarrow> records_id \<Rightarrow> bool" where
  "covers e i \<longleftrightarrow> fst i = rid_namespace (se_id e) \<and> fst (snd i) = rid_author (se_id e) \<and>
     (prefix (rid_key (se_id e)) (snd (snd i)) \<or> overshoot (rid_key (se_id e)) (snd (snd i)))"

definition doc_put :: "crypto \<Rightarrow> signed_entry \<Rightarrow> doc_map \<Rightarrow> doc_map" where
  "doc_put C e m =
     (if superseded C m e then m
      else (\<lambda>i. if i = fst (records_row e) then Some (snd (records_row e))
                else case m i of
                       None \<Rightarrow> None
                     | Some v \<Rightarrow> if covers e i \<and> record_le (value_record v) (se_record e) then None else Some v))"

section \<open>The operations on tables\<close>

lemma entry_put_tables_ok:
  assumes "tables_ok C t" "rid_ok (se_id e)" "entry_put_tables e t = (r, t')"
  shows "tables_ok C t'"
proof -
  let ?i = "(rid_namespace (se_id e), rid_author (se_id e), rid_key (se_id e))"
  have i: "records_id_ok ?i" using rid_ok_lengths[OF assms(2)] by (simp add: records_id_ok_def)
  have t': "t' = t\<lparr>t_records := table_insert ?i (snd (records_row e)) (t_records t),
      t_records_by_key := table_insert (by_key_of ?i) () (t_records_by_key t),
      t_latest_per_author := table_insert (rid_namespace (se_id e), rid_author (se_id e))
        (entry_timestamp (se_entry e), rid_key (se_id e)) (t_latest_per_author t)\<rparr>"
    using assms(3) by (simp add: entry_put_tables_def Let_def by_key_of_def)
  have ok: "records_ok (t_records t)" "index_ok (t_records t) (t_records_by_key t)"
    "latest_ok (t_latest_per_author t)" using assms(1) by (simp_all add: tables_ok_def)
  have "latest_ok (t_latest_per_author t')"
    using ok(3) rid_ok_lengths[OF assms(2)]
    by (auto simp: t' latest_ok_def table_insert_ok set_table_insert)
  then show ?thesis
    using assms(1) records_ok_insert[OF ok(1) i] index_ok_insert[OF ok(1,2) i]
    unfolding tables_ok_def by (simp add: t')
qed

lemma doc_map_entry_put:
  "entry_put_tables e t = (r, t') \<Longrightarrow> doc_map t' = (doc_map t)(fst (records_row e) \<mapsto> snd (records_row e))"
  by (auto simp: entry_put_tables_def Let_def doc_map_def table_get_insert records_row_def)

lemma remove_prefix_tables_ok:
  assumes "tables_ok C t" "remove_prefix_tables i p t = (r, t')"
  shows "tables_ok C t'"
proof -
  obtain q where t': "t' = t\<lparr>t_records := filter q (t_records t)\<rparr>"
    using assms(2) by (auto simp: remove_prefix_tables_def table_extract_from_if_def)
  have "index_ok (filter q (t_records t)) (filter (\<lambda>_. True) (t_records_by_key t))"
    by (rule index_ok_filter) (use assms(1) in \<open>auto simp: tables_ok_def\<close>)
  then show ?thesis using assms(1) records_ok_filter unfolding t' by (auto simp: tables_ok_def)
qed

lemma covers_bounds:
  assumes "rid_ok (se_id e)" "records_id_ok i"
  shows "in_bounds (records_bounds_author_prefix (rid_namespace (se_id e)) (rid_author (se_id e)) (rid_key (se_id e))) i
     \<longleftrightarrow> covers e i"
  using in_author_prefix_bounds rid_ok_lengths[OF assms(1)] assms(2)
  by (cases i rule: prod_cases3) (auto simp: covers_def records_id_ok_def)

lemma remove_prefix_tables_eq:
  assumes "tables_ok C t" "rid_ok (se_id e)" "remove_prefix_tables (se_id e) p t = (r, t')"
  shows "doc_map t' = (\<lambda>i. case doc_map t i of None \<Rightarrow> None
           | Some v \<Rightarrow> if covers e i \<and> p (value_record v) then None else Some v)"
    and "r = Inr (length (filter (\<lambda>(i, v). covers e i \<and> p (value_record v)) (t_records t)))"
proof -
  let ?b = "records_bounds_author_prefix (rid_namespace (se_id e)) (rid_author (se_id e)) (rid_key (se_id e))"
  have ok: "table_ok (t_records t)" and ids: "\<And>i v. (i, v) \<in> set (t_records t) \<Longrightarrow> records_id_ok i"
    using assms(1) by (auto simp: tables_ok_def records_ok_def)
  have t': "t' = t\<lparr>t_records := filter (\<lambda>(i, v). \<not> (in_bounds ?b i \<and> p (value_record v))) (t_records t)\<rparr>"
    and r: "r = Inr (length (filter (\<lambda>(i, v). in_bounds ?b i \<and> p (value_record v)) (t_records t)))"
    using assms(3) by (auto simp: remove_prefix_tables_def table_extract_from_if_def)
  show "doc_map t' = (\<lambda>i. case doc_map t i of None \<Rightarrow> None
           | Some v \<Rightarrow> if covers e i \<and> p (value_record v) then None else Some v)"
  proof
    fix i
    show "doc_map t' i = (case doc_map t i of None \<Rightarrow> None
           | Some v \<Rightarrow> if covers e i \<and> p (value_record v) then None else Some v)"
    proof (cases "table_get (t_records t) i")
      case (Some v)
      then have "records_id_ok i" using ids table_get_Some_iff[OF ok] by blast
      then show ?thesis
        using Some covers_bounds[OF assms(2)] by (simp add: t' doc_map_def table_get_filter[OF ok])
    qed (simp add: t' doc_map_def table_get_filter[OF ok])
  qed
  show "r = Inr (length (filter (\<lambda>(i, v). covers e i \<and> p (value_record v)) (t_records t)))"
    unfolding r using covers_bounds[OF assms(2) ids]
    by (intro arg_cong[where f = "\<lambda>x. Inr (length x)"] filter_cong) auto
qed

section \<open>The write contract\<close>

definition tables_blocked :: "crypto \<Rightarrow> tables \<Rightarrow> signed_entry \<Rightarrow> bool" where
  "tables_blocked C t e = superseded C (doc_map t) e"

definition tables_prune :: "signed_entry \<Rightarrow> tables \<Rightarrow> nat \<times> tables" where
  "tables_prune e t =
     (case remove_prefix_tables (se_id e) (\<lambda>v. record_le v (se_record e)) t of
        (r, t') \<Rightarrow> (case r of Inl _ \<Rightarrow> 0 | Inr n \<Rightarrow> n, t'))"

definition tables_place :: "signed_entry \<Rightarrow> tables \<Rightarrow> tables" where
  "tables_place e t = snd (entry_put_tables e t)"

definition entry_ok :: "signed_entry \<Rightarrow> bool" where
  "entry_ok e \<longleftrightarrow> rid_ok (se_id e)"

lemma blocked_parents:
  "tables_blocked C t e \<longleftrightarrow>
     (\<exists>p \<in> set (parents C (t_records t) (rid_namespace (se_id e)) (rid_author (se_id e)) (rid_key (se_id e))).
        record_le (se_record e) (se_record p))"
proof -
  have "blocks C (table_get rs) r i \<longleftrightarrow> (\<exists>v. table_get rs i = Some v \<and>
      \<not> signed_entry_is_empty C (into_entry (i, v)) \<and> record_le r (se_record (into_entry (i, v))))" for rs r i
    by (cases "table_get rs i") (auto simp: blocks_def signed_entry_is_empty_def into_entry_record)
  then show ?thesis
    unfolding tables_blocked_def superseded_iff doc_map_def Bex_def set_parents by blast
qed

lemma remove_prefix_Inr: "\<exists>n. fst (remove_prefix_tables i p t) = Inr n"
  by (simp add: remove_prefix_tables_def table_extract_from_if_def)

lemma prune_eq:
  "remove_prefix_tables (se_id e) (\<lambda>v. record_le v (se_record e)) t =
     (Inr (fst (tables_prune e t)), snd (tables_prune e t))"
  using remove_prefix_Inr[of "se_id e" "\<lambda>v. record_le v (se_record e)" t]
  by (auto simp: tables_prune_def split: prod.splits)

lemma place_eq: "entry_put_tables e t = (Inr (), tables_place e t)"
  by (simp add: tables_place_def entry_put_tables_def Let_def)

lemma modify_instance:
  assumes "instance_valid C ns snap s" "f (visible s) = (r, t)" "tables_ok C t"
  obtains s' where "modify f s = (r, s')" "instance_valid C ns snap s'" "visible s' = t"
proof -
  have "tx_ok s" using assms(1) by (simp add: instance_valid_def)
  then obtain s' where "modify f s = (r, s')" "visible s' = t" "tx_ok s'" "same_rest s s'"
    using assms(2) by (rule modify_eq)
  then show thesis using that assms(1,3) by (simp add: instance_valid_def same_rest_def)
qed

interpretation instance_ingest: ingest_store "signed_entry_range C" "instance_ops C ns snap"
  "instance_valid C ns snap" visible "tables_blocked C" tables_prune tables_place entry_ok
  for C ns snap
proof
  fix s and x :: signed_entry assume v: "instance_valid C ns snap s"
  then have t: "tables_ok C (visible s)" and tx: "tx_ok s" by (simp_all add: instance_valid_def)
  obtain s' where s': "store_tables s = (visible s, s')" "visible s' = visible s" "tx_ok s'" "same_rest s s'"
    by (rule store_tables_eq[OF tx])
  let ?ps = "parents C (t_records (visible s)) (rid_namespace (se_id x)) (rid_author (se_id x)) (rid_key (se_id x))"
  have "so_prefixes_of (instance_ops C ns snap) (se_id x) s = (Inr (map Inr ?ps), s')"
    using s'(1) by (simp add: instance_ops_def instance_prefixes_of_def)
  then show "\<exists>ps s'. so_prefixes_of (instance_ops C ns snap) (re_key (signed_entry_range C) x) s = (Inr (map Inr ps), s') \<and>
      instance_valid C ns snap s' \<and> visible s' = visible s \<and>
      (tables_blocked C (visible s) x \<longleftrightarrow> (\<exists>p \<in> set ps. re_value_le (signed_entry_range C)
         (re_value (signed_entry_range C) x) (re_value (signed_entry_range C) p)))"
    using s'(2-4) v
    by (intro exI[of _ ?ps] exI[of _ s']) (simp add: blocked_parents instance_valid_def same_rest_def)
  assume x: "entry_ok x"
  then have ok: "rid_ok (se_id x)" by (simp add: entry_ok_def)
  show "\<exists>s'. so_remove_prefix_filtered (instance_ops C ns snap) (re_key (signed_entry_range C) x)
        (\<lambda>v. re_value_le (signed_entry_range C) v (re_value (signed_entry_range C) x)) s =
      (Inr (fst (tables_prune x (visible s))), s') \<and> instance_valid C ns snap s' \<and>
      visible s' = snd (tables_prune x (visible s))"
    by (rule modify_instance[where f = "remove_prefix_tables (se_id x) (\<lambda>v. record_le v (se_record x))",
          OF v prune_eq remove_prefix_tables_ok[OF t prune_eq]])
       (auto simp: instance_ops_def instance_remove_prefix_filtered_def)
  show "\<exists>s'. so_entry_put (instance_ops C ns snap) x s = (Inr (), s') \<and> instance_valid C ns snap s' \<and>
      visible s' = tables_place x (visible s)"
    by (rule modify_instance[where f = "entry_put_tables x", OF v place_eq entry_put_tables_ok[OF t ok place_eq]])
       (auto simp: instance_ops_def instance_entry_put_def)
qed

interpretation instance_reconcile: reconcile_store C "signed_entry_range C" "instance_ops C ns snap"
  "instance_valid C ns snap" "instance_entries ns snap" visible "own_boundary ns" rid_default
  "tables_blocked C" tables_prune tables_place entry_ok
  for C ns snap
  by unfold_locales

section \<open>Put\<close>

abbreviation tables_put :: "crypto \<Rightarrow> signed_entry \<Rightarrow> tables \<Rightarrow> insert_outcome \<times> tables" where
  "tables_put C \<equiv> put_spec (tables_blocked C) tables_prune tables_place"

lemma doc_map_put:
  assumes "tables_ok C t" "entry_ok e"
  shows "doc_map (snd (tables_put C e t)) = doc_put C e (doc_map t)"
proof -
  have ok: "rid_ok (se_id e)" using assms(2) by (simp add: entry_ok_def)
  show ?thesis
    using remove_prefix_tables_eq(1)[OF assms(1) ok prune_eq] doc_map_entry_put[OF place_eq]
    by (auto simp: put_spec_def tables_blocked_def doc_put_def fun_eq_iff)
qed

lemma tables_put_ok:
  assumes "tables_ok C t" "entry_ok e"
  shows "tables_ok C (snd (tables_put C e t))"
  using entry_put_tables_ok[OF remove_prefix_tables_ok[OF assms(1) prune_eq] _ place_eq] assms
  by (auto simp: put_spec_def entry_ok_def)

text \<open>Nothing but the records, the by-key index and the latest table changes.\<close>

lemma tables_put_frame:
  "t_namespaces (snd (tables_put C e t)) = t_namespaces t"
  "t_namespace_peers (snd (tables_put C e t)) = t_namespace_peers t"
  "t_download_policy (snd (tables_put C e t)) = t_download_policy t"
  "t_authors (snd (tables_put C e t)) = t_authors t"
  by (auto simp: put_spec_def tables_place_def entry_put_tables_def Let_def tables_prune_def
      remove_prefix_tables_def table_extract_from_if_def)

text \<open>C14. Storing an entry through \<open>put\<close> refines the map specification: the call always returns, the
  records afterwards are \<open>doc_put\<close> of the records before, the entry is refused exactly when it is
  superseded, and the other tables and the well-formedness of the store are untouched.\<close>

theorem put_refines_doc_put:
  assumes "instance_valid C ns snap s" "entry_ok e"
  shows "\<exists>out s'. ranger_put (signed_entry_range C) (instance_ops C ns snap) e s = (Inr out, s') \<and>
     instance_valid C ns snap s' \<and>
     doc_map (visible s') = doc_put C e (doc_map (visible s)) \<and>
     (out = NotInserted \<longleftrightarrow> superseded C (doc_map (visible s)) e) \<and>
     t_namespaces (visible s') = t_namespaces (visible s) \<and>
     t_namespace_peers (visible s') = t_namespace_peers (visible s) \<and>
     t_download_policy (visible s') = t_download_policy (visible s) \<and>
     t_authors (visible s') = t_authors (visible s)"
proof -
  obtain s' where s': "ranger_put (signed_entry_range C) (instance_ops C ns snap) e s =
      (Inr (fst (tables_put C e (visible s))), s')" "instance_valid C ns snap s'"
    "visible s' = snd (tables_put C e (visible s))"
    by (rule instance_ingest.put_eq[OF assms])
  have "tables_ok C (visible s)" using assms(1) by (simp add: instance_valid_def)
  then show ?thesis
    using s' doc_map_put[OF _ assms(2)] tables_put_frame[of C e "visible s"]
    by (auto simp: put_spec_def tables_blocked_def)
qed

section \<open>Last writer wins\<close>

lemma blocks_mono: "blocks C m r i \<Longrightarrow> record_le r' r \<Longrightarrow> blocks C m r' i"
  by (auto simp: blocks_def split: option.splits intro: record_le_trans)

lemma superseded_mono:
  assumes "superseded C m e'" "record_le (se_record e) (se_record e')" "se_id e = se_id e'"
  shows "superseded C m e"
  using assms(1) blocks_mono[OF _ assms(2)] unfolding superseded_iff assms(3) by blast

lemma records_row_value: "value_record (snd (records_row e)) = se_record e"
  by (simp add: records_row_def value_record_def record_new_def entry_timestamp_def
      entry_content_len_def entry_content_hash_def)

text \<open>What a put leaves at an id: a block above the new entry's record stays a block.\<close>

lemma blocks_doc_put:
  assumes "\<not> record_le r (se_record e)"
  shows "blocks C (doc_put C e m) r i \<longleftrightarrow>
     blocks C m r i \<and> (superseded C m e \<or> i \<noteq> fst (records_row e))"
proof -
  have "record_le r (value_record v) \<Longrightarrow> \<not> record_le (value_record v) (se_record e)" for v
    using assms record_le_trans by blast
  then show ?thesis
    using assms records_row_value[of e] by (cases "m i") (auto simp: blocks_def doc_put_def)
qed

lemma superseded_doc_put:
  assumes "se_id e = se_id e'" "\<not> record_le (se_record e') (se_record e)"
  shows "superseded C (doc_put C e m) e' \<longleftrightarrow> superseded C m e'"
proof -
  have le: "record_le (se_record e) (se_record e')" using assms(2) record_le_total by blast
  have "blocks C m (se_record e') i \<Longrightarrow> i = fst (records_row e) \<Longrightarrow> rid_key (se_id e) \<noteq> [] \<Longrightarrow> superseded C m e" for i
    using blocks_mono[OF _ le] unfolding superseded_iff by (auto simp: records_row_def)
  then show ?thesis
    using assms(1) unfolding superseded_iff[of C _ e'] blocks_doc_put[OF assms(2)]
    by (auto simp: records_row_def)
qed

lemma blocks_self:
  assumes "\<not> superseded C m e" "\<not> record_is_empty C (se_record e)" "record_le r (se_record e)"
  shows "blocks C (doc_put C e m) r (fst (records_row e))"
  using assms by (simp add: blocks_def doc_put_def records_row_value)

text \<open>Two entries of the same author at the same key: in whichever order they arrive, the document
  ends up as if only the greater one had arrived.\<close>

lemma doc_put_last_writer_wins:
  assumes "se_id e = se_id e'" "\<not> record_le (se_record e') (se_record e)"
    "rid_key (se_id e') \<noteq> []" "\<not> record_is_empty C (se_record e')"
  shows "doc_put C e' (doc_put C e m) = doc_put C e' m" "doc_put C e (doc_put C e' m) = doc_put C e' m"
proof -
  have le: "record_le (se_record e) (se_record e')" using assms(2) record_le_total by blast
  have same: "fst (records_row e) = fst (records_row e')" "\<And>i. covers e i = covers e' i"
    using assms(1) by (simp_all add: records_row_def covers_def)
  have trans: "record_le (value_record v) (se_record e) \<Longrightarrow> record_le (value_record v) (se_record e')" for v
    using record_le_trans[OF _ le] .
  show "doc_put C e' (doc_put C e m) = doc_put C e' m"
  proof (cases "superseded C m e'")
    case True
    then show ?thesis using superseded_mono[OF True le assms(1)] by (simp add: doc_put_def)
  next
    case False
    then have "\<not> superseded C (doc_put C e m) e'" using superseded_doc_put[OF assms(1,2)] by simp
    then show ?thesis using False same trans
      by (auto simp: doc_put_def[of C e'] fun_eq_iff) (auto simp: doc_put_def split: option.splits)
  qed
  have "superseded C (doc_put C e' m) e"
  proof (cases "superseded C m e'")
    case True
    then show ?thesis using superseded_mono[OF True le assms(1)] by (simp add: doc_put_def)
  next
    case False
    then show ?thesis using blocks_self[OF False assms(4) le] assms(1,3)
      unfolding superseded_iff[of C _ e] by (auto simp: records_row_def)
  qed
  then show "doc_put C e (doc_put C e' m) = doc_put C e' m" by (simp add: doc_put_def[of C e])
qed

text \<open>Last writer wins: two entries of one author at one (non-empty) key, of which the greater is
  not a deletion marker, lead to the same document in whichever order they are stored.\<close>

theorem put_order_irrelevant:
  assumes "instance_valid C ns snap s" "entry_ok e" "entry_ok e'" "se_id e = se_id e'"
    "\<not> record_le (se_record e') (se_record e)" "rid_key (se_id e') \<noteq> []"
    "\<not> record_is_empty C (se_record e')"
  shows "doc_map (visible (snd (op_bind (ranger_put (signed_entry_range C) (instance_ops C ns snap) e)
             (\<lambda>_. ranger_put (signed_entry_range C) (instance_ops C ns snap) e') s))) =
         doc_map (visible (snd (op_bind (ranger_put (signed_entry_range C) (instance_ops C ns snap) e')
             (\<lambda>_. ranger_put (signed_entry_range C) (instance_ops C ns snap) e) s)))"
proof -
  let ?put = "ranger_put (signed_entry_range C) (instance_ops C ns snap)"
  have two: "doc_map (visible (snd (op_bind (?put a) (\<lambda>_. ?put b) s))) =
      doc_put C b (doc_put C a (doc_map (visible s)))" if ok: "entry_ok a" "entry_ok b" for a b
  proof -
    obtain t where t: "?put a s = (Inr (fst (tables_put C a (visible s))), t)" "instance_valid C ns snap t"
      "visible t = snd (tables_put C a (visible s))" by (rule instance_ingest.put_eq[OF assms(1) ok(1)])
    obtain u where u: "?put b t = (Inr (fst (tables_put C b (visible t))), u)"
      "visible u = snd (tables_put C b (visible t))" by (rule instance_ingest.put_eq[OF t(2) ok(2)])
    have "tables_ok C (visible s)" "tables_ok C (visible t)"
      using assms(1) t(2) by (simp_all add: instance_valid_def)
    then show ?thesis using t u doc_map_put ok by (simp add: op_bind_def)
  qed
  show ?thesis
    using two[OF assms(2,3)] two[OF assms(3,2)] doc_put_last_writer_wins[OF assms(4-7)] by simp
qed

section \<open>Deletion markers do not block\<close>

text \<open>Deletion markers are no obstacle: when all entries the store holds at prefixes of a key are
  deletion markers, a new entry at that key is stored, whatever the timestamps; an older entry
  replaces a newer marker at its own key. (The documentation of \<open>put\<close> promises that an entry is
  inserted only if it is greater than all entries at prefixes of its key.)\<close>

theorem entry_put_over_markers:
  assumes "instance_valid C ns snap s" "entry_ok e"
    "\<forall>p v. prefix p (rid_key (se_id e)) \<and>
       doc_map (visible s) (rid_namespace (se_id e), rid_author (se_id e), p) = Some v \<longrightarrow>
       record_is_empty C (value_record v)"
  shows "\<exists>n s'. ranger_put (signed_entry_range C) (instance_ops C ns snap) e s = (Inr (Inserted n), s') \<and>
     doc_map (visible s') (fst (records_row e)) = Some (snd (records_row e))"
proof -
  have free: "\<not> superseded C (doc_map (visible s)) e"
    using assms(3) by (force simp: superseded_iff blocks_def split: option.splits)
  obtain s' where s': "ranger_put (signed_entry_range C) (instance_ops C ns snap) e s =
      (Inr (fst (tables_put C e (visible s))), s')" "instance_valid C ns snap s'"
    "visible s' = snd (tables_put C e (visible s))"
    by (rule instance_ingest.put_eq[OF assms(1,2)])
  have "tables_ok C (visible s)" using assms(1) by (simp add: instance_valid_def)
  from doc_map_put[OF this assms(2)] show ?thesis
    using s' free by (auto simp: doc_put_def put_spec_def tables_blocked_def)
qed

section \<open>Closed instances\<close>

definition sample_ns :: namespace_id where
  "sample_ns = replicate 32 1"

definition sample_author :: author_id where
  "sample_author = replicate 32 2"

definition sample_entry :: "bytes \<Rightarrow> doc_record \<Rightarrow> signed_entry" where
  "sample_entry key r =
     signed_entry_new (entry_signature_from_parts [] []) (entry_new (rid_new sample_ns sample_author key) r)"

definition sample_store :: "signed_entry list \<Rightarrow> fs_store" where
  "sample_store es = (store_memory (\<lambda>n. n))\<lparr>st_db := fold tables_place es tables_empty\<rparr>"

lemma sample_ids [simp]: "length sample_ns = 32" "length sample_author = 32"
  by (simp_all add: sample_ns_def sample_author_def)

lemma sample_entry_simps [simp]:
  "se_id (sample_entry key r) = rid_new sample_ns sample_author key"
  "se_record (sample_entry key r) = r" "entry_ok (sample_entry key r)"
  by (simp_all add: sample_entry_def signed_entry_new_def entry_new_def entry_ok_def)

lemma tables_place_ok: "tables_ok C t \<Longrightarrow> entry_ok e \<Longrightarrow> tables_ok C (tables_place e t)"
  using entry_put_tables_ok[OF _ _ place_eq] by (simp add: entry_ok_def)

lemma fold_place_ok: "tables_ok C t \<Longrightarrow> \<forall>e \<in> set es. entry_ok e \<Longrightarrow> tables_ok C (fold tables_place es t)"
  by (induction es arbitrary: t) (auto simp: tables_place_ok)

lemma visible_sample [simp]: "visible (sample_store es) = fold tables_place es tables_empty"
  by (simp add: visible_def sample_store_def store_memory_def)

lemma sample_store_valid:
  "\<forall>e \<in> set es. entry_ok e \<Longrightarrow> length ns = 32 \<Longrightarrow> instance_valid C ns None (sample_store es)"
  using fold_place_ok[OF tables_ok_empty, of es C]
  by (simp add: instance_valid_def) (simp add: tx_ok_def sample_store_def store_memory_def key_cache_ok_def)

theorem put_refines_doc_put_witness:
  "\<exists>out s'. ranger_put (signed_entry_range sample_crypto) (instance_ops sample_crypto sample_ns None)
       (sample_entry [97] (record_new [7] 1 5)) (sample_store []) = (Inr out, s') \<and>
     doc_map (visible s') = doc_put sample_crypto (sample_entry [97] (record_new [7] 1 5))
       (doc_map (visible (sample_store [])))"
  using put_refines_doc_put[OF sample_store_valid[of "[]" sample_ns sample_crypto], of "sample_entry [97] (record_new [7] 1 5)"]
  by auto

theorem put_order_irrelevant_witness:
  "doc_map (visible (snd (op_bind (ranger_put (signed_entry_range sample_crypto) (instance_ops sample_crypto sample_ns None)
         (sample_entry [97] (record_new [7] 1 5)))
       (\<lambda>_. ranger_put (signed_entry_range sample_crypto) (instance_ops sample_crypto sample_ns None)
         (sample_entry [97] (record_new [8] 1 6))) (sample_store [])))) =
   doc_map (visible (snd (op_bind (ranger_put (signed_entry_range sample_crypto) (instance_ops sample_crypto sample_ns None)
         (sample_entry [97] (record_new [8] 1 6)))
       (\<lambda>_. ranger_put (signed_entry_range sample_crypto) (instance_ops sample_crypto sample_ns None)
         (sample_entry [97] (record_new [7] 1 5))) (sample_store []))))"
  by (rule put_order_irrelevant[OF sample_store_valid])
     (simp_all add: record_le_iff record_new_def record_is_empty_def hash_empty_def sample_crypto_def pad_def)

text \<open>A deletion marker of time 10, then an entry of time 5 at the same key.\<close>

theorem entry_put_over_markers_witness:
  "\<exists>n s'. ranger_put (signed_entry_range sample_crypto) (instance_ops sample_crypto sample_ns None)
       (sample_entry [97] (record_new [7] 1 5)) (sample_store [sample_entry [97] (record_empty sample_crypto 10)]) =
         (Inr (Inserted n), s') \<and>
     doc_map (visible s') (fst (records_row (sample_entry [97] (record_new [7] 1 5)))) =
       Some (snd (records_row (sample_entry [97] (record_new [7] 1 5))))"
proof (rule entry_put_over_markers[OF sample_store_valid])
  show "\<forall>p v. prefix p (rid_key (se_id (sample_entry [97] (record_new [7] 1 5)))) \<and>
      doc_map (visible (sample_store [sample_entry [97] (record_empty sample_crypto 10)]))
        (rid_namespace (se_id (sample_entry [97] (record_new [7] 1 5))),
         rid_author (se_id (sample_entry [97] (record_new [7] 1 5))), p) = Some v \<longrightarrow>
      record_is_empty sample_crypto (value_record v)"
    by (auto simp: tables_place_def entry_put_tables_def Let_def doc_map_def table_get_def tables_empty_def
        records_row_def value_record_def entry_timestamp_def entry_content_len_def entry_content_hash_def
        record_empty_def record_new_def record_is_empty_def split: if_splits)
qed simp_all

end
