(* ===== verification/Ranger_Dialogue.thy ===== *)
theory Ranger_Dialogue
  imports Ranger_Ingest
begin

text \<open>
  Two reconciliation handlers of \<^verbatim>\<open>src/src/ranger.rs\<close> that answer each other. During a session each side
  serves a view that does not change. \<open>message_reply\<close> is the reference answer over such a view,
  \<open>answered\<close> relates a message to the answers a handler may give (refusals aside, which carry no range),
  and \<open>dialogue\<close> is an alternating sequence of messages that ends when a side has nothing to say.
  Dialogues are shown to end, and to deliver to each side what it lacks.
\<close>

section \<open>The reference answer\<close>

definition item_reply ::
  "('x, 'k::linorder, 'v, 'r) range_entry \<Rightarrow> ('x, 's, 'c) callbacks \<Rightarrow> 'x list
     \<Rightarrow> 'k range \<times> ('x \<times> content_status) list \<times> bool \<Rightarrow> ('x, 'k, 'r) message" where
  "item_reply E B es item =
     (case item of (r, vs, have_local) \<Rightarrow>
        let d = filter (peer_lacks E vs) (entries_in E es r)
        in if have_local \<or> d = [] then [] else [RangeItem r (with_status B d) True])"

definition message_reply ::
  "crypto \<Rightarrow> ('x, 'k::linorder, 'v, 'r) range_entry \<Rightarrow> ('x, 's, 'c) callbacks \<Rightarrow> nat \<Rightarrow> 'x list
     \<Rightarrow> ('x, 'k, 'r) message \<Rightarrow> ('x, 'k, 'r) message" where
  "message_reply C E B max_size es msg =
     concat (map (item_reply E B es) (message_items msg)) @
     concat (map (fingerprint_reply C E B max_size es) (message_fingerprints msg))"

definition is_refusal :: "('x, 'k, 'r) message_part \<Rightarrow> bool" where
  "is_refusal part \<longleftrightarrow> part_rejected part \<noteq> None"

definition without_refusals :: "('x, 'k, 'r) message \<Rightarrow> ('x, 'k, 'r) message" where
  "without_refusals msg = filter (\<lambda>part. \<not> is_refusal part) msg"

lemma is_refusal_simps [simp]:
  "\<not> is_refusal (RangeFingerprint r fp)" "\<not> is_refusal (RangeItem r vs hl)" "is_refusal (Rejected i)"
  by (simp_all add: is_refusal_def)

lemma item_reply_parts: "part \<in> set (item_reply E B es item) \<Longrightarrow> \<not> is_refusal part"
  by (auto simp: item_reply_def Let_def split: prod.splits if_splits)

lemma fingerprint_reply_parts: "part \<in> set (fingerprint_reply C E B m es fp) \<Longrightarrow> \<not> is_refusal part"
  by (auto simp: fingerprint_reply_def range_reply_def Let_def split: prod.splits if_splits)

lemma message_items_set: "(r, vs, hl) \<in> set (message_items msg) \<longleftrightarrow> RangeItem r vs hl \<in> set msg"
  by (induction msg rule: message_items.induct) auto

lemma message_fingerprints_set: "(r, fp) \<in> set (message_fingerprints msg) \<longleftrightarrow> RangeFingerprint r fp \<in> set msg"
  by (induction msg rule: message_fingerprints.induct) auto

lemma part_without_refusals:
  "RangeItem r vs hl \<in> set (without_refusals msg) \<longleftrightarrow> RangeItem r vs hl \<in> set msg"
  "RangeFingerprint r fp \<in> set (without_refusals msg) \<longleftrightarrow> RangeFingerprint r fp \<in> set msg"
  by (simp_all add: without_refusals_def)

text \<open>Storing received values adds nothing but refusals to the answer.\<close>

lemma store_value_out:
  assumes "store_value E S B rv out st = (Inr out', st')"
  obtains new where "out' = out @ new" "without_refusals new = []"
proof -
  obtain x cs where rv: "rv = (x, cs)" by fastforce
  obtain v s1 where v: "validate_cb B x cs (fst st) = (v, s1)" by fastforce
  have "\<exists>new. out' = out @ new \<and> without_refusals new = []"
  proof (cases v)
    case Reject
    then show ?thesis using assms rv v
      by (auto simp: store_value_def op_bind_def op_return_def without_refusals_def
          intro: exI[of _ "[Rejected (re_reject_id E x)]"] split: prod.splits sum.splits if_splits)
  qed (use assms rv v in \<open>auto simp: store_value_def op_bind_def without_refusals_def split: prod.splits sum.splits\<close>)
  then show thesis using that by blast
qed

lemma store_values_out:
  assumes "op_for (store_value E S B) rvs out st = (Inr out', st')"
  shows "\<exists>new. out' = out @ new \<and> without_refusals new = []"
  using assms
proof (induction rvs arbitrary: out st)
  case Nil
  then show ?case by (simp add: op_return_def without_refusals_def)
next
  case (Cons rv rvs)
  obtain res1 st1 where "store_value E S B rv out st = (res1, st1)" by (meson surj_pair)
  then obtain out1 where one: "store_value E S B rv out st = (Inr out1, st1)"
    "op_for (store_value E S B) rvs out1 st1 = (Inr out', st')"
    using Cons.prems by (cases res1) (auto simp: op_bind_def)
  obtain new1 where "out1 = out @ new1" "without_refusals new1 = []" by (rule store_value_out[OF one(1)])
  then show ?case using Cons.IH[OF one(2)] by (auto simp: without_refusals_def)
qed

context reconcile_store
begin

text \<open>On a view that received values do not change the handler computes the reference answer.\<close>

lemma process_item_reply:
  assumes "valid s" "entries s = es" "snd (snd item) \<or> admissible bound_ok (fst item)"
    "process_item E S B item out (s, c) = (Inr out', st')"
  shows "\<exists>new. out' = out @ new \<and> without_refusals new = item_reply E B es item"
proof -
  obtain r rvs hl where item: "item = (r, rvs, hl)" by (cases item rule: prod_cases3)
  let ?d = "filter (peer_lacks E rvs) (entries_in E es r)"
  have r: "hl \<or> admissible bound_ok r" using assms(3) item by simp
  obtain t where t: "item_diff E S B r rvs hl (s, c) = (Inr (if hl then None else Some (with_status B ?d)), (t, c))"
    by (rule item_diff_eq[OF assms(1) r, where rvs = rvs and B = B and c = c, unfolded assms(2)])
  obtain res st1 where st1: "op_for (store_value E S B) rvs out (t, c) = (res, st1)" by (meson surj_pair)
  then obtain out1 where out1: "op_for (store_value E S B) rvs out (t, c) = (Inr out1, st1)"
    "out' = out1 @ (if hl \<or> ?d = [] then [] else [RangeItem r (with_status B ?d) True])"
    using assms(4) t by (cases res) (auto simp: process_item_def item op_bind_def op_return_def with_status_def split: if_splits)
  obtain new where "out1 = out @ new" "without_refusals new = []" using store_values_out[OF out1(1)] by blast
  then show ?thesis using out1(2) by (auto simp: item_reply_def item Let_def without_refusals_def)
qed

lemma process_items_reply:
  assumes "valid s" "\<forall>s. valid s \<longrightarrow> entries s = es"
    "\<forall>item \<in> set items. (snd (snd item) \<or> admissible bound_ok (fst item)) \<and> (\<forall>rv \<in> set (fst (snd item)). entry_ok (fst rv))"
    "verdict_ok valid entries live B verdict"
    "op_for (process_item E S B) items out (s, c) = (Inr out', st')"
  shows "\<exists>new. out' = out @ new \<and> without_refusals new = concat (map (item_reply E B es) items)"
  using assms(1,3,5)
proof (induction items arbitrary: s c out)
  case Nil
  then show ?case by (simp add: op_return_def without_refusals_def)
next
  case (Cons item items)
  obtain s1 c1 new1 where one: "process_item E S B item out (s, c) = (Inr (out @ new1), (s1, c1))" "valid s1"
    using process_item_eq[OF Cons.prems(1) _ _ assms(4), where item = item and out = out and c = c and served = "\<lambda>_. True"]
      Cons.prems(2) by auto
  have "without_refusals new1 = item_reply E B es item"
    using process_item_reply[OF Cons.prems(1) _ _ one(1), of es] assms(2) Cons.prems(1,2) by auto
  moreover have "op_for (process_item E S B) items (out @ new1) (s1, c1) = (Inr out', st')"
    using Cons.prems(3) one(1) by (simp add: op_bind_def)
  from Cons.IH[OF one(2) _ this] have "\<exists>new. out' = (out @ new1) @ new \<and> without_refusals new = concat (map (item_reply E B es) items)"
    using Cons.prems(2) by auto
  ultimately show ?case by (auto simp: without_refusals_def)
qed

lemma process_message_reply:
  assumes "valid s" "split_factor cfg = 2" "\<forall>s. valid s \<longrightarrow> entries s = es"
    "\<forall>item \<in> set (message_items msg). (snd (snd item) \<or> admissible bound_ok (fst item)) \<and> (\<forall>rv \<in> set (fst (snd item)). entry_ok (fst rv))"
    "\<forall>part \<in> set (message_fingerprints msg). admissible bound_ok (fst part)"
    "verdict_ok valid entries live B verdict"
    "process_message C E S B cfg msg (s, c) = (Inr reply, st')"
  shows "without_refusals (case reply of Some parts \<Rightarrow> parts | None \<Rightarrow> []) = message_reply C E B (max_set_size cfg) es msg"
proof -
  obtain t c' out where t: "op_for (process_item E S B) (message_items msg) [] (s, c) = (Inr out, (t, c'))" "valid t"
    using process_items_eq[OF assms(1,4,6), where out = "[]" and c = c and served = "\<lambda>_. True"] by auto
  have items: "without_refusals out = concat (map (item_reply E B es) (message_items msg))"
    using process_items_reply[OF assms(1,3,4,6) t(1)] by simp
  let ?fps = "concat (map (fingerprint_reply C E B (max_set_size cfg) es) (message_fingerprints msg))"
  have "without_refusals ?fps = ?fps"
    unfolding without_refusals_def by (rule filter_True) (auto dest: fingerprint_reply_parts)
  moreover have "\<exists>s'. op_for (process_fingerprint C E S B cfg) (message_fingerprints msg) out (t, c') = (Inr (out @ ?fps), (s', c'))"
    using process_fingerprints_eq[OF t(2) assms(5,2), where B = B and out = out and c = c'] assms(3) t(2) by auto
  moreover from this have "(case reply of Some parts \<Rightarrow> parts | None \<Rightarrow> []) = out @ ?fps"
    using assms(7) t(1) by (auto simp: process_message_def op_bind_def op_return_def split: if_splits)
  ultimately show ?thesis using items by (simp add: message_reply_def without_refusals_def)
qed

end

section \<open>Dialogues\<close>

text \<open>The weight of a part bounds how many more messages it can cause: a fingerprint counts the entries
  of both views in its range, because whoever splits the range cuts his own entries in it.\<close>

fun part_weight ::
  "('x, 'k::linorder, 'v, 'r) range_entry \<Rightarrow> (bool \<Rightarrow> 'x list) \<Rightarrow> ('x, 'k, 'r) message_part \<Rightarrow> nat" where
  "part_weight E V (RangeFingerprint r fp) =
     3 + length (entries_in E (V False) r) + length (entries_in E (V True) r)"
| "part_weight E V (RangeItem r vs have_local) = (if have_local then 1 else 2)"
| "part_weight E V (Rejected i) = 0"

definition status_callbacks :: "('x \<Rightarrow> content_status) \<Rightarrow> ('x, unit, unit) callbacks" where
  "status_callbacks status =
     \<lparr>validate_cb = \<lambda>_ _ s. (Drop, s), on_insert_cb = \<lambda>_ _ c. c, content_status_cb = status\<rparr>"

definition answered ::
  "crypto \<Rightarrow> ('x, 'k::linorder, 'v, 'r) range_entry \<Rightarrow> 'x list \<Rightarrow> ('x, 'k, 'r) message \<Rightarrow> ('x, 'k, 'r) message \<Rightarrow> bool" where
  "answered C E es msg reply \<longleftrightarrow>
     (\<exists>status. without_refusals reply = message_reply C E (status_callbacks status) 1 es msg) \<and>
     (message_values msg = [] \<longrightarrow> without_refusals reply = reply)"

fun dialogue ::
  "crypto \<Rightarrow> ('x, 'k::linorder, 'v, 'r) range_entry \<Rightarrow> (bool \<Rightarrow> 'x list) \<Rightarrow> bool \<Rightarrow> ('x, 'k, 'r) message list \<Rightarrow> bool" where
  "dialogue C E V side [] = False"
| "dialogue C E V side [m] = answered C E (V side) m []"
| "dialogue C E V side (m # m' # ms) = (m' \<noteq> [] \<and> answered C E (V side) m m' \<and> dialogue C E V (\<not> side) (m' # ms))"

fun heard :: "bool \<Rightarrow> ('x, 'k, 'r) message list \<Rightarrow> bool \<Rightarrow> ('x \<times> content_status) list" where
  "heard side [] who = []"
| "heard side (m # ms) who = (if side = who then message_values m else []) @ heard (\<not> side) ms who"

lemma with_status_callbacks: "with_status (status_callbacks (content_status_cb B)) = with_status B"
  by (simp add: with_status_def status_callbacks_def fun_eq_iff)

lemma message_reply_callbacks:
  "message_reply C E (status_callbacks (content_status_cb B)) m es msg = message_reply C E B m es msg"
proof -
  have "item_reply E (status_callbacks (content_status_cb B)) es = item_reply E B es"
    by (rule ext) (simp add: item_reply_def with_status_callbacks Let_def split: prod.splits)
  moreover have "range_reply C E (status_callbacks (content_status_cb B)) m es = range_reply C E B m es"
    by (simp add: range_reply_def with_status_callbacks fun_eq_iff Let_def)
  then have "fingerprint_reply C E (status_callbacks (content_status_cb B)) m es = fingerprint_reply C E B m es"
    by (intro ext) (simp add: fingerprint_reply_def with_status_callbacks Let_def split: prod.splits)
  ultimately show ?thesis by (simp add: message_reply_def)
qed

lemma map_fst_with_status [simp]: "map fst (with_status B xs) = xs"
  by (simp add: with_status_def comp_def)

lemma message_reply_set:
  "part \<in> set (message_reply C E B m es msg) \<longleftrightarrow>
     (\<exists>r vs hl. RangeItem r vs hl \<in> set msg \<and> part \<in> set (item_reply E B es (r, vs, hl))) \<or>
     (\<exists>r fp. RangeFingerprint r fp \<in> set msg \<and> part \<in> set (fingerprint_reply C E B m es (r, fp)))"
  by (auto simp: message_reply_def simp flip: message_items_set message_fingerprints_set)

lemma entries_in_mono:
  assumes "sorted_wrt (<) (map (re_key E) es)" "\<And>t. range_contains a t \<Longrightarrow> range_contains r t"
  shows "length (entries_in E es a) \<le> length (entries_in E es r)"
proof -
  have len: "length (entries_in E es u) = card (set (entries_in E es u))" for u
    using distinct_entries_in[OF assms(1), of u] by (metis distinct_card distinct_map)
  show ?thesis unfolding len by (rule card_mono) (use assms(2) in \<open>auto simp: set_entries_in\<close>)
qed

lemma split_part_lighter:
  assumes "\<And>b. sorted_wrt (<) (map (re_key E) (V b))" "2 \<le> length (entries_in E (V side) r)"
    "a \<in> set (split_at E r (entries_in E (V side) r))"
  shows "length (entries_in E (V False) a) + length (entries_in E (V True) a) <
         length (entries_in E (V False) r) + length (entries_in E (V True) r)"
proof -
  obtain u w where uw: "split_at E r (entries_in E (V side) r) = [u, w]" "good_split E (V side) r [u, w]"
    using split_at_good[OF assms(1,2)] by (auto simp: good_split_def)
  have "length (entries_in E (V side) u) + length (entries_in E (V side) w) = length (entries_in E (V side) r)"
    by (rule good_split_lengths[OF uw(2) assms(1)])
  moreover have "length (entries_in E (V side) u) \<noteq> 0" "length (entries_in E (V side) w) \<noteq> 0"
    using uw(2) by (auto simp: good_split_def)
  moreover have "a = u \<or> a = w" using assms(3) uw(1) by auto
  ultimately have "length (entries_in E (V side) a) < length (entries_in E (V side) r)"
    by (elim disjE; hypsubst; linarith)
  moreover have "length (entries_in E (V b) a) \<le> length (entries_in E (V b) r)" for b
    by (rule entries_in_mono[OF assms(1)]) (use uw \<open>a = u \<or> a = w\<close> in \<open>auto simp: good_split_def\<close>)
  from this[of False] this[of True] calculation show ?thesis by (cases side) auto
qed

lemma fingerprint_reply_lighter:
  assumes "\<And>b. sorted_wrt (<) (map (re_key E) (V b))" "part \<in> set (fingerprint_reply C E B m (V side) (r, fp))"
  shows "part_weight E V part < part_weight E V (RangeFingerprint r fp)"
proof -
  have "part_weight E V (range_reply C E B m (V side) a) < part_weight E V (RangeFingerprint r fp)"
    if "a \<in> set (split_at E r (entries_in E (V side) r))" "2 \<le> length (entries_in E (V side) r)" for a
    using split_part_lighter[where V = V, OF assms(1) that(2,1)] by (simp add: range_reply_def Let_def)
  then show ?thesis using assms(2)
    by (auto simp: fingerprint_reply_def Let_def split: if_splits)
qed

lemma reply_lighter:
  assumes "\<And>b. sorted_wrt (<) (map (re_key E) (V b))" "answered C E (V side) msg reply"
    "\<forall>part \<in> set msg. part_weight E V part \<le> n" "part \<in> set reply"
  shows "part_weight E V part < n"
proof (cases "is_refusal part")
  case True
  have "without_refusals reply \<noteq> reply" using True assms(4) unfolding without_refusals_def
    by (metis (mono_tags, lifting) filter_id_conv)
  then have "message_values msg \<noteq> []" using assms(2) by (auto simp: answered_def)
  then obtain r vs hl where "RangeItem r vs hl \<in> set msg"
    by (auto simp: item_values[symmetric] message_items_set[symmetric])
  then have "0 < n" using assms(3) by (fastforce split: if_splits)
  then show ?thesis using True by (cases part) auto
next
  case False
  then have "part \<in> set (without_refusals reply)" using assms(4) by (simp add: without_refusals_def)
  then obtain status where "part \<in> set (message_reply C E (status_callbacks status) 1 (V side) msg)"
    using assms(2) by (auto simp: answered_def)
  then consider (item) r vs hl where "RangeItem r vs hl \<in> set msg"
      "part \<in> set (item_reply E (status_callbacks status) (V side) (r, vs, hl))"
    | (fp) r fp where "RangeFingerprint r fp \<in> set msg"
      "part \<in> set (fingerprint_reply C E (status_callbacks status) 1 (V side) (r, fp))"
    by (auto simp: message_reply_set)
  then show ?thesis
  proof cases
    case item
    then show ?thesis using assms(3) by (fastforce simp: item_reply_def Let_def split: if_splits)
  next
    case fp
    then show ?thesis using fingerprint_reply_lighter[where V = V, OF assms(1) fp(2)] assms(3) by fastforce
  qed
qed

lemma dialogue_length:
  assumes "\<And>b. sorted_wrt (<) (map (re_key E) (V b))" "dialogue C E V side (m # ms)" "m \<noteq> []"
    "\<forall>part \<in> set m. part_weight E V part < n"
  shows "length (m # ms) \<le> n"
  using assms(2-4)
proof (induction ms arbitrary: side m n)
  case Nil
  then show ?case by (cases m) auto
next
  case (Cons m' ms)
  obtain k where k: "n = Suc k" using Cons.prems(2,3) by (cases n; cases m) auto
  have "\<forall>part \<in> set m'. part_weight E V part < k"
    using reply_lighter[where V = V and n = k, OF assms(1)] Cons.prems(1,3) k by fastforce
  then show ?case using Cons.IH[of "\<not> side" m' k] Cons.prems(1) k by simp
qed

section \<open>What a dialogue delivers\<close>

text \<open>A part speaks for its sender when it describes his view of the range.\<close>

fun speaks_for ::
  "crypto \<Rightarrow> ('x, 'k::linorder, 'v, 'r) range_entry \<Rightarrow> 'x list \<Rightarrow> ('x, 'k, 'r) message_part \<Rightarrow> bool" where
  "speaks_for C E es (RangeFingerprint r fp) \<longleftrightarrow> fp = fingerprint_of C E (entries_in E es r)"
| "speaks_for C E es (RangeItem r vs have_local) \<longleftrightarrow>
     (if have_local then set (map fst vs) \<subseteq> set es else map fst vs = entries_in E es r)"
| "speaks_for C E es (Rejected i) \<longleftrightarrow> True"

text \<open>An entry is lacking in a view that holds nothing at its key that is at least as great.\<close>

definition lacks :: "('x, 'k, 'v, 'r) range_entry \<Rightarrow> 'x list \<Rightarrow> 'x \<Rightarrow> bool" where
  "lacks E es x \<longleftrightarrow> \<not> (\<exists>y \<in> set es. re_key E x = re_key E y \<and> re_value_le E (re_value E x) (re_value E y))"

definition settled ::
  "('x, 'k::linorder, 'v, 'r) range_entry \<Rightarrow> (bool \<Rightarrow> 'x list) \<Rightarrow> (bool \<Rightarrow> ('x \<times> content_status) list) \<Rightarrow> 'k range \<Rightarrow> bool" where
  "settled E V H r \<longleftrightarrow> (\<forall>who. \<forall>x \<in> set (V (\<not> who)).
     range_contains r (re_key E x) \<longrightarrow> lacks E (V who) x \<longrightarrow> x \<in> fst ` set (H who))"

definition asks_about :: "('x, 'k, 'r) message \<Rightarrow> 'k range \<Rightarrow> bool" where
  "asks_about msg r \<longleftrightarrow> (\<exists>fp. RangeFingerprint r fp \<in> set msg) \<or> (\<exists>vs. RangeItem r vs False \<in> set msg)"

text \<open>No two different sets of entries in a range have the same fingerprint.\<close>

definition collision_free ::
  "crypto \<Rightarrow> ('x, 'k::linorder, 'v, 'r) range_entry \<Rightarrow> (bool \<Rightarrow> 'x list) \<Rightarrow> bool" where
  "collision_free C E V \<longleftrightarrow> (\<forall>r. fingerprint_of C E (entries_in E (V False) r) = fingerprint_of C E (entries_in E (V True) r) \<longrightarrow>
     set (entries_in E (V False) r) = set (entries_in E (V True) r))"

lemma range_reply_speaks: "speaks_for C E es (range_reply C E B m es r)"
  by (simp add: range_reply_def Let_def)

lemma answer_speaks:
  assumes "answered C E es msg reply" "part \<in> set reply"
  shows "speaks_for C E es part"
proof (cases "is_refusal part")
  case False
  then have "part \<in> set (without_refusals reply)" using assms(2) by (simp add: without_refusals_def)
  then obtain status where "part \<in> set (message_reply C E (status_callbacks status) 1 es msg)"
    using assms(1) by (auto simp: answered_def)
  then show ?thesis
    by (auto simp: message_reply_set item_reply_def fingerprint_reply_def Let_def set_entries_in range_reply_speaks
        split: if_splits)
qed (cases part; simp)

lemma settled_equal:
  assumes "collision_free C E V" "\<And>v. re_value_le E v v"
    "fingerprint_of C E (entries_in E (V side) r) = fingerprint_of C E (entries_in E (V (\<not> side)) r)"
  shows "settled E V H r"
proof -
  have "set (entries_in E (V False) r) = set (entries_in E (V True) r)"
    using assms(1,3) unfolding collision_free_def by (cases side) auto
  then have "x \<in> set (V who)" if "x \<in> set (V (\<not> who))" "range_contains r (re_key E x)" for who x
    using that by (cases who) (auto simp: set_entries_in)
  then show ?thesis using assms(2) by (auto simp: settled_def lacks_def)
qed

lemma settled_split:
  assumes "\<And>t. range_contains r t \<Longrightarrow> \<exists>a \<in> set rs. range_contains a t" "\<And>a. a \<in> set rs \<Longrightarrow> settled E V H a"
  shows "settled E V H r"
  using assms unfolding settled_def by blast

lemma peer_lacks_iff:
  assumes "map fst vs = entries_in E es r" "range_contains r (re_key E x)"
  shows "peer_lacks E vs x \<longleftrightarrow> lacks E es x"
proof -
  have "fst ` set vs = {e \<in> set es. range_contains r (re_key E e)}"
    using arg_cong[OF assms(1), of set] by (simp add: set_entries_in)
  then have "(\<exists>y \<in> fst ` set vs. re_key E x = re_key E y \<and> re_value_le E (re_value E x) (re_value E y)) \<longleftrightarrow>
      (\<exists>y \<in> set es. re_key E x = re_key E y \<and> re_value_le E (re_value E x) (re_value E y))"
    using assms(2) by auto
  moreover have "peer_lacks E vs x \<longleftrightarrow>
      \<not> (\<exists>y \<in> fst ` set vs. re_key E x = re_key E y \<and> re_value_le E (re_value E x) (re_value E y))"
    by (fastforce simp: peer_lacks_def list_ex_iff)
  ultimately show ?thesis by (simp add: lacks_def)
qed

text \<open>One exchange of messages: what is not settled by the message itself is asked about, or sent, in the
  answer.\<close>

lemma settled_step:
  assumes "\<And>b. sorted_wrt (<) (map (re_key E) (V b))" "collision_free C E V" "\<And>v. re_value_le E v v"
    and ans: "answered C E (V side) m m'" and speaks: "\<forall>part \<in> set m. speaks_for C E (V (\<not> side)) part"
    and asked: "\<And>r. asks_about m' r \<Longrightarrow> settled E V H r"
    and sent: "fst ` set (message_values m') \<subseteq> fst ` set (H (\<not> side))"
    and got: "set (message_values m) \<subseteq> set (H side)"
    and r: "asks_about m r"
  shows "settled E V H r"
proof -
  obtain status where reply: "set (without_refusals m') = set (message_reply C E (status_callbacks status) 1 (V side) m)"
    using ans by (auto simp: answered_def)
  let ?B = "status_callbacks status"
  consider (fp) fp where "RangeFingerprint r fp \<in> set m" | (item) vs where "RangeItem r vs False \<in> set m"
    using r by (auto simp: asks_about_def)
  then show ?thesis
  proof cases
    case fp
    have fp_eq: "fp = fingerprint_of C E (entries_in E (V (\<not> side)) r)" using speaks fp by auto
    have sub: "part \<in> set m'" if "part \<in> set (fingerprint_reply C E ?B 1 (V side) (r, fp))" for part
      using reply that fp message_reply_set[of part C E ?B 1 "V side" m] by (auto simp: without_refusals_def)
    let ?v = "entries_in E (V side) r"
    consider (equal) "fingerprint_of C E ?v = fp"
      | (anchor) "fingerprint_of C E ?v \<noteq> fp" "length ?v \<le> 1 \<or> fp = fingerprint_empty C"
      | (split) "fingerprint_of C E ?v \<noteq> fp" "\<not> (length ?v \<le> 1 \<or> fp = fingerprint_empty C)"
      by blast
    then show ?thesis
    proof cases
      case equal
      then show ?thesis using settled_equal[where V = V, OF assms(2,3)] fp_eq by blast
    next
      case anchor
      then have "RangeItem r (with_status ?B ?v) False \<in> set m'"
        using sub by (simp add: fingerprint_reply_def Let_def)
      then show ?thesis using asked by (auto simp: asks_about_def)
    next
      case split
      then have parts: "range_reply C E ?B 1 (V side) a \<in> set m'" if "a \<in> set (split_at E r ?v)" for a
        using sub that by (simp add: fingerprint_reply_def Let_def)
      have "settled E V H a" if "a \<in> set (split_at E r ?v)" for a
        using asked[of a] parts[OF that] by (auto simp: asks_about_def range_reply_def Let_def split: if_splits)
      moreover have "good_split E (V side) r (split_at E r ?v)"
        by (rule split_at_good[OF assms(1)]) (use split in linarith)
      then have "\<exists>a \<in> set (split_at E r ?v). range_contains a t" if "range_contains r t" for t
        using that unfolding good_split_def by auto
      ultimately show ?thesis by (rule settled_split[rotated])
    qed
  next
    case item
    have vs: "map fst vs = entries_in E (V (\<not> side)) r" using speaks item by auto
    have "x \<in> fst ` set (H side)" if x: "x \<in> set (V (\<not> side))" "range_contains r (re_key E x)" for x
    proof -
      have "x \<in> set (map fst vs)" using x vs by (simp add: set_entries_in)
      then obtain cs where "(x, cs) \<in> set vs" by auto
      then have "(x, cs) \<in> set (message_values m)" using item by (force simp: message_values_set)
      then show ?thesis using got by force
    qed
    moreover have "x \<in> fst ` set (H (\<not> side))"
      if x: "x \<in> set (V side)" "range_contains r (re_key E x)" "lacks E (V (\<not> side)) x" for x
    proof -
      let ?d = "filter (peer_lacks E vs) (entries_in E (V side) r)"
      have d: "x \<in> set ?d" using x peer_lacks_iff[OF vs x(2)] by (simp add: set_entries_in)
      then have "?d \<noteq> []" by (metis empty_iff empty_set)
      then have "RangeItem r (with_status ?B ?d) True \<in> set (item_reply E ?B (V side) (r, vs, False))"
        by (simp add: item_reply_def Let_def)
      then have "RangeItem r (with_status ?B ?d) True \<in> set m'"
        using reply item message_reply_set[of _ C E ?B 1 "V side" m] by (auto simp: without_refusals_def)
      then have "(x, status x) \<in> set (message_values m')"
        using d by (force simp: message_values_set with_status_set status_callbacks_def)
      then show ?thesis using sent by force
    qed
    ultimately have "x \<in> fst ` set (H who)"
      if "x \<in> set (V (\<not> who))" "range_contains r (re_key E x)" "lacks E (V who) x" for who x
      using that by (cases "who = side") auto
    then show ?thesis by (auto simp: settled_def)
  qed
qed

lemma dialogue_settles:
  assumes "\<And>b. sorted_wrt (<) (map (re_key E) (V b))" "collision_free C E V" "\<And>v. re_value_le E v v"
    "dialogue C E V side (m # ms)" "\<forall>part \<in> set m. speaks_for C E (V (\<not> side)) part" "asks_about m r"
  shows "settled E V (heard side (m # ms)) r"
  using assms(4-6)
proof (induction ms arbitrary: side m r)
  case Nil
  have "answered C E (V side) m []" using Nil.prems(1) by simp
  then show ?case
    by (rule settled_step[where V = V, OF assms(1-3) _ Nil.prems(2) _ _ _ Nil.prems(3)])
       (auto simp: asks_about_def message_values_def List.map_filter_simps)
next
  case (Cons m' ms)
  have ans: "answered C E (V side) m m'" and rest: "dialogue C E V (\<not> side) (m' # ms)" using Cons.prems(1) by simp_all
  have "settled E V (heard side (m # m' # ms)) a" if "asks_about m' a" for a
  proof -
    have "settled E V (heard (\<not> side) (m' # ms)) a"
      by (rule Cons.IH[OF rest _ that]) (use answer_speaks[OF ans] in simp)
    then show ?thesis by (auto simp: settled_def)
  qed
  then show ?case
    by (rule settled_step[where V = V, OF assms(1-3) ans Cons.prems(2) _ _ _ Cons.prems(3)]) auto
qed

end
