(* ===== verification/Session_Filter.thy ===== *)
theory Session_Filter
  imports Store_Ingest Ranger_Dialogue
begin

text \<open>
  Session-scoped egress access control, \<^verbatim>\<open>src/src/filter.rs\<close>: \<open>SessionStore\<close> wraps a reconciliation
  store with an optional predicate on entries. The wrapper of a store that meets the read contract
  meets it again, for the filtered view; so everything the handler sends is admitted by the filter,
  and stores with the same filtered view give the same answers.
\<close>

type_synonym entry_filter = "signed_entry \<Rightarrow> bool"

datatype session_access = Full | Filtered entry_filter | Deny

datatype session_role = RoleAccept | RoleDial

definition admitted :: "entry_filter option \<Rightarrow> signed_entry \<Rightarrow> bool" where
  "admitted filt e = (case filt of None \<Rightarrow> True | Some f \<Rightarrow> f e)"

text \<open>\<open>FilteredIter\<close>: errors pass through.\<close>

definition filtered_iter :: "entry_filter option \<Rightarrow> ('e + signed_entry) list \<Rightarrow> ('e + signed_entry) list" where
  "filtered_iter filt it = filter (\<lambda>r. case r of Inl e \<Rightarrow> True | Inr x \<Rightarrow> admitted filt x) it"

fun first_admitted :: "entry_filter \<Rightarrow> ('e + signed_entry) list \<Rightarrow> 'e + record_identifier" where
  "first_admitted f [] = Inr rid_default"
| "first_admitted f (Inl e # it) = Inl e"
| "first_admitted f (Inr x # it) = (if f x then Inr (se_id x) else first_admitted f it)"

type_synonym protocol_message = "(signed_entry, record_identifier, reject_id) message"

type_synonym ('s, 'e) entry_store = "('s, 'e, record_identifier, signed_entry, doc_record) store_ops"

definition session_get_first ::
  "entry_filter option \<Rightarrow> ('s, 'e) entry_store \<Rightarrow> ('s, 'e, record_identifier) op" where
  "session_get_first filt S =
     (case filt of
        None \<Rightarrow> so_get_first S
      | Some f \<Rightarrow> op_bind (so_get_range S (range_new rid_default rid_default)) (\<lambda>it. op_lift (first_admitted f it)))"

definition session_get_range ::
  "entry_filter option \<Rightarrow> ('s, 'e) entry_store \<Rightarrow> record_identifier range
     \<Rightarrow> ('s, 'e, ('e + signed_entry) list) op" where
  "session_get_range filt S r = op_bind (so_get_range S r) (\<lambda>it. op_return (filtered_iter filt it))"

definition session_get_fingerprint ::
  "crypto \<Rightarrow> entry_filter option \<Rightarrow> ('s, 'e) entry_store \<Rightarrow> record_identifier range
     \<Rightarrow> ('s, 'e, fingerprint) op" where
  "session_get_fingerprint C filt S r =
     (if filt = None then so_get_fingerprint S r
      else op_bind (session_get_range filt S r) (\<lambda>it. op_lift (fold_fingerprint C it)))"

definition session_ops :: "crypto \<Rightarrow> entry_filter option \<Rightarrow> ('s, 'e) entry_store \<Rightarrow> ('s, 'e) entry_store" where
  "session_ops C filt S =
     \<lparr>so_get_first = session_get_first filt S,
      so_get_fingerprint = session_get_fingerprint C filt S,
      so_entry_put = so_entry_put S,
      so_get_range = session_get_range filt S,
      so_prefixes_of = so_prefixes_of S,
      so_remove_prefix_filtered = so_remove_prefix_filtered S\<rparr>"

section \<open>The filtered view meets the read contract\<close>

lemma entries_in_filter: "entries_in E (filter p es) r = filter p (entries_in E es r)"
  by (auto simp: entries_in_def conj_commute split: ordering.splits)

lemma filtered_iter_Inr: "filtered_iter filt (map Inr es) = map Inr (filter (admitted filt) es)"
  by (simp add: filtered_iter_def filter_map comp_def)

lemma first_admitted_Inr:
  "first_admitted f (map Inr es) = Inr (first_key (signed_entry_range C) rid_default (filter f es))"
  by (induction es) (auto simp: first_key_def)

lemma admitted_Some: "admitted (Some f) = f" and admitted_None: "admitted None = (\<lambda>_. True)"
  by (auto simp: admitted_def)

locale signed_store = range_store C "signed_entry_range C" S valid entries live bound_ok rid_default
  for C :: crypto
    and S :: "('s, 'e) entry_store"
    and valid :: "'s \<Rightarrow> bool"
    and entries :: "'s \<Rightarrow> signed_entry list"
    and live :: "'s \<Rightarrow> 'y"
    and bound_ok :: "record_identifier \<Rightarrow> bool"
begin

abbreviation view :: "entry_filter option \<Rightarrow> 's \<Rightarrow> signed_entry list" where
  "view filt s \<equiv> filter (admitted filt) (entries s)"

lemma view_same: "same_view valid entries live s s' \<Longrightarrow> same_view valid (view filt) live s s'"
  by (simp add: same_view_def)

lemma session_range:
  assumes "valid s" "admissible bound_ok r"
  shows "\<exists>s'. session_get_range filt S r s =
      (Inr (map Inr (entries_in (signed_entry_range C) (view filt s) r)), s') \<and>
      same_view valid (view filt) live s s'"
  using get_range_law[OF assms] view_same
  by (auto simp: session_get_range_def op_bind_def op_return_def filtered_iter_Inr entries_in_filter)

lemma session_first:
  assumes "valid s"
  shows "\<exists>s'. session_get_first filt S s =
      (Inr (first_key (signed_entry_range C) rid_default (view filt s)), s') \<and>
      same_view valid (view filt) live s s'"
proof (cases filt)
  case None
  then show ?thesis using get_first_law[OF assms] view_same
    by (auto simp: session_get_first_def admitted_None)
next
  case (Some f)
  have "admissible bound_ok (Range rid_default rid_default)"
    by (simp add: admissible_def range_is_all_def)
  then show ?thesis using get_range_law[OF assms] view_same Some
    by (fastforce simp: session_get_first_def op_bind_def op_lift_def range_new_def first_admitted_Inr
        entries_in_Range admitted_Some)
qed

lemma session_fingerprint:
  assumes "valid s" "admissible bound_ok r"
  shows "\<exists>s'. session_get_fingerprint C filt S r s =
      (Inr (fingerprint_of C (signed_entry_range C) (entries_in (signed_entry_range C) (view filt s) r)), s') \<and>
      same_view valid (view filt) live s s'"
proof (cases filt)
  case None
  then show ?thesis using get_fingerprint_law[OF assms] view_same
    by (auto simp: session_get_fingerprint_def admitted_None)
next
  case (Some f)
  then show ?thesis using session_range[OF assms, of filt]
    by (auto simp: session_get_fingerprint_def op_bind_def op_lift_def fold_fingerprint_Inr)
qed

end

sublocale signed_store \<subseteq> session: range_store C "signed_entry_range C" "session_ops C filt S"
  valid "view filt" live bound_ok rid_default for filt
proof
  show "sorted_wrt (<) (map (re_key (signed_entry_range C)) (view filt s))" if "valid s" for s
    using entries_sorted[OF that] by (rule sorted_wrt_map_filter)
qed (use entries_bound session_range session_first session_fingerprint in \<open>auto simp: session_ops_def\<close>)

section \<open>A session on the replica store\<close>

interpretation instance_session: signed_store C "instance_ops C ns snap" "instance_valid C ns snap"
  "instance_entries ns snap" visible "own_boundary ns" for C ns snap
  by unfold_locales

abbreviation session_view :: "namespace_id \<Rightarrow> tables option \<Rightarrow> entry_filter option \<Rightarrow> fs_store \<Rightarrow> signed_entry list" where
  "session_view ns snap filt s \<equiv> filter (admitted filt) (instance_entries ns snap s)"

interpretation session_reconcile: reconcile_store C "signed_entry_range C"
  "session_ops C filt (instance_ops C ns snap)" "instance_valid C ns snap" "session_view ns snap filt" visible
  "own_boundary ns" rid_default "tables_blocked C" tables_prune tables_place entry_ok
  for C filt ns snap
proof
  fix s and x :: signed_entry assume v: "instance_valid C ns snap s"
  show "\<exists>ps s'. so_prefixes_of (session_ops C filt (instance_ops C ns snap)) (re_key (signed_entry_range C) x) s =
      (Inr (map Inr ps), s') \<and> instance_valid C ns snap s' \<and> visible s' = visible s \<and>
      tables_blocked C (visible s) x = (\<exists>p\<in>set ps. re_value_le (signed_entry_range C)
        (re_value (signed_entry_range C) x) (re_value (signed_entry_range C) p))"
    using instance_ingest.prefixes_law[OF v, of x] by (simp add: session_ops_def)
  assume x: "entry_ok x"
  show "\<exists>s'. so_remove_prefix_filtered (session_ops C filt (instance_ops C ns snap)) (re_key (signed_entry_range C) x)
        (\<lambda>v. re_value_le (signed_entry_range C) v (re_value (signed_entry_range C) x)) s =
      (Inr (fst (tables_prune x (visible s))), s') \<and> instance_valid C ns snap s' \<and>
      visible s' = snd (tables_prune x (visible s))"
    using instance_ingest.remove_law[OF v x] by (simp add: session_ops_def)
  show "\<exists>s'. so_entry_put (session_ops C filt (instance_ops C ns snap)) x s = (Inr (), s') \<and>
      instance_valid C ns snap s' \<and> visible s' = tables_place x (visible s)"
    using instance_ingest.entry_put_law[OF v x] by (simp add: session_ops_def)
qed

lemma instance_range_foreign:
  assumes "rid_ok (range_x r)" "rid_ok (range_y r)" "\<not> admissible (own_boundary ns) r"
  shows "instance_get_range ns snap r s = (Inl ForeignBoundary, s)"
  using assms by (auto simp: instance_get_range_def admissible_def own_boundary_def range_is_all_def cmp_simps)

interpretation session_guarded: guarded_store C "signed_entry_range C"
  "session_ops C filt (instance_ops C ns snap)" "instance_valid C ns snap" "session_view ns snap filt" visible
  "own_boundary ns" rid_default "tables_blocked C" tables_prune tables_place entry_ok rid_ok ForeignBoundary
  for C filt ns snap
  by unfold_locales
     (auto simp: session_ops_def session_get_range_def session_get_fingerprint_def op_bind_def instance_ops_def
       instance_get_fingerprint_def instance_range_foreign)

section \<open>Properties of a session\<close>

lemma session_view_served:
  assumes "instance_valid C ns snap s" "x \<in> set (session_view ns snap filt s)"
  shows "admitted filt x \<and> entry_namespace (se_entry x) = ns"
  using instance_store.entries_bound[OF assms(1), of x] assms(2)
  by (simp add: own_boundary_def entry_namespace_def)

text \<open>C9. Egress safety against arbitrary peers. Whatever well-formed message arrives in a session, the
  handler does not panic and the store stays well formed; it either refuses the message because a
  range names another namespace, or every entry it sends is admitted by the session's filter, belongs
  to the session's namespace and carries the content status of the callback.\<close>

theorem session_egress_safe:
  assumes "instance_valid C ns snap s"
    "\<forall>item \<in> set (message_items msg). (rid_ok (range_x (fst item)) \<and> rid_ok (range_y (fst item))) \<and>
       (\<forall>rv \<in> set (fst (snd item)). entry_ok (fst rv))"
    "\<forall>part \<in> set (message_fingerprints msg). rid_ok (range_x (fst part)) \<and> rid_ok (range_y (fst part))"
    "verdict_ok (instance_valid C ns snap) (session_view ns snap filt) visible B verdict"
  shows "\<exists>r s' c'. process_message C (signed_entry_range C) (session_ops C filt (instance_ops C ns snap)) B
         sync_config_default msg (s, c) = (r, (s', c')) \<and> instance_valid C ns snap s' \<and>
     (r = Inl (Failure ForeignBoundary) \<or>
      (\<exists>reply. r = Inr reply \<and> (\<forall>parts. reply = Some parts \<longrightarrow>
         (\<forall>(x, cs) \<in> set (message_values parts).
            admitted filt x \<and> entry_namespace (se_entry x) = ns \<and> cs = content_status_cb B x))))"
proof -
  let ?served = "\<lambda>x. admitted filt x \<and> entry_namespace (se_entry x) = ns"
  have sent: "\<forall>(x, cs) \<in> set (message_values parts). ?served x \<and> cs = content_status_cb B x"
    if "\<forall>part \<in> set parts. part_ok (signed_entry_range C) ?served (content_status_cb B) verdict A part" for parts A
  proof safe
    fix x cs assume "(x, cs) \<in> set (message_values parts)"
    then obtain part vs where part: "part \<in> set parts" "part_values part = Some vs" "(x, cs) \<in> set vs"
      by (auto simp: message_values_set)
    then have "part_ok (signed_entry_range C) ?served (content_status_cb B) verdict A part" using that by blast
    then have "?served x \<and> cs = content_status_cb B x" using part(2,3) by (cases part) auto
    then show "admitted filt x" "entry_namespace (se_entry x) = ns" "cs = content_status_cb B x" by auto
  qed
  have "\<forall>s x. instance_valid C ns snap s \<longrightarrow> x \<in> set (session_view ns snap filt s) \<longrightarrow> ?served x"
    using session_view_served by blast
  from session_guarded.process_message_total[where cfg = sync_config_default and c = c,
      OF assms(1) _ assms(2)[folded session_guarded.wire_range_def] assms(3)[folded session_guarded.wire_range_def]
        assms(4) this]
  show ?thesis using sent by (fastforce simp: sync_config_default_def)
qed

definition reply_parts :: "('x, 'k, 'r) message option \<Rightarrow> ('x, 'k, 'r) message" where
  "reply_parts reply = (case reply of Some parts \<Rightarrow> parts | None \<Rightarrow> [])"

lemma frozen_view: "session_view ns (Some t) filt s = filter (admitted filt) (namespace_entries ns t)"
  by (simp add: instance_entries_def read_tables_def)

text \<open>What a session over a frozen snapshot answers: a function of the admitted entries, up to the refusals.\<close>

lemma frozen_answer:
  assumes "instance_valid C ns (Some t) s"
    "\<forall>item \<in> set (message_items msg). (rid_ok (range_x (fst item)) \<and> rid_ok (range_y (fst item))) \<and>
       (\<forall>rv \<in> set (fst (snd item)). entry_ok (fst rv))"
    "\<forall>part \<in> set (message_fingerprints msg). rid_ok (range_x (fst part)) \<and> rid_ok (range_y (fst part))"
    "verdict_ok (instance_valid C ns (Some t)) (session_view ns (Some t) filt) visible B verdict"
  defines "answer c \<equiv> fst (process_message C (signed_entry_range C) (session_ops C filt (instance_ops C ns (Some t))) B
     sync_config_default msg (s, c))"
  shows "if message_own (admissible (own_boundary ns)) msg
    then \<exists>reply. answer c = Inr reply \<and> reply \<noteq> Some [] \<and> without_refusals (reply_parts reply) =
        message_reply C (signed_entry_range C) B 1 (filter (admitted filt) (namespace_entries ns t)) msg \<and>
      ((\<forall>(x, cs) \<in> set (message_values msg). verdict x cs \<noteq> Reject) \<longrightarrow> without_refusals (reply_parts reply) = reply_parts reply)
    else answer c = Inl (Failure ForeignBoundary)"
proof (cases "message_own (admissible (own_boundary ns)) msg")
  case False
  from session_guarded.process_message_foreign[where cfg = sync_config_default and c = c,
      OF assms(1) _ assms(2)[folded session_guarded.wire_range_def] assms(3)[folded session_guarded.wire_range_def] assms(4) False]
  show ?thesis using False by (auto simp: answer_def sync_config_default_def)
next
  case True
  let ?E = "signed_entry_range C" and ?view = "filter (admitted filt) (namespace_entries ns t)"
  have own: "\<forall>item \<in> set (message_items msg). (snd (snd item) \<or> admissible (own_boundary ns) (fst item)) \<and>
      (\<forall>rv \<in> set (fst (snd item)). entry_ok (fst rv))"
    "\<forall>part \<in> set (message_fingerprints msg). admissible (own_boundary ns) (fst part)"
    using True assms(2) by (simp_all add: message_own_def item_own_def list_all_iff)
  have cfg: "split_factor sync_config_default = 2" "max_set_size sync_config_default = 1" by (simp_all add: sync_config_default_def)
  obtain reply st' where pm: "process_message C ?E (session_ops C filt (instance_ops C ns (Some t))) B sync_config_default msg (s, c) =
      (Inr reply, st')" "reply \<noteq> Some []"
    "\<forall>parts. reply = Some parts \<longrightarrow> (\<forall>part \<in> set parts. part_ok ?E (\<lambda>_. True) (content_status_cb B) verdict (set (message_values msg)) part)"
    using session_reconcile.process_message_eq[OF assms(1) cfg(1) own assms(4), where served = "\<lambda>_. True" and c = c] by blast
  have "without_refusals (reply_parts reply) = message_reply C ?E B 1 ?view msg"
    using session_reconcile.process_message_reply[OF assms(1) cfg(1) _ own assms(4) pm(1)] frozen_view
    unfolding reply_parts_def cfg(2) by blast
  moreover have "without_refusals (reply_parts reply) = reply_parts reply" if "\<forall>(x, cs) \<in> set (message_values msg). verdict x cs \<noteq> Reject"
    unfolding without_refusals_def
  proof (rule filter_True, rule ballI)
    fix part assume "part \<in> set (reply_parts reply)"
    then have "part_ok ?E (\<lambda>_. True) (content_status_cb B) verdict (set (message_values msg)) part"
      using pm(3) by (auto simp: reply_parts_def split: option.splits)
    then show "\<not> is_refusal part" using that by (cases part) auto
  qed
  ultimately show ?thesis using True pm(1,2) by (simp add: answer_def)
qed

lemma reply_parts_inject: "reply \<noteq> Some [] \<Longrightarrow> reply' \<noteq> Some [] \<Longrightarrow> reply_parts reply = reply_parts reply' \<Longrightarrow> reply = reply'"
  by (auto simp: reply_parts_def split: option.splits)

text \<open>C10. Noninterference. Two sessions over frozen snapshots with the same admitted entries open with the same message. To every
  message a peer can send, entries included, they either both answer or both refuse it, and the answers are
  the same but for the entries they refuse: nothing about entries that are not admitted, nor about the current document, shows in
  fingerprints, split boundaries or transmitted items. If no received entry is refused, the answers are equal.\<close>

theorem session_noninterference:
  assumes "instance_valid C ns (Some t1) s1" "instance_valid C ns (Some t2) s2"
    "filter (admitted filt) (namespace_entries ns t1) = filter (admitted filt) (namespace_entries ns t2)"
    "\<forall>item \<in> set (message_items msg). (rid_ok (range_x (fst item)) \<and> rid_ok (range_y (fst item))) \<and>
       (\<forall>rv \<in> set (fst (snd item)). entry_ok (fst rv))"
    "\<forall>part \<in> set (message_fingerprints msg). rid_ok (range_x (fst part)) \<and> rid_ok (range_y (fst part))"
    "\<forall>t. verdict_ok (instance_valid C ns (Some t)) (session_view ns (Some t) filt) visible B verdict"
  defines "opening t s \<equiv> (fst (initial_message (session_ops C filt (instance_ops C ns (Some t))) s) :: store_error + protocol_message)"
    and "answer t s c \<equiv> fst (process_message C (signed_entry_range C) (session_ops C filt (instance_ops C ns (Some t))) B
       sync_config_default msg (s, c))"
  shows "opening t1 s1 = opening t2 s2 \<and>
    map_sum id (\<lambda>reply. without_refusals (reply_parts reply)) (answer t1 s1 c1) =
      map_sum id (\<lambda>reply. without_refusals (reply_parts reply)) (answer t2 s2 c2) \<and>
    ((\<forall>(x, cs) \<in> set (message_values msg). verdict x cs \<noteq> Reject) \<longrightarrow> answer t1 s1 c1 = answer t2 s2 c2)"
proof -
  let ?E = "signed_entry_range C" and ?v = "filter (admitted filt) (namespace_entries ns t1)"
  let ?k = "first_key ?E rid_default ?v"
  have init: "opening t s = Inr [RangeFingerprint (Range ?k ?k) (fingerprint_of C ?E ?v)]"
    if u: "instance_valid C ns (Some t) s" "filter (admitted filt) (namespace_entries ns t) = ?v" for t s
  proof -
    obtain s' where "(initial_message (session_ops C filt (instance_ops C ns (Some t))) s :: (store_error + protocol_message) \<times> fs_store) =
        (Inr [RangeFingerprint (Range ?k ?k) (fingerprint_of C ?E ?v)], s')"
      by (rule instance_session.session.initial_message_eq[OF u(1), of filt]) (simp add: frozen_view u(2))
    then show ?thesis by (simp add: opening_def)
  qed
  note one = frozen_answer[OF assms(1,4,5) assms(6)[rule_format], of c1, folded answer_def]
    and two = frozen_answer[OF assms(2,4,5) assms(6)[rule_format], of c2, folded answer_def]
  have "map_sum id (\<lambda>reply. without_refusals (reply_parts reply)) (answer t1 s1 c1) =
      map_sum id (\<lambda>reply. without_refusals (reply_parts reply)) (answer t2 s2 c2)"
    using one two assms(3) by (auto split: if_splits)
  moreover have "answer t1 s1 c1 = answer t2 s2 c2" if none: "\<forall>(x, cs) \<in> set (message_values msg). verdict x cs \<noteq> Reject"
  proof (cases "message_own (admissible (own_boundary ns)) msg")
    case True
    then obtain a b where "answer t1 s1 c1 = Inr a" "answer t2 s2 c2 = Inr b" "a \<noteq> Some []" "b \<noteq> Some []" "reply_parts a = reply_parts b"
      using one two assms(3) none by auto
    then show ?thesis using reply_parts_inject by simp
  qed (use one two in simp)
  ultimately show ?thesis using init[OF assms(1) refl] init[OF assms(2) assms(3)[symmetric]] by simp
qed

text \<open>The range a part of a reply is about.\<close>

fun part_range :: "('x, 'k, 'r) message_part \<Rightarrow> 'k range option" where
  "part_range (RangeFingerprint r fp) = Some r"
| "part_range (RangeItem r vs hl) = Some r"
| "part_range (Rejected i) = None"

text \<open>Progress of the reconciliation. When a fingerprint does not match and neither side is
  trivial, the answer has two parts, whose ranges together hold exactly the keys of the range, no key
  twice, and each strictly fewer of the entries served than the whole range; and every entry served
  in the range is in one of the two.\<close>

theorem fingerprint_mismatch_splits:
  assumes "instance_valid C ns snap s" "admissible (own_boundary ns) r"
    "2 \<le> length (entries_in (signed_entry_range C) (session_view ns snap filt s) r)"
    "fingerprint_of C (signed_entry_range C) (entries_in (signed_entry_range C) (session_view ns snap filt s) r) \<noteq> fp"
    "fp \<noteq> fingerprint_empty C"
  shows "\<exists>pa pb a b s'. process_fingerprint C (signed_entry_range C) (session_ops C filt (instance_ops C ns snap)) B
        sync_config_default (r, fp) [] (s, c) = (Inr [pa, pb], (s', c)) \<and>
      part_range pa = Some a \<and> part_range pb = Some b \<and>
      (\<forall>t. range_contains r t \<longleftrightarrow> range_contains a t \<noteq> range_contains b t) \<and>
      (\<forall>t. \<not> (range_contains a t \<and> range_contains b t)) \<and>
      length (entries_in (signed_entry_range C) (session_view ns snap filt s) a) +
        length (entries_in (signed_entry_range C) (session_view ns snap filt s) b) =
        length (entries_in (signed_entry_range C) (session_view ns snap filt s) r) \<and>
      entries_in (signed_entry_range C) (session_view ns snap filt s) a \<noteq> [] \<and>
      entries_in (signed_entry_range C) (session_view ns snap filt s) b \<noteq> []"
proof -
  let ?E = "signed_entry_range C" and ?v = "session_view ns snap filt s"
  have sorted: "sorted_wrt (<) (map (re_key ?E) ?v)"
    using instance_session.session.entries_sorted[OF assms(1)] .
  have good: "good_split ?E ?v r (split_at ?E r (entries_in ?E ?v r))"
    by (rule split_at_good[OF sorted assms(3)])
  obtain a b where ab: "split_at ?E r (entries_in ?E ?v r) = [a, b]"
    using good unfolding good_split_def by blast
  have "fingerprint_reply C ?E B 1 ?v (r, fp) = [range_reply C ?E B 1 ?v a, range_reply C ?E B 1 ?v b]"
    using assms(3-5) ab by (simp add: fingerprint_reply_def Let_def)
  moreover obtain s' where "process_fingerprint C ?E (session_ops C filt (instance_ops C ns snap)) B
      sync_config_default (r, fp) [] (s, c) = (Inr ([] @ fingerprint_reply C ?E B 1 ?v (r, fp)), (s', c))"
    using instance_session.session.process_fingerprint_eq[OF assms(1), where part = "(r, fp)" and
        cfg = sync_config_default and filt = filt and B = B and out = "[]" and c = c] assms(2)
    by (auto simp: sync_config_default_def)
  moreover have "part_range (range_reply C ?E B 1 ?v u) = Some u" for u
    by (simp add: range_reply_def Let_def)
  ultimately show ?thesis
    using good good_split_lengths[of ?E ?v r a b] sorted unfolding ab good_split_def by auto
qed

text \<open>Fingerprints have the length of a digest.\<close>

lemma fingerprint_of_length:
  assumes "crypto_ok C" shows "length (fingerprint_of C (signed_entry_range C) es) = 32"
proof -
  have len: "length (signed_entry_as_fingerprint C e) = 32" "length (fingerprint_empty C) = 32" for e
    using crypto_ok_lengths(3)[OF assms] by (simp_all add: signed_entry_as_fingerprint_def fingerprint_empty_def)
  have "length fp = 32 \<Longrightarrow> length (fold (\<lambda>e fp. fingerprint_xor fp (signed_entry_as_fingerprint C e)) es fp) = 32" for fp
    by (induction es arbitrary: fp) (simp_all add: fingerprint_xor_def len(1))
  then show ?thesis using len(2) by (simp add: fingerprint_of_def)
qed

section \<open>Closed instances\<close>

lemma namespace_entries_alt:
  assumes "records_ok (t_records t)" "length ns = 32"
  shows "namespace_entries ns t = map into_entry (filter (\<lambda>row. fst (fst row) = ns) (t_records t))"
  unfolding namespace_entries_def table_range_def
  by (intro arg_cong[where f = "map into_entry"] filter_cong)
     (use assms namespace_row in \<open>auto simp: records_ok_def\<close>)

lemma sample_view:
  assumes "\<forall>e \<in> set es. entry_ok e"
  shows "instance_entries sample_ns None (sample_store es) =
     map into_entry (filter (\<lambda>row. fst (fst row) = sample_ns) (t_records (fold tables_place es tables_empty)))"
proof -
  have "records_ok (t_records (fold tables_place es tables_empty))"
    using fold_place_ok[OF tables_ok_empty assms, of sample_crypto] by (simp add: tables_ok_def)
  then show ?thesis by (simp add: instance_entries_def read_tables_def namespace_entries_alt)
qed

definition accept_all :: "(signed_entry, fs_store, nat) callbacks" where
  "accept_all = \<lparr>validate_cb = (\<lambda>x cs s. (Accept, s)), on_insert_cb = (\<lambda>x cs n. n + 1),
     content_status_cb = (\<lambda>x. Complete)\<rparr>"

definition sample_a :: signed_entry where
  "sample_a = sample_entry [97] (record_new [7] 1 5)"

definition sample_b :: signed_entry where
  "sample_b = sample_entry [98] (record_new [8] 1 6)"

lemma sample_ab_ok [simp]: "entry_ok sample_a" "entry_ok sample_b"
  by (simp_all add: sample_a_def sample_b_def)

lemma accept_all_verdict: "verdict_ok valid entries live accept_all (\<lambda>_ _. Accept)"
  by (simp add: verdict_ok_def accept_all_def same_view_def)

lemma rid_default_ok [simp]: "rid_ok rid_default"
  by (simp add: rid_default_def)

definition key_is_a :: entry_filter where
  "key_is_a e \<longleftrightarrow> entry_key (se_entry e) = [97]"

lemmas sample_eval = sample_view tables_place_def entry_put_tables_def Let_def tables_empty_def
  sample_a_def sample_b_def records_row_def key_is_a_def admitted_Some into_entry_id entry_key_def
  less_prod_def less_eq_prod_def

theorem session_egress_safe_witness:
  "\<exists>r s' c'. process_message sample_crypto (signed_entry_range sample_crypto)
       (session_ops sample_crypto (Some key_is_a) (instance_ops sample_crypto sample_ns None)) accept_all
       sync_config_default
       [RangeItem (Range rid_default rid_default) [(sample_b, Missing)] False,
        RangeFingerprint (Range rid_default rid_default) (replicate 32 0)]
       (sample_store [sample_a, sample_b], 0) = (r, (s', c')) \<and>
     instance_valid sample_crypto sample_ns None s' \<and>
     (r = Inl (Failure ForeignBoundary) \<or>
      (\<exists>reply. r = Inr reply \<and> (\<forall>parts. reply = Some parts \<longrightarrow>
         (\<forall>(x, cs) \<in> set (message_values parts).
            admitted (Some key_is_a) x \<and> entry_namespace (se_entry x) = sample_ns \<and>
            cs = content_status_cb accept_all x))))"
  by (rule session_egress_safe[OF sample_store_valid _ _ accept_all_verdict]) simp_all

theorem session_noninterference_witness:
  "fst (process_message sample_crypto (signed_entry_range sample_crypto)
        (session_ops sample_crypto (Some key_is_a) (instance_ops sample_crypto sample_ns (Some (visible (sample_store [sample_a, sample_b])))))
        accept_all sync_config_default
        [RangeItem (Range rid_default rid_default) [(sample_b, Missing)] False, RangeFingerprint (Range rid_default rid_default) (replicate 32 0)]
        (sample_store [sample_a, sample_b], 0)) =
   fst (process_message sample_crypto (signed_entry_range sample_crypto)
        (session_ops sample_crypto (Some key_is_a) (instance_ops sample_crypto sample_ns (Some (visible (sample_store [sample_a])))))
        accept_all sync_config_default
        [RangeItem (Range rid_default rid_default) [(sample_b, Missing)] False, RangeFingerprint (Range rid_default rid_default) (replicate 32 0)]
        (sample_store [], 3))"
proof -
  have frozen: "instance_valid sample_crypto sample_ns (Some (visible (sample_store es))) (sample_store es')"
    if "\<forall>e \<in> set es. entry_ok e" "\<forall>e \<in> set es'. entry_ok e" for es es'
    using sample_store_valid[OF that(1), of sample_ns sample_crypto] sample_store_valid[OF that(2), of sample_ns sample_crypto]
    by (simp add: instance_valid_def)
  have "session_view sample_ns None (Some key_is_a) (sample_store [sample_a, sample_b]) =
      session_view sample_ns None (Some key_is_a) (sample_store [sample_a])"
    by (simp add: sample_eval)
  then have view: "filter (admitted (Some key_is_a)) (namespace_entries sample_ns (visible (sample_store [sample_a, sample_b]))) =
      filter (admitted (Some key_is_a)) (namespace_entries sample_ns (visible (sample_store [sample_a])))"
    by (simp add: instance_entries_def read_tables_def)
  show ?thesis
    by (rule session_noninterference[OF frozen frozen view, where verdict = "\<lambda>_ _. Accept", THEN conjunct2, THEN conjunct2, rule_format])
       (auto simp: accept_all_verdict)
qed

theorem fingerprint_mismatch_splits_witness:
  "\<exists>pa pb a b s'. process_fingerprint sample_crypto (signed_entry_range sample_crypto)
        (session_ops sample_crypto None (instance_ops sample_crypto sample_ns None)) accept_all
        sync_config_default (Range rid_default rid_default, []) [] (sample_store [sample_a, sample_b], 0) =
        (Inr [pa, pb], (s', 0)) \<and> part_range pa = Some a \<and> part_range pb = Some b"
proof -
  have two: "length (entries_in (signed_entry_range sample_crypto)
      (session_view sample_ns None None (sample_store [sample_a, sample_b])) (Range rid_default rid_default)) = 2"
    by (simp add: sample_eval admitted_None entries_in_Range)
  have xor: "fingerprint_of sample_crypto (signed_entry_range sample_crypto) es \<noteq> []" for es
    using fingerprint_of_length[OF sample_crypto_ok, of es] by force
  show ?thesis
    using fingerprint_mismatch_splits[OF sample_store_valid[of "[sample_a, sample_b]" sample_ns sample_crypto], of
      "Range rid_default rid_default" None "[]" accept_all 0] two xor
    by (auto simp: admissible_def range_is_all_def fingerprint_empty_def sample_crypto_def pad_def)
qed

end
