(* ===== verification/Replica.thy ===== *)
theory Replica
  imports Session_Filter
begin

text \<open>
  Replicas, \<^verbatim>\<open>src/src/sync.rs\<close>: the in-memory information of an open replica, local and remote
  inserts, and the two steps of a reconciliation session, over the store instance of its namespace.

  A subscriber channel is a number; \<open>alive\<close> says whether its receiver still exists (sending to a
  dropped receiver fails and unsubscribes it). Delivered events and observed rejections are logs.
  Waiting for a slow subscriber is not modelled. Readings of the wall clock (microseconds) are
  arguments, one per reading.
\<close>

section \<open>Events and subscribers\<close>

datatype event =
    LocalInsert namespace_id signed_entry
  | RemoteInsert namespace_id signed_entry (event_from: bytes) (should_download: bool) content_status

datatype insert_origin = OriginLocal | OriginSync bytes content_status

type_synonym channel = nat

record subscribers =
  sub_channels :: "channel list"
  sub_delivered :: "(channel \<times> event) list"

definition subscribers_subscribe :: "channel \<Rightarrow> subscribers \<Rightarrow> subscribers" where
  "subscribers_subscribe tx s = s\<lparr>sub_channels := sub_channels s @ [tx]\<rparr>"

definition subscribers_unsubscribe :: "channel \<Rightarrow> subscribers \<Rightarrow> subscribers" where
  "subscribers_unsubscribe tx s = s\<lparr>sub_channels := filter (\<lambda>c. c \<noteq> tx) (sub_channels s)\<rparr>"

definition subscribers_send :: "(channel \<Rightarrow> bool) \<Rightarrow> event \<Rightarrow> subscribers \<Rightarrow> subscribers" where
  "subscribers_send alive ev s =
     \<lparr>sub_channels = filter alive (sub_channels s),
      sub_delivered = sub_delivered s @ map (\<lambda>c. (c, ev)) (filter alive (sub_channels s))\<rparr>"

definition subscribers_send_with :: "(channel \<Rightarrow> bool) \<Rightarrow> event \<Rightarrow> subscribers \<Rightarrow> subscribers" where
  "subscribers_send_with alive ev s = (if sub_channels s \<noteq> [] then subscribers_send alive ev s else s)"

section \<open>Replica information\<close>

type_synonym capability_validator = "signed_entry \<Rightarrow> bytes \<Rightarrow> validate_outcome"

record replica_info =
  ri_capability :: capability
  ri_subscribers :: subscribers
  ri_content_status_cb :: "(bytes \<Rightarrow> content_status) option"
  ri_capability_validator :: "capability_validator option"
  ri_rejection_observer :: "nat option"
  ri_closed :: bool

definition replica_info_new :: "capability \<Rightarrow> replica_info" where
  "replica_info_new cap =
     \<lparr>ri_capability = cap, ri_subscribers = \<lparr>sub_channels = [], sub_delivered = []\<rparr>,
      ri_content_status_cb = None, ri_capability_validator = None, ri_rejection_observer = None,
      ri_closed = False\<rparr>"

definition info_subscribe :: "channel \<Rightarrow> replica_info \<Rightarrow> replica_info" where
  "info_subscribe tx i = i\<lparr>ri_subscribers := subscribers_subscribe tx (ri_subscribers i)\<rparr>"

definition info_unsubscribe :: "channel \<Rightarrow> replica_info \<Rightarrow> replica_info" where
  "info_unsubscribe tx i = i\<lparr>ri_subscribers := subscribers_unsubscribe tx (ri_subscribers i)\<rparr>"

definition subscribers_count :: "replica_info \<Rightarrow> nat" where
  "subscribers_count i = length (sub_channels (ri_subscribers i))"

text \<open>The three setters refuse to replace a callback.\<close>

definition set_content_status_callback ::
  "(bytes \<Rightarrow> content_status) \<Rightarrow> replica_info \<Rightarrow> bool \<times> replica_info" where
  "set_content_status_callback cb i =
     (if ri_content_status_cb i \<noteq> None then (False, i) else (True, i\<lparr>ri_content_status_cb := Some cb\<rparr>))"

definition set_capability_validator ::
  "capability_validator \<Rightarrow> replica_info \<Rightarrow> bool \<times> replica_info" where
  "set_capability_validator v i =
     (if ri_capability_validator i \<noteq> None then (False, i) else (True, i\<lparr>ri_capability_validator := Some v\<rparr>))"

definition set_rejection_observer :: "nat \<Rightarrow> replica_info \<Rightarrow> bool \<times> replica_info" where
  "set_rejection_observer ob i =
     (if ri_rejection_observer i \<noteq> None then (False, i) else (True, i\<lparr>ri_rejection_observer := Some ob\<rparr>))"

datatype insert_error =
  IEStore store_error | IEValidation validation_failure | NewerEntryExists | EntryIsEmpty | IEReadOnly | Closed

definition ensure_open :: "replica_info \<Rightarrow> insert_error + unit" where
  "ensure_open i = (if ri_closed i then Inl Closed else Inr ())"

definition merge_capability ::
  "crypto \<Rightarrow> capability \<Rightarrow> replica_info \<Rightarrow> (capability_error + bool) \<times> replica_info" where
  "merge_capability C cap i =
     (case capability_merge C (ri_capability i) cap of (r, c) \<Rightarrow> (r, i\<lparr>ri_capability := c\<rparr>))"

section \<open>Validation\<close>

text \<open>Ten minutes in microseconds.\<close>

definition MAX_TIMESTAMP_FUTURE_SHIFT :: u64 where
  "MAX_TIMESTAMP_FUTURE_SHIFT = 600000000"

definition MAX_REJECTIONS_PER_MESSAGE :: nat where
  "MAX_REJECTIONS_PER_MESSAGE = 1024"

definition validate_entry ::
  "crypto \<Rightarrow> (bytes \<Rightarrow> ('s, key_parsing_error, bytes) op) \<Rightarrow> u64 \<Rightarrow> namespace_id \<Rightarrow> signed_entry
     \<Rightarrow> insert_origin \<Rightarrow> capability_validator option \<Rightarrow> ('s, validation_failure, unit) op" where
  "validate_entry C pk now expected_namespace e origin validator s =
     (if entry_namespace (se_entry e) \<noteq> expected_namespace then (Inl InvalidNamespace, s)
      else (case (if origin = OriginLocal then (Inr (), s) else signed_entry_verify C pk e s) of
          (Inl _, s') \<Rightarrow> (Inl BadSignature, s')
        | (Inr _, s') \<Rightarrow>
            if now + MAX_TIMESTAMP_FUTURE_SHIFT < entry_timestamp (se_entry e) then (Inl TooFarInTheFuture, s')
            else (case (origin, validator) of
                (OriginSync from _, Some v) \<Rightarrow>
                  (case v e from of
                     Accept \<Rightarrow> (Inr (), s')
                   | Drop \<Rightarrow> (Inl NotAdmitted, s')
                   | Reject \<Rightarrow> (Inl Unauthorized, s'))
              | _ \<Rightarrow> (Inr (), s'))))"

section \<open>Replicas\<close>

record replica =
  rp_namespace :: namespace_id
  rp_snapshot :: "tables option"
  rp_store :: fs_store
  rp_info :: replica_info
  rp_observed :: "(nat \<times> namespace_id \<times> reject_id \<times> bytes) list"

definition replica_new :: "namespace_id \<Rightarrow> fs_store \<Rightarrow> replica_info \<Rightarrow> replica" where
  "replica_new ns s i = \<lparr>rp_namespace = ns, rp_snapshot = None, rp_store = s, rp_info = i, rp_observed = []\<rparr>"

definition replica_id :: "crypto \<Rightarrow> replica \<Rightarrow> namespace_id" where
  "replica_id C r = capability_id C (ri_capability (rp_info r))"

definition replica_ops :: "crypto \<Rightarrow> replica \<Rightarrow> (fs_store, store_error) entry_store" where
  "replica_ops C r = instance_ops C (rp_namespace r) (rp_snapshot r)"

definition send_event :: "(channel \<Rightarrow> bool) \<Rightarrow> event \<Rightarrow> replica \<Rightarrow> replica" where
  "send_event alive ev r =
     r\<lparr>rp_info := (rp_info r)\<lparr>ri_subscribers := subscribers_send alive ev (ri_subscribers (rp_info r))\<rparr>\<rparr>"

text \<open>\<open>get_download_policy(..).unwrap_or_default()\<close>.\<close>

definition policy_or_default ::
  "download_policy postcard \<Rightarrow> namespace_id \<Rightarrow> fs_store \<Rightarrow> download_policy \<times> fs_store" where
  "policy_or_default P ns s = (case get_download_policy P ns s of
     (Inl _, s') \<Rightarrow> (download_policy_default, s') | (Inr p, s') \<Rightarrow> (p, s'))"

definition insert_entry ::
  "crypto \<Rightarrow> download_policy postcard \<Rightarrow> (channel \<Rightarrow> bool) \<Rightarrow> u64 \<Rightarrow> signed_entry \<Rightarrow> insert_origin
     \<Rightarrow> (replica, insert_error, nat) op" where
  "insert_entry C P alive now e origin r =
     (let namespace = replica_id C r in
      case validate_entry C (store_public_key C) now namespace e origin
             (ri_capability_validator (rp_info r)) (rp_store r) of
        (Inl f, s1) \<Rightarrow> (Inl (IEValidation f), r\<lparr>rp_store := s1\<rparr>)
      | (Inr _, s1) \<Rightarrow>
          (case ranger_put (signed_entry_range C) (replica_ops C r) e s1 of
             (Inl err, s2) \<Rightarrow> (Inl (IEStore err), r\<lparr>rp_store := s2\<rparr>)
           | (Inr NotInserted, s2) \<Rightarrow> (Inl NewerEntryExists, r\<lparr>rp_store := s2\<rparr>)
           | (Inr (Inserted count), s2) \<Rightarrow>
               (case origin of
                  OriginLocal \<Rightarrow>
                    (Inr count, send_event alive (LocalInsert namespace e) (r\<lparr>rp_store := s2\<rparr>))
                | OriginSync from status \<Rightarrow>
                    (case policy_or_default P namespace s2 of (policy, s3) \<Rightarrow>
                       (Inr count, send_event alive
                          (RemoteInsert namespace e from (download_policy_matches policy (se_entry e)) status)
                          (r\<lparr>rp_store := s3\<rparr>))))))"

text \<open>\<open>insert\<close> reads the clock for the record and again in \<open>insert_entry\<close>.\<close>

definition replica_insert ::
  "crypto \<Rightarrow> download_policy postcard \<Rightarrow> (channel \<Rightarrow> bool) \<Rightarrow> u64 \<Rightarrow> u64 \<Rightarrow> bytes \<Rightarrow> author \<Rightarrow> bytes \<Rightarrow> u64
     \<Rightarrow> (replica, insert_error, nat) op" where
  "replica_insert C P alive now1 now2 key author hash len r =
     (if len = 0 \<or> hash = hash_empty C then (Inl EntryIsEmpty, r)
      else (case ensure_open (rp_info r) of
          Inl e \<Rightarrow> (Inl e, r)
        | Inr _ \<Rightarrow>
            (let i = rid_new (replica_id C r) (author_id C author) key;
                 e = entry_new i (record_new_current now1 hash len)
             in case capability_secret_key (ri_capability (rp_info r)) of
                  Inl _ \<Rightarrow> (Inl IEReadOnly, r)
                | Inr secret \<Rightarrow> insert_entry C P alive now2 (entry_sign C e secret author) OriginLocal r)))"

definition delete_prefix ::
  "crypto \<Rightarrow> download_policy postcard \<Rightarrow> (channel \<Rightarrow> bool) \<Rightarrow> u64 \<Rightarrow> u64 \<Rightarrow> bytes \<Rightarrow> author
     \<Rightarrow> (replica, insert_error, nat) op" where
  "delete_prefix C P alive now1 now2 p author r =
     (case ensure_open (rp_info r) of
        Inl e \<Rightarrow> (Inl e, r)
      | Inr _ \<Rightarrow>
          (let i = rid_new (replica_id C r) (author_id C author) p;
               e = entry_new_empty C now1 i
           in case capability_secret_key (ri_capability (rp_info r)) of
                Inl _ \<Rightarrow> (Inl IEReadOnly, r)
              | Inr secret \<Rightarrow> insert_entry C P alive now2 (entry_sign C e secret author) OriginLocal r))"

definition insert_remote_entry ::
  "crypto \<Rightarrow> download_policy postcard \<Rightarrow> (channel \<Rightarrow> bool) \<Rightarrow> u64 \<Rightarrow> signed_entry \<Rightarrow> bytes \<Rightarrow> content_status
     \<Rightarrow> (replica, insert_error, nat) op" where
  "insert_remote_entry C P alive now e received_from status r =
     (case ensure_open (rp_info r) of
        Inl err \<Rightarrow> (Inl err, r)
      | Inr _ \<Rightarrow>
          (case signed_entry_validate_empty C e of
             Inl f \<Rightarrow> (Inl (IEValidation f), r)
           | Inr _ \<Rightarrow> insert_entry C P alive now e (OriginSync received_from status) r))"

definition hash_and_insert ::
  "crypto \<Rightarrow> download_policy postcard \<Rightarrow> (channel \<Rightarrow> bool) \<Rightarrow> u64 \<Rightarrow> u64 \<Rightarrow> bytes \<Rightarrow> author \<Rightarrow> bytes
     \<Rightarrow> (replica, insert_error, bytes) op" where
  "hash_and_insert C P alive now1 now2 key author data r =
     (case ensure_open (rp_info r) of
        Inl e \<Rightarrow> (Inl e, r)
      | Inr _ \<Rightarrow>
          (let len = word_of_nat (length data); hash = hash_fn C data
           in op_bind (replica_insert C P alive now1 now2 key author hash len) (\<lambda>_. op_return hash) r))"

definition replica_record_id :: "crypto \<Rightarrow> replica \<Rightarrow> bytes \<Rightarrow> author \<Rightarrow> record_identifier" where
  "replica_record_id C r key author = rid_new (replica_id C r) (author_id C author) key"

section \<open>Reconciliation\<close>

record sync_outcome =
  heads_received :: author_heads
  num_recv :: nat
  num_sent :: nat

definition sync_outcome_default :: sync_outcome where
  "sync_outcome_default = \<lparr>heads_received = heads_default, num_recv = 0, num_sent = 0\<rparr>"

datatype sync_error = SyncClosed | SyncFailure "store_error failure"

definition on_replica_store :: "(fs_store, store_error, 'a) op \<Rightarrow> (replica, sync_error, 'a) op" where
  "on_replica_store m r = (case m (rp_store r) of
     (Inl e, s) \<Rightarrow> (Inl (SyncFailure (Failure e)), r\<lparr>rp_store := s\<rparr>) | (Inr x, s) \<Rightarrow> (Inr x, r\<lparr>rp_store := s\<rparr>))"

definition sync_initial_message ::
  "crypto \<Rightarrow> entry_filter option \<Rightarrow> (replica, sync_error, protocol_message) op" where
  "sync_initial_message C filt r =
     (if ri_closed (rp_info r) then (Inl SyncClosed, r)
      else on_replica_store (initial_message (session_ops C filt (replica_ops C r))) r)"

text \<open>The callbacks of a session. The state of the insert callback is the subscribers.\<close>

definition session_validate ::
  "crypto \<Rightarrow> u64 \<Rightarrow> namespace_id \<Rightarrow> bytes \<Rightarrow> capability_validator option \<Rightarrow> signed_entry \<Rightarrow> content_status
     \<Rightarrow> fs_store \<Rightarrow> validate_outcome \<times> fs_store" where
  "session_validate C now ns from_peer validator e status s =
     (case validate_entry C (store_public_key C) now ns e (OriginSync from_peer status) validator s of
        (Inr _, s') \<Rightarrow> (Accept, s')
      | (Inl f, s') \<Rightarrow> (if f = Unauthorized then Reject else Drop, s'))"

definition session_callbacks ::
  "crypto \<Rightarrow> (channel \<Rightarrow> bool) \<Rightarrow> u64 \<Rightarrow> namespace_id \<Rightarrow> bytes \<Rightarrow> replica_info \<Rightarrow> download_policy
     \<Rightarrow> (signed_entry, fs_store, subscribers) callbacks" where
  "session_callbacks C alive now ns from_peer info policy =
     \<lparr>validate_cb = session_validate C now ns from_peer (ri_capability_validator info),
      on_insert_cb = (\<lambda>e status. subscribers_send_with alive
        (RemoteInsert ns e from_peer (download_policy_matches policy (se_entry e)) status)),
      content_status_cb = (\<lambda>e. case ri_content_status_cb info of
          Some cb \<Rightarrow> cb (entry_content_hash (se_entry e)) | None \<Rightarrow> Missing)\<rparr>"

definition receive_values :: "protocol_message \<Rightarrow> sync_outcome \<Rightarrow> sync_outcome" where
  "receive_values msg st =
     st\<lparr>num_recv := num_recv st + message_value_count msg,
        heads_received := fold (\<lambda>(e, _) h. heads_insert (entry_author (se_entry e)) (entry_timestamp (se_entry e)) h)
          (message_values msg) (heads_received st)\<rparr>"

text \<open>The rejections a message surfaces to the observer.\<close>

definition surfaced_rejections :: "protocol_message \<Rightarrow> reject_id list" where
  "surfaced_rejections msg = take MAX_REJECTIONS_PER_MESSAGE (List.map_filter part_rejected msg)"

definition observe_rejections :: "namespace_id \<Rightarrow> bytes \<Rightarrow> protocol_message \<Rightarrow> replica \<Rightarrow> replica" where
  "observe_rejections ns from_peer msg r =
     (case ri_rejection_observer (rp_info r) of
        None \<Rightarrow> r
      | Some ob \<Rightarrow> r\<lparr>rp_observed := rp_observed r @ map (\<lambda>i. (ob, ns, i, from_peer)) (surfaced_rejections msg)\<rparr>)"

definition sync_process_message ::
  "crypto \<Rightarrow> download_policy postcard \<Rightarrow> (channel \<Rightarrow> bool) \<Rightarrow> u64 \<Rightarrow> protocol_message \<Rightarrow> bytes
     \<Rightarrow> entry_filter option \<Rightarrow> (replica \<times> sync_outcome, sync_error, protocol_message option) op" where
  "sync_process_message C P alive now msg from_peer filt rs =
     (case rs of (r, st) \<Rightarrow>
        if ri_closed (rp_info r) then (Inl SyncClosed, (r, st))
        else let ns = replica_id C r; st1 = receive_values msg st in
          case policy_or_default P ns (rp_store r) of (policy, s1) \<Rightarrow>
            let r1 = observe_rejections ns from_peer msg (r\<lparr>rp_store := s1\<rparr>) in
            (case process_message C (signed_entry_range C) (session_ops C filt (replica_ops C r))
                   (session_callbacks C alive now ns from_peer (rp_info r) policy) sync_config_default msg
                   (s1, ri_subscribers (rp_info r1)) of
               (res, (s2, subs)) \<Rightarrow>
                 let r2 = r1\<lparr>rp_store := s2, rp_info := (rp_info r1)\<lparr>ri_subscribers := subs\<rparr>\<rparr> in
                 (case res of
                    Inl e \<Rightarrow> (Inl (SyncFailure e), (r2, st1))
                  | Inr reply \<Rightarrow>
                      (Inr reply, (r2, case reply of
                          Some m \<Rightarrow> st1\<lparr>num_sent := num_sent st1 + message_value_count m\<rparr>
                        | None \<Rightarrow> st1)))))"

end
