(* ===== verification/Replica_Laws.thy ===== *)
theory Replica_Laws
  imports Replica
begin

text \<open>
  What the replica layer guarantees: signatures are checked as the parser and the scheme say whatever
  the key cache holds, an ingest applies exactly the accepted entries, and a replica that only ever
  ran the operations of \<^verbatim>\<open>src/src/sync.rs\<close> holds authentic entries only.
\<close>

section \<open>Verification through a key cache\<close>

text \<open>An entry is authentic when both keys parse and both signatures verify.\<close>

definition entry_authentic :: "crypto \<Rightarrow> signed_entry \<Rightarrow> bool" where
  "entry_authentic C e \<longleftrightarrow>
     pk_valid C (entry_namespace (se_entry e)) \<and> pk_valid C (entry_author (se_entry e)) \<and>
     pk_verify C (entry_namespace (se_entry e)) (entry_encode (se_entry e)) (namespace_signature (se_signature e)) \<and>
     pk_verify C (entry_author (se_entry e)) (entry_encode (se_entry e)) (author_signature (se_signature e))"

text \<open>The decision of \<open>validate_entry\<close>, without the cache.\<close>

definition entry_verdict ::
  "crypto \<Rightarrow> u64 \<Rightarrow> namespace_id \<Rightarrow> insert_origin \<Rightarrow> capability_validator option \<Rightarrow> signed_entry
     \<Rightarrow> validation_failure + unit" where
  "entry_verdict C now ns origin validator e =
     (if entry_namespace (se_entry e) \<noteq> ns then Inl InvalidNamespace
      else if origin \<noteq> OriginLocal \<and> \<not> entry_authentic C e then Inl BadSignature
      else if now + MAX_TIMESTAMP_FUTURE_SHIFT < entry_timestamp (se_entry e) then Inl TooFarInTheFuture
      else (case (origin, validator) of
          (OriginSync from _, Some v) \<Rightarrow>
            (case v e from of Accept \<Rightarrow> Inr () | Drop \<Rightarrow> Inl NotAdmitted | Reject \<Rightarrow> Inl Unauthorized)
        | _ \<Rightarrow> Inr ()))"

context public_key_store
begin

lemma verify_answer:
  assumes "inv s"
  obtains r s' where "signed_entry_verify C public_key e s = (r, s')" "inv s'" "isl r \<longleftrightarrow> \<not> entry_authentic C e"
proof -
  let ?n = "entry_namespace (se_entry e)" and ?a = "entry_author (se_entry e)"
  obtain rn s1 where n: "namespace_key public_key ?n s = (rn, s1)" by fastforce
  have rn: "rn = namespace_pk_from_bytes C ?n" "inv s1"
    using namespace_key_answer[OF assms, of ?n] namespace_key_inv[OF assms, of ?n] n by simp_all
  obtain ra s2 where a: "author_key public_key ?a s1 = (ra, s2)" by fastforce
  have ra: "ra = author_pk_from_bytes C ?a" "inv s2"
    using author_key_answer[OF rn(2), of ?a] author_key_inv[OF rn(2), of ?a] a by simp_all
  obtain r s' where v: "signed_entry_verify C public_key e s = (r, s')" by fastforce
  then have "inv s' \<and> (isl r \<longleftrightarrow> \<not> entry_authentic C e)"
    using n a rn ra
    by (cases "pk_valid C ?n"; cases "pk_valid C ?a")
       (auto simp: signed_entry_verify_def op_bind_def op_map_err_def op_lift_def entry_authentic_def
         namespace_pk_from_bytes_def author_pk_from_bytes_def public_key_from_bytes_def
         entry_signature_verify_def Let_def rbind_def split: if_splits)
  then show thesis using that v by blast
qed

lemma validate_answer:
  assumes "inv s"
  obtains s' where "validate_entry C public_key now ns e origin v s = (entry_verdict C now ns origin v e, s')" "inv s'"
proof -
  obtain r s' where r: "signed_entry_verify C public_key e s = (r, s')" "inv s'" "isl r \<longleftrightarrow> \<not> entry_authentic C e"
    by (rule verify_answer[OF assms])
  obtain res t where res: "validate_entry C public_key now ns e origin v s = (res, t)" by fastforce
  have "res = entry_verdict C now ns origin v e \<and> inv t"
    using res r assms
    by (cases r; cases origin)
       (auto simp: validate_entry_def entry_verdict_def split: option.splits validate_outcome.splits if_splits)
  then show thesis using that res by blast
qed

end

text \<open>The store as a key store: a lookup changes the cache only.\<close>

definition without_keys :: "fs_store \<Rightarrow> fs_store" where
  "without_keys s = s\<lparr>st_pubkeys := Map.empty\<rparr>"

interpretation store_keys: public_key_store C "store_public_key C"
  "\<lambda>s. key_cache_ok C (st_pubkeys s) \<and> without_keys s = t" for C t
  using mem_keys.public_key_answer mem_keys.public_key_inv
  by unfold_locales (auto simp: store_public_key_def without_keys_def split: prod.splits; metis fst_conv snd_conv)+

lemma without_keys_cong:
  assumes "without_keys s' = without_keys s" "key_cache_ok C (st_pubkeys s')" "instance_valid C ns snap s"
  shows "instance_valid C ns snap s'" "visible s' = visible s" "st_db s' = st_db s"
    "st_open_replicas s' = st_open_replicas s"
proof -
  have "st_db s' = st_db s" "st_transaction s' = st_transaction s" "st_open_replicas s' = st_open_replicas s"
    using assms(1) by (metis without_keys_def fs_store.select_convs(1-3) fs_store.update_convs(4) fs_store.surjective)+
  then show "instance_valid C ns snap s'" "visible s' = visible s" "st_db s' = st_db s"
    "st_open_replicas s' = st_open_replicas s"
    using assms(2,3) by (auto simp: instance_valid_def tx_ok_def visible_def split: current_transaction.splits)
qed

lemma store_validate:
  assumes "instance_valid C ns snap s"
  obtains s' where "validate_entry C (store_public_key C) now expected e origin v s =
      (entry_verdict C now expected origin v e, s')" "instance_valid C ns snap s'" "visible s' = visible s"
    "without_keys s' = without_keys s"
proof -
  have inv: "key_cache_ok C (st_pubkeys s) \<and> without_keys s = without_keys s"
    using assms by (simp add: instance_valid_def)
  obtain s' where "validate_entry C (store_public_key C) now expected e origin v s =
      (entry_verdict C now expected origin v e, s')" "key_cache_ok C (st_pubkeys s') \<and> without_keys s' = without_keys s"
    by (rule store_keys.validate_answer[OF inv])
  then show thesis using that without_keys_cong[OF _ _ assms, of s'] by blast
qed

lemma policy_or_default_frame:
  assumes "instance_valid C ns snap s"
  obtains policy s' where "policy_or_default P n s = (policy, s')" "instance_valid C ns snap s'" "visible s' = visible s"
proof -
  have "tx_ok s" using assms by (simp add: instance_valid_def)
  then obtain s' where s': "store_tables s = (visible s, s')" "visible s' = visible s" "tx_ok s'" "same_rest s s'"
    by (rule store_tables_eq)
  then have "snd (policy_or_default P n s) = s'"
    by (auto simp: policy_or_default_def get_download_policy_def split: option.splits)
  then show thesis using that[of "fst (policy_or_default P n s)" s'] s' assms
    by (auto simp: instance_valid_def same_rest_def prod_eq_iff)
qed

section \<open>Inserting an entry\<close>

definition replica_ok :: "crypto \<Rightarrow> replica \<Rightarrow> bool" where
  "replica_ok C r \<longleftrightarrow> instance_valid C (rp_namespace r) (rp_snapshot r) (rp_store r) \<and> replica_id C r = rp_namespace r"

text \<open>What no insert and no session changes of a replica.\<close>

definition same_handle :: "replica \<Rightarrow> replica \<Rightarrow> bool" where
  "same_handle r r' \<longleftrightarrow> rp_namespace r' = rp_namespace r \<and> rp_snapshot r' = rp_snapshot r \<and>
     ri_capability (rp_info r') = ri_capability (rp_info r) \<and> ri_closed (rp_info r') = ri_closed (rp_info r) \<and>
     ri_capability_validator (rp_info r') = ri_capability_validator (rp_info r)"

abbreviation replica_tables :: "replica \<Rightarrow> tables" where
  "replica_tables r \<equiv> visible (rp_store r)"

lemma replica_ok_put:
  "replica_ok C r \<Longrightarrow> instance_valid C (rp_namespace r) (rp_snapshot r) s \<Longrightarrow> replica_ok C (r\<lparr>rp_store := s\<rparr>)"
  by (simp add: replica_ok_def replica_id_def)

lemma send_event_simps [simp]:
  "rp_store (send_event alive ev r) = rp_store r" "same_handle r (send_event alive ev r)"
  "replica_ok C (send_event alive ev r) = replica_ok C r"
  by (simp_all add: send_event_def same_handle_def replica_ok_def replica_id_def)

lemma same_handle_store [simp]: "same_handle r (r\<lparr>rp_store := s\<rparr>)"
  by (simp add: same_handle_def)

lemma same_handle_send [simp]: "same_handle r (send_event alive ev (r\<lparr>rp_store := s\<rparr>))"
  by (simp add: same_handle_def send_event_def)

text \<open>The whole of \<open>insert_entry\<close>: the verdict, then \<open>put\<close>.\<close>

lemma insert_entry_eq:
  assumes "replica_ok C r" "entry_ok e"
  obtains res r' where "insert_entry C P alive now e origin r = (res, r')" "replica_ok C r'" "same_handle r r'"
    "case entry_verdict C now (rp_namespace r) origin (ri_capability_validator (rp_info r)) e of
       Inl f \<Rightarrow> res = Inl (IEValidation f) \<and> replica_tables r' = replica_tables r
     | Inr _ \<Rightarrow> replica_tables r' = snd (tables_put C e (replica_tables r)) \<and>
         res = (case fst (tables_put C e (replica_tables r)) of NotInserted \<Rightarrow> Inl NewerEntryExists | Inserted n \<Rightarrow> Inr n)"
proof -
  let ?ns = "rp_namespace r" and ?snap = "rp_snapshot r" and ?v = "ri_capability_validator (rp_info r)"
  have v: "instance_valid C ?ns ?snap (rp_store r)" and id: "replica_id C r = ?ns"
    using assms(1) by (simp_all add: replica_ok_def)
  obtain s1 where s1: "validate_entry C (store_public_key C) now ?ns e origin ?v (rp_store r) =
      (entry_verdict C now ?ns origin ?v e, s1)" "instance_valid C ?ns ?snap s1" "visible s1 = visible (rp_store r)"
    by (rule store_validate[OF v])
  show thesis
  proof (cases "entry_verdict C now ?ns origin ?v e")
    case (Inl f)
    then show thesis using that[of "Inl (IEValidation f)" "r\<lparr>rp_store := s1\<rparr>"] s1 id replica_ok_put[OF assms(1)]
      by (simp add: insert_entry_def)
  next
    case (Inr u)
    obtain s2 where s2: "ranger_put (signed_entry_range C) (instance_ops C ?ns ?snap) e s1 =
        (Inr (fst (tables_put C e (visible s1))), s2)" "instance_valid C ?ns ?snap s2"
      "visible s2 = snd (tables_put C e (visible s1))"
      by (rule instance_ingest.put_eq[OF s1(2) assms(2)])
    obtain policy s3 where s3: "policy_or_default P ?ns s2 = (policy, s3)" "instance_valid C ?ns ?snap s3"
      "visible s3 = visible s2" by (rule policy_or_default_frame[OF s2(2)])
    obtain res r' where i: "insert_entry C P alive now e origin r = (res, r')" by fastforce
    have "replica_ok C r' \<and> same_handle r r' \<and> replica_tables r' = snd (tables_put C e (replica_tables r)) \<and>
        res = (case fst (tables_put C e (replica_tables r)) of NotInserted \<Rightarrow> Inl NewerEntryExists | Inserted n \<Rightarrow> Inr n)"
      using i Inr s1 s2 s3 id replica_ok_put[OF assms(1)]
      by (auto simp: insert_entry_def replica_ops_def Let_def split: insert_outcome.splits insert_origin.splits)
    then show thesis using that i Inr by simp
  qed
qed

section \<open>Authentic documents\<close>

definition doc_authentic :: "crypto \<Rightarrow> tables \<Rightarrow> bool" where
  "doc_authentic C t \<longleftrightarrow> (\<forall>i v. doc_map t i = Some v \<longrightarrow> entry_authentic C (into_entry (i, v)))"

lemma doc_put_origin:
  "doc_put C e m i = Some v \<Longrightarrow> m i = Some v \<or> (i, v) = records_row e"
  by (auto simp: doc_put_def prod_eq_iff split: if_splits option.splits)

lemma doc_authentic_put:
  assumes "tables_ok C t" "entry_ok e" "doc_authentic C t" "entry_authentic C e"
  shows "doc_authentic C (snd (tables_put C e t))"
  unfolding doc_authentic_def doc_map_put[OF assms(1,2)]
proof (intro allI impI)
  fix i v assume "doc_put C e (doc_map t) i = Some v"
  from doc_put_origin[OF this] show "entry_authentic C (into_entry (i, v))"
    using assms(3,4) into_entry_records_row[of e] unfolding doc_authentic_def by metis
qed

lemma signed_authentic:
  assumes "crypto_ok C" "entry_namespace e = namespace_id C n" "entry_author e = author_id C a"
  shows "entry_authentic C (entry_sign C e n a)"
  using assms
  by (cases n; cases a)
     (simp add: entry_authentic_def entry_sign_def signed_entry_from_entry_def entry_signature_from_entry_def
       Let_def crypto_ok_def namespace_id_eq author_id_eq author_sign_def namespace_sign_def)

lemma verdict_authentic:
  "entry_verdict C now ns origin v e = Inr () \<Longrightarrow> origin \<noteq> OriginLocal \<Longrightarrow> entry_authentic C e"
  by (auto simp: entry_verdict_def split: if_splits)

text \<open>An operation keeps a replica in order: its handle, the store, and authenticity.\<close>

definition keeps_replica :: "crypto \<Rightarrow> replica \<Rightarrow> replica \<Rightarrow> bool" where
  "keeps_replica C r r' \<longleftrightarrow> replica_ok C r' \<and> same_handle r r' \<and>
     (doc_authentic C (replica_tables r) \<longrightarrow> doc_authentic C (replica_tables r'))"

lemma keeps_replica_refl: "replica_ok C r \<Longrightarrow> keeps_replica C r r"
  by (simp add: keeps_replica_def same_handle_def)

lemma insert_entry_keeps:
  assumes "replica_ok C r" "entry_ok e" "origin = OriginLocal \<Longrightarrow> entry_authentic C e"
  shows "keeps_replica C r (snd (insert_entry C P alive now e origin r))"
proof -
  let ?v = "entry_verdict C now (rp_namespace r) origin (ri_capability_validator (rp_info r)) e"
  obtain res r' where r': "insert_entry C P alive now e origin r = (res, r')" "replica_ok C r'" "same_handle r r'"
    "case ?v of
       Inl f \<Rightarrow> res = Inl (IEValidation f) \<and> replica_tables r' = replica_tables r
     | Inr _ \<Rightarrow> replica_tables r' = snd (tables_put C e (replica_tables r)) \<and>
         res = (case fst (tables_put C e (replica_tables r)) of NotInserted \<Rightarrow> Inl NewerEntryExists | Inserted n \<Rightarrow> Inr n)"
    by (rule insert_entry_eq[OF assms(1,2)])
  have ok: "tables_ok C (replica_tables r)" using assms(1) by (simp add: replica_ok_def instance_valid_def)
  show ?thesis
  proof (cases ?v)
    case (Inr u)
    then have "entry_authentic C e" using verdict_authentic[of C now "rp_namespace r" origin _ e] assms(3) by auto
    then show ?thesis using r' Inr doc_authentic_put[OF ok assms(2)] by (simp add: keeps_replica_def)
  qed (use r' in \<open>simp add: keeps_replica_def\<close>)
qed

text \<open>The entry a local operation signs.\<close>

lemma local_entry:
  assumes "crypto_ok C" "capability_secret_key (ri_capability (rp_info r)) = Inr secret"
  shows "entry_ok (entry_sign C (entry_new (rid_new (replica_id C r) (author_id C a) key) rec) secret a)"
    and "entry_authentic C (entry_sign C (entry_new (rid_new (replica_id C r) (author_id C a) key) rec) secret a)"
proof -
  have id: "replica_id C r = namespace_id C secret"
    using assms(2) by (cases "ri_capability (rp_info r)") (auto simp: replica_id_def)
  note len = crypto_ok_lengths(1)[OF assms(1), of secret] crypto_ok_lengths(2)[OF assms(1), of a]
  show "entry_ok (entry_sign C (entry_new (rid_new (replica_id C r) (author_id C a) key) rec) secret a)"
    using len by (simp add: id entry_ok_def entry_sign_def signed_entry_from_entry_def entry_new_def)
  show "entry_authentic C (entry_sign C (entry_new (rid_new (replica_id C r) (author_id C a) key) rec) secret a)"
    by (rule signed_authentic[OF assms(1)])
       (use len in \<open>simp_all add: id entry_new_def entry_namespace_def entry_author_def\<close>)
qed

lemma entry_new_empty_alt: "entry_new_empty C now i = entry_new i (record_empty_current C now)"
  by (simp add: entry_new_empty_def entry_new_def)

lemma replica_insert_keeps:
  assumes "crypto_ok C" "replica_ok C r"
  shows "keeps_replica C r (snd (replica_insert C P alive now1 now2 key a hash len r))"
  using keeps_replica_refl[OF assms(2)] insert_entry_keeps[OF assms(2) local_entry(1)[OF assms(1)]]
    local_entry(2)[OF assms(1)]
  by (auto simp: replica_insert_def ensure_open_def Let_def split: sum.splits)

lemma delete_prefix_keeps:
  assumes "crypto_ok C" "replica_ok C r"
  shows "keeps_replica C r (snd (delete_prefix C P alive now1 now2 p a r))"
  using keeps_replica_refl[OF assms(2)] insert_entry_keeps[OF assms(2) local_entry(1)[OF assms(1)]]
    local_entry(2)[OF assms(1)]
  by (auto simp: delete_prefix_def ensure_open_def Let_def entry_new_empty_alt split: sum.splits)

lemma hash_and_insert_keeps:
  assumes "crypto_ok C" "replica_ok C r"
  shows "keeps_replica C r (snd (hash_and_insert C P alive now1 now2 key a data r))"
  using keeps_replica_refl[OF assms(2)]
    replica_insert_keeps[OF assms, of P alive now1 now2 key a "hash_fn C data" "word_of_nat (length data)"]
  by (auto simp: hash_and_insert_def ensure_open_def Let_def op_bind_def op_return_def split: sum.splits prod.splits)

lemma insert_remote_entry_keeps:
  assumes "replica_ok C r" "entry_ok e"
  shows "keeps_replica C r (snd (insert_remote_entry C P alive now e from status r))"
  using keeps_replica_refl[OF assms(1)] insert_entry_keeps[OF assms]
  by (auto simp: insert_remote_entry_def ensure_open_def split: sum.splits)

section \<open>Reconciliation sessions\<close>

definition session_verdict ::
  "crypto \<Rightarrow> u64 \<Rightarrow> namespace_id \<Rightarrow> bytes \<Rightarrow> capability_validator option \<Rightarrow> signed_entry \<Rightarrow> content_status
     \<Rightarrow> validate_outcome" where
  "session_verdict C now ns from v e cs =
     (case entry_verdict C now ns (OriginSync from cs) v e of
        Inr _ \<Rightarrow> Accept | Inl f \<Rightarrow> if f = Unauthorized then Reject else Drop)"

lemma session_verdict_ok:
  "verdict_ok (instance_valid C ns snap) (session_view ns snap filt) visible
     (session_callbacks C alive now ns peer info policy)
     (session_verdict C now ns peer (ri_capability_validator info))"
  unfolding verdict_ok_def
proof (intro allI impI)
  fix e cs s assume v: "instance_valid C ns snap s"
  let ?v = "ri_capability_validator info" and ?o = "OriginSync peer cs"
  obtain s' where s': "validate_entry C (store_public_key C) now ns e ?o ?v s = (entry_verdict C now ns ?o ?v e, s')"
    "instance_valid C ns snap s'" "visible s' = visible s" by (rule store_validate[OF v])
  have "validate_cb (session_callbacks C alive now ns peer info policy) e cs s = (session_verdict C now ns peer ?v e cs, s')"
    using s'(1) by (auto simp: session_callbacks_def session_validate_def session_verdict_def split: sum.splits)
  moreover have "same_view (instance_valid C ns snap) (session_view ns snap filt) visible s s'"
    using s'(2,3) by (simp add: same_view_def instance_entries_def read_tables_def split: option.splits)
  ultimately show "fst (validate_cb (session_callbacks C alive now ns peer info policy) e cs s) =
      session_verdict C now ns peer ?v e cs \<and>
    same_view (instance_valid C ns snap) (session_view ns snap filt) visible s
      (snd (validate_cb (session_callbacks C alive now ns peer info policy) e cs s))" by simp
qed

lemma session_verdict_accept:
  "session_verdict C now ns from v e cs = Accept \<longleftrightarrow> entry_verdict C now ns (OriginSync from cs) v e = Inr ()"
  by (auto simp: session_verdict_def split: sum.splits)

text \<open>The entries a received message puts into the store.\<close>

abbreviation accepted_entries ::
  "crypto \<Rightarrow> u64 \<Rightarrow> namespace_id \<Rightarrow> bytes \<Rightarrow> capability_validator option \<Rightarrow> (signed_entry \<times> content_status) list
     \<Rightarrow> signed_entry list" where
  "accepted_entries C now ns from v vs \<equiv>
     map fst (filter (\<lambda>(e, cs). entry_verdict C now ns (OriginSync from cs) v e = Inr ()) vs)"

lemma fold_step_tables:
  "fst (fold (value_step (tables_put C) (session_verdict C now ns from v) f) vs (t, c)) =
     fold (\<lambda>e t. snd (tables_put C e t)) (accepted_entries C now ns from v vs) t"
proof (induction vs arbitrary: t c)
  case (Cons x vs)
  obtain e cs where "x = (e, cs)" by fastforce
  then show ?case using Cons.IH by (simp add: value_step_def session_verdict_accept)
qed simp

lemma fold_put_laws:
  assumes "tables_ok C t" "\<forall>e \<in> set es. entry_ok e"
  shows "tables_ok C (fold (\<lambda>e t. snd (tables_put C e t)) es t)"
    "doc_map (fold (\<lambda>e t. snd (tables_put C e t)) es t) = fold (doc_put C) es (doc_map t)"
    "doc_authentic C t \<Longrightarrow> \<forall>e \<in> set es. entry_authentic C e \<Longrightarrow>
       doc_authentic C (fold (\<lambda>e t. snd (tables_put C e t)) es t)"
  using assms
  by (induction es arbitrary: t) (auto simp: tables_put_ok doc_map_put doc_authentic_put)

text \<open>A message as the decoder delivers it: identifiers and boundaries carry the fixed head.\<close>

definition message_ok :: "protocol_message \<Rightarrow> bool" where
  "message_ok msg \<longleftrightarrow>
     (\<forall>item \<in> set (message_items msg). (rid_ok (range_x (fst item)) \<and> rid_ok (range_y (fst item))) \<and>
        (\<forall>rv \<in> set (fst (snd item)). entry_ok (fst rv))) \<and>
     (\<forall>part \<in> set (message_fingerprints msg). rid_ok (range_x (fst part)) \<and> rid_ok (range_y (fst part)))"

lemma message_ok_values: "message_ok msg \<Longrightarrow> (e, cs) \<in> set (message_values msg) \<Longrightarrow> entry_ok e"
  by (fastforce simp: message_ok_def simp flip: item_values)

lemma observe_rejections_simps [simp]:
  "rp_store (observe_rejections ns from msg r) = rp_store r" "rp_info (observe_rejections ns from msg r) = rp_info r"
  "rp_namespace (observe_rejections ns from msg r) = rp_namespace r"
  "rp_snapshot (observe_rejections ns from msg r) = rp_snapshot r"
  by (simp_all add: observe_rejections_def split: option.splits)

text \<open>The handler's frame around \<open>process_message\<close>: what a run of it in the session means for the replica.\<close>

abbreviation session_run ::
  "crypto \<Rightarrow> (channel \<Rightarrow> bool) \<Rightarrow> u64 \<Rightarrow> protocol_message \<Rightarrow> bytes \<Rightarrow> entry_filter option \<Rightarrow> replica
     \<Rightarrow> download_policy \<Rightarrow> (fs_store \<times> subscribers, store_error failure, protocol_message option) op" where
  "session_run C alive now msg peer filt r policy \<equiv>
     process_message C (signed_entry_range C) (session_ops C filt (instance_ops C (rp_namespace r) (rp_snapshot r)))
       (session_callbacks C alive now (rp_namespace r) peer (rp_info r) policy) sync_config_default msg"

definition sync_frame ::
  "crypto \<Rightarrow> (store_error failure + protocol_message option) \<Rightarrow> protocol_message \<Rightarrow> fs_store \<Rightarrow> replica \<Rightarrow> sync_outcome
     \<Rightarrow> (sync_error + protocol_message option) \<times> replica \<times> sync_outcome \<Rightarrow> bool" where
  "sync_frame C res msg s2 r st out \<longleftrightarrow>
     (case out of (res', r', st') \<Rightarrow> res' = map_sum SyncFailure id res \<and>
        rp_store r' = s2 \<and> replica_ok C r' \<and> same_handle r r' \<and>
        num_recv st' = num_recv st + message_value_count msg \<and>
        num_sent st' = num_sent st + (case res of Inr (Some m) \<Rightarrow> message_value_count m | _ \<Rightarrow> 0))"

lemma sync_process_frame:
  assumes "replica_ok C r" "\<not> ri_closed (rp_info r)"
  obtains policy s1 where "instance_valid C (rp_namespace r) (rp_snapshot r) s1" "visible s1 = replica_tables r"
    "\<And>res s2 subs. session_run C alive now msg peer filt r policy (s1, ri_subscribers (rp_info r)) = (res, (s2, subs)) \<Longrightarrow>
       instance_valid C (rp_namespace r) (rp_snapshot r) s2 \<Longrightarrow>
       sync_frame C res msg s2 r st (sync_process_message C P alive now msg peer filt (r, st))"
proof -
  have id: "replica_id C r = rp_namespace r" and v: "instance_valid C (rp_namespace r) (rp_snapshot r) (rp_store r)"
    using assms(1) by (simp_all add: replica_ok_def)
  obtain policy s1 where s1: "policy_or_default P (rp_namespace r) (rp_store r) = (policy, s1)"
    "instance_valid C (rp_namespace r) (rp_snapshot r) s1" "visible s1 = replica_tables r"
    by (rule policy_or_default_frame[OF v])
  show thesis
  proof (rule that[OF s1(2,3), of policy])
    fix res s2 subs
    assume "session_run C alive now msg peer filt r policy (s1, ri_subscribers (rp_info r)) = (res, (s2, subs))"
      "instance_valid C (rp_namespace r) (rp_snapshot r) s2"
    then show "sync_frame C res msg s2 r st (sync_process_message C P alive now msg peer filt (r, st))"
      using assms(2) id s1(1)
      by (auto simp: sync_frame_def sync_process_message_def Let_def replica_ops_def replica_ok_def
          replica_id_def same_handle_def receive_values_def split: sum.splits option.splits)
  qed
qed

text \<open>A message whose ranges lie in the replica's namespace is answered.\<close>

lemma sync_process_answered:
  assumes "replica_ok C r" "\<not> ri_closed (rp_info r)" "message_ok msg"
    "\<forall>item \<in> set (message_items msg). snd (snd item) \<or> admissible (own_boundary (rp_namespace r)) (fst item)"
    "\<forall>part \<in> set (message_fingerprints msg). admissible (own_boundary (rp_namespace r)) (fst part)"
  obtains policy s1 reply s2 subs r' st' where
    "instance_valid C (rp_namespace r) (rp_snapshot r) s1"
    "session_run C alive now msg peer filt r policy (s1, ri_subscribers (rp_info r)) = (Inr reply, (s2, subs))"
    "reply \<noteq> Some []"
    "\<forall>parts. reply = Some parts \<longrightarrow> (\<forall>part \<in> set parts. part_ok (signed_entry_range C) (\<lambda>_. True)
       (content_status_cb (session_callbacks C alive now (rp_namespace r) peer (rp_info r) policy))
       (session_verdict C now (rp_namespace r) peer (ri_capability_validator (rp_info r))) (set (message_values msg)) part)"
    "sync_process_message C P alive now msg peer filt (r, st) = (Inr reply, (r', st'))"
    "replica_ok C r'" "same_handle r r'"
    "doc_map (replica_tables r') =
       fold (doc_put C) (accepted_entries C now (rp_namespace r) peer (ri_capability_validator (rp_info r))
         (message_values msg)) (doc_map (replica_tables r))"
    "num_recv st' = num_recv st + message_value_count msg"
    "num_sent st' = num_sent st + (case reply of Some m \<Rightarrow> message_value_count m | None \<Rightarrow> 0)"
proof -
  let ?ns = "rp_namespace r" and ?snap = "rp_snapshot r" and ?v = "ri_capability_validator (rp_info r)"
  obtain policy s1 where s1: "instance_valid C ?ns ?snap s1" "visible s1 = replica_tables r" and
    frame: "\<And>res s2 subs. session_run C alive now msg peer filt r policy (s1, ri_subscribers (rp_info r)) =
      (res, (s2, subs)) \<Longrightarrow> instance_valid C ?ns ?snap s2 \<Longrightarrow>
      sync_frame C res msg s2 r st (sync_process_message C P alive now msg peer filt (r, st))"
    by (rule sync_process_frame[OF assms(1,2), where P = P and alive = alive and now = now and msg = msg and
          peer = peer and filt = filt and st = st]) blast
  have items: "\<forall>item \<in> set (message_items msg). (snd (snd item) \<or> admissible (own_boundary ?ns) (fst item)) \<and>
      (\<forall>rv \<in> set (fst (snd item)). entry_ok (fst rv))" using assms(3,4) by (simp add: message_ok_def)
  obtain reply s2 subs where pm: "session_run C alive now msg peer filt r policy (s1, ri_subscribers (rp_info r)) =
      (Inr reply, (s2, subs))" "instance_valid C ?ns ?snap s2"
    "fold (value_step (tables_put C) (session_verdict C now ?ns peer ?v)
       (on_insert_cb (session_callbacks C alive now ?ns peer (rp_info r) policy))) (message_values msg)
       (visible s1, ri_subscribers (rp_info r)) = (visible s2, subs)" "reply \<noteq> Some []"
    "\<forall>parts. reply = Some parts \<longrightarrow> (\<forall>part \<in> set parts. part_ok (signed_entry_range C) (\<lambda>_. True)
       (content_status_cb (session_callbacks C alive now ?ns peer (rp_info r) policy))
       (session_verdict C now ?ns peer ?v) (set (message_values msg)) part)"
    using session_reconcile.process_message_eq[OF s1(1) _ items assms(5)
        session_verdict_ok[where alive = alive and now = now and peer = peer and info = "rp_info r" and policy = policy],
        where served = "\<lambda>_. True" and cfg = sync_config_default and c = "ri_subscribers (rp_info r)" and filt = filt]
    by (auto simp: sync_config_default_def)
  let ?es = "accepted_entries C now ?ns peer ?v (message_values msg)"
  have "\<forall>e \<in> set ?es. entry_ok e" using message_ok_values[OF assms(3)] by auto
  moreover have "tables_ok C (replica_tables r)" using assms(1) by (simp add: replica_ok_def instance_valid_def)
  moreover have "visible s2 = fold (\<lambda>e t. snd (tables_put C e t)) ?es (replica_tables r)"
    using arg_cong[OF pm(3), of fst] s1(2) by (simp only: fold_step_tables fst_conv)
  ultimately have doc: "doc_map (visible s2) = fold (doc_put C) ?es (doc_map (replica_tables r))"
    using fold_put_laws(2) by simp
  obtain r' st' where out: "sync_process_message C P alive now msg peer filt (r, st) = (Inr reply, (r', st'))"
    "rp_store r' = s2" "replica_ok C r'" "same_handle r r'" "num_recv st' = num_recv st + message_value_count msg"
    "num_sent st' = num_sent st + (case reply of Some m \<Rightarrow> message_value_count m | None \<Rightarrow> 0)"
    using frame[OF pm(1,2)] by (auto simp: sync_frame_def split: prod.splits option.splits)
  show thesis
    by (rule that[OF s1(1) pm(1,4,5) out(1,3,4) _ out(5,6)]) (use doc out(2) in simp)
qed

text \<open>One with a range of another namespace is refused, after the entries of the items before it were read.\<close>

lemma sync_process_refused:
  assumes "replica_ok C r" "\<not> ri_closed (rp_info r)" "message_ok msg" "\<not> message_own (admissible (own_boundary (rp_namespace r))) msg"
  obtains r' st' where "sync_process_message C P alive now msg peer filt (r, st) = (Inl (SyncFailure (Failure ForeignBoundary)), (r', st'))"
    "replica_ok C r'" "same_handle r r'"
    "doc_map (replica_tables r') = fold (doc_put C) (accepted_entries C now (rp_namespace r) peer (ri_capability_validator (rp_info r))
       (values_read (admissible (own_boundary (rp_namespace r))) msg)) (doc_map (replica_tables r))"
    "num_recv st' = num_recv st + message_value_count msg" "num_sent st' = num_sent st"
proof -
  let ?ns = "rp_namespace r" and ?snap = "rp_snapshot r" and ?v = "ri_capability_validator (rp_info r)"
  let ?vs = "values_read (admissible (own_boundary ?ns)) msg"
  obtain policy s1 where s1: "instance_valid C ?ns ?snap s1" "visible s1 = replica_tables r" and
    frame: "\<And>res s2 subs. session_run C alive now msg peer filt r policy (s1, ri_subscribers (rp_info r)) =
      (res, (s2, subs)) \<Longrightarrow> instance_valid C ?ns ?snap s2 \<Longrightarrow>
      sync_frame C res msg s2 r st (sync_process_message C P alive now msg peer filt (r, st))"
    by (rule sync_process_frame[OF assms(1,2), where P = P and alive = alive and now = now and msg = msg and
          peer = peer and filt = filt and st = st]) blast
  obtain s2 subs where pm: "session_run C alive now msg peer filt r policy (s1, ri_subscribers (rp_info r)) =
      (Inl (Failure ForeignBoundary), (s2, subs))" "instance_valid C ?ns ?snap s2"
    "fold (value_step (tables_put C) (session_verdict C now ?ns peer ?v)
       (on_insert_cb (session_callbacks C alive now ?ns peer (rp_info r) policy))) ?vs
       (visible s1, ri_subscribers (rp_info r)) = (visible s2, subs)"
    using session_guarded.process_message_foreign[OF s1(1) _ _ _
        session_verdict_ok[where alive = alive and now = now and peer = peer and info = "rp_info r" and policy = policy] assms(4),
        where cfg = sync_config_default and c = "ri_subscribers (rp_info r)" and filt = filt,
        unfolded session_guarded.wire_range_def] assms(3)
    unfolding message_ok_def by (auto simp: sync_config_default_def)
  let ?es = "accepted_entries C now ?ns peer ?v ?vs"
  have "\<forall>e \<in> set ?es. entry_ok e"
    using message_ok_values[OF assms(3)] values_read_subset[of "admissible (own_boundary ?ns)" msg] by auto
  moreover have "tables_ok C (replica_tables r)" using assms(1) by (simp add: replica_ok_def instance_valid_def)
  moreover have "visible s2 = fold (\<lambda>e t. snd (tables_put C e t)) ?es (replica_tables r)"
    using arg_cong[OF pm(3), of fst] s1(2) by (simp only: fold_step_tables fst_conv)
  ultimately have doc: "doc_map (visible s2) = fold (doc_put C) ?es (doc_map (replica_tables r))"
    using fold_put_laws(2) by simp
  obtain r' st' where out: "sync_process_message C P alive now msg peer filt (r, st) = (Inl (SyncFailure (Failure ForeignBoundary)), (r', st'))"
    "rp_store r' = s2" "replica_ok C r'" "same_handle r r'" "num_recv st' = num_recv st + message_value_count msg" "num_sent st' = num_sent st"
    using frame[OF pm(1,2)] by (auto simp: sync_frame_def split: prod.splits)
  show thesis by (rule that[OF out(1,3,4) _ out(5,6)]) (use doc out(2) in simp)
qed

text \<open>C2. One round of reconciliation, for every message a peer can send and whatever the session filter. A closed replica refuses it
  and stays as it is. An open one applies \<open>doc_put\<close>, in order, for exactly the received entries that pass validation, answers and
  counts the entries received and sent, when the ranges of the message lie in its namespace. When one does
  not, it refuses the message with an error; the entries of the items before the first such item have been
  applied in the same way.\<close>

theorem sync_applies_accepted:
  assumes "replica_ok C r" "message_ok msg"
  shows "\<exists>res r' st'. sync_process_message C P alive now msg peer filt (r, st) = (res, (r', st')) \<and> replica_ok C r' \<and> same_handle r r' \<and>
     (if ri_closed (rp_info r) then res = Inl SyncClosed \<and> r' = r \<and> st' = st
      else num_recv st' = num_recv st + message_value_count msg \<and>
        (if message_own (admissible (own_boundary (rp_namespace r))) msg
         then (\<exists>reply. res = Inr reply \<and> num_sent st' = num_sent st + (case reply of Some m \<Rightarrow> message_value_count m | None \<Rightarrow> 0)) \<and>
           doc_map (replica_tables r') =
             fold (doc_put C) (accepted_entries C now (rp_namespace r) peer (ri_capability_validator (rp_info r)) (message_values msg))
               (doc_map (replica_tables r))
         else res = Inl (SyncFailure (Failure ForeignBoundary)) \<and> num_sent st' = num_sent st \<and>
           doc_map (replica_tables r') =
             fold (doc_put C) (accepted_entries C now (rp_namespace r) peer (ri_capability_validator (rp_info r))
               (values_read (admissible (own_boundary (rp_namespace r))) msg)) (doc_map (replica_tables r))))"
proof (cases "ri_closed (rp_info r)")
  case True
  then show ?thesis using assms(1) by (simp add: sync_process_message_def same_handle_def)
next
  case False
  show ?thesis
  proof (cases "message_own (admissible (own_boundary (rp_namespace r))) msg")
    case True
    then have own: "\<forall>item \<in> set (message_items msg). snd (snd item) \<or> admissible (own_boundary (rp_namespace r)) (fst item)"
      "\<forall>part \<in> set (message_fingerprints msg). admissible (own_boundary (rp_namespace r)) (fst part)"
      by (simp_all add: message_own_def item_own_def list_all_iff)
    show ?thesis
      by (rule sync_process_answered[OF assms(1) False assms(2) own, where alive = alive and now = now and peer = peer and filt = filt
            and P = P and st = st]) (use False True in simp)
  next
    case foreign: False
    show ?thesis
      by (rule sync_process_refused[OF assms(1) False assms(2) foreign, where alive = alive and now = now and peer = peer and filt = filt
            and P = P and st = st]) (use False foreign in simp)
  qed
qed

lemma sync_process_keeps:
  assumes "replica_ok C r" "message_ok msg"
  shows "keeps_replica C r (fst (snd (sync_process_message C P alive now msg peer filt (r, st))))"
proof (cases "ri_closed (rp_info r)")
  case True
  then show ?thesis using keeps_replica_refl[OF assms(1)] by (simp add: sync_process_message_def)
next
  case False
  let ?ns = "rp_namespace r" and ?snap = "rp_snapshot r" and ?v = "ri_capability_validator (rp_info r)"
  obtain policy s1 where s1: "instance_valid C ?ns ?snap s1" "visible s1 = replica_tables r" and
    frame: "\<And>res s2 subs. session_run C alive now msg peer filt r policy (s1, ri_subscribers (rp_info r)) =
      (res, (s2, subs)) \<Longrightarrow> instance_valid C ?ns ?snap s2 \<Longrightarrow>
      sync_frame C res msg s2 r st (sync_process_message C P alive now msg peer filt (r, st))"
    by (rule sync_process_frame[OF assms(1) False, where P = P and alive = alive and now = now and msg = msg and
          peer = peer and filt = filt and st = st]) blast
  obtain res s2 subs vs where pm: "session_run C alive now msg peer filt r policy (s1, ri_subscribers (rp_info r)) =
      (res, (s2, subs))" "instance_valid C ?ns ?snap s2" "set vs \<subseteq> set (message_values msg)"
    "fold (value_step (tables_put C) (session_verdict C now ?ns peer ?v)
       (on_insert_cb (session_callbacks C alive now ?ns peer (rp_info r) policy))) vs
       (visible s1, ri_subscribers (rp_info r)) = (visible s2, subs)"
    using session_guarded.process_message_total[OF s1(1) _ _ _
        session_verdict_ok[where alive = alive and now = now and peer = peer and info = "rp_info r" and policy = policy],
        where served = "\<lambda>_. True" and cfg = sync_config_default and c = "ri_subscribers (rp_info r)" and filt = filt
          and msg = msg, unfolded session_guarded.wire_range_def] assms(2)
    unfolding message_ok_def by (auto simp: sync_config_default_def)
  let ?es = "accepted_entries C now ?ns peer ?v vs"
  have es: "\<forall>e \<in> set ?es. entry_ok e" "\<forall>e \<in> set ?es. entry_authentic C e"
    using message_ok_values[OF assms(2)] pm(3) verdict_authentic[of C now ?ns _ ?v] by auto
  have "tables_ok C (replica_tables r)" using assms(1) by (simp add: replica_ok_def instance_valid_def)
  moreover have "visible s2 = fold (\<lambda>e t. snd (tables_put C e t)) ?es (replica_tables r)"
    using arg_cong[OF pm(4), of fst] s1(2) by (simp only: fold_step_tables fst_conv)
  ultimately show ?thesis using frame[OF pm(1,2)] fold_put_laws(3)[OF _ es(1)] es(2)
    by (auto simp: sync_frame_def keeps_replica_def split: prod.splits)
qed

section \<open>Histories of a replica\<close>

text \<open>Any of the operations of an open replica, with any arguments. Entries and messages from peers are
  arbitrary but decoded.\<close>

inductive replica_step :: "crypto \<Rightarrow> download_policy postcard \<Rightarrow> replica \<Rightarrow> replica \<Rightarrow> bool"
  for C :: crypto and P :: "download_policy postcard" where
  step_insert: "replica_insert C P alive now1 now2 key a hash len r = (res, r') \<Longrightarrow> replica_step C P r r'"
| step_delete: "delete_prefix C P alive now1 now2 p a r = (res', r') \<Longrightarrow> replica_step C P r r'"
| step_hash_insert: "hash_and_insert C P alive now1 now2 key a data r = (res'', r') \<Longrightarrow> replica_step C P r r'"
| step_remote: "entry_ok e \<Longrightarrow> insert_remote_entry C P alive now e peer status r = (res, r') \<Longrightarrow> replica_step C P r r'"
| step_open_session: "sync_initial_message C filt r = (msg, r') \<Longrightarrow> replica_step C P r r'"
| step_message: "message_ok m \<Longrightarrow> sync_process_message C P alive now m peer filt (r, st) = (reply, (r', st')) \<Longrightarrow>
    replica_step C P r r'"
| step_subscribe: "replica_step C P r (r\<lparr>rp_info := info_subscribe tx (rp_info r)\<rparr>)"
| step_unsubscribe: "replica_step C P r (r\<lparr>rp_info := info_unsubscribe tx (rp_info r)\<rparr>)"
| step_status_cb: "replica_step C P r (r\<lparr>rp_info := snd (set_content_status_callback cb (rp_info r))\<rparr>)"
| step_validator: "replica_step C P r (r\<lparr>rp_info := snd (set_capability_validator v (rp_info r))\<rparr>)"
| step_observer: "replica_step C P r (r\<lparr>rp_info := snd (set_rejection_observer ob (rp_info r))\<rparr>)"
| step_merge: "replica_step C P r (r\<lparr>rp_info := snd (merge_capability C cap (rp_info r))\<rparr>)"

lemma sync_initial_keeps:
  assumes "replica_ok C r"
  shows "keeps_replica C r (snd (sync_initial_message C filt r))"
proof -
  have v: "instance_valid C (rp_namespace r) (rp_snapshot r) (rp_store r)" using assms by (simp add: replica_ok_def)
  obtain msg s' where "(initial_message (session_ops C filt (instance_ops C (rp_namespace r) (rp_snapshot r))) (rp_store r)
      :: (store_error + protocol_message) \<times> fs_store) = (Inr msg, s')" "instance_valid C (rp_namespace r) (rp_snapshot r) s'"
    "visible s' = replica_tables r"
    by (rule instance_session.session.initial_message_eq[OF v, of filt]) (auto simp: same_view_def)
  then show ?thesis using assms keeps_replica_refl[OF assms]
    by (auto simp: sync_initial_message_def on_replica_store_def replica_ops_def keeps_replica_def replica_ok_def
        replica_id_def)
qed

lemma step_keeps:
  assumes "replica_step C P r r'" "crypto_ok C" "replica_ok C r" "doc_authentic C (replica_tables r)"
  shows "replica_ok C r' \<and> doc_authentic C (replica_tables r')"
  using assms
proof cases
  case (step_insert alive now1 now2 key a hash len res)
  then show ?thesis using replica_insert_keeps[OF assms(2,3), of P alive now1 now2 key a hash len] assms(4)
    by (simp add: keeps_replica_def)
next
  case (step_delete alive now1 now2 p a res')
  then show ?thesis using delete_prefix_keeps[OF assms(2,3), of P alive now1 now2 p a] assms(4)
    by (simp add: keeps_replica_def)
next
  case (step_hash_insert alive now1 now2 key a data res'')
  then show ?thesis using hash_and_insert_keeps[OF assms(2,3), of P alive now1 now2 key a data] assms(4)
    by (simp add: keeps_replica_def)
next
  case (step_remote e alive now peer status res)
  then show ?thesis using insert_remote_entry_keeps[OF assms(3), of e P alive now peer status] assms(4)
    by (simp add: keeps_replica_def)
next
  case (step_open_session filt msg)
  then show ?thesis using sync_initial_keeps[OF assms(3), of filt] assms(4) by (simp add: keeps_replica_def)
next
  case (step_message m alive now peer filt st reply st')
  then show ?thesis using sync_process_keeps[OF assms(3), of m P alive now peer filt st] assms(4)
    by (simp add: keeps_replica_def)
qed (auto simp: replica_ok_def replica_id_def info_subscribe_def info_unsubscribe_def set_content_status_callback_def
    set_capability_validator_def set_rejection_observer_def merge_capability_def capability_merge_id case_prod_unfold)

text \<open>C8. Authenticity is an invariant of every history of a replica. Whatever local calls, entries from
  peers and reconciliation messages it processes, in any order, under any filters and validators, its store stays
  well formed, its namespace stays the one of its capability, and every stored entry carries a valid namespace
  signature and a valid author signature.\<close>

theorem replica_history_authentic:
  assumes "(replica_step C P)\<^sup>*\<^sup>* r r'" "crypto_ok C" "replica_ok C r" "doc_authentic C (replica_tables r)"
  shows "replica_ok C r' \<and> doc_authentic C (replica_tables r')"
  using assms by (induction rule: rtranclp_induct) (auto dest: step_keeps)

section \<open>Behaviour of the operations\<close>

abbreviation local_signed :: "crypto \<Rightarrow> replica \<Rightarrow> namespace_secret \<Rightarrow> author \<Rightarrow> bytes \<Rightarrow> doc_record \<Rightarrow> signed_entry" where
  "local_signed C r secret a key rec \<equiv>
     entry_sign C (entry_new (rid_new (rp_namespace r) (author_id C a) key) rec) secret a"

lemma local_verdict:
  assumes "crypto_ok C" "replica_ok C r" "\<not> now2 + MAX_TIMESTAMP_FUTURE_SHIFT < rec_timestamp rec"
  shows "entry_verdict C now2 (rp_namespace r) OriginLocal v (local_signed C r secret a key rec) = Inr ()"
proof -
  have "length (rp_namespace r) = 32" using assms(2) by (simp add: replica_ok_def instance_valid_def)
  then show ?thesis using assms(3) crypto_ok_lengths(2)[OF assms(1), of a]
    by (simp add: entry_verdict_def entry_sign_def signed_entry_from_entry_def entry_new_def entry_namespace_def
        entry_timestamp_def)
qed

text \<open>A local insert that reaches \<open>put\<close>.\<close>

lemma local_insert_eq:
  assumes "crypto_ok C" "replica_ok C r" "ri_capability (rp_info r) = Write secret"
    "\<not> now2 + MAX_TIMESTAMP_FUTURE_SHIFT < rec_timestamp rec"
  obtains res r' where "insert_entry C P alive now2 (local_signed C r secret a key rec) OriginLocal r = (res, r')"
    "replica_ok C r'" "same_handle r r'"
    "doc_map (replica_tables r') = doc_put C (local_signed C r secret a key rec) (doc_map (replica_tables r))"
    "res = Inl NewerEntryExists \<and> superseded C (doc_map (replica_tables r)) (local_signed C r secret a key rec) \<or>
     (\<exists>n. res = Inr n) \<and> \<not> superseded C (doc_map (replica_tables r)) (local_signed C r secret a key rec)"
proof -
  let ?e = "local_signed C r secret a key rec"
  have id: "rp_namespace r = replica_id C r" using assms(2) by (simp add: replica_ok_def)
  have ok: "entry_ok ?e" unfolding id by (rule local_entry(1)[OF assms(1)]) (simp add: assms(3))
  have t: "tables_ok C (replica_tables r)" using assms(2) by (simp add: replica_ok_def instance_valid_def)
  note v = local_verdict[OF assms(1,2,4), where v = "ri_capability_validator (rp_info r)" and secret = secret and a = a and key = key]
  obtain res r' where "insert_entry C P alive now2 ?e OriginLocal r = (res, r')" "replica_ok C r'" "same_handle r r'"
    "replica_tables r' = snd (tables_put C ?e (replica_tables r))"
    "res = (case fst (tables_put C ?e (replica_tables r)) of NotInserted \<Rightarrow> Inl NewerEntryExists | Inserted n \<Rightarrow> Inr n)"
    by (rule insert_entry_eq[OF assms(2) ok, of P alive now2 OriginLocal]) (use v in auto)
  then show thesis using that doc_map_put[OF t ok]
    by (auto simp: put_spec_def tables_blocked_def split: if_splits)
qed

lemma doc_put_self: "\<not> superseded C m e \<Longrightarrow> doc_put C e m (fst (records_row e)) = Some (snd (records_row e))"
  by (simp add: doc_put_def)

lemma get_exact_eq:
  assumes "tx_ok s"
  shows "fst (get_exact C n a k ie s) = (case doc_map (visible s) (n, a, k) of None \<Rightarrow> None
     | Some v \<Rightarrow> if ie \<or> \<not> signed_entry_is_empty C (into_entry ((n, a, k), v)) then Some (into_entry ((n, a, k), v)) else None)"
  using store_tables_eq[OF assms]
  by (metis (no_types, lifting) doc_map_def fst_conv get_exact_def old.prod.case table_get_exact_def)

text \<open>C17. Insert, then look up: on an open replica with write access, a local insert of non-empty content
  either is refused because a live entry at a prefix of the key is at or above it (and changes nothing),
  or succeeds, and then an exact lookup returns the entry, signed by the namespace and the author.\<close>

theorem insert_then_get:
  assumes "crypto_ok C" "replica_ok C r" "\<not> ri_closed (rp_info r)" "ri_capability (rp_info r) = Write secret"
    "len \<noteq> 0" "hash \<noteq> hash_empty C" "\<not> now2 + MAX_TIMESTAMP_FUTURE_SHIFT < now1"
  shows "\<exists>res r'. replica_insert C P alive now1 now2 key a hash len r = (res, r') \<and>
     (if superseded C (doc_map (replica_tables r)) (local_signed C r secret a key (record_new hash len now1))
      then res = Inl NewerEntryExists \<and> doc_map (replica_tables r') = doc_map (replica_tables r)
      else (\<exists>n. res = Inr n) \<and>
        fst (get_exact C (rp_namespace r) (author_id C a) key False (rp_store r')) =
          Some (local_signed C r secret a key (record_new hash len now1)))"
proof -
  let ?e = "local_signed C r secret a key (record_new hash len now1)"
  have future: "\<not> now2 + MAX_TIMESTAMP_FUTURE_SHIFT < rec_timestamp (record_new hash len now1)"
    using assms(7) by (simp add: record_new_def)
  obtain res r' where i: "insert_entry C P alive now2 ?e OriginLocal r = (res, r')" "replica_ok C r'"
    "doc_map (replica_tables r') = doc_put C ?e (doc_map (replica_tables r))"
    "res = Inl NewerEntryExists \<and> superseded C (doc_map (replica_tables r)) ?e \<or>
     (\<exists>n. res = Inr n) \<and> \<not> superseded C (doc_map (replica_tables r)) ?e"
    by (rule local_insert_eq[OF assms(1,2,4) future, of P alive a key])
  have ins: "replica_insert C P alive now1 now2 key a hash len r = (res, r')"
    using i(1) assms(2-6) by (simp add: replica_insert_def ensure_open_def Let_def record_new_current_def replica_ok_def)
  have "length (rp_namespace r) = 32" using assms(2) by (simp add: replica_ok_def instance_valid_def)
  then have id: "fst (records_row ?e) = (rp_namespace r, author_id C a, key)"
    using crypto_ok_lengths(2)[OF assms(1), of a]
    by (simp add: records_row_def entry_sign_def signed_entry_from_entry_def entry_new_def)
  have get: "fst (get_exact C (rp_namespace r) (author_id C a) key False (rp_store r')) = Some ?e"
    if "\<not> superseded C (doc_map (replica_tables r)) ?e"
  proof -
    have row: "doc_map (replica_tables r') (rp_namespace r, author_id C a, key) = Some (snd (records_row ?e))"
      using doc_put_self[OF that] i(3) id by simp
    have e: "into_entry ((rp_namespace r, author_id C a, key), snd (records_row ?e)) = ?e"
      using into_entry_records_row[of ?e] id by (metis prod.collapse)
    have "\<not> signed_entry_is_empty C ?e" using assms(6)
      by (simp add: signed_entry_is_empty_def record_is_empty_def entry_sign_def signed_entry_from_entry_def entry_new_def
          record_new_def)
    moreover have "tx_ok (rp_store r')" using i(2) by (simp add: replica_ok_def instance_valid_def)
    ultimately show ?thesis using row e by (simp add: get_exact_eq)
  qed
  show ?thesis using ins i(3,4) get by (auto simp: doc_put_def)
qed

text \<open>C18. Deleting a prefix that succeeds at time \<open>now1\<close>: the marker is at the prefix; of this author's other entries at keys with
  that prefix exactly those remain that are newer than the marker; and the entries of other authors and
  namespaces, and those of this author at keys outside the range of the prefix, are as before. The range holds, besides the
  keys with the prefix, those in the overshoot of its bound, which is empty unless the prefix ends in the byte 255;
  there the entries that are not newer are deleted as well.\<close>

theorem delete_prefix_removes:
  assumes "crypto_ok C" "replica_ok C r" "delete_prefix C P alive now1 now2 p a r = (Inr n, r')"
    "\<not> now2 + MAX_TIMESTAMP_FUTURE_SHIFT < now1"
  shows "(\<exists>v. doc_map (replica_tables r') (rp_namespace r, author_id C a, p) = Some v \<and> value_record v = record_empty C now1) \<and>
     (\<forall>k. k \<noteq> p \<and> (prefix p k \<or> overshoot p k) \<longrightarrow> doc_map (replica_tables r') (rp_namespace r, author_id C a, k) =
        (case doc_map (replica_tables r) (rp_namespace r, author_id C a, k) of
           None \<Rightarrow> None | Some v \<Rightarrow> if record_le (value_record v) (record_empty C now1) then None else Some v)) \<and>
     (\<forall>i. fst i \<noteq> rp_namespace r \<or> fst (snd i) \<noteq> author_id C a \<or> \<not> prefix p (snd (snd i)) \<and> \<not> overshoot p (snd (snd i)) \<longrightarrow>
       doc_map (replica_tables r') i = doc_map (replica_tables r) i) \<and>
     (\<forall>k. overshoot p k \<longrightarrow> last p = 255)"
proof -
  obtain secret where w: "ri_capability (rp_info r) = Write secret" and open_r: "\<not> ri_closed (rp_info r)"
    using assms(3) by (cases "ri_capability (rp_info r)") (auto simp: delete_prefix_def ensure_open_def Let_def split: if_splits)
  let ?e = "local_signed C r secret a p (record_empty C now1)"
  have future: "\<not> now2 + MAX_TIMESTAMP_FUTURE_SHIFT < rec_timestamp (record_empty C now1)"
    using assms(4) by (simp add: record_empty_def record_new_def)
  have same: "record_empty_current C now1 = record_empty C now1"
    by (simp add: record_empty_current_def record_new_current_def record_empty_def)
  have "insert_entry C P alive now2 ?e OriginLocal r = (Inr n, r')"
    using assms(2,3) w open_r
    by (simp add: delete_prefix_def ensure_open_def Let_def entry_new_empty_alt same replica_ok_def)
  then have doc: "doc_map (replica_tables r') = doc_put C ?e (doc_map (replica_tables r))"
    and ok: "\<not> superseded C (doc_map (replica_tables r)) ?e"
    using local_insert_eq[OF assms(1,2) w future, of P alive a p] by (metis Inl_Inr_False prod.inject)+
  have "length (rp_namespace r) = 32" using assms(2) by (simp add: replica_ok_def instance_valid_def)
  then have id: "rid_namespace (se_id ?e) = rp_namespace r" "rid_author (se_id ?e) = author_id C a" "rid_key (se_id ?e) = p"
    "se_record ?e = record_empty C now1" "fst (records_row ?e) = (rp_namespace r, author_id C a, p)"
    using crypto_ok_lengths(2)[OF assms(1), of a]
    by (simp_all add: records_row_def entry_sign_def signed_entry_from_entry_def entry_new_def)
  have marker: "value_record (snd (records_row ?e)) = record_empty C now1" using records_row_value[of ?e] id(4) by simp
  have at: "doc_map (replica_tables r') i = (if i = (rp_namespace r, author_id C a, p) then Some (snd (records_row ?e))
      else case doc_map (replica_tables r) i of None \<Rightarrow> None
        | Some v \<Rightarrow> if covers ?e i \<and> record_le (value_record v) (record_empty C now1) then None else Some v)" for i
    using ok unfolding doc doc_put_def id by simp
  have cov: "covers ?e i \<longleftrightarrow> fst i = rp_namespace r \<and> fst (snd i) = author_id C a \<and> (prefix p (snd (snd i)) \<or> overshoot p (snd (snd i)))" for i
    by (simp add: covers_def id)
  have "last p = 255" if "overshoot p k" for k using that by (auto simp: overshoot_def)
  moreover have "doc_map (replica_tables r') i = doc_map (replica_tables r) i"
    if "fst i \<noteq> rp_namespace r \<or> fst (snd i) \<noteq> author_id C a \<or> \<not> prefix p (snd (snd i)) \<and> \<not> overshoot p (snd (snd i))" for i
    using that by (auto simp: at cov split: option.splits)
  ultimately show ?thesis using marker by (auto simp: at cov split: option.splits)
qed

text \<open>A replica that is closed, or whose capability is read-only, refuses local writes and is left exactly
  as it was; a closed one refuses entries from peers and sessions too.\<close>

theorem locked_replica_unchanged:
  "(ri_closed (rp_info r) \<or> kind_of_capability (ri_capability (rp_info r)) = KindRead \<longrightarrow>
      (\<exists>err. replica_insert C P alive now1 now2 key a hash len r = (Inl err, r)) \<and>
      (\<exists>err. delete_prefix C P alive now1 now2 key a r = (Inl err, r)) \<and>
      (\<exists>err. hash_and_insert C P alive now1 now2 key a data r = (Inl err, r))) \<and>
   (ri_closed (rp_info r) \<longrightarrow>
      insert_remote_entry C P alive now1 e peer status r = (Inl Closed, r) \<and>
      sync_initial_message C filt r = (Inl SyncClosed, r) \<and>
      sync_process_message C P alive now1 msg peer filt (r, st) = (Inl SyncClosed, (r, st)))"
  by (cases "ri_capability (rp_info r)")
     (auto simp: replica_insert_def delete_prefix_def hash_and_insert_def insert_remote_entry_def
       sync_initial_message_def sync_process_message_def ensure_open_def Let_def op_bind_def)

text \<open>C22. The gate for entries from peers: an entry that is stored is authentic, of this namespace, not more than
  ten minutes ahead, empty in both length and hash or in neither, and accepted by the validator if one
  is set; it is then exactly \<open>doc_put\<close>. An entry that is refused leaves the tables untouched.\<close>

theorem remote_insert_gate:
  assumes "replica_ok C r" "entry_ok e" "insert_remote_entry C P alive now e peer status r = (res, r')"
  shows "(\<forall>err. res = Inl err \<longrightarrow> replica_tables r' = replica_tables r) \<and>
    (\<forall>n. res = Inr n \<longrightarrow> entry_authentic C e \<and> entry_namespace (se_entry e) = rp_namespace r \<and>
       entry_timestamp (se_entry e) \<le> now + MAX_TIMESTAMP_FUTURE_SHIFT \<and>
       (entry_content_len (se_entry e) = 0 \<longleftrightarrow> entry_content_hash (se_entry e) = hash_empty C) \<and>
       (\<forall>v. ri_capability_validator (rp_info r) = Some v \<longrightarrow> v e peer = Accept) \<and>
       doc_map (replica_tables r') = doc_put C e (doc_map (replica_tables r)) \<and>
       doc_map (replica_tables r') (fst (records_row e)) = Some (snd (records_row e)))"
proof -
  let ?v = "entry_verdict C now (rp_namespace r) (OriginSync peer status) (ri_capability_validator (rp_info r)) e"
  have t: "tables_ok C (replica_tables r)" using assms(1) by (simp add: replica_ok_def instance_valid_def)
  consider (early) err where "res = Inl err" "r' = r"
    | (gate) "signed_entry_validate_empty C e = Inr ()" "insert_entry C P alive now e (OriginSync peer status) r = (res, r')"
    using assms(3) by (auto simp: insert_remote_entry_def ensure_open_def split: if_splits sum.splits)
  then show ?thesis
  proof cases
    case gate
    have "entry_content_len (se_entry e) = 0 \<longleftrightarrow> entry_content_hash (se_entry e) = hash_empty C"
      using gate(1) by (auto simp: signed_entry_validate_empty_def entry_validate_empty_def split: bool.splits)
    moreover have "(\<exists>f. ?v = Inl f \<and> res = Inl (IEValidation f) \<and> replica_tables r' = replica_tables r) \<or>
        ?v = Inr () \<and> replica_tables r' = snd (tables_put C e (replica_tables r)) \<and>
         res = (case fst (tables_put C e (replica_tables r)) of NotInserted \<Rightarrow> Inl NewerEntryExists | Inserted n \<Rightarrow> Inr n)"
      by (rule insert_entry_eq[OF assms(1,2), of P alive now "OriginSync peer status"])
         (use gate(2) in \<open>auto split: sum.splits\<close>)
    ultimately show ?thesis
      using doc_map_put[OF t assms(2)] doc_put_self[of C "doc_map (replica_tables r)" e]
      by (auto simp: put_spec_def tables_blocked_def entry_verdict_def not_less split: if_splits option.splits
          validate_outcome.splits)
  qed simp
qed

text \<open>However many rejections a peer packs into one message, at most 1024 of them reach the observer,
  and none if no observer is set.\<close>

theorem observed_rejections_bounded:
  "length (rp_observed (observe_rejections ns peer msg r)) \<le>
     length (rp_observed r) + (if ri_rejection_observer (rp_info r) = None then 0 else 1024)"
  by (auto simp: observe_rejections_def surfaced_rejections_def MAX_REJECTIONS_PER_MESSAGE_def split: option.splits)

section \<open>Closed instances\<close>

definition sample_secret :: namespace_secret where
  "sample_secret = NamespaceSecret sample_ns"

definition sample_writer :: author where
  "sample_writer = Author sample_author"

definition sample_replica :: "capability \<Rightarrow> replica" where
  "sample_replica cap = replica_new sample_ns (sample_store []) (replica_info_new cap)"

lemma sample_key_ids [simp]:
  "namespace_id sample_crypto sample_secret = sample_ns" "author_id sample_crypto sample_writer = sample_author"
  by (simp_all add: sample_secret_def sample_writer_def namespace_id_eq author_id_eq sample_crypto_def pad_def)

lemma sample_replica_simps [simp]:
  "rp_namespace (sample_replica cap) = sample_ns" "rp_info (sample_replica cap) = replica_info_new cap"
  "rp_store (sample_replica cap) = sample_store []" "rp_snapshot (sample_replica cap) = None"
  "ri_closed (replica_info_new cap) = False" "ri_capability (replica_info_new cap) = cap"
  "ri_capability_validator (replica_info_new cap) = None"
  by (simp_all add: sample_replica_def replica_new_def replica_info_new_def)

lemma sample_replica_ok: "replica_ok sample_crypto (sample_replica (Write sample_secret))"
  using sample_store_valid[of "[]" sample_ns sample_crypto] by (simp add: replica_ok_def replica_id_def)

lemma doc_map_empty [simp]: "doc_map tables_empty = (\<lambda>_. None)"
  by (simp add: doc_map_def tables_empty_def table_get_def fun_eq_iff)

definition sample_signed :: signed_entry where
  "sample_signed = local_signed sample_crypto (sample_replica (Write sample_secret)) sample_secret sample_writer [97]
     (record_new [7] 1 5)"

lemma sample_signed_ok: "entry_ok sample_signed" "entry_authentic sample_crypto sample_signed"
proof -
  have "sample_ns = replica_id sample_crypto (sample_replica (Write sample_secret))" by (simp add: replica_id_def)
  then show "entry_ok sample_signed" "entry_authentic sample_crypto sample_signed"
    using local_entry[OF sample_crypto_ok, of "sample_replica (Write sample_secret)" sample_secret sample_writer "[97]"
        "record_new [7] 1 5"]
    by (simp_all add: sample_signed_def)
qed

theorem sync_applies_accepted_witness:
  "\<exists>reply r' st'. sync_process_message sample_crypto policy_postcard (\<lambda>_. True) 100
       [RangeItem (Range rid_default rid_default) [(sample_signed, Missing)] False] [1] None
       (sample_replica (Write sample_secret), sync_outcome_default) = (Inr reply, (r', st')) \<and>
     doc_map (replica_tables r') = doc_put sample_crypto sample_signed (\<lambda>_. None) \<and> num_recv st' = 1"
proof -
  let ?msg = "[RangeItem (Range rid_default rid_default) [(sample_signed, Missing)] False] :: protocol_message"
  have "entry_verdict sample_crypto 100 sample_ns (OriginSync [1] Missing) None sample_signed = Inr ()"
    using sample_signed_ok(2)
    by (simp add: entry_verdict_def sample_signed_def entry_sign_def signed_entry_from_entry_def entry_new_def
        entry_namespace_def entry_timestamp_def record_new_def MAX_TIMESTAMP_FUTURE_SHIFT_def)
  moreover have "message_ok ?msg" using sample_signed_ok(1) by (simp add: message_ok_def List.map_filter_simps)
  moreover have "message_own (admissible (own_boundary sample_ns)) ?msg"
    by (simp add: message_own_def item_own_def List.map_filter_simps admissible_def range_is_all_def)
  ultimately show ?thesis
    using sync_applies_accepted[OF sample_replica_ok, of ?msg policy_postcard "\<lambda>_. True" 100 "[1]" None sync_outcome_default]
    by (auto simp: message_values_def message_value_count_def List.map_filter_simps sync_outcome_default_def)
qed

theorem replica_history_authentic_witness:
  "replica_ok sample_crypto (snd (replica_insert sample_crypto policy_postcard (\<lambda>_. True) 5 5 [97] sample_writer [7] 1
       (sample_replica (Write sample_secret)))) \<and>
   doc_authentic sample_crypto (replica_tables (snd (replica_insert sample_crypto policy_postcard (\<lambda>_. True) 5 5 [97]
       sample_writer [7] 1 (sample_replica (Write sample_secret)))))"
proof (rule replica_history_authentic[OF _ sample_crypto_ok sample_replica_ok])
  show "(replica_step sample_crypto policy_postcard)\<^sup>*\<^sup>* (sample_replica (Write sample_secret))
      (snd (replica_insert sample_crypto policy_postcard (\<lambda>_. True) 5 5 [97] sample_writer [7] 1
        (sample_replica (Write sample_secret))))"
    by (rule r_into_rtranclp, rule step_insert, rule prod.collapse[symmetric])
qed (simp add: doc_authentic_def)

theorem insert_then_get_witness:
  "\<exists>res r'. replica_insert sample_crypto policy_postcard (\<lambda>_. True) 5 5 [97] sample_writer [7] 1
       (sample_replica (Write sample_secret)) = (res, r') \<and> (\<exists>n. res = Inr n) \<and>
     fst (get_exact sample_crypto sample_ns sample_author [97] False (rp_store r')) = Some sample_signed"
proof -
  have "[7] \<noteq> hash_empty sample_crypto" by (simp add: hash_empty_def sample_crypto_def pad_def)
  then show ?thesis
    using insert_then_get[OF sample_crypto_ok sample_replica_ok, of sample_secret 1 "[7]" 5 5 policy_postcard
        "\<lambda>_. True" "[97]" sample_writer]
    by (auto simp: superseded_iff blocks_def sample_signed_def MAX_TIMESTAMP_FUTURE_SHIFT_def)
qed

theorem delete_prefix_removes_witness:
  "\<exists>n r' v. delete_prefix sample_crypto policy_postcard (\<lambda>_. True) 5 5 [97] sample_writer
       (sample_replica (Write sample_secret)) = (Inr n, r') \<and>
     doc_map (replica_tables r') (sample_ns, sample_author, [97]) = Some v \<and> value_record v = record_empty sample_crypto 5"
proof -
  let ?r = "sample_replica (Write sample_secret)"
  have future: "\<not> 5 + MAX_TIMESTAMP_FUTURE_SHIFT < rec_timestamp (record_empty sample_crypto 5)"
    by (simp add: record_empty_def record_new_def MAX_TIMESTAMP_FUTURE_SHIFT_def)
  obtain n r' where "insert_entry sample_crypto policy_postcard (\<lambda>_. True) 5
      (local_signed sample_crypto ?r sample_secret sample_writer [97] (record_empty sample_crypto 5)) OriginLocal ?r = (Inr n, r')"
    by (rule local_insert_eq[OF sample_crypto_ok sample_replica_ok _ future, of sample_secret policy_postcard "\<lambda>_. True"
        sample_writer "[97]"]) (auto simp: superseded_iff blocks_def)
  then have del: "delete_prefix sample_crypto policy_postcard (\<lambda>_. True) 5 5 [97] sample_writer ?r = (Inr n, r')"
    by (simp add: delete_prefix_def ensure_open_def Let_def entry_new_empty_alt record_empty_current_def
        record_new_current_def record_empty_def replica_id_def)
  have "\<not> 5 + MAX_TIMESTAMP_FUTURE_SHIFT < (5 :: u64)" by (simp add: MAX_TIMESTAMP_FUTURE_SHIFT_def)
  from delete_prefix_removes[OF sample_crypto_ok sample_replica_ok del this] del show ?thesis by auto
qed

theorem locked_replica_unchanged_witness:
  "\<exists>err. replica_insert sample_crypto policy_postcard (\<lambda>_. True) 5 5 [97] sample_writer [7] 1
     (sample_replica (Read sample_ns)) = (Inl err, sample_replica (Read sample_ns))"
  using locked_replica_unchanged[of "sample_replica (Read sample_ns)"] by simp

theorem remote_insert_gate_witness:
  "doc_map (replica_tables (snd (insert_remote_entry sample_crypto policy_postcard (\<lambda>_. True) 5
     (sample_signed\<lparr>se_signature := entry_signature_from_parts [] []\<rparr>) [1] Missing (sample_replica (Write sample_secret))))) =
   (\<lambda>_. None)"
proof -
  let ?e = "sample_signed\<lparr>se_signature := entry_signature_from_parts [] []\<rparr>"
  obtain res r' where out: "insert_remote_entry sample_crypto policy_postcard (\<lambda>_. True) 5 ?e [1] Missing
      (sample_replica (Write sample_secret)) = (res, r')" by fastforce
  have "\<not> entry_authentic sample_crypto ?e"
    by (simp add: entry_authentic_def entry_signature_from_parts_def sample_crypto_def pad_def)
  moreover have "entry_ok ?e" using sample_signed_ok(1) by (simp add: entry_ok_def)
  ultimately show ?thesis
    using remote_insert_gate[OF sample_replica_ok _ out] out by (cases res) auto
qed

end
