(* ===== verification/Reconciliation.thy ===== *)
theory Reconciliation
  imports Replica_Laws
begin

text \<open>
  Two replicas that reconcile. The side \<open>False\<close> opens with \<open>sync_initial_message\<close>, then each side answers
  with \<open>sync_process_message\<close> of \<^verbatim>\<open>src/src/sync.rs\<close> until one has nothing to say, as the two loops of
  \<^verbatim>\<open>src/src/net/codec.rs\<close> do. Each serves the snapshot and the filter of its session. The exchange ends
  after a number of messages bounded by the entries both sides serve and delivers to each side what it
  lacks.
\<close>

section \<open>The exchange of messages\<close>

text \<open>At most \<open>n\<close> messages are processed; \<open>now k\<close> is the clock when \<open>k\<close> messages are left. The result is
  the list of the messages in the order they were processed, or \<open>None\<close> when \<open>n\<close> was not enough.\<close>

fun reconcile_rounds ::
  "crypto \<Rightarrow> download_policy postcard \<Rightarrow> (channel \<Rightarrow> bool) \<Rightarrow> (nat \<Rightarrow> u64) \<Rightarrow> (bool \<Rightarrow> bytes) \<Rightarrow> (bool \<Rightarrow> entry_filter option)
     \<Rightarrow> nat \<Rightarrow> bool \<Rightarrow> protocol_message \<Rightarrow> (bool \<Rightarrow> replica \<times> sync_outcome)
     \<Rightarrow> (sync_error + protocol_message list) option \<times> (bool \<Rightarrow> replica \<times> sync_outcome)" where
  "reconcile_rounds C P alive now peer filt 0 side msg st = (None, st)"
| "reconcile_rounds C P alive now peer filt (Suc n) side msg st =
     (case sync_process_message C P alive (now n) msg (peer side) (filt side) (st side) of
        (Inl e, x) \<Rightarrow> (Some (Inl e), st(side := x))
      | (Inr None, x) \<Rightarrow> (Some (Inr [msg]), st(side := x))
      | (Inr (Some reply), x) \<Rightarrow>
          (case reconcile_rounds C P alive now peer filt n (\<not> side) reply (st(side := x)) of
             (Some (Inr msgs), st') \<Rightarrow> (Some (Inr (msg # msgs)), st')
           | (res, st') \<Rightarrow> (res, st')))"

definition reconcile ::
  "crypto \<Rightarrow> download_policy postcard \<Rightarrow> (channel \<Rightarrow> bool) \<Rightarrow> (nat \<Rightarrow> u64) \<Rightarrow> (bool \<Rightarrow> bytes) \<Rightarrow> (bool \<Rightarrow> entry_filter option)
     \<Rightarrow> nat \<Rightarrow> (bool \<Rightarrow> replica \<times> sync_outcome)
     \<Rightarrow> (sync_error + protocol_message list) option \<times> (bool \<Rightarrow> replica \<times> sync_outcome)" where
  "reconcile C P alive now peer filt n st =
     (case sync_initial_message C (filt False) (fst (st False)) of
        (Inl e, r) \<Rightarrow> (Some (Inl e), st(False := (r, snd (st False))))
      | (Inr msg, r) \<Rightarrow> reconcile_rounds C P alive now peer filt n True msg (st(False := (r, snd (st False)))))"

text \<open>What a replica with a session snapshot serves.\<close>

definition served_view :: "entry_filter option \<Rightarrow> replica \<Rightarrow> signed_entry list" where
  "served_view filt r = session_view (rp_namespace r) (rp_snapshot r) filt (rp_store r)"

definition serving :: "crypto \<Rightarrow> namespace_id \<Rightarrow> replica \<Rightarrow> bool" where
  "serving C ns r \<longleftrightarrow> replica_ok C r \<and> \<not> ri_closed (rp_info r) \<and> rp_namespace r = ns \<and> rp_snapshot r \<noteq> None"

lemma snapshot_view:
  "rp_snapshot r = Some t \<Longrightarrow> session_view (rp_namespace r) (rp_snapshot r) filt s = served_view filt r"
  by (simp add: served_view_def instance_entries_def read_tables_def)

lemma serving_same:
  assumes "serving C ns r" "replica_ok C r'" "same_handle r r'"
  shows "serving C ns r'" "served_view filt r' = served_view filt r"
  using assms by (auto simp: serving_def same_handle_def served_view_def instance_entries_def read_tables_def)

lemma served_view_laws:
  assumes "serving C ns r"
  shows "sorted_wrt (<) (map (re_key (signed_entry_range C)) (served_view filt r))"
    "x \<in> set (served_view filt r) \<Longrightarrow> own_boundary ns (se_id x)"
proof -
  have v: "instance_valid C ns (rp_snapshot r) (rp_store r)" using assms by (auto simp: serving_def replica_ok_def)
  have ns: "rp_namespace r = ns" using assms by (simp add: serving_def)
  show "sorted_wrt (<) (map (re_key (signed_entry_range C)) (served_view filt r))"
    using instance_session.session.entries_sorted[OF v, of filt] by (simp only: served_view_def ns)
  show "own_boundary ns (se_id x)" if "x \<in> set (served_view filt r)"
    using instance_session.session.entries_bound[OF v, of x filt] that by (simp add: served_view_def ns)
qed

section \<open>Messages of the namespace\<close>

definition range_ok :: "namespace_id \<Rightarrow> record_identifier range \<Rightarrow> bool" where
  "range_ok ns r \<longleftrightarrow> admissible (own_boundary ns) r \<and> rid_ok (range_x r) \<and> rid_ok (range_y r)"

fun part_ranges :: "('x, 'k, 'r) message_part \<Rightarrow> 'k range list" where
  "part_ranges (RangeFingerprint r fp) = [r]"
| "part_ranges (RangeItem r vs hl) = [r]"
| "part_ranges (Rejected i) = []"

definition message_proper :: "namespace_id \<Rightarrow> protocol_message \<Rightarrow> bool" where
  "message_proper ns msg \<longleftrightarrow> (\<forall>part \<in> set msg. (\<forall>r \<in> set (part_ranges part). range_ok ns r) \<and>
     (\<forall>vs. part_values part = Some vs \<longrightarrow> (\<forall>(e, cs) \<in> set vs. entry_ok e)))"

lemma message_proper_laws:
  assumes "message_proper ns msg"
  shows "message_ok msg"
    "\<forall>item \<in> set (message_items msg). snd (snd item) \<or> admissible (own_boundary ns) (fst item)"
    "\<forall>part \<in> set (message_fingerprints msg). admissible (own_boundary ns) (fst part)"
proof -
  have item: "range_ok ns r \<and> (\<forall>(e, cs) \<in> set vs. entry_ok e)" if "(r, vs, hl) \<in> set (message_items msg)" for r vs hl
    using assms that by (fastforce simp: message_proper_def message_items_set)
  have fp: "range_ok ns r" if "(r, fp) \<in> set (message_fingerprints msg)" for r fp
    using assms that by (fastforce simp: message_proper_def message_fingerprints_set)
  show "message_ok msg" using item fp by (fastforce simp: message_ok_def range_ok_def)
  show "\<forall>item \<in> set (message_items msg). snd (snd item) \<or> admissible (own_boundary ns) (fst item)"
    using item by (fastforce simp: range_ok_def)
  show "\<forall>part \<in> set (message_fingerprints msg). admissible (own_boundary ns) (fst part)"
    using fp by (fastforce simp: range_ok_def)
qed

lemma split_range_ok:
  assumes "range_ok ns r" "\<forall>e \<in> set es. own_boundary ns (re_key E e)" "entries_in E es r \<noteq> []"
    "a \<in> set (split_at E r (entries_in E es r))"
  shows "range_ok ns a"
proof -
  let ?v = "entries_in E es r"
  have "own_boundary ns (re_key E (?v ! (i mod length ?v)))" for i
  proof -
    have "?v ! (i mod length ?v) \<in> set ?v" using assms(3) by simp
    then show ?thesis using assms(2) by (simp add: set_entries_in)
  qed
  then show ?thesis using assms(1,4)
    by (auto simp: split_at_def Let_def range_ok_def admissible_def range_is_all_def own_boundary_def split: if_splits)
qed

lemma answer_proper:
  assumes "answered C (signed_entry_range C) es msg reply" "message_proper ns msg"
    "\<forall>e \<in> set es. own_boundary ns (se_id e)"
  shows "message_proper ns reply"
  unfolding message_proper_def
proof (intro ballI conjI allI impI)
  let ?E = "signed_entry_range C"
  fix part assume part: "part \<in> set reply"
  { fix r assume r: "r \<in> set (part_ranges part)"
    then have "part \<in> set (without_refusals reply)" using part by (cases part) (auto simp: without_refusals_def)
    then obtain status where "part \<in> set (message_reply C ?E (status_callbacks status) 1 es msg)"
      using assms(1) by (auto simp: answered_def)
    then consider (item) r' vs hl where "RangeItem r' vs hl \<in> set msg"
        "part \<in> set (item_reply ?E (status_callbacks status) es (r', vs, hl))"
      | (fp) r' fp where "RangeFingerprint r' fp \<in> set msg"
        "part \<in> set (fingerprint_reply C ?E (status_callbacks status) 1 es (r', fp))"
      by (auto simp: message_reply_set)
    then show "range_ok ns r"
    proof cases
      case item
      then have "range_ok ns r'" using assms(2) by (force simp: message_proper_def)
      then show ?thesis using item(2) r by (auto simp: item_reply_def Let_def split: if_splits)
    next
      case fp
      then have ok: "range_ok ns r'" using assms(2) by (force simp: message_proper_def)
      consider "r = r'" | "r \<in> set (split_at ?E r' (entries_in ?E es r'))" "\<not> length (entries_in ?E es r') \<le> 1"
        using fp(2) r by (auto simp: fingerprint_reply_def range_reply_def Let_def split: if_splits)
      then show ?thesis
      proof cases
        case 2
        then have "entries_in ?E es r' \<noteq> []" by auto
        then show ?thesis using split_range_ok[OF ok _ _ 2(1)] assms(3) by simp
      qed (simp add: ok)
    qed }
  fix vs ecs assume "part_values part = Some vs" "ecs \<in> set vs"
  then obtain r hl where "part = RangeItem r vs hl" by (cases part) auto
  then have "set (map fst vs) \<subseteq> set es" using answer_speaks[OF assms(1) part]
    by (auto simp: set_entries_in simp del: set_map split: if_splits)
  then show "case ecs of (e, cs) \<Rightarrow> entry_ok e"
    using \<open>ecs \<in> set vs\<close> assms(3) by (force simp: entry_ok_def own_boundary_def split: prod.splits)
qed

section \<open>A run of the exchange\<close>

text \<open>One round: a side in a session answers a proper message from the view it serves.\<close>

lemma sync_round:
  assumes "serving C ns r" "message_proper ns msg"
  obtains reply r' st' where
    "sync_process_message C P alive now msg peer filt (r, st) = (Inr reply, (r', st'))" "reply \<noteq> Some []"
    "serving C ns r'" "served_view filt r' = served_view filt r" "same_handle r r'"
    "answered C (signed_entry_range C) (served_view filt r) msg (case reply of Some m \<Rightarrow> m | None \<Rightarrow> [])"
    "doc_map (replica_tables r') = fold (doc_put C) (accepted_entries C now ns peer
       (ri_capability_validator (rp_info r)) (message_values msg)) (doc_map (replica_tables r))"
proof -
  let ?E = "signed_entry_range C" and ?snap = "rp_snapshot r" and ?ns = "rp_namespace r"
  have r: "replica_ok C r" "\<not> ri_closed (rp_info r)" "rp_namespace r = ns" using assms(1) by (simp_all add: serving_def)
  obtain snap where snap: "rp_snapshot r = Some snap" using assms(1) by (auto simp: serving_def)
  note proper = message_proper_laws[OF assms(2)[folded r(3)]]
  obtain policy s1 reply s2 subs r' st' where run:
    "instance_valid C ?ns ?snap s1"
    "session_run C alive now msg peer filt r policy (s1, ri_subscribers (rp_info r)) = (Inr reply, (s2, subs))"
    "reply \<noteq> Some []"
    "\<forall>parts. reply = Some parts \<longrightarrow> (\<forall>part \<in> set parts. part_ok ?E (\<lambda>_. True)
       (content_status_cb (session_callbacks C alive now ?ns peer (rp_info r) policy))
       (session_verdict C now ?ns peer (ri_capability_validator (rp_info r))) (set (message_values msg)) part)"
    "sync_process_message C P alive now msg peer filt (r, st) = (Inr reply, (r', st'))"
    "replica_ok C r'" "same_handle r r'"
    "doc_map (replica_tables r') = fold (doc_put C) (accepted_entries C now ?ns peer
       (ri_capability_validator (rp_info r)) (message_values msg)) (doc_map (replica_tables r))"
    by (rule sync_process_answered[OF r(1,2) proper,
          where alive = alive and now = now and peer = peer and filt = filt and P = P and st = st])
  let ?B = "session_callbacks C alive now ?ns peer (rp_info r) policy"
  let ?parts = "case reply of Some m \<Rightarrow> m | None \<Rightarrow> []"
  have items: "\<forall>item \<in> set (message_items msg). (snd (snd item) \<or> admissible (own_boundary ?ns) (fst item)) \<and>
      (\<forall>rv \<in> set (fst (snd item)). entry_ok (fst rv))" using proper(1,2) by (simp add: message_ok_def)
  have view: "\<forall>s. instance_valid C ?ns ?snap s \<longrightarrow> session_view ?ns ?snap filt s = served_view filt r"
    using snapshot_view[OF snap] by simp
  have "without_refusals ?parts = message_reply C ?E ?B (max_set_size sync_config_default) (served_view filt r) msg"
    by (rule session_reconcile.process_message_reply[OF run(1) _ view items proper(3) session_verdict_ok run(2)])
       (simp add: sync_config_default_def)
  then have "\<exists>status. without_refusals ?parts = message_reply C ?E (status_callbacks status) 1 (served_view filt r) msg"
    using message_reply_callbacks[of C ?E ?B] by (metis sync_config_default_def sync_config.select_convs(1))
  moreover have "without_refusals ?parts = ?parts" if "message_values msg = []"
  proof (cases reply)
    case (Some m)
    have "\<not> is_refusal part" if "part \<in> set m" for part
      using run(4) Some that \<open>message_values msg = []\<close> by (cases part) fastforce+
    then show ?thesis using Some by (simp add: without_refusals_def)
  qed (simp add: without_refusals_def)
  ultimately have "answered C ?E (served_view filt r) msg ?parts" by (simp add: answered_def)
  then show thesis using that run(3,5,7) run(8)[unfolded r(3)] serving_same[OF assms(1) run(6,7)] by blast
qed

definition always_accepts ::
  "crypto \<Rightarrow> (nat \<Rightarrow> u64) \<Rightarrow> namespace_id \<Rightarrow> bytes \<Rightarrow> capability_validator option \<Rightarrow> signed_entry list \<Rightarrow> bool" where
  "always_accepts C now ns peer v es \<longleftrightarrow>
     (\<forall>k cs. \<forall>e \<in> set es. entry_verdict C (now k) ns (OriginSync peer cs) v e = Inr ())"

lemma spoken_in_view:
  assumes "\<forall>part \<in> set m. speaks_for C E es part" "(x, cs) \<in> set (message_values m)"
  shows "x \<in> set es"
proof -
  obtain part vs where part: "part \<in> set m" "part_values part = Some vs" "(x, cs) \<in> set vs"
    using assms(2) by (auto simp: message_values_set)
  then have "x \<in> set (map fst vs)" by force
  moreover obtain r hl where "part = RangeItem r vs hl" using part(2) by (cases part) auto
  ultimately show ?thesis using assms(1) part(1) by (fastforce simp: set_entries_in simp del: set_map split: if_splits)
qed

lemma heard_in_view:
  assumes "dialogue C E V side (m # ms)" "\<forall>part \<in> set m. speaks_for C E (V (\<not> side)) part"
    "(x, cs) \<in> set (heard side (m # ms) who)"
  shows "x \<in> set (V (\<not> who))"
  using assms
proof (induction ms arbitrary: side m)
  case Nil
  then show ?case using spoken_in_view by (fastforce split: if_splits)
next
  case (Cons m' ms)
  then have "\<forall>part \<in> set m'. speaks_for C E (V (\<not> \<not> side)) part" using answer_speaks by fastforce
  then show ?case using Cons spoken_in_view[OF Cons.prems(2)] by (fastforce split: if_splits)
qed

lemma accepted_all:
  assumes "always_accepts C now ns peer v es" "\<forall>part \<in> set m. speaks_for C E es part"
  shows "accepted_entries C (now k) ns peer v (message_values m) = map fst (message_values m)"
proof -
  have "entry_verdict C (now k) ns (OriginSync peer cs) v e = Inr ()" if "(e, cs) \<in> set (message_values m)" for e cs
    using assms(1) spoken_in_view[OF assms(2) that] by (simp add: always_accepts_def)
  then have "filter (\<lambda>(e, cs). entry_verdict C (now k) ns (OriginSync peer cs) v e = Inr ()) (message_values m) =
      message_values m" by (intro filter_True) auto
  then show ?thesis by simp
qed

text \<open>What a run of the exchange keeps of a side, and what it does to its document when every entry that
  the other side may send passes validation.\<close>

definition side_after ::
  "crypto \<Rightarrow> namespace_id \<Rightarrow> (nat \<Rightarrow> u64) \<Rightarrow> bytes \<Rightarrow> signed_entry list \<Rightarrow> signed_entry list \<Rightarrow> replica \<Rightarrow> replica \<Rightarrow> bool" where
  "side_after C ns now peer others got r r' \<longleftrightarrow> serving C ns r' \<and> same_handle r r' \<and>
     (always_accepts C now ns peer (ri_capability_validator (rp_info r)) others \<longrightarrow>
        doc_map (replica_tables r') = fold (doc_put C) got (doc_map (replica_tables r)))"

lemma side_after_refl: "serving C ns r \<Longrightarrow> side_after C ns now peer others [] r r"
  by (simp add: side_after_def same_handle_def)

lemma side_after_trans:
  "side_after C ns now peer others a r r1 \<Longrightarrow> side_after C ns now peer others b r1 r2 \<Longrightarrow>
   side_after C ns now peer others (a @ b) r r2"
  by (simp add: side_after_def same_handle_def)

lemma reconcile_rounds_run:
  fixes V :: "bool \<Rightarrow> signed_entry list"
  assumes "\<And>b. serving C ns (fst (st b)) \<and> served_view (filt b) (fst (st b)) = V b"
    "message_proper ns msg" "msg \<noteq> []" "\<forall>part \<in> set msg. part_weight (signed_entry_range C) V part < n"
    "\<forall>part \<in> set msg. speaks_for C (signed_entry_range C) (V (\<not> side)) part"
  shows "\<exists>msgs st'. reconcile_rounds C P alive now peer filt n side msg st = (Some (Inr (msg # msgs)), st') \<and>
     dialogue C (signed_entry_range C) V side (msg # msgs) \<and>
     (\<forall>b. side_after C ns now (peer b) (V (\<not> b)) (map fst (heard side (msg # msgs) b)) (fst (st b)) (fst (st' b)))"
  using assms
proof (induction n arbitrary: side msg st)
  case 0
  then show ?case by (cases msg) auto
next
  case (Suc n)
  let ?E = "signed_entry_range C"
  obtain r out where side: "st side = (r, out)" by fastforce
  have serving: "serving C ns r" "served_view (filt side) r = V side" using Suc.prems(1)[of side] side by simp_all
  obtain reply r' out' where round:
    "sync_process_message C P alive (now n) msg (peer side) (filt side) (r, out) = (Inr reply, (r', out'))" "reply \<noteq> Some []"
    "serving C ns r'" "served_view (filt side) r' = V side" "same_handle r r'"
    "answered C ?E (V side) msg (case reply of Some m \<Rightarrow> m | None \<Rightarrow> [])"
    "doc_map (replica_tables r') = fold (doc_put C) (accepted_entries C (now n) ns (peer side)
       (ri_capability_validator (rp_info r)) (message_values msg)) (doc_map (replica_tables r))"
    by (rule sync_round[OF serving(1) Suc.prems(2), where P = P and alive = alive and now = "now n" and
          peer = "peer side" and filt = "filt side" and st = out, unfolded serving(2)])
  define st1 where "st1 = st(side := (r', out'))"
  have here: "side_after C ns now (peer side) (V (\<not> side)) (map fst (message_values msg)) r r'"
    using round(3,5,7) accepted_all[OF _ Suc.prems(5), of now ns "peer side"] by (simp add: side_after_def)
  have after: "side_after C ns now (peer b) (V (\<not> b)) (if b = side then map fst (message_values msg) else [])
      (fst (st b)) (fst (st1 b))" for b
    using here side_after_refl[of C ns "fst (st b)"] Suc.prems(1)[of b] side by (cases "b = side") (simp_all add: st1_def)
  show ?case
  proof (cases reply)
    case None
    then have "reconcile_rounds C P alive now peer filt (Suc n) side msg st = (Some (Inr [msg]), st1)"
      using round(1) side by (simp add: st1_def)
    moreover have "dialogue C ?E V side [msg]" using round(6) None by simp
    moreover have "side_after C ns now (peer b) (V (\<not> b)) (map fst (heard side [msg] b)) (fst (st b)) (fst (st1 b))" for b
      using after[of b] by (cases "b = side") simp_all
    ultimately show ?thesis by blast
  next
    case (Some m)
    have ans: "answered C ?E (V side) msg m" and ne: "m \<noteq> []" using round(2,6) Some by auto
    have sorted: "\<And>b. sorted_wrt (<) (map (re_key ?E) (V b))" using served_view_laws(1) Suc.prems(1) by metis
    have own: "\<forall>e \<in> set (V side). own_boundary ns (se_id e)" using served_view_laws(2)[OF serving(1)] serving(2) by metis
    have light: "\<forall>part \<in> set m. part_weight ?E V part < n"
      using reply_lighter[where V = V and n = n, OF sorted ans] Suc.prems(4) by fastforce
    have views: "serving C ns (fst (st1 b)) \<and> served_view (filt b) (fst (st1 b)) = V b" for b
      using Suc.prems(1)[of b] round(3,4) by (cases "b = side") (simp_all add: st1_def)
    have speaks: "\<forall>part \<in> set m. speaks_for C ?E (V (\<not> \<not> side)) part" using answer_speaks[OF ans] by simp
    obtain msgs st' where run: "reconcile_rounds C P alive now peer filt n (\<not> side) m st1 = (Some (Inr (m # msgs)), st')"
      "dialogue C ?E V (\<not> side) (m # msgs)"
      "\<forall>b. side_after C ns now (peer b) (V (\<not> b)) (map fst (heard (\<not> side) (m # msgs) b)) (fst (st1 b)) (fst (st' b))"
      using Suc.IH[OF views answer_proper[OF ans Suc.prems(2) own] ne light speaks] by blast
    have "reconcile_rounds C P alive now peer filt (Suc n) side msg st = (Some (Inr (msg # m # msgs)), st')"
      using round(1) side Some run(1) by (simp add: st1_def)
    moreover have "side_after C ns now (peer b) (V (\<not> b)) (map fst (heard side (msg # m # msgs) b)) (fst (st b)) (fst (st' b))" for b
      using side_after_trans[OF after[of b] run(3)[rule_format, of b]] by (cases "b = side") simp_all
    moreover have "dialogue C ?E V side (msg # m # msgs)" using ans ne run(2) by simp
    ultimately show ?thesis by blast
  qed
qed

text \<open>The first message: the whole set.\<close>

lemma sync_initial_round:
  assumes "serving C ns r"
  obtains k r' where "sync_initial_message C filt r =
      (Inr [RangeFingerprint (Range k k) (fingerprint_of C (signed_entry_range C) (served_view filt r))], r')"
    "serving C ns r'" "served_view filt r' = served_view filt r" "same_handle r r'" "rid_ok k"
    "doc_map (replica_tables r') = doc_map (replica_tables r)"
proof -
  let ?E = "signed_entry_range C"
  have r: "\<not> ri_closed (rp_info r)" "rp_namespace r = ns" "replica_id C r = ns"
    and v: "instance_valid C ns (rp_snapshot r) (rp_store r)" using assms by (auto simp: serving_def replica_ok_def)
  define k where "k = first_key ?E rid_default (served_view filt r)"
  obtain s' where s': "initial_message (session_ops C filt (instance_ops C ns (rp_snapshot r))) (rp_store r) =
      (Inr [RangeFingerprint (Range k k) (fingerprint_of C ?E (served_view filt r))] :: store_error + protocol_message, s')"
    "same_view (instance_valid C ns (rp_snapshot r)) (session_view ns (rp_snapshot r) filt) visible (rp_store r) s'"
    using instance_session.session.initial_message_eq[OF v, where filt = filt] unfolding k_def served_view_def r(2) by blast
  define r' where "r' = r\<lparr>rp_store := s'\<rparr>"
  have "sync_initial_message C filt r =
      (Inr [RangeFingerprint (Range k k) (fingerprint_of C ?E (served_view filt r))], r')"
    using r s'(1) by (simp add: sync_initial_message_def on_replica_store_def replica_ops_def r'_def)
  moreover have "replica_ok C r'" "same_handle r r'"
    using s'(2) r by (simp_all add: r'_def replica_ok_def same_view_def same_handle_def replica_id_def)
  moreover have "doc_map (replica_tables r') = doc_map (replica_tables r)" using s'(2) by (simp add: r'_def same_view_def)
  moreover have "rid_ok k"
    using served_view_laws(2)[OF assms, of _ filt] unfolding k_def first_key_def
    by (auto simp: own_boundary_def rid_default_def split: list.splits)
  ultimately show thesis using that serving_same[OF assms] by blast
qed

text \<open>The number of messages that is always enough.\<close>

definition enough_rounds :: "(bool \<Rightarrow> signed_entry list) \<Rightarrow> nat" where
  "enough_rounds V = 4 + length (V False) + length (V True)"

lemma reconcile_run:
  assumes "\<forall>b. serving C ns (fst (st b))" "\<forall>b. V b = served_view (filt b) (fst (st b))" "enough_rounds V \<le> n"
  obtains m ms st' k where "reconcile C P alive now peer filt n st = (Some (Inr (m # ms)), st')"
    "dialogue C (signed_entry_range C) V True (m # ms)" "length (m # ms) \<le> enough_rounds V"
    "m = [RangeFingerprint (Range k k) (fingerprint_of C (signed_entry_range C) (V False))]"
    "\<forall>b. side_after C ns now (peer b) (V (\<not> b)) (map fst (heard True (m # ms) b)) (fst (st b)) (fst (st' b))"
proof -
  let ?E = "signed_entry_range C"
  obtain k r where init: "sync_initial_message C (filt False) (fst (st False)) =
      (Inr [RangeFingerprint (Range k k) (fingerprint_of C ?E (V False))], r)"
    "serving C ns r" "served_view (filt False) r = V False" "same_handle (fst (st False)) r" "rid_ok k"
    "doc_map (replica_tables r) = doc_map (replica_tables (fst (st False)))"
    by (rule sync_initial_round[OF assms(1)[rule_format, of False], of "filt False"]) (use assms(2) in auto)
  let ?m = "[RangeFingerprint (Range k k) (fingerprint_of C ?E (V False))] :: protocol_message"
  define st1 where "st1 = st(False := (r, snd (st False)))"
  have views: "serving C ns (fst (st1 b)) \<and> served_view (filt b) (fst (st1 b)) = V b" for b
    using init(2,3) assms(1,2) by (cases b) (simp_all add: st1_def)
  have sorted: "\<And>b. sorted_wrt (<) (map (re_key ?E) (V b))" using served_view_laws(1) views by metis
  have proper: "message_proper ns ?m"
    using init(5) by (simp add: message_proper_def range_ok_def admissible_def range_is_all_def)
  have weight: "\<forall>part \<in> set ?m. part_weight ?E V part < enough_rounds V"
    by (simp add: enough_rounds_def range_simps)
  have speaks: "\<forall>part \<in> set ?m. speaks_for C ?E (V (\<not> True)) part" by (simp add: range_simps)
  obtain ms st' where run: "reconcile_rounds C P alive now peer filt n True ?m st1 = (Some (Inr (?m # ms)), st')"
    "dialogue C ?E V True (?m # ms)"
    "\<forall>b. side_after C ns now (peer b) (V (\<not> b)) (map fst (heard True (?m # ms) b)) (fst (st1 b)) (fst (st' b))"
    using reconcile_rounds_run[where st = st1 and n = n and V = V, OF views proper _ _ speaks] weight assms(3) by fastforce
  have "side_after C ns now (peer b) (V (\<not> b)) [] (fst (st b)) (fst (st1 b))" for b
    using init(2,4,6) side_after_refl assms(1) by (cases b) (auto simp: st1_def side_after_def)
  then have "\<forall>b. side_after C ns now (peer b) (V (\<not> b)) (map fst (heard True (?m # ms) b)) (fst (st b)) (fst (st' b))"
    using side_after_trans run(3) by (metis append_Nil)
  moreover have "reconcile C P alive now peer filt n st = (Some (Inr (?m # ms)), st')"
    using run(1) init(1) by (simp add: reconcile_def st1_def)
  moreover have "length (?m # ms) \<le> enough_rounds V" by (rule dialogue_length[OF sorted run(2) _ weight]) simp
  ultimately show thesis using that run(2) by blast
qed

text \<open>C5. Reconciliation ends. Two replicas of a namespace, each in a session with a snapshot and any filter,
  exchange at most four messages more than the entries they serve together; every call succeeds and the
  last one finds nothing to answer, whatever the entries, the verdicts of the validation and the clock,
  and whether or not fingerprints collide.\<close>

theorem reconciliation_terminates:
  assumes "\<forall>b. serving C ns (fst (st b))" "enough_rounds (\<lambda>b. served_view (filt b) (fst (st b))) \<le> n"
  shows "\<exists>msgs st'. reconcile C P alive now peer filt n st = (Some (Inr msgs), st') \<and>
     length msgs \<le> enough_rounds (\<lambda>b. served_view (filt b) (fst (st b))) \<and> (\<forall>b. serving C ns (fst (st' b)))"
proof -
  define V where "V = (\<lambda>b. served_view (filt b) (fst (st b)))"
  obtain m ms st' k where "reconcile C P alive now peer filt n st = (Some (Inr (m # ms)), st')"
    "length (m # ms) \<le> enough_rounds V"
    "\<forall>b. side_after C ns now (peer b) (V (\<not> b)) (map fst (heard True (m # ms) b)) (fst (st b)) (fst (st' b))"
    by (rule reconcile_run[OF assms(1) _ assms(2)[folded V_def]]) (auto simp: V_def)
  then show ?thesis unfolding V_def side_after_def by blast
qed

text \<open>A side with at most one entry answers a differing fingerprint of the whole set with all it serves.\<close>

lemma first_answer:
  assumes "dialogue C E V True ([RangeFingerprint (Range k k) fp] # ms)" "fingerprint_of C E (V True) \<noteq> fp" "length (V True) \<le> 1"
  shows "set (V True) \<subseteq> fst ` set (heard True ([RangeFingerprint (Range k k) fp] # ms) False)"
proof (cases ms)
  case Nil
  then show ?thesis using assms
    by (simp add: answered_def message_reply_def fingerprint_reply_def range_simps without_refusals_def)
next
  case (Cons m' ms')
  then obtain status where "without_refusals m' = [RangeItem (Range k k) (with_status (status_callbacks status) (V True)) False]"
    using assms by (auto simp: answered_def message_reply_def fingerprint_reply_def range_simps)
  then have "RangeItem (Range k k) (with_status (status_callbacks status) (V True)) False \<in> set m'"
    by (metis part_without_refusals(1) list.set_intros(1))
  then have "(e, status e) \<in> set (message_values m')" if "e \<in> set (V True)" for e
    using that by (force simp: message_values_set with_status_set status_callbacks_def)
  then show ?thesis using Cons by force
qed

lemma reconcile_settled:
  assumes "\<forall>b. serving C ns (fst (st b))" "\<forall>b. V b = served_view (filt b) (fst (st b))" "enough_rounds V \<le> n"
    "collision_free C (signed_entry_range C) V"
  obtains msgs st' where "reconcile C P alive now peer filt n st = (Some (Inr msgs), st')"
    "\<And>who. fst ` set (heard True msgs who) \<subseteq> set (V (\<not> who))"
    "\<And>who e. e \<in> set (V (\<not> who)) \<Longrightarrow> lacks (signed_entry_range C) (V who) e \<Longrightarrow> e \<in> fst ` set (heard True msgs who)"
    "\<And>b. side_after C ns now (peer b) (V (\<not> b)) (map fst (heard True msgs b)) (fst (st b)) (fst (st' b))"
    "length (V True) \<le> 1 \<Longrightarrow> set (V True) \<noteq> set (V False) \<Longrightarrow> set (V True) \<subseteq> fst ` set (heard True msgs False)"
proof -
  let ?E = "signed_entry_range C"
  obtain m ms st' k where run: "reconcile C P alive now peer filt n st = (Some (Inr (m # ms)), st')"
    "dialogue C ?E V True (m # ms)" "m = [RangeFingerprint (Range k k) (fingerprint_of C ?E (V False))]"
    "\<forall>b. side_after C ns now (peer b) (V (\<not> b)) (map fst (heard True (m # ms) b)) (fst (st b)) (fst (st' b))"
    by (rule reconcile_run[OF assms(1-3), where P = P and alive = alive and now = now and peer = peer])
  have sorted: "sorted_wrt (<) (map (re_key ?E) (V b))" for b
    using served_view_laws(1)[of C ns "fst (st b)"] assms(1,2) by simp
  have speaks: "\<forall>part \<in> set m. speaks_for C ?E (V (\<not> True)) part" using run(3) by (simp add: range_simps)
  have "asks_about m (Range k k)" using run(3) by (simp add: asks_about_def)
  then have "settled ?E V (heard True (m # ms)) (Range k k)"
    by (intro dialogue_settles[OF sorted assms(4) _ run(2) speaks]) simp_all
  then have "e \<in> fst ` set (heard True (m # ms) who)" if "e \<in> set (V (\<not> who))" "lacks ?E (V who) e" for who e
    using that by (simp add: settled_def range_simps del: heard.simps)
  moreover have anchored: "set (V True) \<subseteq> fst ` set (heard True (m # ms) False)"
    if V: "length (V True) \<le> 1" "set (V True) \<noteq> set (V False)"
  proof -
    have "fingerprint_of C ?E (V True) \<noteq> fingerprint_of C ?E (V False)"
      using assms(4)[unfolded collision_free_def, rule_format, of "Range k k"] V(2) by (auto simp: range_simps)
    then show ?thesis using first_answer[OF run(2)[unfolded run(3)] _ V(1)] run(3) by simp
  qed
  moreover have "fst ` set (heard True (m # ms) who) \<subseteq> set (V (\<not> who))" for who
    using heard_in_view[OF run(2) speaks] by fastforce
  ultimately show thesis by (intro that[OF run(1)]) (use run(4) in blast)+
qed

text \<open>C4. Reconciliation delivers what is missing. When no two different sets of served entries have the same
  fingerprint, each side receives every entry the other serves for which it has nothing at least as new
  at the same key; what a side receives is served by the other.\<close>

theorem reconciliation_delivers:
  assumes "\<forall>b. serving C ns (fst (st b))" "enough_rounds (\<lambda>b. served_view (filt b) (fst (st b))) \<le> n"
    "collision_free C (signed_entry_range C) (\<lambda>b. served_view (filt b) (fst (st b)))"
  shows "\<exists>msgs st'. reconcile C P alive now peer filt n st = (Some (Inr msgs), st') \<and>
     (\<forall>who. fst ` set (heard True msgs who) \<subseteq> set (served_view (filt (\<not> who)) (fst (st (\<not> who)))) \<and>
       (\<forall>e \<in> set (served_view (filt (\<not> who)) (fst (st (\<not> who)))).
          lacks (signed_entry_range C) (served_view (filt who) (fst (st who))) e \<longrightarrow> e \<in> fst ` set (heard True msgs who)))"
  by (rule reconcile_settled[OF assms(1) _ assms(2,3), where P = P and alive = alive and now = now and peer = peer and filt = filt])
     (simp, blast)

end
