(* ===== verification/Convergence.thy ===== *)
theory Convergence
  imports Reconciliation
begin

text \<open>
  What reconciliation does to the documents of both sides: without deletion markers and nested keys they
  converge; a deletion and the entry it deletes change places. Closed instances of these and of the
  properties of the exchange itself.
\<close>

section \<open>Convergence\<close>

text \<open>The served entries of an unfiltered session are the rows of the namespace.\<close>

lemma view_rows:
  assumes "tables_ok C t" "length ns = 32"
  shows "e \<in> set (namespace_entries ns t) \<longleftrightarrow>
     doc_map t (fst (records_row e)) = Some (snd (records_row e)) \<and> rid_namespace (se_id e) = ns \<and> rid_ok (se_id e)"
proof -
  have ok: "records_ok (t_records t)" using assms(1) by (simp add: tables_ok_def)
  then have tab: "table_ok (t_records t)" "\<And>row. row \<in> set (t_records t) \<Longrightarrow> records_id_ok (fst row)"
    by (simp_all add: records_ok_def)
  have row: "records_row (into_entry row) = row" if ok: "records_id_ok (fst row)" for row
  proof -
    obtain n a k ts ns_sig a_sig len hash where "row = ((n, a, k), (ts, ns_sig, a_sig, len, hash))" by (metis surj_pair)
    then show ?thesis using into_entry_tuple(1)[OF ok]
      by (simp add: records_row_def rid_to_byte_tuple_def into_entry_def signed_entry_new_def entry_new_def
          entry_timestamp_def entry_content_len_def entry_content_hash_def entry_signature_from_parts_def record_new_def)
  qed
  have fst_row: "fst (records_row e) = rid_to_byte_tuple (se_id e)" by (simp add: records_row_def rid_to_byte_tuple_def)
  have "e \<in> set (namespace_entries ns t) \<longleftrightarrow> records_row e \<in> set (t_records t) \<and> rid_namespace (se_id e) = ns"
  proof
    assume "e \<in> set (namespace_entries ns t)"
    then obtain r where r: "r \<in> set (t_records t)" "in_bounds (records_bounds_namespace ns) (fst r)" "e = into_entry r"
      by (auto simp: namespace_entries_def set_table_range)
    then show "records_row e \<in> set (t_records t) \<and> rid_namespace (se_id e) = ns"
      using row[OF tab(2)] namespace_row[OF assms(2) tab(2)] fst_row by (metis fst_conv rid_to_byte_tuple_def)
  next
    assume *: "records_row e \<in> set (t_records t) \<and> rid_namespace (se_id e) = ns"
    then have "in_bounds (records_bounds_namespace ns) (fst (records_row e))"
      using namespace_row[OF assms(2) tab(2)] fst_row by (metis fst_conv rid_to_byte_tuple_def)
    then show "e \<in> set (namespace_entries ns t)"
      using * into_entry_records_row[of e]
      by (metis (mono_tags, lifting) namespace_entries_def set_table_range image_eqI list.set_map mem_Collect_eq)
  qed
  moreover have "rid_ok (se_id e)" if "records_row e \<in> set (t_records t)"
    using into_entry_tuple(2)[OF tab(2)[OF that]] by (simp add: into_entry_records_row)
  ultimately show ?thesis using table_get_Some_iff[OF tab(1)] by (auto simp: doc_map_def)
qed

text \<open>Entries none of which reaches the key of another, is a deletion marker or lies at the empty key.\<close>

definition flat_entries :: "crypto \<Rightarrow> signed_entry set \<Rightarrow> bool" where
  "flat_entries C es \<longleftrightarrow> (\<forall>e \<in> es. rid_key (se_id e) \<noteq> [] \<and> \<not> record_is_empty C (se_record e) \<and>
     (\<forall>e' \<in> es. covers e (fst (records_row e')) \<longrightarrow> fst (records_row e') = fst (records_row e)))"

text \<open>A document that holds, in the namespace, only entries of the given set.\<close>

definition drawn_from :: "namespace_id \<Rightarrow> signed_entry set \<Rightarrow> doc_map \<Rightarrow> bool" where
  "drawn_from ns es m \<longleftrightarrow> (\<forall>i v. fst i = ns \<longrightarrow> m i = Some v \<longrightarrow> (\<exists>e \<in> es. records_row e = (i, v)))"

definition keep_newer :: "signed_entry \<Rightarrow> doc_map \<Rightarrow> doc_map" where
  "keep_newer e m = (case m (fst (records_row e)) of
     Some v \<Rightarrow> if record_le (se_record e) (value_record v) then m else m(fst (records_row e) \<mapsto> snd (records_row e))
   | None \<Rightarrow> m(fst (records_row e) \<mapsto> snd (records_row e)))"

lemma drawn_fromD: "drawn_from ns es m \<Longrightarrow> fst i = ns \<Longrightarrow> m i = Some v \<Longrightarrow> \<exists>e \<in> es. records_row e = (i, v)"
  unfolding drawn_from_def by blast

lemma drawn_keep_newer:
  assumes "drawn_from ns es m" "e \<in> es"
  shows "drawn_from ns es (keep_newer e m)"
  unfolding drawn_from_def
proof (intro allI impI)
  fix i v assume i: "fst i = ns" "keep_newer e m i = Some v"
  then consider "m i = Some v" | "i = fst (records_row e)" "v = snd (records_row e)"
    by (auto simp: keep_newer_def split: option.splits if_splits)
  then show "\<exists>e \<in> es. records_row e = (i, v)"
  proof cases
    case 1
    then show ?thesis using drawn_fromD[OF assms(1) i(1)] by blast
  next
    case 2
    then show ?thesis using assms(2) by (metis prod.collapse)
  qed
qed

lemma doc_put_flat:
  assumes "flat_entries C es" "drawn_from ns es m" "e \<in> es" "rid_namespace (se_id e) = ns"
  shows "doc_put C e m = keep_newer e m"
proof -
  let ?i = "fst (records_row e)"
  have i: "?i = (ns, rid_author (se_id e), rid_key (se_id e))" using assms(4) by (simp add: records_row_def)
  have reach: "j = ?i" if j: "fst j = ns" "m j = Some v" "covers e j" for j v
  proof -
    obtain e' where "e' \<in> es" "records_row e' = (j, v)" using drawn_fromD[OF assms(2) j(1,2)] by blast
    then show ?thesis using assms(1,3) j(3) unfolding flat_entries_def by (metis fst_conv)
  qed
  have above: "(ns, rid_author (se_id e), p) = ?i"
    if p: "m (ns, rid_author (se_id e), p) = Some v" "prefix p (rid_key (se_id e))" for p v
  proof -
    obtain e' where e': "e' \<in> es" "records_row e' = ((ns, rid_author (se_id e), p), v)"
      using drawn_fromD[OF assms(2) _ p(1)] by auto
    then have "covers e' ?i" using p(2) i by (simp add: covers_def records_row_def)
    then show ?thesis using assms(1,3) e' unfolding flat_entries_def by (metis fst_conv)
  qed
  have mark: "\<not> record_is_empty C (value_record v)" if v: "m ?i = Some v" for v
  proof -
    obtain e' where "e' \<in> es" "records_row e' = (?i, v)" using drawn_fromD[OF assms(2) _ v] i by auto
    then show ?thesis using assms(1) records_row_value[of e'] unfolding flat_entries_def by (metis snd_conv)
  qed
  have key: "rid_key (se_id e) \<noteq> []" using assms(1,3) by (simp add: flat_entries_def)
  have super: "superseded C m e \<longleftrightarrow> (\<exists>v. m ?i = Some v \<and> record_le (se_record e) (value_record v))"
  proof
    assume "superseded C m e"
    then obtain p v where "prefix p (rid_key (se_id e))" "m (ns, rid_author (se_id e), p) = Some v"
      "record_le (se_record e) (value_record v)"
      using assms(4) by (auto simp: superseded_iff blocks_def split: option.splits)
    then show "\<exists>v. m ?i = Some v \<and> record_le (se_record e) (value_record v)" using above by metis
  next
    assume "\<exists>v. m ?i = Some v \<and> record_le (se_record e) (value_record v)"
    then show "superseded C m e" unfolding superseded_iff
      using mark key i assms(4) by (intro exI[of _ "rid_key (se_id e)"]) (auto simp: blocks_def)
  qed
  have "\<not> (covers e j \<and> record_le (value_record v) (se_record e))" if "m j = Some v" "j \<noteq> ?i" for j v
    using reach[of j v] that assms(4) by (auto simp: covers_def)
  then show ?thesis using super
    by (auto simp: doc_put_def keep_newer_def fun_eq_iff split: option.splits)
qed

lemma fold_put_flat:
  assumes "flat_entries C es" "drawn_from ns es m" "set xs \<subseteq> es" "\<forall>e \<in> set xs. rid_namespace (se_id e) = ns"
  shows "fold (doc_put C) xs m = fold keep_newer xs m"
  using assms(2-4)
proof (induction xs arbitrary: m)
  case (Cons x xs)
  have "doc_put C x m = keep_newer x m" by (rule doc_put_flat[OF assms(1) Cons.prems(1)]) (use Cons.prems in auto)
  then show ?case using Cons.IH[OF drawn_keep_newer[OF Cons.prems(1), of x]] Cons.prems by simp
qed simp

text \<open>The outcome at one identifier when at most one value is offered for it.\<close>

lemma fold_keep_newer:
  assumes "\<forall>e \<in> set xs. fst (records_row e) = i \<longrightarrow> snd (records_row e) = w"
  shows "fold keep_newer xs m i =
     (if i \<in> (\<lambda>e. fst (records_row e)) ` set xs
      then (case m i of Some v \<Rightarrow> if record_le (value_record w) (value_record v) then Some v else Some w | None \<Rightarrow> Some w)
      else m i)"
  using assms
proof (induction xs arbitrary: m)
  case (Cons x xs)
  have here: "keep_newer x m i = (if fst (records_row x) = i
      then (case m i of Some v \<Rightarrow> if record_le (value_record w) (value_record v) then Some v else Some w | None \<Rightarrow> Some w)
      else m i)"
    using Cons.prems records_row_value[of x] by (auto simp: keep_newer_def split: option.splits)
  then show ?case using Cons.IH[of "keep_newer x m"] Cons.prems by (auto split: option.splits)
qed simp

text \<open>What is compared of two versions of a document: per identifier, the timestamp and the content hash.\<close>

definition doc_version :: "doc_map \<Rightarrow> records_id \<Rightarrow> (u64 \<times> bytes) option" where
  "doc_version m i = map_option (\<lambda>v. (rec_timestamp (value_record v), rec_hash (value_record v))) (m i)"

lemma version_eq:
  assumes "record_le (value_record v) (value_record w)" "record_le (value_record w) (value_record v)"
  shows "(rec_timestamp (value_record v), rec_hash (value_record v)) = (rec_timestamp (value_record w), rec_hash (value_record w))"
  using assms by (auto simp: record_le_iff)

text \<open>Two maps that each receive from the other at least what they lack agree afterwards.\<close>

lemma keep_newer_agree:
  assumes views: "\<And>b i v. fst i = ns \<Longrightarrow> D b i = Some v \<longleftrightarrow> (\<exists>e \<in> V b. records_row e = (i, v))"
    and heard: "\<And>b. set (H b) \<subseteq> V (\<not> b)"
    and lacking: "\<And>b e. e \<in> V (\<not> b) \<Longrightarrow> \<not> (\<exists>y \<in> V b. fst (records_row e) = fst (records_row y) \<and>
      record_le (value_record (snd (records_row e))) (value_record (snd (records_row y)))) \<Longrightarrow> e \<in> set (H b)"
    and i: "fst i = ns"
  shows "doc_version (fold keep_newer (H False) (D False)) i = doc_version (fold keep_newer (H True) (D True)) i"
proof -
  have offered: "D (\<not> b) i = Some (snd (records_row e))" if e: "e \<in> set (H b)" "fst (records_row e) = i" for b e
  proof -
    have "e \<in> V (\<not> b)" "records_row e = (i, snd (records_row e))" using heard[of b] e by (auto simp: prod_eq_iff)
    then show ?thesis using views[OF i, of "\<not> b" "snd (records_row e)"] by blast
  qed
  have after: "fold keep_newer (H b) (D b) i =
     (if i \<in> (\<lambda>e. fst (records_row e)) ` set (H b)
      then (case D b i of Some v \<Rightarrow> if record_le (value_record w) (value_record v) then Some v else Some w | None \<Rightarrow> Some w)
      else D b i)" if w: "D (\<not> b) i = Some w" for b w
    by (rule fold_keep_newer) (use offered w in auto)
  have silent: "fold keep_newer (H b) (D b) i = D b i" if none: "D (\<not> b) i = None" for b
  proof -
    have "i \<notin> (\<lambda>e. fst (records_row e)) ` set (H b)" using offered none by force
    then show ?thesis using fold_keep_newer[of "H b" i undefined "D b"] by auto
  qed
  have told: "i \<in> (\<lambda>e. fst (records_row e)) ` set (H b)"
    if w: "D (\<not> b) i = Some w" and lack: "\<And>v. D b i = Some v \<Longrightarrow> \<not> record_le (value_record w) (value_record v)" for b w
  proof -
    obtain e where e: "e \<in> V (\<not> b)" "records_row e = (i, w)" using views[OF i, of "\<not> b" w] w by blast
    have "e \<in> set (H b)"
    proof (rule lacking[OF e(1)], safe)
      fix y assume y: "y \<in> V b" "fst (records_row e) = fst (records_row y)"
        "record_le (value_record (snd (records_row e))) (value_record (snd (records_row y)))"
      have "D b i = Some (snd (records_row y))"
        using views[OF i, of b "snd (records_row y)"] y(1,2) e(2) by (metis fst_conv prod.collapse)
      then show False using lack y(3) e(2) by simp
    qed
    then show ?thesis using e(2) by force
  qed
  have one: "fold keep_newer (H b) (D b) i = D (\<not> b) i \<and> fold keep_newer (H (\<not> b)) (D (\<not> b)) i = D (\<not> b) i"
    if w: "D (\<not> b) i = Some w" and lack: "\<And>v. D b i = Some v \<Longrightarrow> \<not> record_le (value_record w) (value_record v)" for b w
  proof
    show "fold keep_newer (H b) (D b) i = D (\<not> b) i"
      using after[OF w] told[OF w lack] lack w by (auto split: option.splits)
    show "fold keep_newer (H (\<not> b)) (D (\<not> b)) i = D (\<not> b) i"
    proof (cases "D b i")
      case None
      then show ?thesis using silent[of "\<not> b"] by simp
    next
      case (Some v)
      then have "record_le (value_record v) (value_record w)" using lack record_le_total by blast
      then show ?thesis using after[of "\<not> b" v] Some w by simp
    qed
  qed
  consider (none) "D False i = None" "D True i = None"
    | (lack) b w where "D (\<not> b) i = Some w" "\<And>v. D b i = Some v \<Longrightarrow> \<not> record_le (value_record w) (value_record v)"
    | (same) v w where "D False i = Some v" "D True i = Some w"
        "record_le (value_record v) (value_record w)" "record_le (value_record w) (value_record v)"
  proof (cases "D False i"; cases "D True i")
    fix w assume "D False i = None" "D True i = Some w"
    then show thesis using lack[of False w] by simp
  next
    fix v assume "D False i = Some v" "D True i = None"
    then show thesis using lack[of True v] by simp
  next
    fix v w assume vw: "D False i = Some v" "D True i = Some w"
    then show thesis using lack[of False w] lack[of True v] same[of v w] by fastforce
  qed (use none in simp)
  then show ?thesis
  proof cases
    case none
    then show ?thesis using silent[of False] silent[of True] by (simp add: doc_version_def)
  next
    case lack
    then show ?thesis using one[OF lack] by (cases b) (simp_all add: doc_version_def)
  next
    case same
    then have kept: "fold keep_newer (H False) (D False) i = Some v" "fold keep_newer (H True) (D True) i = Some w"
      using after[of False w] after[of True v] by simp_all
    show ?thesis unfolding doc_version_def kept using version_eq[OF same(3,4)] by simp
  qed
qed

lemma served_unfiltered:
  assumes "serving C ns r" "rp_snapshot r = Some t" "fst i = ns"
  shows "doc_map t i = Some v \<longleftrightarrow> (\<exists>e \<in> set (served_view None r). records_row e = (i, v))"
proof -
  have ok: "tables_ok C t" "length ns = 32" "rp_namespace r = ns"
    using assms(1,2) by (auto simp: serving_def replica_ok_def instance_valid_def)
  have view: "served_view None r = namespace_entries ns t"
    using assms(2) ok(3) by (simp add: served_view_def instance_entries_def read_tables_def admitted_def)
  show ?thesis
  proof
    assume v: "doc_map t i = Some v"
    have rec: "records_ok (t_records t)" using ok(1) by (simp add: tables_ok_def)
    then have row: "(i, v) \<in> set (t_records t)" using v by (simp add: doc_map_def table_get_Some_iff records_ok_def)
    then have "records_id_ok i" using rec by (fastforce simp: records_ok_def)
    then have "into_entry (i, v) \<in> set (namespace_entries ns t)"
      using namespace_row[OF ok(2), of i] assms(3) row by (force simp: namespace_entries_def set_table_range)
    moreover from this have "doc_map t (fst (records_row (into_entry (i, v)))) = Some (snd (records_row (into_entry (i, v))))"
      using view_rows[OF ok(1,2)] by blast
    moreover have "fst (records_row (into_entry (i, v))) = i"
      using into_entry_tuple(1)[of "(i, v)"] \<open>records_id_ok i\<close> by (simp add: records_row_def rid_to_byte_tuple_def)
    ultimately show "\<exists>e \<in> set (served_view None r). records_row e = (i, v)"
      using v view by (intro bexI[of _ "into_entry (i, v)"]) (auto simp: prod_eq_iff)
  next
    assume "\<exists>e \<in> set (served_view None r). records_row e = (i, v)"
    then show "doc_map t i = Some v" using view_rows[OF ok(1,2)] view by force
  qed
qed

lemma lacks_rows:
  assumes "rid_ok (se_id e)" "\<forall>y \<in> set es. rid_ok (se_id y)"
  shows "lacks (signed_entry_range C) es e \<longleftrightarrow> \<not> (\<exists>y \<in> set es. fst (records_row e) = fst (records_row y) \<and>
     record_le (value_record (snd (records_row e))) (value_record (snd (records_row y))))"
proof -
  have "se_id e = se_id y \<longleftrightarrow> fst (records_row e) = fst (records_row y)" if "y \<in> set es" for y
    using that assms by (auto simp: records_row_def) (metis rid_new_parts)
  then show ?thesis unfolding lacks_def by (auto simp: records_row_value)
qed

text \<open>C3. Documents converge. Two replicas of a namespace, each in an unfiltered session whose snapshot is its
  current document, reconcile; no two different sets of their entries have the same fingerprint, each
  side's validation accepts the entries of the other, and no entry is a deletion marker, lies at the empty
  key or reaches the key of another. Then the exchange ends and afterwards the two documents agree at
  every identifier of the namespace on timestamp and content hash.\<close>

theorem reconciliation_converges:
  assumes "\<forall>b. serving C ns (fst (st b)) \<and> rp_snapshot (fst (st b)) = Some (replica_tables (fst (st b)))"
    "enough_rounds (\<lambda>b. served_view None (fst (st b))) \<le> n"
    "collision_free C (signed_entry_range C) (\<lambda>b. served_view None (fst (st b)))"
    "\<forall>b. always_accepts C now ns (peer b) (ri_capability_validator (rp_info (fst (st b)))) (served_view None (fst (st (\<not> b))))"
    "flat_entries C (set (served_view None (fst (st False))) \<union> set (served_view None (fst (st True))))"
  shows "\<exists>msgs st'. reconcile C P alive now peer (\<lambda>_. None) n st = (Some (Inr msgs), st') \<and>
     (\<forall>i. fst i = ns \<longrightarrow> doc_version (doc_map (replica_tables (fst (st' False)))) i =
        doc_version (doc_map (replica_tables (fst (st' True)))) i)"
proof -
  define V where "V = (\<lambda>b. served_view None (fst (st b)))"
  define D where "D = (\<lambda>b. doc_map (replica_tables (fst (st b))))"
  define U where "U = set (V False) \<union> set (V True)"
  let ?E = "signed_entry_range C"
  have serving: "\<forall>b. serving C ns (fst (st b))" using assms(1) by blast
  obtain msgs st' where run: "reconcile C P alive now peer (\<lambda>_. None) n st = (Some (Inr msgs), st')"
    "\<And>who. fst ` set (heard True msgs who) \<subseteq> set (V (\<not> who))"
    "\<And>who e. e \<in> set (V (\<not> who)) \<Longrightarrow> lacks ?E (V who) e \<Longrightarrow> e \<in> fst ` set (heard True msgs who)"
    "\<And>b. side_after C ns now (peer b) (V (\<not> b)) (map fst (heard True msgs b)) (fst (st b)) (fst (st' b))"
    by (rule reconcile_settled[OF serving _ assms(2,3)[folded V_def], where P = P and alive = alive and now = now and peer = peer])
       (auto simp: V_def)
  define H where "H = (\<lambda>b. map fst (heard True msgs b))"
  have heard: "set (H b) \<subseteq> set (V (\<not> b))" for b using run(2) by (simp add: H_def)
  have own: "own_boundary ns (se_id e)" if "e \<in> set (V b)" for b e
    using served_view_laws(2)[of C ns "fst (st b)" e None] serving that by (simp add: V_def)
  have views: "D b i = Some v \<longleftrightarrow> (\<exists>e \<in> set (V b). records_row e = (i, v))" if "fst i = ns" for b i v
    using served_unfiltered[of C ns "fst (st b)" _ i v] assms(1) that by (simp add: D_def V_def)
  have V_U: "set (V b) \<subseteq> U" for b by (cases b) (simp_all add: U_def)
  have docs: "doc_map (replica_tables (fst (st' b))) = fold keep_newer (H b) (D b)" for b
  proof -
    have "doc_map (replica_tables (fst (st' b))) = fold (doc_put C) (H b) (D b)"
      using run(4) assms(4) by (simp add: side_after_def V_def D_def H_def)
    moreover have "drawn_from ns U (D b)" unfolding drawn_from_def using views V_U by blast
    moreover have "\<forall>e \<in> set (H b). rid_namespace (se_id e) = ns" using heard own by (fastforce simp: own_boundary_def)
    ultimately show ?thesis
      using fold_put_flat[of C U ns "D b" "H b"] assms(5) heard V_U unfolding U_def V_def by fastforce
  qed
  have rid: "rid_ok (se_id e)" if "e \<in> set (V b)" for b e using own[OF that] by (simp add: own_boundary_def)
  have "doc_version (fold keep_newer (H False) (D False)) i = doc_version (fold keep_newer (H True) (D True)) i"
    if "fst i = ns" for i
  proof (rule keep_newer_agree[where V = "\<lambda>b. set (V b)", OF views heard _ that])
    fix b e assume e: "e \<in> set (V (\<not> b))" and none: "\<not> (\<exists>y \<in> set (V b). fst (records_row e) = fst (records_row y) \<and>
      record_le (value_record (snd (records_row e))) (value_record (snd (records_row y))))"
    then have "lacks ?E (V b) e" using lacks_rows[OF rid[OF e], of "V b" C] rid by blast
    then show "e \<in> set (H b)" using run(3)[OF e] by (simp add: H_def)
  qed
  then show ?thesis using run(1) docs by auto
qed

section \<open>Deletions\<close>

lemma fold_put_one:
  assumes "set xs = {x}" "\<not> superseded C m x"
  shows "fold (doc_put C) xs m (fst (records_row x)) = Some (snd (records_row x))"
proof -
  have keep: "fold (doc_put C) ys m' (fst (records_row x)) = Some (snd (records_row x))"
    if "set ys \<subseteq> {x}" "m' (fst (records_row x)) = Some (snd (records_row x))" for ys m'
    using that by (induction ys arbitrary: m') (auto simp: doc_put_def)
  obtain ys where ys: "xs = x # ys" using assms(1) by (cases xs) auto
  have "doc_put C x m (fst (records_row x)) = Some (snd (records_row x))" by (rule doc_put_self[OF assms(2)])
  then show ?thesis using keep[of ys "doc_put C x m"] assms(1) ys by auto
qed

lemma single_view_superseded:
  assumes "serving C ns r" "rp_snapshot r = Some (replica_tables r)" "served_view None r = [y]" "se_id y = se_id x"
    "superseded C (doc_map (replica_tables r)) x"
  shows "\<not> record_is_empty C (se_record y) \<and> record_le (se_record x) (se_record y)"
proof -
  have ns: "rid_namespace (se_id x) = ns" using served_view_laws(2)[OF assms(1), of y None] assms(3,4) by (simp add: own_boundary_def)
  obtain p v where p: "doc_map (replica_tables r) (ns, rid_author (se_id x), p) = Some v"
    "\<not> record_is_empty C (value_record v)" "record_le (se_record x) (value_record v)"
    using assms(5) ns by (auto simp: superseded_iff blocks_def split: option.splits)
  have "\<exists>e \<in> set (served_view None r). records_row e = ((ns, rid_author (se_id x), p), v)"
    using served_unfiltered[OF assms(1,2), where i = "(ns, rid_author (se_id x), p)" and v = v] p(1) by simp
  then have "snd (records_row y) = v" using assms(3) by simp
  then show ?thesis using p(2,3) records_row_value[of y] by simp
qed

text \<open>C38. A deletion and the entry it deletes change places. One side holds a deletion marker, the other the older
  entry at the same key that the marker deletes (each nothing else). After they reconcile, the side that
  had deleted the entry holds it again, and the side that held it has the marker, because a marker does not
  block an older entry.\<close>

theorem deletion_changes_places:
  assumes "\<forall>b. serving C ns (fst (st b)) \<and> rp_snapshot (fst (st b)) = Some (replica_tables (fst (st b)))"
    "served_view None (fst (st False)) = [marker]" "served_view None (fst (st True)) = [e]" "6 \<le> n"
    "se_id marker = se_id e" "record_is_empty C (se_record marker)" "\<not> record_le (se_record marker) (se_record e)"
    "collision_free C (signed_entry_range C) (\<lambda>b. served_view None (fst (st b)))"
    "\<forall>b. always_accepts C now ns (peer b) (ri_capability_validator (rp_info (fst (st b)))) (served_view None (fst (st (\<not> b))))"
  shows "\<exists>msgs st'. reconcile C P alive now peer (\<lambda>_. None) n st = (Some (Inr msgs), st') \<and>
     doc_map (replica_tables (fst (st' False))) (fst (records_row e)) = Some (snd (records_row e)) \<and>
     doc_map (replica_tables (fst (st' True))) (fst (records_row e)) = Some (snd (records_row marker))"
proof -
  define V where "V = (\<lambda>b. served_view None (fst (st b)))"
  let ?E = "signed_entry_range C"
  have views: "\<forall>b. V b = served_view ((\<lambda>_. None) b) (fst (st b))" by (simp add: V_def)
  have V: "V False = [marker]" "V True = [e]" using assms(2,3) by (simp_all add: V_def)
  have serving: "\<forall>b. serving C ns (fst (st b))" and snap: "rp_snapshot (fst (st b)) = Some (replica_tables (fst (st b)))" for b
    using assms(1) by blast+
  have enough: "enough_rounds V \<le> n" using assms(4) V by (simp add: enough_rounds_def)
  obtain msgs st' where run: "reconcile C P alive now peer (\<lambda>_. None) n st = (Some (Inr msgs), st')"
    "\<And>who. fst ` set (heard True msgs who) \<subseteq> set (V (\<not> who))"
    "\<And>who x. x \<in> set (V (\<not> who)) \<Longrightarrow> lacks ?E (V who) x \<Longrightarrow> x \<in> fst ` set (heard True msgs who)"
    "\<And>b. side_after C ns now (peer b) (V (\<not> b)) (map fst (heard True msgs b)) (fst (st b)) (fst (st' b))"
    "length (V True) \<le> 1 \<Longrightarrow> set (V True) \<noteq> set (V False) \<Longrightarrow> set (V True) \<subseteq> fst ` set (heard True msgs False)"
    by (rule reconcile_settled[OF serving views enough assms(8)[folded V_def], where P = P and alive = alive and now = now and peer = peer])
       blast
  have docs: "doc_map (replica_tables (fst (st' b))) =
      fold (doc_put C) (map fst (heard True msgs b)) (doc_map (replica_tables (fst (st b))))" for b
    using run(4)[of b] assms(9) by (simp add: side_after_def V_def)
  have neq: "marker \<noteq> e" using assms(7) by auto
  have F: "set (map fst (heard True msgs False)) = {e}"
    using run(2)[of False] run(5) V neq by auto
  have "lacks ?E (V True) marker" using assms(7) V by (simp add: lacks_def)
  then have T: "set (map fst (heard True msgs True)) = {marker}"
    using run(2)[of True] run(3)[of marker True] V by auto
  have row: "fst (records_row marker) = fst (records_row e)" using assms(5) by (simp add: records_row_def)
  have "\<not> superseded C (doc_map (replica_tables (fst (st False)))) e"
    using single_view_superseded[OF serving[rule_format] snap assms(2,5)] assms(6) by blast
  moreover have "\<not> superseded C (doc_map (replica_tables (fst (st True)))) marker"
    using single_view_superseded[OF serving[rule_format] snap assms(3) assms(5)[symmetric]] assms(7) by blast
  ultimately show ?thesis using run(1) docs fold_put_one[OF F] fold_put_one[OF T] row by auto
qed

section \<open>Closed instances\<close>

text \<open>Two replicas of the sample namespace; the first holds one entry, the second none.\<close>

definition sample_side :: "signed_entry list \<Rightarrow> replica" where
  "sample_side es = (sample_replica (Write sample_secret))
     \<lparr>rp_store := sample_store es, rp_snapshot := Some (fold tables_place es tables_empty)\<rparr>"

definition sample_sides :: "bool \<Rightarrow> replica \<times> sync_outcome" where
  "sample_sides b = (sample_side (if b then [] else [sample_signed]), sync_outcome_default)"

lemma sample_side_serving:
  assumes "\<forall>e \<in> set es. entry_ok e"
  shows "serving sample_crypto sample_ns (sample_side es)"
proof -
  have "instance_valid sample_crypto sample_ns None (sample_store es)" by (rule sample_store_valid[OF assms]) simp
  then show ?thesis using fold_place_ok[OF tables_ok_empty assms, of sample_crypto]
    by (simp add: serving_def sample_side_def replica_ok_def replica_id_def instance_valid_def replica_info_new_def)
qed

lemma sample_sides_serving: "\<forall>b. serving sample_crypto sample_ns (fst (sample_sides b))"
  using sample_side_serving sample_signed_ok(1) by (simp add: sample_sides_def)

lemma sample_signed_id: "se_id sample_signed = rid_new sample_ns sample_author [97]" "se_record sample_signed = record_new [7] 1 5"
  by (simp_all add: sample_signed_def entry_sign_def signed_entry_from_entry_def entry_new_def replica_id_def)

lemma sample_side_view:
  assumes "rid_namespace (se_id x) = sample_ns" "rid_ok (se_id x)"
  shows "served_view None (sample_side [x]) = [x]"
proof -
  have one: "t_records (tables_place x tables_empty) = [records_row x]"
    by (simp add: tables_place_def entry_put_tables_def Let_def tables_empty_def records_row_def)
  have "fst (records_row x) = rid_to_byte_tuple (se_id x)" by (simp add: records_row_def rid_to_byte_tuple_def)
  then have "in_bounds (records_bounds_namespace sample_ns) (fst (records_row x))"
    using in_namespace_bounds[of sample_ns sample_ns "rid_author (se_id x)"] assms
    by (simp add: rid_to_byte_tuple_def rid_ok_def rid_author_def id_head_bytes_def)
  then show ?thesis using one
    by (simp add: served_view_def sample_side_def instance_entries_def read_tables_def admitted_def namespace_entries_def
        table_range_def into_entry_records_row)
qed

lemma sample_sides_view: "served_view None (fst (sample_sides b)) = (if b then [] else [sample_signed])"
proof -
  have "served_view None (sample_side []) = []"
    by (simp add: served_view_def sample_side_def instance_entries_def read_tables_def admitted_def namespace_entries_def
        table_range_def tables_empty_def)
  then show ?thesis
    using sample_side_view[of sample_signed] sample_signed_ok(1) by (simp add: sample_sides_def sample_signed_id entry_ok_def)
qed

lemma sample_collision_free:
  "collision_free sample_crypto (signed_entry_range sample_crypto) (\<lambda>b. served_view None (fst (sample_sides b)))"
proof -
  let ?E = "signed_entry_range sample_crypto"
  have "fingerprint_of sample_crypto ?E [sample_signed] \<noteq> fingerprint_of sample_crypto ?E []"
    by (simp add: fingerprint_of_def fingerprint_xor_def fingerprint_empty_def signed_entry_as_fingerprint_def
        sample_crypto_def pad_def)
  moreover have "entries_in ?E [sample_signed] r \<in> {[], [sample_signed]}" "entries_in ?E [] r = []" for r
    by (cases r; auto simp: entries_in_Range)+
  ultimately show ?thesis unfolding collision_free_def sample_sides_view by (metis (full_types) empty_iff insert_iff)
qed

lemma sample_accepts: "always_accepts sample_crypto (\<lambda>_. 100) sample_ns peer None [sample_signed]"
  using sample_signed_ok(2)
  by (simp add: always_accepts_def entry_verdict_def sample_signed_id entry_namespace_def entry_timestamp_def record_new_def
      MAX_TIMESTAMP_FUTURE_SHIFT_def)

theorem reconciliation_terminates_witness:
  "\<exists>msgs st'. reconcile sample_crypto policy_postcard (\<lambda>_. True) (\<lambda>_. 100) (\<lambda>_. [1]) (\<lambda>_. None) 5 sample_sides =
     (Some (Inr msgs), st') \<and> length msgs \<le> 5"
  using reconciliation_terminates[OF sample_sides_serving, of "\<lambda>_. None" 5 policy_postcard "\<lambda>_. True" "\<lambda>_. 100" "\<lambda>_. [1]"]
  by (auto simp: enough_rounds_def sample_sides_view)

theorem reconciliation_delivers_witness:
  "\<exists>msgs st'. reconcile sample_crypto policy_postcard (\<lambda>_. True) (\<lambda>_. 100) (\<lambda>_. [1]) (\<lambda>_. None) 5 sample_sides =
     (Some (Inr msgs), st') \<and> sample_signed \<in> fst ` set (heard True msgs True)"
proof -
  have "lacks (signed_entry_range sample_crypto) [] sample_signed" by (simp add: lacks_def)
  then show ?thesis
    using reconciliation_delivers[OF sample_sides_serving, of "\<lambda>_. None" 5 policy_postcard "\<lambda>_. True" "\<lambda>_. 100" "\<lambda>_. [1]"]
      sample_collision_free
    by (auto simp: enough_rounds_def sample_sides_view)
qed

theorem reconciliation_converges_witness:
  "\<exists>msgs st'. reconcile sample_crypto policy_postcard (\<lambda>_. True) (\<lambda>_. 100) (\<lambda>_. [1]) (\<lambda>_. None) 5 sample_sides =
     (Some (Inr msgs), st') \<and>
     doc_version (doc_map (replica_tables (fst (st' False)))) (sample_ns, sample_author, [97]) =
     doc_version (doc_map (replica_tables (fst (st' True)))) (sample_ns, sample_author, [97])"
proof -
  have "\<forall>b. serving sample_crypto sample_ns (fst (sample_sides b)) \<and>
      rp_snapshot (fst (sample_sides b)) = Some (replica_tables (fst (sample_sides b)))"
    using sample_sides_serving by (simp add: sample_sides_def sample_side_def)
  moreover have "flat_entries sample_crypto {sample_signed}"
    by (simp add: flat_entries_def sample_signed_id record_is_empty_def record_new_def hash_empty_def sample_crypto_def pad_def)
  moreover have "\<forall>b. always_accepts sample_crypto (\<lambda>_. 100) sample_ns [1]
      (ri_capability_validator (rp_info (fst (sample_sides b)))) (served_view None (fst (sample_sides (\<not> b))))"
    using sample_accepts
    by (simp add: sample_sides_view) (simp add: sample_sides_def sample_side_def replica_info_new_def always_accepts_def)
  ultimately show ?thesis
    using reconciliation_converges[of sample_crypto sample_ns sample_sides 5 "\<lambda>_. 100" "\<lambda>_. [1]" policy_postcard "\<lambda>_. True"]
      sample_collision_free
    by (auto simp: enough_rounds_def sample_sides_view)
qed

text \<open>A deletion at time 10 of an entry of time 5, with a hash function that reads the end of its input first.\<close>

definition tail_crypto :: crypto where
  "tail_crypto = sample_crypto\<lparr>hash_fn := \<lambda>m. pad 32 (1 # rev m)\<rparr>"

definition sample_stored :: "doc_record \<Rightarrow> signed_entry" where
  "sample_stored r = entry_sign tail_crypto (entry_new (rid_new sample_ns sample_author [97]) r) sample_secret sample_writer"

definition sample_deleted :: "bool \<Rightarrow> replica \<times> sync_outcome" where
  "sample_deleted b = (sample_side [sample_stored (if b then record_new [7] 1 5 else record_empty tail_crypto 10)], sync_outcome_default)"

lemma tail_crypto_ok: "crypto_ok tail_crypto"
  using sample_crypto_ok by (simp add: crypto_ok_def tail_crypto_def)

lemma tail_ids: "namespace_id tail_crypto sample_secret = sample_ns" "author_id tail_crypto sample_writer = sample_author"
  by (simp_all add: sample_secret_def sample_writer_def namespace_id_eq author_id_eq tail_crypto_def sample_crypto_def pad_def)

lemma sample_stored_ok:
  "entry_ok (sample_stored r)" "entry_authentic tail_crypto (sample_stored r)"
  "se_id (sample_stored r) = rid_new sample_ns sample_author [97]" "se_record (sample_stored r) = r"
proof -
  have id: "replica_id tail_crypto (sample_side []) = sample_ns" by (simp add: sample_side_def replica_id_def replica_info_new_def tail_ids)
  show "entry_ok (sample_stored r)" "entry_authentic tail_crypto (sample_stored r)"
    using local_entry[OF tail_crypto_ok, of "sample_side []" sample_secret sample_writer "[97]" r]
    by (simp_all add: id tail_ids sample_stored_def) (simp_all add: sample_side_def replica_info_new_def)
qed (simp_all add: sample_stored_def entry_sign_def signed_entry_from_entry_def entry_new_def)

lemma sample_deleted_serving:
  "serving tail_crypto sample_ns (fst (sample_deleted b)) \<and>
   rp_snapshot (fst (sample_deleted b)) = Some (replica_tables (fst (sample_deleted b)))"
  using sample_store_valid[of "[sample_stored (if b then record_new [7] 1 5 else record_empty tail_crypto 10)]" sample_ns tail_crypto]
    sample_stored_ok(1) fold_place_ok[OF tables_ok_empty, of _ tail_crypto]
  by (simp add: serving_def sample_deleted_def sample_side_def replica_ok_def replica_id_def instance_valid_def replica_info_new_def tail_ids)

lemma sample_deleted_view:
  "served_view None (fst (sample_deleted b)) = [sample_stored (if b then record_new [7] 1 5 else record_empty tail_crypto 10)]"
  using sample_side_view[of "sample_stored r" for r] sample_stored_ok(1)[of r for r]
  by (simp add: sample_deleted_def sample_stored_ok(3) entry_ok_def)

lemma sample_deleted_collision_free:
  "collision_free tail_crypto (signed_entry_range tail_crypto) (\<lambda>b. served_view None (fst (sample_deleted b)))"
proof -
  let ?E = "signed_entry_range tail_crypto" and ?d = "sample_stored (record_empty tail_crypto 10)"
    and ?e = "sample_stored (record_new [7] 1 5)"
  have zeros: "replicate 31 (0 :: 8 word) = 0 # replicate 30 0" by (simp add: numeral_eq_Suc)
  have "fingerprint_of tail_crypto ?E [?d] \<noteq> fingerprint_of tail_crypto ?E [?e]"
    by (simp add: zeros replicate_app_Cons_same fingerprint_of_def fingerprint_xor_def fingerprint_empty_def signed_entry_as_fingerprint_def
        tail_crypto_def sample_crypto_def pad_def entry_content_hash_def sample_stored_ok(4) record_empty_def hash_empty_def
        record_new_def)
  moreover have "entries_in ?E [?d] r = [] \<and> entries_in ?E [?e] r = [] \<or> entries_in ?E [?d] r = [?d] \<and> entries_in ?E [?e] r = [?e]" for r
    by (cases r) (auto simp: entries_in_Range sample_stored_ok(3))
  ultimately show ?thesis unfolding collision_free_def sample_deleted_view by (metis (full_types))
qed

theorem deletion_changes_places_witness:
  "\<exists>msgs st'. reconcile tail_crypto policy_postcard (\<lambda>_. True) (\<lambda>_. 100) (\<lambda>_. [1]) (\<lambda>_. None) 6 sample_deleted =
     (Some (Inr msgs), st') \<and>
     doc_map (replica_tables (fst (st' False))) (sample_ns, sample_author, [97]) =
       Some (snd (records_row (sample_stored (record_new [7] 1 5)))) \<and>
     doc_map (replica_tables (fst (st' True))) (sample_ns, sample_author, [97]) =
       Some (snd (records_row (sample_stored (record_empty tail_crypto 10))))"
proof -
  let ?d = "sample_stored (record_empty tail_crypto 10)" and ?e = "sample_stored (record_new [7] 1 5)"
  have row: "fst (records_row ?e) = (sample_ns, sample_author, [97])" by (simp add: records_row_def sample_stored_ok(3))
  have accepts: "\<forall>b. always_accepts tail_crypto (\<lambda>_. 100) sample_ns [1]
      (ri_capability_validator (rp_info (fst (sample_deleted b)))) (served_view None (fst (sample_deleted (\<not> b))))"
    using sample_stored_ok(2)
    by (simp add: sample_deleted_view always_accepts_def entry_verdict_def sample_stored_ok entry_namespace_def
        entry_timestamp_def record_new_def record_empty_def MAX_TIMESTAMP_FUTURE_SHIFT_def)
       (simp add: sample_deleted_def sample_side_def replica_info_new_def)
  have newer: "record_is_empty tail_crypto (record_empty tail_crypto 10)" "\<not> record_le (record_empty tail_crypto 10) (record_new [7] 1 5)"
    by (simp_all add: record_empty_def record_new_def record_is_empty_def record_le_iff)
  show ?thesis
    using deletion_changes_places[of tail_crypto sample_ns sample_deleted ?d ?e 6 "\<lambda>_. 100" "\<lambda>_. [1]" policy_postcard "\<lambda>_. True"]
      sample_deleted_serving sample_deleted_collision_free accepts
    by (simp add: sample_deleted_view row sample_stored_ok newer)
qed

end
