(* ===== verification/Store_History.thy ===== *)
theory Store_History
  imports Replica_Laws
begin

text \<open>
  Histories of the replica store: every operation of \<^verbatim>\<open>src/src/store/fs.rs\<close> that touches a transaction,
  as a step relation. The tables stay well formed, and what a crash leaves on disk is always a state
  the store has passed through. Then the functional behaviour of the operations on namespaces,
  replicas, peers and download policies.
\<close>

section \<open>Steps\<close>

definition store_ok :: "crypto \<Rightarrow> fs_store \<Rightarrow> bool" where
  "store_ok C s \<longleftrightarrow> tx_ok s \<and> tables_ok C (visible s) \<and> tables_ok C (st_db s) \<and> key_cache_ok C (st_pubkeys s)"

inductive store_step :: "crypto \<Rightarrow> download_policy postcard \<Rightarrow> fs_store \<Rightarrow> fs_store \<Rightarrow> bool"
  for C :: crypto and P :: "download_policy postcard" where
  do_flush: "store_step C P s (flush s)"
| do_snapshot: "store_step C P s (snd (snapshot s))"
| do_snapshot_owned: "store_step C P s (snd (snapshot_owned s))"
| do_tables: "store_step C P s (snd (store_tables s))"
| do_public_key: "store_step C P s (snd (store_public_key C b s))"
| do_open: "store_step C P s (snd (open_replica C ns s))"
| do_close: "store_step C P s (close_replica ns s)"
| do_import_namespace: "store_step C P s (snd (import_namespace C cap s))"
| do_remove_replica: "length ns = 32 \<Longrightarrow> store_step C P s (snd (remove_replica ns s))"
| do_import_author: "store_step C P s (snd (import_author C a s))"
| do_delete_author: "store_step C P s (snd (delete_author i s))"
| do_entry_put: "entry_ok e \<Longrightarrow> store_step C P s (snd (instance_entry_put e s))"
| do_remove_prefix: "store_step C P s (snd (instance_remove_prefix_filtered i p s))"
| do_retract: "store_step C P s (snd (retract_entry ns a k up_to s))"
| do_register_peer: "store_step C P s (snd (register_useful_peer now ns peer s))"
| do_set_policy: "store_step C P s (snd (set_download_policy P ns policy s))"
| do_get_policy: "store_step C P s (snd (get_download_policy P ns s))"

text \<open>What each step keeps, and what it may commit.\<close>

definition keeps_store :: "crypto \<Rightarrow> fs_store \<Rightarrow> fs_store \<Rightarrow> bool" where
  "keeps_store C s s' \<longleftrightarrow> store_ok C s' \<and> (st_db s' = st_db s \<or> st_db s' = visible s)"

lemma modify_keeps:
  assumes "store_ok C s" "\<And>r t. f (visible s) = (r, t) \<Longrightarrow> tables_ok C t"
  shows "keeps_store C s (snd (modify f s))"
proof -
  have tx: "tx_ok s" using assms(1) by (simp add: store_ok_def)
  obtain r t where f: "f (visible s) = (r, t)" by fastforce
  obtain s' where s': "modify f s = (r, s')" "visible s' = t" "tx_ok s'" "same_rest s s'"
    "st_db s' = st_db s \<or> st_db s' = visible s" by (rule modify_eq[where f = f, OF tx f])
  then show ?thesis using assms(1) assms(2)[OF f] by (auto simp: keeps_store_def store_ok_def same_rest_def)
qed

lemma read_keeps:
  assumes "store_ok C s" "tx_ok s'" "visible s' = visible s" "same_rest s s'" "st_db s' = st_db s \<or> st_db s' = visible s"
  shows "keeps_store C s s'"
  using assms by (auto simp: keeps_store_def store_ok_def same_rest_def)

lemma store_tables_keeps: "store_ok C s \<Longrightarrow> keeps_store C s (snd (store_tables s))"
proof -
  assume ok: "store_ok C s"
  then have tx: "tx_ok s" by (simp add: store_ok_def)
  obtain t s' where s': "store_tables s = (t, s')" by fastforce
  show ?thesis using read_keeps[OF ok] store_tables_laws[OF tx s'] s' by simp
qed

lemma open_replica_tables:
  "snd (open_replica C ns s) = snd (store_tables s) \<or>
   (\<exists>n. snd (open_replica C ns s) = (snd (store_tables s))\<lparr>st_open_replicas := n\<rparr>)"
  by (auto simp: open_replica_def load_replica_info_def split: prod.splits option.splits sum.splits)

lemma visible_open [simp]:
  "visible (s\<lparr>st_open_replicas := n\<rparr>) = visible s" "tx_ok (s\<lparr>st_open_replicas := n\<rparr>) = tx_ok s"
  by (simp_all add: visible_def tx_ok_def split: current_transaction.splits)

lemma keeps_open: "keeps_store C s s' \<Longrightarrow> keeps_store C s (s'\<lparr>st_open_replicas := n\<rparr>)"
  by (simp add: keeps_store_def store_ok_def)

lemma table_ok_authors:
  "tables_ok C t \<Longrightarrow> tables_ok C (t\<lparr>t_authors := table_insert i v (t_authors t)\<rparr>)"
  "tables_ok C t \<Longrightarrow> tables_ok C (t\<lparr>t_authors := table_remove i (t_authors t)\<rparr>)"
  "tables_ok C t \<Longrightarrow> tables_ok C (t\<lparr>t_download_policy := table_insert i w (t_download_policy t)\<rparr>)"
  by (simp_all add: tables_ok_def table_insert_ok table_remove_ok)

lemma public_key_keeps:
  assumes "store_ok C s" shows "keeps_store C s (snd (store_public_key C b s))"
proof -
  obtain r m where m: "mem_public_key C b (st_pubkeys s) = (r, m)" by fastforce
  have "key_cache_ok C m" using mem_keys.public_key_inv[of C "st_pubkeys s" b] assms m by (simp add: store_ok_def)
  moreover have "visible (s\<lparr>st_pubkeys := m\<rparr>) = visible s" "tx_ok (s\<lparr>st_pubkeys := m\<rparr>) = tx_ok s"
    by (simp_all add: visible_def tx_ok_def split: current_transaction.splits)
  ultimately show ?thesis using assms m by (simp add: store_public_key_def keeps_store_def store_ok_def)
qed

lemma policy_tables: "snd (get_download_policy P ns s) = snd (store_tables s)"
  by (auto simp: get_download_policy_def split: prod.splits option.splits)

lemma step_keeps_store:
  assumes "store_step C P s s'" "store_ok C s"
  shows "keeps_store C s s'"
proof -
  have tx: "tx_ok s" and t: "tables_ok C (visible s)" using assms(2) by (simp_all add: store_ok_def)
  show ?thesis
    using assms(1)
  proof cases
    case do_flush
    then show ?thesis using read_keeps[OF assms(2)] flush_laws[OF tx] by simp
  next
    case do_snapshot
    then show ?thesis using read_keeps[OF assms(2)] snapshot_laws[OF tx prod.collapse[symmetric]] by simp
  next
    case do_snapshot_owned
    then show ?thesis using read_keeps[OF assms(2)] snapshot_owned_laws[OF tx prod.collapse[symmetric]] by simp
  next
    case (do_open ns)
    then show ?thesis using open_replica_tables[of C ns s] store_tables_keeps[OF assms(2)] keeps_open by auto
  next
    case (do_remove_replica ns)
    then show ?thesis
      using modify_keeps[OF assms(2), of "remove_replica_tables ns"] remove_replica_tables_ok[OF t] assms(2)
      by (auto simp: remove_replica_def keeps_store_def)
  next
    case (do_entry_put e)
    then show ?thesis using modify_keeps[OF assms(2), of "entry_put_tables e"] entry_put_tables_ok[OF t]
      by (simp add: instance_entry_put_def entry_ok_def)
  next
    case (do_register_peer now ns peer)
    then show ?thesis
      using modify_keeps[OF assms(2), of "register_peer_tables ns peer (word_of_nat (the now))"] register_peer_tables_ok[OF t] assms(2)
      by (auto simp: register_useful_peer_def keeps_store_def split: option.splits)
  next
    case (do_import_author a)
    then show ?thesis unfolding do_import_author import_author_def
      by (auto intro!: modify_keeps[OF assms(2)] table_ok_authors t)
  next
    case (do_delete_author i)
    then show ?thesis unfolding do_delete_author delete_author_def
      by (auto intro!: modify_keeps[OF assms(2)] table_ok_authors t)
  next
    case (do_set_policy ns policy)
    then show ?thesis unfolding do_set_policy set_download_policy_def
      by (auto intro!: modify_keeps[OF assms(2)] table_ok_authors t split: if_splits)
  qed (use assms(2) modify_keeps[OF assms(2)] t store_tables_keeps[OF assms(2)] public_key_keeps[OF assms(2)] in
       \<open>auto simp: policy_tables import_namespace_def retract_entry_def instance_remove_prefix_filtered_def
          intro: import_namespace_tables_ok retract_entry_tables_ok remove_prefix_tables_ok
            keeps_open[of C s s, unfolded keeps_store_def] simp: close_replica_def keeps_store_def store_ok_def\<close>)
qed

section \<open>Invariant and crash consistency\<close>

lemma history_store_ok:
  "(store_step C P)\<^sup>*\<^sup>* s s' \<Longrightarrow> store_ok C s \<Longrightarrow> store_ok C s'"
  by (induction rule: rtranclp_induct) (auto dest: step_keeps_store simp: keeps_store_def)

text \<open>C11. Crash consistency. Run any sequence of store operations from a state that is on disk. The tables stay
  well formed, both the ones the client sees and the ones on disk; and the tables on disk are those
  the client saw at some point of the run, so a crash loses a suffix of the history and nothing else.\<close>

theorem disk_is_past_state:
  assumes "(store_step C P)\<^sup>*\<^sup>* s s'" "store_ok C s" "st_db s = visible s"
  shows "store_ok C s' \<and> (\<exists>u. (store_step C P)\<^sup>*\<^sup>* s u \<and> (store_step C P)\<^sup>*\<^sup>* u s' \<and> st_db s' = visible u)"
  using assms(1)
proof (induction rule: rtranclp_induct)
  case base
  show ?case using assms(2,3) by blast
next
  case (step v w)
  then obtain u where u: "(store_step C P)\<^sup>*\<^sup>* s u" "(store_step C P)\<^sup>*\<^sup>* u v" "st_db v = visible u" "store_ok C v" by blast
  have k: "keeps_store C v w" using step_keeps_store step.hyps(2) u(4) by blast
  show ?case
  proof (cases "st_db w = st_db v")
    case True
    then show ?thesis using k u step.hyps(2) by (metis keeps_store_def rtranclp.rtrancl_into_rtrancl)
  next
    case False
    then have "st_db w = visible v" using k by (simp add: keeps_store_def)
    then show ?thesis using k step.hyps by (metis keeps_store_def r_into_rtranclp)
  qed
qed

text \<open>Flushing and taking a snapshot make everything the client sees durable and change nothing of what it sees.\<close>

theorem flush_makes_durable:
  assumes "tx_ok s"
  shows "st_db (flush s) = visible s \<and> visible (flush s) = visible s \<and>
     fst (snapshot s) = visible s \<and> st_db (snd (snapshot s)) = visible s \<and>
     fst (snapshot_owned s) = visible s \<and> st_db (snd (snapshot_owned s)) = visible s"
  using flush_laws[OF assms] snapshot_laws[OF assms prod.collapse[symmetric]]
    snapshot_owned_laws[OF assms prod.collapse[symmetric]] by simp

section \<open>Transactions that are too old\<close>

text \<open>A clock that advances by more than the commit delay between any two readings, and an open write
  transaction that began at an earlier reading.\<close>

definition slow_clock :: "(nat \<Rightarrow> nat) \<Rightarrow> bool" where
  "slow_clock clock \<longleftrightarrow> (\<forall>n. clock n + MAX_COMMIT_DELAY < clock (Suc n))"

definition tx_stale :: "fs_store \<Rightarrow> bool" where
  "tx_stale s \<longleftrightarrow> (\<exists>w m. st_transaction s = WriteTransaction w \<and> tx_since w = st_clock s m \<and> m < st_ticks s)"

lemma slow_clock_less:
  assumes "slow_clock clock" "m < n" shows "clock m + MAX_COMMIT_DELAY < clock n"
  using assms(2)
proof (induction n)
  case (Suc n)
  then show ?case using assms(1) unfolding slow_clock_def by (metis add_leD1 less_Suc_eq order.strict_trans order.strict_trans1 less_or_eq_imp_le not_add_less1 not_less)
qed simp

lemma current_write_stale:
  assumes "tx_ok s" "slow_clock (st_clock s)" "tx_stale s \<or> st_transaction s = NoTransaction"
    "current_write_transaction s = (w, s')"
  shows "st_db s' = visible s" "tx_tables w = visible s" "tx_since w = st_clock s' (st_ticks s' - 1)" "0 < st_ticks s'"
    "st_clock s' = st_clock s"
proof -
  have age: "\<not> st_clock s (st_ticks s) - tx_since v \<le> MAX_COMMIT_DELAY"
    if "st_transaction s = WriteTransaction v" for v
    using assms(2,3) that slow_clock_less[of "st_clock s"] by (fastforce simp: tx_stale_def)
  show "st_db s' = visible s" "tx_tables w = visible s" "tx_since w = st_clock s' (st_ticks s' - 1)" "0 < st_ticks s'"
    "st_clock s' = st_clock s"
    using assms(1,3,4) age
    by (auto simp: current_write_transaction_def store_unfold tx_stale_def split: current_transaction.splits if_splits)
qed

lemma stale_after:
  assumes "tx_ok s" "slow_clock (st_clock s)" "tx_stale s \<or> st_transaction s = NoTransaction"
  shows "tx_stale (snd (store_tables s))" "tx_stale (snd (modify f s))" "st_db (snd (modify f s)) = visible s"
proof -
  obtain w s' where w: "current_write_transaction s = (w, s')" by fastforce
  note laws = current_write_stale[OF assms w]
  have m: "st_ticks s' - 1 < st_ticks s'" using laws(4) by simp
  show "tx_stale (snd (store_tables s))" using laws(3) m by (auto simp: store_tables_def w tx_stale_def)
  show "tx_stale (snd (modify f s))" "st_db (snd (modify f s)) = visible s"
    using laws(1,3) m by (auto simp: modify_def with_tables_mut_def w tx_stale_def split: prod.splits)
qed

text \<open>C32. Storing an entry is not one transaction. \<open>put\<close> removes what the entry supersedes and then writes the entry, each
  in the current transaction, which is committed on the way when it is older than half a second. On a
  machine that is that slow, the disk then holds a state in which the old entries are gone and the
  new one is not there yet.\<close>

theorem put_not_atomic:
  assumes "instance_valid C ns snap s" "entry_ok e" "\<not> superseded C (doc_map (visible s)) e"
    "st_transaction s = NoTransaction" "slow_clock (st_clock s)"
  shows "\<exists>n s'. ranger_put (signed_entry_range C) (instance_ops C ns snap) e s = (Inr (Inserted n), s') \<and>
     visible s' = tables_place e (snd (tables_prune e (visible s))) \<and>
     st_db s' = snd (tables_prune e (visible s))"
proof -
  have tx: "tx_ok s" using assms(1) by (simp add: instance_valid_def)
  obtain s1 where s1: "store_tables s = (visible s, s1)" "visible s1 = visible s" "tx_ok s1" "same_rest s s1"
    by (rule store_tables_eq[OF tx])
  let ?rm = "remove_prefix_tables (se_id e) (\<lambda>v. record_le v (se_record e))"
  obtain s2 where s2: "modify ?rm s1 = (Inr (fst (tables_prune e (visible s1))), s2)"
    "visible s2 = snd (tables_prune e (visible s1))" "tx_ok s2" "same_rest s1 s2"
    by (rule modify_eq[where f = ?rm, OF s1(3) prune_eq])
  obtain s3 where s3: "modify (entry_put_tables e) s2 = (Inr (), s3)" "visible s3 = tables_place e (visible s2)"
    by (rule modify_eq[where f = "entry_put_tables e", OF s2(3) place_eq])
  have free: "newer_than_all (signed_entry_range C) e
      (map Inr (parents C (t_records (visible s)) (rid_namespace (se_id e)) (rid_author (se_id e)) (rid_key (se_id e))) :: (store_error + signed_entry) list) = Inr True"
    using assms(3) blocked_parents[of C "visible s" e] by (simp add: newer_than_all_Inr tables_blocked_def)
  have put: "ranger_put (signed_entry_range C) (instance_ops C ns snap) e s = (Inr (Inserted (fst (tables_prune e (visible s)))), s3)"
    using s1 s2 s3 free
    by (simp add: ranger_put_def would_insert_def op_bind_def op_lift_def op_return_def instance_ops_def
        instance_prefixes_of_def instance_remove_prefix_filtered_def instance_entry_put_def)
  have stale1: "tx_stale s1" using stale_after(1)[OF tx assms(5)] assms(4) s1(1) by simp
  have slow: "slow_clock (st_clock s1)" "slow_clock (st_clock s2)" using assms(5) s1(4) s2(4) by (simp_all add: same_rest_def)
  have "tx_stale s2" using stale_after(2)[OF s1(3) slow(1), of ?rm] stale1 s2(1) by simp
  then have "st_db s3 = visible s2" using stale_after(3)[OF s2(3) slow(2), of "entry_put_tables e"] s3(1) by simp
  then show ?thesis using put s1(2) s2(2) s3(2) by auto
qed

section \<open>Namespaces\<close>

lemma stored_capability_eq:
  "stored_capability t ns = Some cap \<longleftrightarrow> (\<exists>raw. table_get (t_namespaces t) ns = Some raw \<and> parse_capability raw = Inr cap)"
  by (auto simp: stored_capability_def split: option.splits sum.splits)

lemma open_replica_eq:
  assumes "tx_ok s" "tables_ok C (visible s)"
  shows "fst (open_replica C ns s) = (case stored_capability (visible s) ns of None \<Rightarrow> Inl NotFound | Some cap \<Rightarrow> Inr cap)"
    "stored_capability (visible s) ns = Some cap \<Longrightarrow> ns \<in> st_open_replicas (snd (open_replica C ns s))"
proof -
  obtain s' where s': "store_tables s = (visible s, s')" by (rule store_tables_eq[OF assms(1)])
  have ns: "namespaces_ok C (t_namespaces (visible s))" using assms(2) by (simp add: tables_ok_def)
  have "fst (open_replica C ns s) = (case stored_capability (visible s) ns of None \<Rightarrow> Inl NotFound | Some cap \<Rightarrow> Inr cap) \<and>
      (\<forall>cap. stored_capability (visible s) ns = Some cap \<longrightarrow> ns \<in> st_open_replicas (snd (open_replica C ns s)))"
  proof (cases "table_get (t_namespaces (visible s)) ns")
    case None
    then show ?thesis using s' by (simp add: open_replica_def load_replica_info_def stored_capability_def)
  next
    case (Some raw)
    obtain cap where cap: "parse_capability raw = Inr cap" "capability_id C cap = ns"
      by (rule namespaces_ok_get[OF ns Some])
    then have "case_prod capability_from_raw raw = Inr cap"
      by (cases raw) (auto simp: parse_capability_def map_sum_def split: sum.splits)
    then show ?thesis using s' Some cap
      by (cases raw) (simp add: open_replica_def load_replica_info_def stored_capability_def)
  qed
  then show "fst (open_replica C ns s) = (case stored_capability (visible s) ns of None \<Rightarrow> Inl NotFound | Some cap \<Rightarrow> Inr cap)"
    "stored_capability (visible s) ns = Some cap \<Longrightarrow> ns \<in> st_open_replicas (snd (open_replica C ns s))" by auto
qed

text \<open>Importing a capability: the call succeeds, the replica can be opened afterwards, and the capability it then has
  gives write access exactly when the imported or the stored one did. The outcome says whether the namespace was
  new, was upgraded from read to write, or nothing changed.\<close>

theorem import_then_open:
  assumes "store_ok C s"
  shows "\<exists>out s' cap'. import_namespace C cap s = (Inr out, s') \<and>
     fst (open_replica C (capability_id C cap) s') = Inr cap' \<and> capability_id C cap' = capability_id C cap \<and>
     (kind_of_capability cap' = KindWrite \<longleftrightarrow> kind_of_capability cap = KindWrite \<or>
        (\<exists>old. stored_capability (visible s) (capability_id C cap) = Some old \<and> kind_of_capability old = KindWrite)) \<and>
     (out = ImportInserted \<longleftrightarrow> stored_capability (visible s) (capability_id C cap) = None) \<and>
     (out = ImportUpgraded \<longleftrightarrow> (\<exists>old. stored_capability (visible s) (capability_id C cap) = Some old \<and>
        kind_of_capability old = KindRead \<and> kind_of_capability cap = KindWrite))"
proof -
  let ?i = "capability_id C cap" and ?old = "stored_capability (visible s) (capability_id C cap)"
  have tx: "tx_ok s" and ok: "tables_ok C (visible s)" using assms by (simp_all add: store_ok_def)
  have ns: "namespaces_ok C (t_namespaces (visible s))" using ok by (simp add: tables_ok_def)
  define cap' where "cap' = (case ?old of None \<Rightarrow> cap | Some old \<Rightarrow> snd (capability_merge C old cap))"
  define out where "out = (case ?old of None \<Rightarrow> ImportInserted
    | Some old \<Rightarrow> if fst (capability_merge C old cap) = Inr True then ImportUpgraded else ImportNoChange)"
  let ?t = "(visible s)\<lparr>t_namespaces := table_insert ?i (capability_raw cap') (t_namespaces (visible s))\<rparr>"
  have f: "import_namespace_tables C cap (visible s) = (Inr out, ?t)"
    using import_namespace_tables_eq[OF ns, of cap] by (simp add: cap'_def out_def split: option.splits)
  obtain s' where s': "modify (import_namespace_tables C cap) s = (Inr out, s')" "visible s' = ?t" "tx_ok s'"
    by (rule modify_eq[where f = "import_namespace_tables C cap", OF tx f])
  have ok': "tables_ok C (visible s')" using import_namespace_tables_ok[OF ok f] s'(2) by simp
  have "stored_capability (visible s') ?i = Some cap'" by (simp add: s'(2) stored_capability_def table_get_insert)
  then have op: "fst (open_replica C ?i s') = Inr cap'" using open_replica_eq(1)[OF s'(3) ok'] by simp
  have old: "capability_id C old = ?i" if "?old = Some old" for old
    using that namespaces_ok_get[OF ns] by (metis stored_capability_eq sum.inject(2))
  have kind: "kind_of_capability c \<noteq> KindWrite \<longleftrightarrow> kind_of_capability c = KindRead" for c by (cases c) auto
  show ?thesis
    using s'(1) op old kind capability_merge_id[of C] capability_merge_kind[of C cap] capability_merge_changed[of C]
    by (auto simp: import_namespace_def cap'_def out_def split: option.splits)
qed

text \<open>Removing a replica: an open one is refused and nothing changes. Otherwise no record, capability, download
  policy or peer of the namespace remains, and those of every other namespace are as before. (The
  row of each author in the latest-entry table does remain.)\<close>

theorem remove_replica_clears:
  assumes "store_ok C s" "length ns = 32"
  shows "(ns \<in> st_open_replicas s \<longrightarrow> remove_replica ns s = (Inl ReplicaNotClosed, s)) \<and>
    (ns \<notin> st_open_replicas s \<longrightarrow> (\<exists>s'. remove_replica ns s = (Inr (), s') \<and>
       (\<forall>i. records_id_ok i \<longrightarrow> doc_map (visible s') i = (if fst i = ns then None else doc_map (visible s) i)) \<and>
       (\<forall>n. stored_capability (visible s') n = (if n = ns then None else stored_capability (visible s) n)) \<and>
       (\<forall>n. table_get (t_download_policy (visible s')) n = (if n = ns then None else table_get (t_download_policy (visible s)) n)) \<and>
       (\<forall>n. set (multimap_get (t_namespace_peers (visible s')) n) =
          (if n = ns then {} else set (multimap_get (t_namespace_peers (visible s)) n))) \<and>
       t_latest_per_author (visible s') = t_latest_per_author (visible s)))"
proof (cases "ns \<in> st_open_replicas s")
  case False
  have tx: "tx_ok s" and rok: "table_ok (t_records (visible s))"
    using assms by (simp_all add: store_ok_def tables_ok_def records_ok_def)
  obtain s' where s': "modify (remove_replica_tables ns) s = (Inr (), s')" "visible s' = snd (remove_replica_tables ns (visible s))"
    by (rule modify_eq[where f = "remove_replica_tables ns", OF tx]) (auto simp: remove_replica_tables_def)
  have "doc_map (visible s') i = (if fst i = ns then None else doc_map (visible s) i)" if "records_id_ok i" for i
    using namespace_row[OF assms(2) that]
    by (auto simp: s'(2) remove_replica_tables_def doc_map_def table_retain_in_def table_get_filter[OF rok] split: option.splits)
  then show ?thesis using False s'
    by (auto simp: remove_replica_def remove_replica_tables_def stored_capability_def table_get_remove set_multimap_get
        multimap_remove_all_def)
qed (simp add: remove_replica_def)

section \<open>Retraction\<close>

text \<open>Retracting an entry removes the row of exactly this author and key, only when it is not newer than the given
  time, reports whether it did, and leaves every other record as it was; no deletion marker is planted.\<close>

theorem retract_entry_exact:
  assumes "store_ok C s"
  shows "\<exists>s'. retract_entry ns a k up_to s =
       (Inr (case doc_map (visible s) (ns, a, k) of None \<Rightarrow> False | Some v \<Rightarrow> rec_timestamp (value_record v) \<le> up_to), s') \<and>
     store_ok C s' \<and>
     (\<forall>i. doc_map (visible s') i =
        (case doc_map (visible s) i of
           None \<Rightarrow> None
         | Some v \<Rightarrow> if i = (ns, a, k) \<and> rec_timestamp (value_record v) \<le> up_to then None else Some v))"
proof -
  have tx: "tx_ok s" using assms by (simp add: store_ok_def)
  let ?f = "retract_entry_tables ns a k up_to"
  obtain s' where s': "modify ?f s = (fst (?f (visible s)), s')" "visible s' = snd (?f (visible s))"
    by (rule modify_eq[where f = ?f, OF tx prod.collapse[symmetric]])
  have time: "rec_timestamp (value_record v) = fst v" for v by (cases v) (simp add: value_record_def record_new_def)
  have "keeps_store C s (snd (modify ?f s))"
    by (rule modify_keeps[OF assms]) (use assms retract_entry_tables_ok in \<open>auto simp: store_ok_def\<close>)
  then have "store_ok C s'" using s'(1) by (simp add: keeps_store_def)
  moreover have "fst (?f (visible s)) = Inr (case doc_map (visible s) (ns, a, k) of None \<Rightarrow> False
      | Some v \<Rightarrow> rec_timestamp (value_record v) \<le> up_to)"
    by (auto simp: retract_entry_tables_def doc_map_def time not_less split: option.splits)
  moreover have "doc_map (visible s') i = (case doc_map (visible s) i of None \<Rightarrow> None
      | Some v \<Rightarrow> if i = (ns, a, k) \<and> rec_timestamp (value_record v) \<le> up_to then None else Some v)" for i
    by (cases "doc_map (visible s) i"; cases "doc_map (visible s) (ns, a, k)")
       (auto simp: s'(2) retract_entry_tables_def doc_map_def time table_get_remove not_less)
  ultimately show ?thesis using s'(1) by (simp add: retract_entry_def)
qed

section \<open>Download policies and peers\<close>

text \<open>A download policy that was set is read back, and reading one that was never set gives the default; setting one for
  a namespace the store does not know is refused.\<close>

theorem download_policy_roundtrip:
  assumes "store_ok C s" "postcard_ok P"
  shows "(stored_capability (visible s) ns \<noteq> None \<longrightarrow>
       (\<exists>s'. set_download_policy P ns policy s = (Inr (), s') \<and> fst (get_download_policy P ns s') = Inr policy \<and>
          (\<forall>n. n \<noteq> ns \<longrightarrow> fst (get_download_policy P n s') = fst (get_download_policy P n s)))) \<and>
     (stored_capability (visible s) ns = None \<longrightarrow> fst (set_download_policy P ns policy s) = Inl DocumentNotCreated) \<and>
     (table_get (t_download_policy (visible s)) ns = None \<longrightarrow> fst (get_download_policy P ns s) = Inr download_policy_default)"
proof -
  have tx: "tx_ok s" and n: "namespaces_ok C (t_namespaces (visible s))" using assms(1) by (simp_all add: store_ok_def tables_ok_def)
  have known: "stored_capability (visible s) ns = None \<longleftrightarrow> table_get (t_namespaces (visible s)) ns = None"
  proof (cases "table_get (t_namespaces (visible s)) ns")
    case (Some raw)
    obtain cap where "parse_capability raw = Inr cap" by (rule namespaces_ok_get[OF n Some])
    then show ?thesis using Some by (simp add: stored_capability_def)
  qed (simp add: stored_capability_def)
  have get: "fst (get_download_policy P m u) = (case table_get (t_download_policy (visible u)) m of None \<Rightarrow> Inr download_policy_default
      | Some b \<Rightarrow> (case pc_from_bytes P b of Some p \<Rightarrow> Inr p | None \<Rightarrow> Inl PolicyDecode))" if u: "tx_ok u" for m u
    by (rule store_tables_eq[OF u]) (auto simp: get_download_policy_def split: option.splits)
  let ?f = "\<lambda>t. if table_get (t_namespaces t) ns = None then (Inl DocumentNotCreated, t)
     else (Inr (), t\<lparr>t_download_policy := table_insert ns (pc_to_stdvec P policy) (t_download_policy t)\<rparr>)"
  obtain r t where f: "?f (visible s) = (r, t)" by fastforce
  obtain s' where s': "modify ?f s = (r, s')" "visible s' = t" "tx_ok s'" by (rule modify_eq[where f = ?f, OF tx f])
  have stored: "table_get (t_download_policy (visible s')) m =
      (if m = ns then Some (pc_to_stdvec P policy) else table_get (t_download_policy (visible s)) m) \<and> r = Inr ()"
    if "table_get (t_namespaces (visible s)) ns \<noteq> None" for m
    using arg_cong[OF f, of fst] arg_cong[OF f, of snd, symmetric] that by (auto simp: s'(2) table_get_insert)
  have code: "pc_from_bytes P (pc_to_stdvec P policy) = Some policy" using assms(2) by (simp add: postcard_ok_def)
  show ?thesis
  proof (cases "table_get (t_namespaces (visible s)) ns = None")
    case True
    then show ?thesis using s'(1) f known get[OF tx] by (auto simp: set_download_policy_def)
  next
    case False
    then show ?thesis using s'(1) stored[OF False] code known get[OF tx] get[OF s'(3)] by (simp add: set_download_policy_def)
  qed
qed

lemma get_sync_peers_eq:
  assumes "tx_ok s"
  shows "fst (get_sync_peers ns s) = (let ps = map snd (rev (multimap_get (t_namespace_peers (visible s)) ns)) in if ps = [] then None else Some ps)"
  by (rule store_tables_eq[OF assms]) (auto simp: get_sync_peers_def Let_def)

text \<open>What registering a peer does to the peers of the namespace.\<close>

lemma register_peer_set:
  assumes "tables_ok C t" "register_peer_tables ns peer nanos t = (Inr (), t')"
  shows "(nanos, peer) \<in> set (multimap_get (t_namespace_peers t') ns)"
    "set (multimap_get (t_namespace_peers t') ns) \<subseteq> insert (nanos, peer) (set (multimap_get (t_namespace_peers t) ns))"
proof -
  let ?p = "t_namespace_peers t"
  have p: "table_ok ?p" using assms(1) by (simp add: tables_ok_def peers_ok_def)
  have "t_namespace_peers t' = multimap_insert ns (nanos, peer) ?p \<or>
      (\<exists>u q. t_namespace_peers t' = multimap_insert ns (nanos, peer) (multimap_remove ns (u, q) ?p)) \<or>
      (\<exists>u q. q \<noteq> peer \<and> t_namespace_peers t' = multimap_remove ns (u, q) (multimap_insert ns (nanos, peer) ?p))"
    using assms(2)
    by (auto simp: register_peer_tables_def Let_def split: if_splits list.splits prod.splits option.splits) blast+
  then show "(nanos, peer) \<in> set (multimap_get (t_namespace_peers t') ns)"
    "set (multimap_get (t_namespace_peers t') ns) \<subseteq> insert (nanos, peer) (set (multimap_get ?p ns))"
    using p by (auto simp: set_multimap_insert set_multimap_remove multimap_ok)
qed

lemma last_sorted_max:
  fixes xs :: "'a::linorder list"
  assumes "sorted_wrt (<) xs" "x \<in> set xs" "\<forall>y \<in> set xs. y \<le> x" shows "last xs = x"
proof -
  have "last xs \<in> set xs" "sorted xs" using assms(1,2) by (auto simp: strict_sorted_iff intro!: last_in_set)
  moreover have "x \<le> last xs" using assms(2) \<open>sorted xs\<close> by (metis last_conv_nth in_set_conv_nth sorted_nth_mono
        Suc_leI diff_less length_greater_0_conv less_Suc_eq_le Suc_pred' empty_iff list.set(1) less_numeral_extra(1))
  ultimately show ?thesis using assms(3) by (meson order_antisym)
qed

text \<open>The useful peers of a document: a peer registered later than all others is listed first, the list
  never has more than five peers and never repeats one.\<close>

theorem registered_peer_first:
  assumes "store_ok C s" "register_useful_peer (Some nanos) ns peer s = (Inr (), s')"
    "\<forall>row \<in> set (multimap_get (t_namespace_peers (visible s)) ns). fst row < (word_of_nat nanos :: u64)"
  shows "\<exists>ps. fst (get_sync_peers ns s') = Some ps \<and> hd ps = peer \<and> length ps \<le> 5 \<and> distinct ps"
proof -
  let ?n = "word_of_nat nanos :: u64" and ?f = "register_peer_tables ns peer (word_of_nat nanos)"
  have tx: "tx_ok s" and ok: "tables_ok C (visible s)" using assms(1) by (simp_all add: store_ok_def)
  have f: "?f (visible s) = (Inr (), visible s')" "tx_ok s'"
    using modify_laws[OF tx, of ?f "Inr ()" s'] assms(2) by (simp_all add: register_useful_peer_def)
  note reg = register_peer_set[OF ok f(1)]
  have p: "peers_ok (t_namespace_peers (visible s'))"
    using register_peer_tables_ok[OF ok f(1)] by (simp add: tables_ok_def)
  let ?rows = "multimap_get (t_namespace_peers (visible s')) ns"
  have sorted: "sorted_wrt (<) ?rows" using p multimap_get_sorted by (auto simp: peers_ok_def)
  have "\<forall>y \<in> set ?rows. y \<le> (?n, peer)" using reg(2) assms(3) by (auto simp: less_eq_prod_def)
  then have "last ?rows = (?n, peer)" using last_sorted_max[OF sorted reg(1)] by blast
  moreover have "?rows \<noteq> []" using reg(1) by auto
  ultimately have "hd (map snd (rev ?rows)) = peer" by (simp add: hd_map hd_rev)
  moreover have "length ?rows \<le> 5" "distinct (map snd ?rows)" using p by (auto simp: peers_ok_def PEERS_PER_DOC_CACHE_SIZE_def)
  ultimately show ?thesis using get_sync_peers_eq[OF f(2), of ns] \<open>?rows \<noteq> []\<close>
    by (simp add: Let_def rev_map[symmetric])
qed

section \<open>Closed instances\<close>

lemma sample_store_store_ok: "\<forall>e \<in> set es. entry_ok e \<Longrightarrow> store_ok sample_crypto (sample_store es)"
  using fold_place_ok[OF tables_ok_empty, of es sample_crypto]
  by (simp add: store_ok_def visible_def tx_ok_def sample_store_def store_memory_def key_cache_ok_def)

definition sample_known :: fs_store where
  "sample_known = (store_memory (\<lambda>n. n))\<lparr>st_db := tables_empty\<lparr>t_namespaces := [(sample_ns, capability_raw (Read sample_ns))]\<rparr>\<rparr>"

lemma sample_known_visible: "visible sample_known = tables_empty\<lparr>t_namespaces := [(sample_ns, capability_raw (Read sample_ns))]\<rparr>"
  by (simp add: sample_known_def visible_def store_memory_def)

lemma sample_known_ok: "store_ok sample_crypto sample_known"
proof -
  have "tables_ok sample_crypto (tables_empty\<lparr>t_namespaces := [(sample_ns, capability_raw (Read sample_ns))]\<rparr>)"
    using tables_ok_empty[of sample_crypto] by (auto simp: tables_ok_def namespaces_ok_def table_ok_def)
  then show ?thesis
    by (simp add: store_ok_def visible_def tx_ok_def sample_known_def store_memory_def key_cache_ok_def)
qed

lemma sample_known_capability: "stored_capability (visible sample_known) sample_ns = Some (Read sample_ns)"
  by (simp add: sample_known_visible stored_capability_def table_get_def)

theorem disk_is_past_state_witness:
  "\<exists>u. (store_step sample_crypto policy_postcard)\<^sup>*\<^sup>* sample_known u \<and>
     st_db (snd (import_author sample_crypto sample_writer sample_known)) = visible u"
proof -
  have "(store_step sample_crypto policy_postcard)\<^sup>*\<^sup>* sample_known (snd (import_author sample_crypto sample_writer sample_known))"
    by (rule r_into_rtranclp) (rule do_import_author)
  from disk_is_past_state[OF this sample_known_ok] show ?thesis
    by (auto simp: sample_known_visible) (auto simp: sample_known_def)
qed

theorem flush_makes_durable_witness:
  "st_db (flush (snd (import_author sample_crypto sample_writer sample_known))) =
     visible (snd (import_author sample_crypto sample_writer sample_known))"
proof -
  have "tx_ok (snd (import_author sample_crypto sample_writer sample_known))"
    using step_keeps_store[OF do_import_author sample_known_ok] by (simp add: keeps_store_def store_ok_def)
  from flush_makes_durable[OF this] show ?thesis by blast
qed

theorem put_not_atomic_witness:
  "\<exists>n s'. ranger_put (signed_entry_range sample_crypto) (instance_ops sample_crypto sample_ns None)
       (sample_entry [97] (record_new [8] 1 6))
       ((sample_store [sample_entry [97] (record_new [7] 1 5)])\<lparr>st_clock := (\<lambda>n. n * 1000000000)\<rparr>) = (Inr (Inserted n), s') \<and>
     doc_map (visible s') (sample_ns, sample_author, [97]) \<noteq> None \<and> doc_map (st_db s') (sample_ns, sample_author, [97]) = None"
proof -
  let ?old = "sample_entry [97] (record_new [7] 1 5)" and ?new = "sample_entry [97] (record_new [8] 1 6)"
  let ?s = "(sample_store [?old])\<lparr>st_clock := (\<lambda>n. n * 1000000000)\<rparr>"
  have vis: "visible ?s = tables_place ?old tables_empty" by (simp add: visible_def sample_store_def store_memory_def)
  have v: "instance_valid sample_crypto sample_ns None ?s"
    using sample_store_valid[of "[?old]" sample_ns sample_crypto]
    by (simp add: instance_valid_def vis) (simp add: tx_ok_def sample_store_def store_memory_def)
  have ok: "tables_ok sample_crypto (visible ?s)" using v by (simp add: instance_valid_def)
  have le: "record_le (record_new [7] 1 5) (record_new [8] 1 6)" "\<not> record_le (record_new [8] 1 6) (record_new [7] 1 5)"
    by (simp_all add: record_le_iff record_new_def)
  have doc: "doc_map (visible ?s) = [(sample_ns, sample_author, [97]) \<mapsto> snd (records_row ?old)]"
    using doc_map_entry_put[OF place_eq, of ?old tables_empty] by (simp add: vis records_row_def)
  have free: "\<not> superseded sample_crypto (doc_map (visible ?s)) ?new"
    using le(2) records_row_value[of ?old] by (auto simp: superseded_iff blocks_def doc split: if_splits)
  have tx: "st_transaction ?s = NoTransaction" by (simp add: sample_store_def store_memory_def)
  have clock: "slow_clock (st_clock ?s)" by (simp add: slow_clock_def MAX_COMMIT_DELAY_def)
  obtain n s' where s': "ranger_put (signed_entry_range sample_crypto) (instance_ops sample_crypto sample_ns None) ?new ?s = (Inr (Inserted n), s')"
    "visible s' = tables_place ?new (snd (tables_prune ?new (visible ?s)))" "st_db s' = snd (tables_prune ?new (visible ?s))"
    using put_not_atomic[OF v _ free tx clock] by auto
  have "doc_map (st_db s') (sample_ns, sample_author, [97]) = None"
    using remove_prefix_tables_eq(1)[OF ok, of ?new] prune_eq[of ?new "visible ?s"] le(1) records_row_value[of ?old]
    by (simp add: s'(3) doc covers_def)
  moreover have "doc_map (visible s') (sample_ns, sample_author, [97]) \<noteq> None"
    using doc_map_entry_put[OF place_eq, of ?new] by (simp add: s'(2) records_row_def)
  ultimately show ?thesis using s'(1) by blast
qed

theorem import_then_open_witness:
  "\<exists>out s' cap'. import_namespace sample_crypto (Write sample_secret) sample_known = (Inr out, s') \<and>
     fst (open_replica sample_crypto sample_ns s') = Inr cap' \<and> kind_of_capability cap' = KindWrite \<and> out = ImportUpgraded"
  using import_then_open[OF sample_known_ok, of "Write sample_secret"] sample_known_capability by auto

theorem remove_replica_clears_witness:
  "\<exists>s'. remove_replica sample_ns sample_known = (Inr (), s') \<and> stored_capability (visible s') sample_ns = None"
  using remove_replica_clears[OF sample_known_ok sample_ids(1)] by (auto simp: sample_known_def store_memory_def)

theorem retract_entry_exact_witness:
  "\<exists>s'. retract_entry sample_ns sample_author [97] 5 (sample_store [sample_entry [97] (record_new [7] 1 5)]) = (Inr True, s') \<and>
     doc_map (visible s') (sample_ns, sample_author, [97]) = None"
proof -
  let ?old = "sample_entry [97] (record_new [7] 1 5)"
  have doc: "doc_map (visible (sample_store [?old])) (sample_ns, sample_author, [97]) = Some (snd (records_row ?old))"
    using doc_map_entry_put[OF place_eq, of ?old tables_empty] by (simp add: records_row_def)
  have "rec_timestamp (value_record (snd (records_row ?old))) = 5"
    using records_row_value[of ?old] by (simp add: record_new_def)
  moreover have "store_ok sample_crypto (sample_store [?old])" by (rule sample_store_store_ok) simp
  ultimately show ?thesis
    using retract_entry_exact[of sample_crypto "sample_store [?old]" sample_ns sample_author "[97]" 5] doc by auto
qed

theorem download_policy_roundtrip_witness:
  "\<exists>s'. set_download_policy policy_postcard sample_ns (NothingExcept [FilterPrefix [97]]) sample_known = (Inr (), s') \<and>
     fst (get_download_policy policy_postcard sample_ns s') = Inr (NothingExcept [FilterPrefix [97]])"
  using download_policy_roundtrip[OF sample_known_ok policy_postcard_ok, of sample_ns] sample_known_capability by auto

theorem registered_peer_first_witness:
  "\<exists>ps. fst (get_sync_peers sample_ns (snd (register_useful_peer (Some 7) sample_ns [9] sample_known))) = Some ps \<and> hd ps = [9]"
proof -
  have f: "register_peer_tables sample_ns [9] 7 (visible sample_known) =
      (Inr (), (visible sample_known)\<lparr>t_namespace_peers := multimap_insert sample_ns (7, [9]) []\<rparr>)"
    by (simp add: register_peer_tables_def sample_known_visible table_get_def tables_empty_def multimap_get_def)
  have "tx_ok sample_known" using sample_known_ok by (simp add: store_ok_def)
  then obtain s' where "modify (register_peer_tables sample_ns [9] 7) sample_known = (Inr (), s')"
    by (rule modify_eq[where f = "register_peer_tables sample_ns [9] 7", OF _ f])
  then have "register_useful_peer (Some 7) sample_ns [9] sample_known = (Inr (), s')" by (simp add: register_useful_peer_def)
  with registered_peer_first[OF sample_known_ok this] show ?thesis
    by (auto simp: sample_known_visible tables_empty_def multimap_get_def)
qed

end
