(* ===== verification/Query.thy ===== *)
theory Query
  imports Store_Ingest
begin

text \<open>
  Queries over a document: the index choice and the latest-per-key selector of
  \<^verbatim>\<open>src/src/store/util.rs\<close>, the filtered double-ended table ranges of \<^verbatim>\<open>src/src/store/fs/ranges.rs\<close>
  and the query iterator of \<^verbatim>\<open>src/src/store/fs/query.rs\<close>. A double-ended range is the list of its
  remaining rows. The loops are recursive functions with a termination proof; the iterator is then
  shown to yield a page of a plain list.
\<close>

section \<open>Index choice and selector\<close>

datatype index_kind =
    IndexAuthorKey author_filter key_filter
  | IndexKeyAuthor key_filter author_filter bool

definition index_kind_of :: "query \<Rightarrow> index_kind" where
  "index_kind_of q =
     (case qb_kind q of
        Flat by \<Rightarrow>
          (case (qb_filter_author q, by) of
             (AnyAuthor, KeyAuthor) \<Rightarrow> IndexKeyAuthor (qb_filter_key q) AnyAuthor False
           | _ \<Rightarrow> IndexAuthorKey (qb_filter_author q) (qb_filter_key q))
      | SingleLatestPerKey \<Rightarrow> IndexKeyAuthor (qb_filter_key q) (qb_filter_author q) True)"

datatype selector_res = SelFinished | SelContinue | SelSome signed_entry

definition selector_push :: "signed_entry option \<Rightarrow> signed_entry option \<Rightarrow> selector_res \<times> signed_entry option" where
  "selector_push entry self =
     (case entry of
        None \<Rightarrow> (case self of Some held \<Rightarrow> (SelSome held, None) | None \<Rightarrow> (SelFinished, None))
      | Some e \<Rightarrow>
          (case self of
             None \<Rightarrow> (SelContinue, Some e)
           | Some held \<Rightarrow>
               if entry_key (se_entry held) = entry_key (se_entry e)
               then (SelContinue, Some (if entry_timestamp (se_entry held) < entry_timestamp (se_entry e) then e else held))
               else (SelSome held, Some e)))"

section \<open>Ranges\<close>

definition range_pop :: "sort_direction \<Rightarrow> 'a list \<Rightarrow> ('a \<times> 'a list) option" where
  "range_pop dir rows =
     (if rows = [] then None
      else case dir of Asc \<Rightarrow> Some (hd rows, tl rows) | Desc \<Rightarrow> Some (last rows, butlast rows))"

lemma range_pop_length: "range_pop dir rows = Some (x, rest) \<Longrightarrow> length rows = Suc (length rest)"
  by (cases dir; cases rows) (auto simp: range_pop_def split: if_splits)

function next_filter_map :: "sort_direction \<Rightarrow> ('a \<Rightarrow> 'b option) \<Rightarrow> 'a list \<Rightarrow> 'b option \<times> 'a list" where
  "next_filter_map dir f rows =
     (case range_pop dir rows of
        None \<Rightarrow> (None, rows)
      | Some (x, rest) \<Rightarrow> (case f x of None \<Rightarrow> next_filter_map dir f rest | Some y \<Rightarrow> (Some y, rest)))"
  by pat_completeness auto
termination by (relation "measure (\<lambda>(_, _, rows). length rows)") (auto dest: range_pop_length)

declare next_filter_map.simps [simp del]

definition records_next_filtered ::
  "sort_direction \<Rightarrow> (records_id \<Rightarrow> records_value \<Rightarrow> bool) \<Rightarrow> records_table \<Rightarrow> signed_entry option \<times> records_table" where
  "records_next_filtered dir p = next_filter_map dir (\<lambda>row. if p (fst row) (snd row) then Some (into_entry row) else None)"

definition by_key_next_filtered ::
  "records_table \<Rightarrow> sort_direction \<Rightarrow> (by_key_id \<Rightarrow> bool) \<Rightarrow> (by_key_id, unit) table
     \<Rightarrow> signed_entry option \<times> (by_key_id, unit) table" where
  "by_key_next_filtered records dir p = next_filter_map dir (\<lambda>row.
     if \<not> p (fst row) then None
     else (case fst row of (namespace, key, author) \<Rightarrow>
       map_option (\<lambda>v. into_entry ((namespace, author, key), v)) (table_get records (namespace, author, key))))"

section \<open>The query iterator\<close>

datatype query_range =
    RangeAuthorKey records_table key_filter
  | RangeKeyAuthor "(by_key_id, unit) table" records_table author_filter "signed_entry option option"

record query_iterator =
  qi_range :: query_range
  qi_query :: query
  qi_offset :: u64
  qi_count :: u64

definition query_iterator_new :: "tables \<Rightarrow> namespace_id \<Rightarrow> query \<Rightarrow> query_iterator" where
  "query_iterator_new t ns q =
     \<lparr>qi_range = (case index_kind_of q of
          IndexAuthorKey af kf \<Rightarrow>
            (case (case af of
                ExactAuthor a \<Rightarrow> (records_bounds_author_key ns a kf, AnyKey)
              | AnyAuthor \<Rightarrow> (records_bounds_namespace ns, kf)) of
              (bounds, filt) \<Rightarrow> RangeAuthorKey (table_range bounds (t_records t)) filt)
        | IndexKeyAuthor kf af latest_per_key \<Rightarrow>
            RangeKeyAuthor (table_range (by_key_bounds_new ns kf) (t_records_by_key t)) (t_records t) af
              (if latest_per_key then Some None else None)),
      qi_query = q, qi_offset = 0, qi_count = 0\<rparr>"

definition value_is_empty :: "crypto \<Rightarrow> records_value \<Rightarrow> bool" where
  "value_is_empty C v = (case v of (_, _, _, _, hash) \<Rightarrow> hash = hash_empty C)"

text \<open>The inner loop of the by-key case. Its measure: a row that is read, or an entry the selector
  gives up.\<close>

lemma next_filter_map_length:
  "next_filter_map dir f rows = (r, rest) \<Longrightarrow> length rest + (if r = None then 0 else 1) \<le> length rows"
proof (induction dir f rows rule: next_filter_map.induct)
  case (1 dir f rows)
  show ?case
  proof (cases "range_pop dir rows")
    case None
    then show ?thesis using "1.prems" by (subst (asm) next_filter_map.simps) auto
  next
    case (Some p)
    obtain x rest' where p: "p = (x, rest')" by fastforce
    note len = range_pop_length[OF Some[unfolded p]]
    show ?thesis
    proof (cases "f x")
      case None
      then have "next_filter_map dir f rest' = (r, rest)"
        using "1.prems" Some p by (subst (asm) next_filter_map.simps) simp
      then show ?thesis using "1.IH"[OF Some p[symmetric] None] len by simp
    next
      case (Some y)
      then show ?thesis using "1.prems" \<open>range_pop dir rows = Some p\<close> p len
        by (subst (asm) next_filter_map.simps) auto
    qed
  qed
qed

function key_author_next ::
  "crypto \<Rightarrow> query \<Rightarrow> records_table \<Rightarrow> author_filter \<Rightarrow> (by_key_id, unit) table \<Rightarrow> signed_entry option option
     \<Rightarrow> signed_entry option \<times> (by_key_id, unit) table \<times> signed_entry option option" where
  "key_author_next C q records af rows sel =
     (case by_key_next_filtered records (qb_sort_direction q) (\<lambda>(_, _, author). author_filter_matches af author) rows of
        (popped, rows') \<Rightarrow>
          (case (case sel of
               None \<Rightarrow> (case popped of None \<Rightarrow> SelFinished | Some e \<Rightarrow> SelSome e, None)
             | Some held \<Rightarrow> (case selector_push popped held of (res, held') \<Rightarrow> (res, Some held'))) of
             (SelContinue, sel') \<Rightarrow> key_author_next C q records af rows' sel'
           | (SelFinished, sel') \<Rightarrow> (None, rows', sel')
           | (SelSome e, sel') \<Rightarrow>
               if \<not> qb_include_empty q \<and> signed_entry_is_empty C e
               then key_author_next C q records af rows' sel'
               else (Some e, rows', sel')))"
  by pat_completeness auto
termination
  by (relation "measure (\<lambda>(_, _, _, _, rows, sel). 2 * length rows + (case sel of Some (Some _) \<Rightarrow> 1 | _ \<Rightarrow> 0))")
     (auto simp: by_key_next_filtered_def selector_push_def dest!: sym[of "(_, _)" "next_filter_map _ _ _"] next_filter_map_length
       split: option.splits if_splits prod.splits)

declare key_author_next.simps [simp del]

definition range_next :: "crypto \<Rightarrow> query \<Rightarrow> query_range \<Rightarrow> signed_entry option \<times> query_range" where
  "range_next C q rg =
     (case rg of
        RangeAuthorKey rows kf \<Rightarrow>
          (case records_next_filtered (qb_sort_direction q)
                  (\<lambda>(_, _, key) v. key_filter_matches kf key \<and> (qb_include_empty q \<or> \<not> value_is_empty C v)) rows of
             (popped, rows') \<Rightarrow> (popped, RangeAuthorKey rows' kf))
      | RangeKeyAuthor rows records af sel \<Rightarrow>
          (case key_author_next C q records af rows sel of
             (popped, rows', sel') \<Rightarrow> (popped, RangeKeyAuthor rows' records af sel')))"

section \<open>What a range yields\<close>

definition in_direction :: "sort_direction \<Rightarrow> 'a list \<Rightarrow> 'a list" where
  "in_direction dir rows = (case dir of Asc \<Rightarrow> rows | Desc \<Rightarrow> rev rows)"

lemma range_pop_direction:
  "in_direction dir rows = (case range_pop dir rows of None \<Rightarrow> [] | Some (x, rest) \<Rightarrow> x # in_direction dir rest)"
  by (cases dir; cases rows rule: rev_cases; cases rows) (auto simp: range_pop_def in_direction_def split: if_splits)

lemma next_filter_map_yields:
  "next_filter_map dir f rows = (r, rest) \<Longrightarrow>
     List.map_filter f (in_direction dir rows) =
       (case r of None \<Rightarrow> [] | Some y \<Rightarrow> y # List.map_filter f (in_direction dir rest)) \<and>
     (r = None \<longrightarrow> rest = [])"
proof (induction dir f rows rule: next_filter_map.induct)
  case (1 dir f rows)
  show ?case
  proof (cases "range_pop dir rows")
    case None
    then show ?thesis using "1.prems" range_pop_direction[of dir rows]
      by (subst (asm) next_filter_map.simps) (auto simp: List.map_filter_simps range_pop_def split: if_splits sort_direction.splits)
  next
    case pop: (Some p)
    obtain x rest' where p: "p = (x, rest')" by fastforce
    have dir: "in_direction dir rows = x # in_direction dir rest'" using range_pop_direction[of dir rows] pop p by simp
    show ?thesis
    proof (cases "f x")
      case None
      then have "next_filter_map dir f rest' = (r, rest)"
        using "1.prems" pop p by (subst (asm) next_filter_map.simps) simp
      then show ?thesis using "1.IH"[OF pop p[symmetric] None] dir None by (simp add: List.map_filter_simps)
    next
      case (Some y)
      then have "r = Some y" "rest = rest'" using "1.prems" pop p by (subst (asm) next_filter_map.simps; simp)+
      then show ?thesis using dir Some by (simp add: List.map_filter_simps)
    qed
  qed
qed

text \<open>The selector as a function on the sorted list of entries.\<close>

fun select_latest :: "signed_entry option \<Rightarrow> signed_entry list \<Rightarrow> signed_entry list" where
  "select_latest None [] = []"
| "select_latest (Some held) [] = [held]"
| "select_latest None (e # es) = select_latest (Some e) es"
| "select_latest (Some held) (e # es) =
     (if entry_key (se_entry held) = entry_key (se_entry e)
      then select_latest (Some (if entry_timestamp (se_entry held) < entry_timestamp (se_entry e) then e else held)) es
      else held # select_latest (Some e) es)"

definition by_key_entries ::
  "records_table \<Rightarrow> sort_direction \<Rightarrow> author_filter \<Rightarrow> (by_key_id, unit) table \<Rightarrow> signed_entry list" where
  "by_key_entries records dir af rows =
     List.map_filter (\<lambda>row. if \<not> (\<lambda>(_, _, author). author_filter_matches af author) (fst row) then None
       else (case fst row of (namespace, key, author) \<Rightarrow>
         map_option (\<lambda>v. into_entry ((namespace, author, key), v)) (table_get records (namespace, author, key))))
       (in_direction dir rows)"

fun range_output :: "crypto \<Rightarrow> query \<Rightarrow> query_range \<Rightarrow> signed_entry list" where
  "range_output C q (RangeAuthorKey rows kf) =
     map into_entry (filter (\<lambda>((_, _, key), v). key_filter_matches kf key \<and> (qb_include_empty q \<or> \<not> value_is_empty C v))
       (in_direction (qb_sort_direction q) rows))"
| "range_output C q (RangeKeyAuthor rows records af sel) =
     filter (\<lambda>e. qb_include_empty q \<or> \<not> signed_entry_is_empty C e)
       (let es = by_key_entries records (qb_sort_direction q) af rows in
        case sel of None \<Rightarrow> es | Some held \<Rightarrow> select_latest held es)"

fun range_size :: "query_range \<Rightarrow> nat" where
  "range_size (RangeAuthorKey rows kf) = length rows"
| "range_size (RangeKeyAuthor rows records af sel) =
     2 * length rows + (case sel of Some (Some _) \<Rightarrow> 1 | _ \<Rightarrow> 0)"

lemma by_key_pop:
  assumes "by_key_next_filtered records dir (\<lambda>(_, _, author). author_filter_matches af author) rows = (popped, rows')"
  shows "by_key_entries records dir af rows =
      (case popped of None \<Rightarrow> [] | Some e \<Rightarrow> e # by_key_entries records dir af rows')"
    and "length rows' + (if popped = None then 0 else 1) \<le> length rows" and "popped = None \<Longrightarrow> rows' = []"
  using next_filter_map_yields[OF assms[unfolded by_key_next_filtered_def]]
    next_filter_map_length[OF assms[unfolded by_key_next_filtered_def]]
  unfolding by_key_entries_def by simp_all

lemma key_author_next_yields:
  "key_author_next C q records af rows sel = (r, rows', sel') \<Longrightarrow>
     range_output C q (RangeKeyAuthor rows records af sel) =
       (case r of None \<Rightarrow> [] | Some e \<Rightarrow> e # range_output C q (RangeKeyAuthor rows' records af sel')) \<and>
     range_size (RangeKeyAuthor rows' records af sel') + (if r = None then 0 else 1) \<le>
       range_size (RangeKeyAuthor rows records af sel)"
proof (induction C q records af rows sel rule: key_author_next.induct)
  case (1 C q records af rows sel)
  obtain popped rest where pop: "by_key_next_filtered records (qb_sort_direction q)
      (\<lambda>(_, _, author). author_filter_matches af author) rows = (popped, rest)" by fastforce
  note bk = by_key_pop[OF pop]
  obtain res sl where push: "(case sel of
               None \<Rightarrow> (case popped of None \<Rightarrow> SelFinished | Some e \<Rightarrow> SelSome e, None)
             | Some held \<Rightarrow> (case selector_push popped held of (res, held') \<Rightarrow> (res, Some held'))) = (res, sl)" by fastforce
  have none: "by_key_entries records (qb_sort_direction q) af [] = []"
    by (simp add: by_key_entries_def in_direction_def List.map_filter_simps split: sort_direction.splits)
  have step: "range_output C q (RangeKeyAuthor rows records af sel) =
      (case res of SelFinished \<Rightarrow> []
       | SelContinue \<Rightarrow> range_output C q (RangeKeyAuthor rest records af sl)
       | SelSome e \<Rightarrow> (if \<not> qb_include_empty q \<and> signed_entry_is_empty C e then [] else [e]) @
           range_output C q (RangeKeyAuthor rest records af sl))"
    using push bk(1,3) none
    by (auto simp: selector_push_def Let_def split: option.splits if_splits prod.splits)
  have size: "range_size (RangeKeyAuthor rest records af sl) + (if res = SelFinished then 0 else 1) \<le>
      range_size (RangeKeyAuthor rows records af sel)"
    using push bk(2) by (auto simp: selector_push_def split: option.splits if_splits prod.splits)
  show ?case
    using "1.prems" "1.IH"(1)[OF pop[symmetric] push[symmetric]] "1.IH"(2)[OF pop[symmetric] push[symmetric]] step size
    by (subst (asm) key_author_next.simps) (auto simp: pop push split: selector_res.splits if_splits)
qed

lemma range_next_yields:
  assumes "range_next C q rg = (r, rg')"
  shows "range_output C q rg = (case r of None \<Rightarrow> [] | Some e \<Rightarrow> e # range_output C q rg') \<and>
     range_size rg' + (if r = None then 0 else 1) \<le> range_size rg"
proof (cases rg)
  case (RangeAuthorKey rows kf)
  let ?p = "\<lambda>(_, _, key) v. key_filter_matches kf key \<and> (qb_include_empty q \<or> \<not> value_is_empty C v)"
  obtain rows' where nx: "next_filter_map (qb_sort_direction q)
      (\<lambda>row. if ?p (fst row) (snd row) then Some (into_entry row) else None) rows = (r, rows')" "rg' = RangeAuthorKey rows' kf"
    using assms RangeAuthorKey by (auto simp: range_next_def records_next_filtered_def split: prod.splits)
  have out: "range_output C q (RangeAuthorKey rs kf) =
      List.map_filter (\<lambda>row. if ?p (fst row) (snd row) then Some (into_entry row) else None)
        (in_direction (qb_sort_direction q) rs)" for rs
    by (auto simp: List.map_filter_def comp_def case_prod_unfold intro!: arg_cong2[where f = map] filter_cong)
  show ?thesis using next_filter_map_yields[OF nx(1)] next_filter_map_length[OF nx(1)] nx(2) RangeAuthorKey
    unfolding RangeAuthorKey nx(2) out by simp
next
  case (RangeKeyAuthor rows records af sel)
  then show ?thesis using assms key_author_next_yields[of C q records af rows sel]
    by (auto simp: range_next_def split: prod.splits)
qed

section \<open>The iterator\<close>

function query_loop :: "crypto \<Rightarrow> query_iterator \<Rightarrow> signed_entry option \<times> query_iterator" where
  "query_loop C it =
     (case range_next C (qi_query it) (qi_range it) of
        (popped, rg) \<Rightarrow>
          if qi_offset it < qb_offset (qi_query it) \<and> popped \<noteq> None
          then query_loop C (it\<lparr>qi_range := rg, qi_offset := qi_offset it + 1\<rparr>)
          else (popped, it\<lparr>qi_range := rg, qi_count := qi_count it + 1\<rparr>))"
  by pat_completeness auto
termination
  by (relation "measure (\<lambda>(_, it). range_size (qi_range it))")
     (auto dest!: sym[of "(_, _)" "range_next _ _ _"] range_next_yields)

declare query_loop.simps [simp del]

definition query_next :: "crypto \<Rightarrow> query_iterator \<Rightarrow> signed_entry option \<times> query_iterator" where
  "query_next C it =
     (case qb_limit (qi_query it) of
        Some limit \<Rightarrow> if limit \<le> qi_count it then (None, it) else query_loop C it
      | None \<Rightarrow> query_loop C it)"

text \<open>What the iterator still has to yield after the offset.\<close>

definition after_offset :: "crypto \<Rightarrow> query_iterator \<Rightarrow> signed_entry list" where
  "after_offset C it = drop (unat (qb_offset (qi_query it)) - unat (qi_offset it)) (range_output C (qi_query it) (qi_range it))"

lemma unat_succ_below:
  assumes "(a :: u64) < b" shows "unat (a + 1) = Suc (unat a)"
proof -
  have "unat b < 2 ^ LENGTH(64)" by (rule unsigned_less)
  then have "Suc (unat a) < 2 ^ LENGTH(64)" using assms by (simp add: word_less_nat_alt)
  then show ?thesis by (simp add: unat_word_ariths)
qed

lemma query_loop_yields:
  "query_loop C it = (r, it') \<Longrightarrow>
     after_offset C it = (case r of None \<Rightarrow> [] | Some e \<Rightarrow> e # after_offset C it') \<and>
     qi_query it' = qi_query it \<and> qi_count it' = qi_count it + 1 \<and>
     range_size (qi_range it') + (if r = None then 0 else 1) \<le> range_size (qi_range it)"
proof (induction C it rule: query_loop.induct)
  case (1 C it)
  obtain popped rg where nx: "range_next C (qi_query it) (qi_range it) = (popped, rg)" by fastforce
  note y = range_next_yields[OF nx]
  show ?case
  proof (cases "qi_offset it < qb_offset (qi_query it) \<and> popped \<noteq> None")
    case True
    then obtain e where e: "popped = Some e" by blast
    have less: "unat (qi_offset it) < unat (qb_offset (qi_query it))" using True by (simp add: word_less_nat_alt)
    have suc: "unat (qi_offset it + 1) = Suc (unat (qi_offset it))" using unat_succ_below True by blast
    have "query_loop C (it\<lparr>qi_range := rg, qi_offset := qi_offset it + 1\<rparr>) = (r, it')"
      using "1.prems" True by (subst (asm) query_loop.simps) (simp add: nx)
    from "1.IH"[OF nx[symmetric] True this] show ?thesis
      using y e less suc by (auto simp: after_offset_def drop_Cons' split: option.splits)
  next
    case False
    then have r: "r = popped" "it' = it\<lparr>qi_range := rg, qi_count := qi_count it + 1\<rparr>"
      using "1.prems" by (subst (asm) query_loop.simps; auto simp: nx)+
    have "popped = None \<or> unat (qb_offset (qi_query it)) - unat (qi_offset it) = 0"
      using False by (auto simp: word_less_nat_alt)
    then show ?thesis using y r by (auto simp: after_offset_def split: option.splits)
  qed
qed

lemma query_next_size:
  "query_next C it = (Some e, it') \<Longrightarrow> range_size (qi_range it') < range_size (qi_range it)"
  by (auto simp: query_next_def dest!: query_loop_yields split: option.splits if_splits)

text \<open>Collecting an iterator.\<close>

function query_run :: "crypto \<Rightarrow> query_iterator \<Rightarrow> signed_entry list" where
  "query_run C it = (case query_next C it of (None, _) \<Rightarrow> [] | (Some e, it') \<Rightarrow> e # query_run C it')"
  by pat_completeness auto
termination
  by (relation "measure (\<lambda>(_, it). range_size (qi_range it))")
     (auto dest!: sym[of "(_, _)" "query_next _ _"] query_next_size)

declare query_run.simps [simp del]

definition page :: "u64 option \<Rightarrow> nat \<Rightarrow> 'a list \<Rightarrow> 'a list" where
  "page limit used xs = (case limit of None \<Rightarrow> xs | Some l \<Rightarrow> take (unat l - used) xs)"

lemma query_run_page:
  "query_run C it = page (qb_limit (qi_query it)) (unat (qi_count it)) (after_offset C it)"
proof (induction C it rule: query_run.induct)
  case (1 C it)
  obtain r it' where nx: "query_next C it = (r, it')" by fastforce
  show ?case
  proof (cases "\<exists>l. qb_limit (qi_query it) = Some l \<and> l \<le> qi_count it")
    case True
    then show ?thesis
      by (subst query_run.simps) (auto simp: query_next_def page_def word_le_nat_alt)
  next
    case False
    then have loop: "query_loop C it = (r, it')" using nx by (auto simp: query_next_def split: option.splits if_splits)
    note y = query_loop_yields[OF loop]
    show ?thesis
    proof (cases r)
      case None
      then show ?thesis using y by (subst query_run.simps) (auto simp: nx page_def split: option.splits)
    next
      case (Some e)
      have suc: "unat (qi_count it + 1) = Suc (unat (qi_count it))" if "qb_limit (qi_query it) = Some l" for l
        by (rule unat_succ_below[of _ l]) (use False that in auto)
      have lt: "unat (qi_count it) < unat l" if "qb_limit (qi_query it) = Some l" for l
        using False that by (auto simp: word_le_nat_alt not_le)
      have "query_run C it' = page (qb_limit (qi_query it')) (unat (qi_count it')) (after_offset C it')"
        using "1"[OF nx[symmetric] Some] by simp
      then show ?thesis using y Some suc lt
        by (subst query_run.simps) (auto simp: nx page_def take_Cons' split: option.splits)
    qed
  qed
qed

definition get_many :: "namespace_id \<Rightarrow> query \<Rightarrow> fs_store \<Rightarrow> query_iterator \<times> fs_store" where
  "get_many ns q s = (case snapshot_owned s of (t, s') \<Rightarrow> (query_iterator_new t ns q, s'))"

section \<open>The entries behind the indexes\<close>

lemma sorted_key_unique:
  fixes f :: "'a \<Rightarrow> 'b::linorder"
  assumes "sorted_wrt (<) (map f xs)" "sorted_wrt (<) (map f ys)" "set xs = set ys"
  shows "xs = ys"
proof -
  have "map f xs = map f ys"
    using assms sorted_wrt_less_distinct[OF assms(1)] sorted_wrt_less_distinct[OF assms(2)]
    by (intro sorted_distinct_set_unique) (auto simp: strict_sorted_iff)
  moreover have "inj_on f (set xs \<union> set ys)"
    using sorted_wrt_less_distinct[OF assms(1)] assms(3) by (simp add: distinct_map)
  ultimately show ?thesis by (metis map_inj_on)
qed

definition key_author :: "signed_entry \<Rightarrow> bytes \<times> author_id" where
  "key_author e = (entry_key (se_entry e), entry_author (se_entry e))"

lemma into_entry_fields:
  assumes "records_id_ok (n, a, k)"
  shows "entry_namespace (se_entry (into_entry ((n, a, k), v))) = n"
    "entry_author (se_entry (into_entry ((n, a, k), v))) = a" "entry_key (se_entry (into_entry ((n, a, k), v))) = k"
    "signed_entry_is_empty C (into_entry ((n, a, k), v)) = value_is_empty C v"
    "key_author (into_entry ((n, a, k), v)) = (k, a)"
  using assms
  by (simp_all add: entry_namespace_def entry_author_def entry_key_def into_entry_id records_id_ok_def key_author_def)
     (cases v; simp add: signed_entry_is_empty_def record_is_empty_def into_entry_record value_record_def value_is_empty_def
       record_new_def)

lemma namespace_entry_row:
  assumes "records_ok (t_records t)" "length ns = 32"
  shows "e \<in> set (namespace_entries ns t) \<longleftrightarrow>
     (\<exists>a k v. table_get (t_records t) (ns, a, k) = Some v \<and> records_id_ok (ns, a, k) \<and> e = into_entry ((ns, a, k), v))"
proof -
  have ok: "table_ok (t_records t)" using assms(1) by (simp add: records_ok_def)
  have "row \<in> set (t_records t) \<Longrightarrow> in_bounds (records_bounds_namespace ns) (fst row) \<longleftrightarrow> fst (fst row) = ns" for row
    using namespace_row[OF assms(2), of "fst row"] assms(1) by (simp add: records_ok_def)
  moreover have "row \<in> set (t_records t) \<Longrightarrow> records_id_ok (fst row)" for row
    using assms(1) by (simp add: records_ok_def)
  ultimately show ?thesis
    unfolding namespace_entries_def set_map set_table_range
    by (auto simp: table_get_Some_iff[OF ok] image_iff) (metis fst_conv)+
qed

lemma sorted_map_filter:
  assumes "sorted_wrt R (map g xs)" "\<And>x y. x \<in> set xs \<Longrightarrow> f x = Some y \<Longrightarrow> h y = g x"
  shows "sorted_wrt R (map h (List.map_filter f xs))"
  using assms
proof (induction xs)
  case (Cons a xs)
  then have "R (h y) (h z)" if "f a = Some y" "x \<in> set xs" "f x = Some z" for x y z
    using that by (metis list.set_intros map_eq_Cons_conv list.set_map image_eqI sorted_wrt.simps(2) list.simps(9))
  then show ?case using Cons by (auto simp: List.map_filter_simps set_map_filter split: option.splits)
qed (simp add: List.map_filter_simps)

lemma namespace_entries_distinct:
  assumes "records_ok (t_records t)" "length ns = 32"
  shows "distinct (map key_author (namespace_entries ns t))"
proof -
  have "sorted_wrt (<) (map (\<lambda>e. se_id e) (namespace_entries ns t))"
    using into_entries_sorted[OF assms(1)] by (simp add: namespace_entries_def table_range_def comp_def)
  then have "distinct (namespace_entries ns t)" using sorted_wrt_less_distinct distinct_map by blast
  moreover have "inj_on key_author (set (namespace_entries ns t))"
    using namespace_entry_row[OF assms] by (auto simp: inj_on_def into_entry_fields)
  ultimately show ?thesis by (simp add: distinct_map)
qed

lemma sort_key_strict:
  fixes f :: "'a \<Rightarrow> 'b::linorder"
  assumes "distinct (map f xs)" shows "sorted_wrt (<) (map f (sort_key f xs))"
proof -
  have "distinct (map f (sort_key f xs))" using assms by (simp add: distinct_map)
  then show ?thesis by (simp add: strict_sorted_iff)
qed

lemma table_range_ok: "table_ok t \<Longrightarrow> table_ok (table_range b t)"
  by (auto simp: table_range_def)

text \<open>Each record of the namespace is found through the by-key index, in the order of key and author;
  stale index rows are skipped.\<close>

lemma by_key_entries_asc:
  assumes "tables_ok C t" "length ns = 32" and rows: "\<And>row. row \<in> set (t_records_by_key t) \<Longrightarrow>
      in_bounds b (fst row) \<longleftrightarrow> fst (fst row) = ns \<and> sel (fst (snd (fst row)))"
  shows "by_key_entries (t_records t) Asc af (table_range b (t_records_by_key t)) =
     sort_key key_author (filter (\<lambda>e. author_filter_matches af (entry_author (se_entry e)) \<and> sel (entry_key (se_entry e)))
       (namespace_entries ns t))"
proof -
  let ?f = "\<lambda>row. if \<not> (\<lambda>(_, _, author). author_filter_matches af author) (fst row) then None
       else (case fst row of (namespace, key, author) \<Rightarrow>
         map_option (\<lambda>v. into_entry ((namespace, author, key), v)) (table_get (t_records t) (namespace, author, key)))"
  let ?rows = "table_range b (t_records_by_key t)"
  let ?es = "filter (\<lambda>e. author_filter_matches af (entry_author (se_entry e)) \<and> sel (entry_key (se_entry e))) (namespace_entries ns t)"
  have recs: "records_ok (t_records t)" and ix: "index_ok (t_records t) (t_records_by_key t)"
    using assms(1) by (simp_all add: tables_ok_def)
  have rok: "table_ok (t_records t)" using recs by (simp add: records_ok_def)
  have iok: "table_ok (t_records_by_key t)" using ix by (simp add: index_ok_def)
  have range_rows: "row \<in> set ?rows \<longleftrightarrow> row \<in> set (t_records_by_key t) \<and> fst (fst row) = ns \<and> sel (fst (snd (fst row)))" for row
    using rows[of row] by (auto simp: set_table_range)
  have got: "\<exists>a k v. row = ((ns, k, a), ()) \<and> author_filter_matches af a \<and> sel k \<and> records_id_ok (ns, a, k) \<and>
      table_get (t_records t) (ns, a, k) = Some v \<and> e = into_entry ((ns, a, k), v)"
    if row_in: "row \<in> set ?rows" "?f row = Some e" for row e
  proof -
    have "fst (fst row) = ns" using range_rows row_in(1) by blast
    then obtain a k where row: "row = ((ns, k, a), ())" by (cases row) auto
    then obtain v where v: "table_get (t_records t) (ns, a, k) = Some v" "e = into_entry ((ns, a, k), v)"
      "author_filter_matches af a" using row_in(2) by (auto split: if_splits)
    then have "records_id_ok (ns, a, k)" using recs table_get_Some_iff[OF rok] by (fastforce simp: records_ok_def)
    moreover have "sel k" using row range_rows[of row] row_in(1) by simp
    ultimately show ?thesis using row v by blast
  qed
  have "by_key_entries (t_records t) Asc af ?rows = List.map_filter ?f ?rows"
    by (simp add: by_key_entries_def in_direction_def)
  also have "\<dots> = sort_key key_author ?es"
  proof (rule sorted_key_unique[of key_author])
    have "sorted_wrt (<) (map fst ?rows)" using table_range_ok[OF iok] by (simp add: table_ok_def)
    then have "sorted_wrt (<) (map (\<lambda>row. snd (fst row)) ?rows)"
      using range_rows by (auto simp: sorted_wrt_map less_prod_def elim!: sorted_wrt_mono_rel[rotated])
    then show "sorted_wrt (<) (map key_author (List.map_filter ?f ?rows))"
      by (rule sorted_map_filter) (use got in \<open>fastforce simp: into_entry_fields\<close>)
    have "distinct (map key_author ?es)"
      using namespace_entries_distinct[OF recs assms(2)] by (simp add: distinct_map inj_on_def)
    then show "sorted_wrt (<) (map key_author (sort_key key_author ?es))" by (rule sort_key_strict)
    show "set (List.map_filter ?f ?rows) = set (sort_key key_author ?es)"
    proof (intro set_eqI iffI)
      fix e assume "e \<in> set (List.map_filter ?f ?rows)"
      then obtain row where "row \<in> set ?rows" "?f row = Some e" unfolding set_map_filter by blast
      from got[OF this] obtain a k v where e: "author_filter_matches af a" "sel k" "records_id_ok (ns, a, k)"
        "table_get (t_records t) (ns, a, k) = Some v" "e = into_entry ((ns, a, k), v)" by blast
      then have "e \<in> set (namespace_entries ns t)" using namespace_entry_row[OF recs assms(2)] by blast
      then show "e \<in> set (sort_key key_author ?es)" using e by (simp add: into_entry_fields)
    next
      fix e assume "e \<in> set (sort_key key_author ?es)"
      then have e': "e \<in> set (namespace_entries ns t)" "author_filter_matches af (entry_author (se_entry e))"
        "sel (entry_key (se_entry e))" by simp_all
      then obtain a k v where e: "table_get (t_records t) (ns, a, k) = Some v" "records_id_ok (ns, a, k)"
        "e = into_entry ((ns, a, k), v)" using namespace_entry_row[OF recs assms(2)] by blast
      have ak: "author_filter_matches af a" "sel k" using e'(2,3) e(2,3) by (simp_all add: into_entry_fields)
      have "((ns, k, a), ()) \<in> set (t_records_by_key t)"
        using e(1) ix table_get_Some_iff[OF rok] by (fastforce simp: index_ok_def by_key_of_def)
      then have "((ns, k, a), ()) \<in> set ?rows" using range_rows ak(2) by simp
      moreover have "?f ((ns, k, a), ()) = Some e" using e ak by simp
      ultimately show "e \<in> set (List.map_filter ?f ?rows)" unfolding set_map_filter by blast
    qed
  qed
  finally show ?thesis .
qed

section \<open>What a query means\<close>

text \<open>The keys the bounds of a key filter select: for a prefix, also the overshoot.\<close>

definition key_selected :: "key_filter \<Rightarrow> bytes \<Rightarrow> bool" where
  "key_selected kf k = (case kf of PrefixKey p \<Rightarrow> prefix p k \<or> overshoot p k | _ \<Rightarrow> key_filter_matches kf k)"

lemma key_selected_matches:
  "(\<And>p. kf = PrefixKey p \<Longrightarrow> \<not> overshoot p k) \<Longrightarrow> key_selected kf k = key_filter_matches kf k"
  by (cases kf) (auto simp: key_selected_def starts_with_prefix)

lemma overshoot_Nil [simp]: "\<not> overshoot [] k"
  by (simp add: overshoot_def)

lemma overshoot_last: "overshoot p k \<Longrightarrow> last p = 255"
  by (auto simp: overshoot_def)

lemma author_key_row:
  assumes "length ns = 32" "length a = 32" "records_id_ok i"
  shows "in_bounds (records_bounds_author_key ns a kf) i \<longleftrightarrow>
     fst i = ns \<and> fst (snd i) = a \<and> key_selected kf (snd (snd i))"
proof -
  obtain n b k where i: "i = (n, b, k)" by (cases i rule: prod_cases3)
  have any: "records_bounds_author_key ns a AnyKey = records_bounds_author_prefix ns a []"
    by (simp add: records_bounds_author_prefix_def records_bounds_author_key_def Let_def)
  show ?thesis
    using in_author_prefix_bounds[OF assms(1,2), of n b] in_exact_key_bounds[of ns a _ n b k] assms(3) i
    by (cases kf) (auto simp: any key_selected_def records_id_ok_def simp flip: records_bounds_author_prefix_def)
qed

lemma by_key_row:
  assumes "length ns = 32" "by_key_id_ok i"
  shows "in_bounds (by_key_bounds_new ns kf) i \<longleftrightarrow> fst i = ns \<and> key_selected kf (fst (snd i))"
proof -
  obtain n k a where i: "i = (n, k, a)" by (cases i rule: prod_cases3)
  show ?thesis
    using in_by_key_prefix[OF assms(1), of n a] in_by_key_exact[of a ns _ n k] in_by_key_namespace[OF assms(1), of n a]
      assms(2) i
    by (cases kf) (auto simp: key_selected_def by_key_id_ok_def by_key_bounds_new_def)
qed

lemma rows_entries:
  assumes "records_ok (t_records t)" "length ns = 32"
    "\<And>row. row \<in> set (t_records t) \<Longrightarrow> in_bounds b (fst row) \<and> p row \<longleftrightarrow> fst (fst row) = ns \<and> P (into_entry row)"
  shows "map into_entry (filter p (table_range b (t_records t))) = filter P (namespace_entries ns t)"
proof -
  have "in_bounds (records_bounds_namespace ns) (fst row) \<longleftrightarrow> fst (fst row) = ns" if "row \<in> set (t_records t)" for row
    using namespace_row[OF assms(2), of "fst row"] assms(1) that by (simp add: records_ok_def)
  then show ?thesis
    unfolding namespace_entries_def table_range_def filter_map comp_def filter_filter
    using assms(3) by (intro arg_cong[where f = "map into_entry"] filter_cong) auto
qed

lemma in_direction_commute:
  "map f (filter p (in_direction dir xs)) = in_direction dir (map f (filter p xs))"
  by (cases dir) (simp_all add: in_direction_def rev_filter rev_map)

text \<open>The documented meaning: which entries a query selects and in which order.\<close>

definition query_selects :: "crypto \<Rightarrow> query \<Rightarrow> signed_entry \<Rightarrow> bool" where
  "query_selects C q e \<longleftrightarrow> author_filter_matches (qb_filter_author q) (entry_author (se_entry e)) \<and>
     key_filter_matches (qb_filter_key q) (entry_key (se_entry e)) \<and>
     (qb_include_empty q \<or> \<not> signed_entry_is_empty C e)"

definition author_filter_ok :: "author_filter \<Rightarrow> bool" where
  "author_filter_ok af = (case af of AnyAuthor \<Rightarrow> True | ExactAuthor a \<Rightarrow> length a = 32)"

definition query_exact :: "query \<Rightarrow> namespace_id \<Rightarrow> tables \<Rightarrow> bool" where
  "query_exact q ns t \<longleftrightarrow> author_filter_ok (qb_filter_author q) \<and>
     (case qb_filter_key q of
        PrefixKey p \<Rightarrow> list_all (\<lambda>e. \<not> overshoot p (entry_key (se_entry e))) (namespace_entries ns t)
      | _ \<Rightarrow> True)"

lemma query_exact_selected:
  "query_exact q ns t \<Longrightarrow> e \<in> set (namespace_entries ns t) \<Longrightarrow>
     key_selected (qb_filter_key q) (entry_key (se_entry e)) = key_filter_matches (qb_filter_key q) (entry_key (se_entry e))"
  by (intro key_selected_matches) (auto simp: query_exact_def list_all_iff)

lemma author_key_output:
  assumes "records_ok (t_records t)" "length ns = 32" "query_exact q ns t"
    "index_kind_of q = IndexAuthorKey (qb_filter_author q) (qb_filter_key q)"
  shows "range_output C q (qi_range (query_iterator_new t ns q)) =
     in_direction (qb_sort_direction q) (filter (query_selects C q) (namespace_entries ns t))"
proof -
  have row: "records_id_ok (fst row)" "fst (fst row) = ns \<Longrightarrow> into_entry row \<in> set (namespace_entries ns t)"
    if "row \<in> set (t_records t)" for row
    using assms(1) that namespace_row[OF assms(2), of "fst row"]
    by (auto simp: records_ok_def namespace_entries_def set_table_range)
  have fields: "entry_author (se_entry (into_entry row)) = fst (snd (fst row))"
    "entry_key (se_entry (into_entry row)) = snd (snd (fst row))"
    "signed_entry_is_empty C (into_entry row) = value_is_empty C (snd row)" if "row \<in> set (t_records t)" for row
    using row(1)[OF that] by (cases row; cases "fst row" rule: prod_cases3; simp add: into_entry_fields)+
  show ?thesis
  proof (cases "qb_filter_author q")
    case AnyAuthor
    have "map into_entry (filter (\<lambda>((_, _, key), v). key_filter_matches (qb_filter_key q) key \<and>
          (qb_include_empty q \<or> \<not> value_is_empty C v)) (table_range (records_bounds_namespace ns) (t_records t))) =
        filter (query_selects C q) (namespace_entries ns t)"
      by (rule rows_entries[OF assms(1,2)])
         (use namespace_row[OF assms(2)] row(1) fields AnyAuthor in \<open>auto simp: query_selects_def case_prod_unfold\<close>)
    then show ?thesis using assms(4) AnyAuthor by (simp add: query_iterator_new_def in_direction_commute)
  next
    case (ExactAuthor a)
    have len: "length a = 32" using assms(3) ExactAuthor by (simp add: query_exact_def author_filter_ok_def)
    have "map into_entry (filter (\<lambda>((_, _, key), v). key_filter_matches AnyKey key \<and>
          (qb_include_empty q \<or> \<not> value_is_empty C v)) (table_range (records_bounds_author_key ns a (qb_filter_key q)) (t_records t))) =
        filter (query_selects C q) (namespace_entries ns t)"
    proof (rule rows_entries[OF assms(1,2)])
      fix row assume r: "row \<in> set (t_records t)"
      show "in_bounds (records_bounds_author_key ns a (qb_filter_key q)) (fst row) \<and>
          (case row of (x, xa) \<Rightarrow> (case x of (_, _, key) \<Rightarrow> \<lambda>v. key_filter_matches AnyKey key \<and>
             (qb_include_empty q \<or> \<not> value_is_empty C v)) xa) \<longleftrightarrow>
          fst (fst row) = ns \<and> query_selects C q (into_entry row)"
        using author_key_row[OF assms(2) len row(1)[OF r], of "qb_filter_key q"] row(2)[OF r] fields[OF r] ExactAuthor
          query_exact_selected[OF assms(3), of "into_entry row"]
        by (auto simp: query_selects_def case_prod_unfold)
    qed
    then show ?thesis using assms(4) ExactAuthor by (simp add: query_iterator_new_def in_direction_commute)
  qed
qed

lemma by_key_entries_direction:
  "by_key_entries records dir af rows = in_direction dir (by_key_entries records Asc af rows)"
  by (cases dir) (simp_all add: by_key_entries_def in_direction_def List.map_filter_def rev_map rev_filter)

lemma by_key_output:
  assumes "tables_ok C t" "length ns = 32" "query_exact q ns t"
  shows "by_key_entries (t_records t) dir af (table_range (by_key_bounds_new ns (qb_filter_key q)) (t_records_by_key t)) =
     in_direction dir (sort_key key_author (filter (\<lambda>e. author_filter_matches af (entry_author (se_entry e)) \<and>
       key_filter_matches (qb_filter_key q) (entry_key (se_entry e))) (namespace_entries ns t)))"
proof -
  have "index_ok (t_records t) (t_records_by_key t)" using assms(1) by (simp add: tables_ok_def)
  then have "by_key_entries (t_records t) Asc af (table_range (by_key_bounds_new ns (qb_filter_key q)) (t_records_by_key t)) =
     sort_key key_author (filter (\<lambda>e. author_filter_matches af (entry_author (se_entry e)) \<and>
       key_selected (qb_filter_key q) (entry_key (se_entry e))) (namespace_entries ns t))"
    by (intro by_key_entries_asc[OF assms(1,2)] by_key_row[OF assms(2)]) (simp add: index_ok_def)
  also have "filter (\<lambda>e. author_filter_matches af (entry_author (se_entry e)) \<and>
       key_selected (qb_filter_key q) (entry_key (se_entry e))) (namespace_entries ns t) =
     filter (\<lambda>e. author_filter_matches af (entry_author (se_entry e)) \<and>
       key_filter_matches (qb_filter_key q) (entry_key (se_entry e))) (namespace_entries ns t)"
    using query_exact_selected[OF assms(3)] by (intro filter_cong) auto
  finally show ?thesis using by_key_entries_direction[of "t_records t" dir] by simp
qed

definition query_order :: "sort_by \<Rightarrow> signed_entry list \<Rightarrow> signed_entry list" where
  "query_order by es = (case by of AuthorKey \<Rightarrow> es | KeyAuthor \<Rightarrow> sort_key key_author es)"

text \<open>Entries of a single author are in key order already.\<close>

lemma single_author_order:
  assumes "records_ok (t_records t)" "length ns = 32"
  shows "sort_key key_author (filter (\<lambda>e. entry_author (se_entry e) = a \<and> P e) (namespace_entries ns t)) =
     filter (\<lambda>e. entry_author (se_entry e) = a \<and> P e) (namespace_entries ns t)"
proof (rule sort_key_id_if_sorted)
  have "sorted_wrt (\<lambda>x y. se_id x < se_id y) (namespace_entries ns t)"
    using into_entries_sorted[OF assms(1)]
    by (simp add: namespace_entries_def table_range_def sorted_wrt_map comp_def)
  then have sorted: "sorted_wrt (\<lambda>x y. se_id x < se_id y)
      (filter (\<lambda>e. entry_author (se_entry e) = a \<and> P e) (namespace_entries ns t))"
    by (rule sorted_wrt_filter)
  have le: "key_author x \<le> key_author y"
    if "x \<in> set (namespace_entries ns t)" "y \<in> set (namespace_entries ns t)" "se_id x < se_id y"
      "entry_author (se_entry x) = a" "entry_author (se_entry y) = a" for x y
  proof -
    have "rid_ok (se_id x)" "rid_ok (se_id y)" "rid_namespace (se_id x) = rid_namespace (se_id y)"
      using namespace_entries_own[OF assms that(1)] namespace_entries_own[OF assms that(2)] by (auto simp: own_boundary_def)
    then have "rid_key (se_id x) < rid_key (se_id y)"
      using rid_tuple_less[of "se_id x" "se_id y"] that(3-5)
      by (auto simp: rid_to_byte_tuple_def less_prod_def entry_author_def)
    then show ?thesis by (simp add: key_author_def entry_key_def less_eq_prod_def)
  qed
  show "sorted (map key_author (filter (\<lambda>e. entry_author (se_entry e) = a \<and> P e) (namespace_entries ns t)))"
    unfolding sorted_map by (rule sorted_wrt_mono_rel[OF _ sorted]) (simp add: le)
qed

lemma get_many_eq:
  assumes "tx_ok s" "get_many ns q s = (it, s')"
  shows "it = query_iterator_new (visible s) ns q" "visible s' = visible s"
proof -
  obtain t u where t: "snapshot_owned s = (t, u)" by fastforce
  show "it = query_iterator_new (visible s) ns q" "visible s' = visible s"
    using assms(2) snapshot_owned_laws(1,2)[OF assms(1) t] t by (simp_all add: get_many_def)
qed

lemma query_new_run:
  "query_run C (query_iterator_new t ns q) =
     page (qb_limit q) 0 (drop (unat (qb_offset q)) (range_output C q (qi_range (query_iterator_new t ns q))))"
  by (subst query_run_page) (simp add: after_offset_def query_iterator_new_def)

lemma flat_output:
  assumes "tables_ok C t" "length ns = 32" "query_exact q ns t" "qb_kind q = Flat by"
  shows "range_output C q (qi_range (query_iterator_new t ns q)) =
     in_direction (qb_sort_direction q) (query_order by (filter (query_selects C q) (namespace_entries ns t)))"
proof -
  have recs: "records_ok (t_records t)" using assms(1) by (simp add: tables_ok_def)
  show ?thesis
  proof (cases "by = KeyAuthor \<and> qb_filter_author q = AnyAuthor")
    case True
    then have "index_kind_of q = IndexKeyAuthor (qb_filter_key q) AnyAuthor False"
      using assms(4) by (simp add: index_kind_of_def)
    moreover have "query_selects C q = (\<lambda>e. key_filter_matches (qb_filter_key q) (entry_key (se_entry e)) \<and>
        (qb_include_empty q \<or> \<not> signed_entry_is_empty C e))"
      using True by (simp add: query_selects_def fun_eq_iff)
    ultimately show ?thesis
      using by_key_output[OF assms(1-3), of "qb_sort_direction q" AnyAuthor] True
        in_direction_commute[of "\<lambda>e. e" "\<lambda>e. qb_include_empty q \<or> \<not> signed_entry_is_empty C e" "qb_sort_direction q"]
      by (simp add: query_iterator_new_def query_order_def filter_sort)
  next
    case False
    then have ix: "index_kind_of q = IndexAuthorKey (qb_filter_author q) (qb_filter_key q)"
      using assms(4) by (auto simp: index_kind_of_def split: author_filter.splits sort_by.splits)
    have "query_order by (filter (query_selects C q) (namespace_entries ns t)) = filter (query_selects C q) (namespace_entries ns t)"
    proof (cases "by")
      case KeyAuthor
      then obtain a where a: "qb_filter_author q = ExactAuthor a" using False by (cases "qb_filter_author q") auto
      have "query_selects C q = (\<lambda>e. entry_author (se_entry e) = a \<and> key_filter_matches (qb_filter_key q) (entry_key (se_entry e)) \<and>
          (qb_include_empty q \<or> \<not> signed_entry_is_empty C e))"
        using a by (auto simp: query_selects_def fun_eq_iff)
      then show ?thesis using single_author_order[OF recs assms(2), of a] KeyAuthor by (simp add: query_order_def)
    qed (simp add: query_order_def)
    then show ?thesis using author_key_output[OF recs assms(2,3) ix] by simp
  qed
qed

text \<open>C15. Flat queries. Reading the iterator of \<open>get_many\<close> to its end yields the page (offset, then limit) of the
  document's entries that match the author filter, the key filter and the empty-entry setting, in
  the requested order and direction, whichever index the query runs on. This holds as long as no stored key lies in
  the overshoot of the bound of a prefix query, which is empty unless the prefix ends in the byte 255
  (\<open>overshoot_last\<close>); \<open>prefix_query_overshoot\<close> shows that it fails otherwise.\<close>

theorem query_flat_correct:
  assumes "tx_ok s" "tables_ok C (visible s)" "length ns = 32" "qb_kind q = Flat by" "query_exact q ns (visible s)"
  shows "query_run C (fst (get_many ns q s)) =
     page (qb_limit q) 0 (drop (unat (qb_offset q))
       (in_direction (qb_sort_direction q)
         (query_order by (filter (query_selects C q) (namespace_entries ns (visible s))))))"
proof -
  obtain it s' where it: "get_many ns q s = (it, s')" by fastforce
  show ?thesis
    using get_many_eq(1)[OF assms(1) it] it flat_output[OF assms(2,3,5,4)] by (simp add: query_new_run)
qed

section \<open>The latest entry per key\<close>

abbreviation se_key :: "signed_entry \<Rightarrow> bytes" where
  "se_key e \<equiv> entry_key (se_entry e)"

abbreviation se_time :: "signed_entry \<Rightarrow> u64" where
  "se_time e \<equiv> entry_timestamp (se_entry e)"

text \<open>On a list whose equal keys are adjacent (sorted in either direction), the selector keeps one entry
  per key, one that is latest.\<close>

lemma select_latest_held:
  assumes "antisymp_on UNIV R" "sorted_wrt R (map se_key (h # es))"
  shows "set (select_latest (Some h) es) \<subseteq> set (h # es) \<and> distinct (map se_key (select_latest (Some h) es)) \<and>
     sorted_wrt R (map se_key (select_latest (Some h) es)) \<and>
     (\<forall>x \<in> set (h # es). \<exists>y \<in> set (select_latest (Some h) es). se_key y = se_key x \<and> se_time x \<le> se_time y)"
  using assms(2)
proof (induction es arbitrary: h)
  case (Cons e es)
  show ?case
  proof (cases "se_key h = se_key e")
    case True
    let ?n = "if se_time h < se_time e then e else h"
    have "sorted_wrt R (map se_key (?n # es))" using Cons.prems True by auto
    note ih = Cons.IH[OF this]
    have new: "se_time h \<le> se_time ?n" "se_time e \<le> se_time ?n" "se_key ?n = se_key h" using True by auto
    show ?thesis using ih new True by (auto; metis order_trans)
  next
    case False
    have sorted: "sorted_wrt R (map se_key (e # es))" using Cons.prems by simp
    note ih = Cons.IH[OF this]
    have "se_key h \<noteq> se_key x" if "x \<in> set (e # es)" for x
    proof
      assume "se_key h = se_key x"
      then have "R (se_key h) (se_key e)" "x \<noteq> e \<Longrightarrow> R (se_key e) (se_key h)" using Cons.prems sorted that by auto
      then show False using False assms(1) \<open>se_key h = se_key x\<close> by (metis antisymp_onD UNIV_I)
    qed
    moreover have "R (se_key h) (se_key x)" if "x \<in> set (e # es)" for x using Cons.prems that by auto
    ultimately have "se_key h \<noteq> se_key y \<and> R (se_key h) (se_key y)" if "y \<in> set (select_latest (Some e) es)" for y
      using ih that by blast
    then have "distinct (map se_key (select_latest (Some h) (e # es)))" "sorted_wrt R (map se_key (select_latest (Some h) (e # es)))"
      using ih False by auto
    then show ?thesis using ih False by auto
  qed
qed simp

lemma select_latest_laws:
  assumes "antisymp_on UNIV R" "sorted_wrt R (map se_key es)"
  shows "set (select_latest None es) \<subseteq> set es" "distinct (map se_key (select_latest None es))"
    "\<forall>x \<in> set es. \<exists>y \<in> set (select_latest None es). se_key y = se_key x \<and> se_time x \<le> se_time y"
    "sorted_wrt R (map se_key (select_latest None es))"
  using select_latest_held[OF assms(1)] assms(2) by (cases es; simp)+

lemma sorted_keys_direction:
  "sorted_wrt (\<lambda>a b. if dir = Asc then a \<le> b else b \<le> a) (map se_key (in_direction dir (sort_key key_author es)))"
proof -
  have "sorted (map key_author (sort_key key_author es))" by simp
  then have "sorted_wrt (\<le>) (map se_key (sort_key key_author es))"
    unfolding sorted_map sorted_wrt_map by (rule sorted_wrt_mono_rel[rotated]) (auto simp: key_author_def less_eq_prod_def)
  then show ?thesis by (cases dir) (auto simp: in_direction_def sorted_wrt_rev rev_map[symmetric])
qed

text \<open>What such a query selects from: the entries that match both filters; the author filter applies before the
  grouping.\<close>

abbreviation grouped :: "query \<Rightarrow> namespace_id \<Rightarrow> tables \<Rightarrow> signed_entry set" where
  "grouped q ns t \<equiv> {e \<in> set (namespace_entries ns t). author_filter_matches (qb_filter_author q) (entry_author (se_entry e)) \<and>
     key_filter_matches (qb_filter_key q) (se_key e)}"

definition unpaged :: "query \<Rightarrow> query" where
  "unpaged q = q\<lparr>qb_limit := None, qb_offset := 0\<rparr>"

lemma unpaged_simps [simp]:
  "qb_kind (unpaged q) = qb_kind q" "qb_filter_author (unpaged q) = qb_filter_author q" "qb_filter_key (unpaged q) = qb_filter_key q"
  "qb_include_empty (unpaged q) = qb_include_empty q" "qb_sort_direction (unpaged q) = qb_sort_direction q"
  "qb_limit (unpaged q) = None" "qb_offset (unpaged q) = 0"
  by (simp_all add: unpaged_def)

lemma paged_run:
  assumes "tx_ok s"
  shows "query_run C (fst (get_many ns q s)) =
    page (qb_limit q) 0 (drop (unat (qb_offset q)) (query_run C (fst (get_many ns (unpaged q) s))))"
proof -
  have run: "query_run C (fst (get_many ns p s)) =
      page (qb_limit p) 0 (drop (unat (qb_offset p)) (range_output C p (qi_range (query_iterator_new (visible s) ns p))))" for p
    using get_many_eq(1)[OF assms prod.collapse[symmetric], of ns p] by (simp add: query_new_run)
  have "index_kind_of (unpaged q) = index_kind_of q" by (cases "qb_kind q"; cases "qb_filter_author q") (simp_all add: index_kind_of_def split: sort_by.splits)
  then have "qi_range (query_iterator_new (visible s) ns (unpaged q)) = qi_range (query_iterator_new (visible s) ns q)"
    by (simp add: query_iterator_new_def split: index_kind.splits)
  moreover have "range_output C (unpaged q) r = range_output C q r" for r by (cases r) simp_all
  ultimately show ?thesis by (simp add: run[of q] run[of "unpaged q"] page_def)
qed

lemma latest_run:
  assumes "tx_ok s" "tables_ok C (visible s)" "length ns = 32" "qb_kind q = SingleLatestPerKey" "query_exact q ns (visible s)"
  defines "out \<equiv> query_run C (fst (get_many ns (unpaged q) s))" and "dir \<equiv> qb_sort_direction q"
  shows "distinct (map se_key out)" "sorted_wrt (\<lambda>a b. if dir = Asc then a \<le> b else b \<le> a) (map se_key out)"
    "e \<in> set out \<Longrightarrow> e \<in> grouped q ns (visible s) \<and> (qb_include_empty q \<or> \<not> signed_entry_is_empty C e) \<and>
       (\<forall>e' \<in> grouped q ns (visible s). se_key e' = se_key e \<longrightarrow> se_time e' \<le> se_time e)"
    "e' \<in> grouped q ns (visible s) \<Longrightarrow> \<exists>e \<in> grouped q ns (visible s). se_key e = se_key e' \<and> se_time e' \<le> se_time e \<and>
       (e \<in> set out \<or> \<not> qb_include_empty q \<and> signed_entry_is_empty C e)"
proof -
  define es where "es = in_direction dir (sort_key key_author (filter (\<lambda>e.
      author_filter_matches (qb_filter_author q) (entry_author (se_entry e)) \<and> key_filter_matches (qb_filter_key q) (se_key e))
      (namespace_entries ns (visible s))))"
  define sel where "sel = select_latest None es"
  let ?R = "\<lambda>a b. if dir = Asc then a \<le> b else b \<le> (a :: bytes)"
  have "index_kind_of (unpaged q) = IndexKeyAuthor (qb_filter_key q) (qb_filter_author q) True"
    using assms(4) by (simp add: index_kind_of_def)
  then have run: "out = filter (\<lambda>e. qb_include_empty q \<or> \<not> signed_entry_is_empty C e) sel"
    using get_many_eq(1)[OF assms(1) prod.collapse[symmetric], of ns "unpaged q"] by_key_output[OF assms(2,3,5), of dir "qb_filter_author q"]
    by (simp add: out_def dir_def sel_def es_def query_new_run page_def) (simp add: query_iterator_new_def)
  have R: "antisymp_on UNIV ?R" by (auto simp: antisymp_on_def)
  have "sorted_wrt ?R (map se_key es)" unfolding es_def by (rule sorted_keys_direction)
  note laws = select_latest_laws[OF R this, folded sel_def]
  have grouped: "set es = grouped q ns (visible s)"
    by (auto simp: es_def in_direction_def split: sort_direction.splits)
  have latest: "se_time e' \<le> se_time e" if ee: "e \<in> set sel" "e' \<in> set es" "se_key e' = se_key e" for e e'
  proof -
    obtain y where "y \<in> set sel" "se_key y = se_key e'" "se_time e' \<le> se_time y" using laws(3) ee(2) by blast
    moreover have "y = e" using laws(2) calculation ee(1,3) by (auto simp: distinct_map inj_on_def)
    ultimately show ?thesis by simp
  qed
  show "distinct (map se_key out)" unfolding run using laws(2) by (rule distinct_map_filter)
  show "sorted_wrt ?R (map se_key out)" unfolding run sorted_wrt_map
    by (rule sorted_wrt_filter) (use laws(4) in \<open>simp add: sorted_wrt_map\<close>)
  show "e \<in> grouped q ns (visible s) \<and> (qb_include_empty q \<or> \<not> signed_entry_is_empty C e) \<and>
       (\<forall>e' \<in> grouped q ns (visible s). se_key e' = se_key e \<longrightarrow> se_time e' \<le> se_time e)" if "e \<in> set out"
    unfolding grouped[symmetric] using that latest laws(1) by (auto simp: run)
  show "\<exists>e \<in> grouped q ns (visible s). se_key e = se_key e' \<and> se_time e' \<le> se_time e \<and>
       (e \<in> set out \<or> \<not> qb_include_empty q \<and> signed_entry_is_empty C e)" if "e' \<in> grouped q ns (visible s)"
    using laws(1,3) that unfolding grouped[symmetric] by (fastforce simp: run)
qed

text \<open>C16. Queries for the single latest entry per key, without an author filter. The iterator yields the page (offset, then limit) of a
  list without two entries at one key, ordered by key in the requested direction; each is an entry of the
  document that matches the key filter and is at least as recent as every other entry at its key; and every key that
  matches and has an entry is represented, unless a latest entry at it is a deletion marker and the query does not include those.
  As for flat queries no stored key may lie in the overshoot of a prefix bound.\<close>

theorem query_latest_correct:
  assumes "tx_ok s" "tables_ok C (visible s)" "length ns = 32" "qb_kind q = SingleLatestPerKey" "qb_filter_author q = AnyAuthor"
    "query_exact q ns (visible s)"
  shows "\<exists>out. query_run C (fst (get_many ns q s)) = page (qb_limit q) 0 (drop (unat (qb_offset q)) out) \<and>
     sorted_wrt (\<lambda>a b. if qb_sort_direction q = Asc then a < b else b < a) (map se_key out) \<and>
     (\<forall>e \<in> set out. query_selects C q e \<and> e \<in> set (namespace_entries ns (visible s)) \<and>
        (\<forall>e' \<in> set (namespace_entries ns (visible s)). se_key e' = se_key e \<longrightarrow> se_time e' \<le> se_time e)) \<and>
     (\<forall>e' \<in> set (namespace_entries ns (visible s)). key_filter_matches (qb_filter_key q) (se_key e') \<longrightarrow>
        (\<exists>e \<in> set (namespace_entries ns (visible s)). se_key e = se_key e' \<and>
           (\<forall>e2 \<in> set (namespace_entries ns (visible s)). se_key e2 = se_key e \<longrightarrow> se_time e2 \<le> se_time e) \<and>
           (e \<in> set out \<or> \<not> qb_include_empty q \<and> signed_entry_is_empty C e)))"
proof -
  let ?out = "query_run C (fst (get_many ns (unpaged q) s))" and ?doc = "set (namespace_entries ns (visible s))"
  let ?R = "\<lambda>a b. if qb_sort_direction q = Asc then a \<le> b else b \<le> (a :: bytes)"
  note laws = latest_run[OF assms(1-4,6)]
  have "sorted_wrt (\<lambda>a b. a \<noteq> b \<and> ?R a b) (map se_key ?out)"
    using laws(1,2) by (simp add: sorted_wrt_iff_nth_less distinct_conv_nth)
  then have "sorted_wrt (\<lambda>a b. if qb_sort_direction q = Asc then a < b else b < a) (map se_key ?out)"
    by (rule sorted_wrt_mono_rel[rotated]) (auto split: if_splits)
  moreover have "query_selects C q e \<and> e \<in> ?doc \<and> (\<forall>e' \<in> ?doc. se_key e' = se_key e \<longrightarrow> se_time e' \<le> se_time e)" if "e \<in> set ?out" for e
    using laws(3)[OF that] assms(5) by (auto simp: query_selects_def)
  moreover have "\<exists>e \<in> ?doc. se_key e = se_key e' \<and> (\<forall>e2 \<in> ?doc. se_key e2 = se_key e \<longrightarrow> se_time e2 \<le> se_time e) \<and>
      (e \<in> set ?out \<or> \<not> qb_include_empty q \<and> signed_entry_is_empty C e)"
    if e': "e' \<in> ?doc" "key_filter_matches (qb_filter_key q) (se_key e')" for e'
  proof -
    let ?at = "{x \<in> ?doc. se_key x = se_key e'}"
    have "finite ?at" "?at \<noteq> {}" using e'(1) by auto
    then have "Max (se_time ` ?at) \<in> se_time ` ?at" "\<And>x. x \<in> ?at \<Longrightarrow> se_time x \<le> Max (se_time ` ?at)"
      by (auto intro!: Max_in)
    then obtain m where m: "m \<in> ?at" "\<And>x. x \<in> ?at \<Longrightarrow> se_time x \<le> se_time m" by fastforce
    obtain e where "e \<in> grouped q ns (visible s)" "se_key e = se_key m" "se_time m \<le> se_time e"
      "e \<in> set ?out \<or> \<not> qb_include_empty q \<and> signed_entry_is_empty C e"
      using laws(4)[of m] m(1) e'(2) assms(5) by auto
    then show ?thesis using m by (intro bexI[of _ e]) (auto intro: order_trans)
  qed
  ultimately show ?thesis using paged_run[OF assms(1)] by (intro exI[of _ ?out]) blast
qed

text \<open>C33. The author filter of such a query applies before the grouping, not after it as the documentation of \<open>Query\<close> says: the entry of the
  author is yielded at a key whose latest entry is by another author, and the latest entry is not.\<close>

theorem latest_author_filter_first:
  assumes "tx_ok s" "tables_ok C (visible s)" "length ns = 32" "length a = 32"
    "e \<in> set (namespace_entries ns (visible s))" "entry_author (se_entry e) = a" "\<not> signed_entry_is_empty C e"
    "e' \<in> set (namespace_entries ns (visible s))" "se_key e' = se_key e" "se_time e < se_time e'"
  defines "out \<equiv> query_run C (fst (get_many ns (build_single_latest (qb_author a query_single_latest_per_key)) s))"
  shows "e \<in> set out \<and> e' \<notin> set out"
proof -
  let ?q = "build_single_latest (qb_author a query_single_latest_per_key)" and ?doc = "set (namespace_entries ns (visible s))"
  have q: "qb_kind ?q = SingleLatestPerKey" "qb_filter_author ?q = ExactAuthor a" "qb_filter_key ?q = AnyKey" "unpaged ?q = ?q"
    by (simp_all add: build_single_latest_def build_with_def qb_author_def query_single_latest_per_key_def builder_default_def unpaged_def)
  have "query_exact ?q ns (visible s)" using q assms(4) by (simp add: query_exact_def author_filter_ok_def)
  note laws = latest_run[OF assms(1-3) q(1) this, unfolded q(4), folded out_def]
  have recs: "records_ok (t_records (visible s))" using assms(2) by (simp add: tables_ok_def)
  have same: "x = y" if "x \<in> ?doc" "y \<in> ?doc" "entry_author (se_entry x) = entry_author (se_entry y)" "se_key x = se_key y" for x y
    using that namespace_entry_row[OF recs assms(3)] by (auto simp: into_entry_fields)
  have mine: "x = e" if "x \<in> grouped ?q ns (visible s)" "se_key x = se_key e" for x
    using same[of x e] that assms(5,6) q(2) by simp
  have "e \<in> grouped ?q ns (visible s)" using assms(5,6) q by simp
  then obtain x where "x \<in> grouped ?q ns (visible s)" "se_key x = se_key e"
    "x \<in> set out \<or> \<not> qb_include_empty ?q \<and> signed_entry_is_empty C x" by (rule laws(4)[THEN bexE]) blast
  then have "e \<in> set out" using mine[of x] assms(7) by simp
  moreover have "e' \<notin> set out" using laws(3)[of e'] mine[of e'] assms(9,10) by auto
  ultimately show ?thesis by blast
qed

section \<open>Prefix queries reach beyond their prefix\<close>

text \<open>A prefix query for one author also yields keys that do not have the prefix. The upper bound of the
  range is the prefix incremented as a number of fixed length: for the prefix \<open>[1, 255]\<close> it is \<open>[2, 0]\<close>,
  and the key \<open>[2]\<close> lies below it.\<close>

theorem prefix_query_overshoot:
  assumes "tx_ok s" "tables_ok C (visible s)" "length ns = 32" "length a = 32"
    "e \<in> set (namespace_entries ns (visible s))" "entry_author (se_entry e) = a" "\<not> signed_entry_is_empty C e"
    "overshoot p (se_key e)"
  shows "e \<in> set (query_run C (fst (get_many ns (build_flat (qb_author a (query_key_prefix p))) s))) \<and> \<not> prefix p (se_key e)"
proof
  let ?q = "build_flat (qb_author a (query_key_prefix p))" and ?t = "visible s"
  have q: "qb_kind ?q = Flat AuthorKey" "qb_filter_author ?q = ExactAuthor a" "qb_filter_key ?q = PrefixKey p"
    "qb_limit ?q = None" "qb_offset ?q = 0"
    by (simp_all add: build_flat_def build_with_def qb_author_def query_key_prefix_def qb_key_prefix_def query_all_def
        builder_default_def)
  have recs: "records_ok (t_records ?t)" using assms(2) by (simp add: tables_ok_def)
  have rok: "table_ok (t_records ?t)" using recs by (simp add: records_ok_def)
  obtain b k v where e: "table_get (t_records ?t) (ns, b, k) = Some v" "records_id_ok (ns, b, k)" "e = into_entry ((ns, b, k), v)"
    using assms(5) namespace_entry_row[OF recs assms(3)] by blast
  have bk: "b = a" "overshoot p k" "\<not> value_is_empty C v" using e(2,3) assms(6-8) by (simp_all add: into_entry_fields)
  have row: "((ns, a, k), v) \<in> set (table_range (records_bounds_author_key ns a (PrefixKey p)) (t_records ?t))"
    using e(1) bk(1,2) author_key_row[OF assms(3,4) e(2), of "PrefixKey p"] table_get_Some_iff[OF rok]
    by (simp add: set_table_range key_selected_def)
  have "qi_range (query_iterator_new ?t ns ?q) =
      RangeAuthorKey (table_range (records_bounds_author_key ns a (PrefixKey p)) (t_records ?t)) AnyKey"
    using q by (simp add: query_iterator_new_def index_kind_of_def)
  then have "e \<in> set (range_output C ?q (qi_range (query_iterator_new ?t ns ?q)))"
    using row bk(1,3) e(3) by (cases "qb_sort_direction ?q") (force simp: in_direction_def)+
  then show "e \<in> set (query_run C (fst (get_many ns ?q s)))"
    using get_many_eq(1)[OF assms(1) prod.collapse[symmetric], of ns ?q] q by (simp add: query_new_run page_def)
  show "\<not> prefix p (se_key e)"
    using overshoot_shorter[OF assms(8)] prefix_length_le by (metis not_less)
qed

section \<open>Closed instances\<close>

lemma sample_store_ok: "\<forall>e \<in> set es. entry_ok e \<Longrightarrow> tx_ok (sample_store es) \<and> tables_ok sample_crypto (visible (sample_store es))"
  using sample_store_valid[of es sample_ns sample_crypto] by (simp add: instance_valid_def)

definition sample_doc :: fs_store where
  "sample_doc = sample_store [sample_entry [2] (record_new [7] 1 5), sample_entry [1, 7] (record_new [8] 1 6)]"

lemma sample_doc_ok: "tx_ok sample_doc" "tables_ok sample_crypto (visible sample_doc)"
  using sample_store_ok[of "[sample_entry [2] (record_new [7] 1 5), sample_entry [1, 7] (record_new [8] 1 6)]"]
  by (simp_all add: sample_doc_def)

lemma query_exact_any: "qb_filter_author q = AnyAuthor \<Longrightarrow> qb_filter_key q = AnyKey \<Longrightarrow> query_exact q ns t"
  by (simp add: query_exact_def author_filter_ok_def)

lemmas query_unfold = build_flat_def build_single_latest_def build_with_def query_all_def builder_default_def
  query_single_latest_per_key_def

theorem query_flat_correct_witness:
  "query_run sample_crypto (fst (get_many sample_ns (build_flat query_all) sample_doc)) =
     filter (query_selects sample_crypto (build_flat query_all)) (namespace_entries sample_ns (visible sample_doc))"
proof -
  have "qb_kind (build_flat query_all) = Flat AuthorKey" by (simp add: query_unfold)
  from query_flat_correct[OF sample_doc_ok sample_ids(1) this query_exact_any] show ?thesis
    by (simp add: query_unfold page_def in_direction_def query_order_def)
qed

theorem query_latest_correct_witness:
  "sorted_wrt (<) (map se_key (query_run sample_crypto
     (fst (get_many sample_ns (build_single_latest query_single_latest_per_key) sample_doc))))"
  using query_latest_correct[OF sample_doc_ok sample_ids(1) _ _ query_exact_any, of "build_single_latest query_single_latest_per_key"]
  by (auto simp: query_unfold page_def)

definition other_author :: author_id where
  "other_author = replicate 32 3"

definition other_entry :: signed_entry where
  "other_entry = signed_entry_new (entry_signature_from_parts [] []) (entry_new (rid_new sample_ns other_author [97]) (record_new [8] 1 6))"

theorem latest_author_filter_first_witness:
  "set (query_run sample_crypto (fst (get_many sample_ns (build_single_latest (qb_author sample_author query_single_latest_per_key))
     (sample_store [sample_entry [97] (record_new [7] 1 5), other_entry])))) \<inter> {sample_entry [97] (record_new [7] 1 5), other_entry} =
   {sample_entry [97] (record_new [7] 1 5)}"
proof -
  let ?e = "sample_entry [97] (record_new [7] 1 5)"
  let ?s = "sample_store [?e, other_entry]"
  have other: "se_id other_entry = rid_new sample_ns other_author [97]" "length other_author = 32"
    by (simp_all add: other_entry_def other_author_def signed_entry_new_def entry_new_def)
  then have ok: "entry_ok other_entry" by (simp add: entry_ok_def)
  have valid: "tx_ok ?s" "tables_ok sample_crypto (visible ?s)" using sample_store_ok[of "[?e, other_entry]"] ok by simp_all
  have recs: "records_ok (t_records (visible ?s))" using valid(2) by (simp add: tables_ok_def)
  have ids: "fst (records_row ?e) = (sample_ns, sample_author, [97])" "fst (records_row other_entry) = (sample_ns, other_author, [97])"
    using other by (simp_all add: records_row_def)
  have get: "table_get (t_records (visible ?s)) (fst (records_row x)) = Some (snd (records_row x))" if "x \<in> {?e, other_entry}" for x
    using that ids by (auto simp: tables_place_def entry_put_tables_def Let_def table_get_insert records_row_def sample_author_def other_author_def)
  have mem: "x \<in> set (namespace_entries sample_ns (visible ?s))" if x: "x \<in> {?e, other_entry}" for x
  proof -
    obtain a where a: "fst (records_row x) = (sample_ns, a, [97])" "length a = 32" using x ids other(2) by auto
    have "x = into_entry ((sample_ns, a, [97]), snd (records_row x))" using into_entry_records_row[of x] a(1) by (metis prod.collapse)
    moreover have "table_get (t_records (visible ?s)) (sample_ns, a, [97]) = Some (snd (records_row x))" using get[OF x] a(1) by simp
    moreover have "records_id_ok (sample_ns, a, [97])" using a(2) by (simp add: records_id_ok_def)
    ultimately show ?thesis unfolding namespace_entry_row[OF recs sample_ids(1)] by blast
  qed
  have fields: "entry_author (se_entry ?e) = sample_author" "\<not> signed_entry_is_empty sample_crypto ?e" "se_key other_entry = se_key ?e"
    "se_time ?e < se_time other_entry"
    by (simp_all add: entry_author_def entry_key_def signed_entry_is_empty_def record_is_empty_def hash_empty_def other_entry_def
        sample_crypto_def pad_def record_new_def entry_timestamp_def other_author_def signed_entry_new_def entry_new_def sample_entry_def)
  from latest_author_filter_first[OF valid sample_ids mem[of ?e] fields(1,2) mem[of other_entry] fields(3,4)] show ?thesis by auto
qed

theorem prefix_query_overshoot_witness:
  "\<exists>e. e \<in> set (query_run sample_crypto (fst (get_many sample_ns
       (build_flat (qb_author sample_author (query_key_prefix [1, 255]))) sample_doc))) \<and> se_key e = [2]"
proof -
  let ?e = "sample_entry [2] (record_new [7] 1 5)"
  have recs: "records_ok (t_records (visible sample_doc))" using sample_doc_ok(2) by (simp add: tables_ok_def)
  have get: "table_get (t_records (visible sample_doc)) (fst (records_row ?e)) = Some (snd (records_row ?e))"
    by (simp add: sample_doc_def tables_place_def entry_put_tables_def Let_def table_get_insert records_row_def)
  have row: "into_entry (fst (records_row ?e), snd (records_row ?e)) = ?e" using into_entry_records_row[of ?e] by simp
  have id: "fst (records_row ?e) = (sample_ns, sample_author, [2])" by (simp add: records_row_def)
  have "records_id_ok (sample_ns, sample_author, [2])" by (simp add: records_id_ok_def)
  then have mem: "?e \<in> set (namespace_entries sample_ns (visible sample_doc))"
    using namespace_entry_row[OF recs sample_ids(1), of ?e] get row unfolding id by metis
  have "entry_author (se_entry ?e) = sample_author" "se_key ?e = [2]" "\<not> signed_entry_is_empty sample_crypto ?e"
    by (simp_all add: entry_author_def entry_key_def signed_entry_is_empty_def record_is_empty_def hash_empty_def
        sample_crypto_def pad_def record_new_def)
  moreover have "overshoot [1, 255] [2]"
    using overshoot_snoc[of 1 "[]" 1 "[2]"] by simp
  ultimately show ?thesis
    using prefix_query_overshoot[OF sample_doc_ok sample_ids(1,2) mem, of "[1, 255]"] by (metis (no_types, lifting))
qed

end
