(* ===== verification/Actor.thy ===== *)
theory Actor
  imports Store_History Query
begin

text \<open>
  The sync actor, \<^verbatim>\<open>src/src/actor.rs\<close>: it owns the store, the open replicas and the snapshots of the
  running sync sessions, and processes one action at a time.

  A reply channel is the result of the handler. The two hash maps are kept as ordered tables. Whether
  somebody still holds a strong reference to a session registration (its handle, or a release
  message in the queue) is the predicate \<open>held\<close>; readings of clocks are arguments, collected in
  \<open>actor_env\<close>. A task that streams a list to the client is the list. Failing to deliver a reply
  changes nothing in the actor.
\<close>

section \<open>Data\<close>

record open_replica_state =
  op_info :: replica_info
  op_sync :: bool
  op_handles :: u64

record open_state =
  os_sync :: bool
  os_subscribers :: nat
  os_handles :: u64

text \<open>A session id is the issuing actor and a sequence number.\<close>

type_synonym session_id = "u64 \<times> u64"

record session_snapshot =
  ss_namespace :: namespace_id
  ss_tables :: tables

record metrics =
  new_entries_local :: nat
  new_entries_local_size :: nat
  new_entries_remote :: nat
  new_entries_remote_size :: nat
  sync_sessions_open :: nat
  sync_sessions_reclaimed :: nat
  actor_tick_main :: nat

record actor =
  ac_id :: u64
  ac_store :: fs_store
  ac_states :: "(namespace_id, open_replica_state) table"
  ac_sessions :: "(session_id, session_snapshot) table"
  ac_next_session :: u64
  ac_last_sweep :: nat
  ac_content_status_cb :: "(bytes \<Rightarrow> content_status) option"
  ac_capability_validator :: "capability_validator option"
  ac_rejection_observer :: "nat option"
  ac_observed :: "(nat \<times> namespace_id \<times> reject_id \<times> bytes) list"
  ac_metrics :: metrics

record open_opts =
  oo_sync :: bool
  oo_subscribe :: "channel option"

datatype replica_action =
    ActOpen open_opts
  | ActClose
  | ActGetState
  | ActSetSync bool
  | ActSubscribe channel
  | ActUnsubscribe channel
  | ActInsertLocal author_id bytes bytes u64
  | ActDeletePrefix author_id bytes
  | ActRetractEntry author_id bytes u64
  | ActInsertRemote signed_entry bytes content_status
  | ActSyncSessionStart
  | ActSyncInitialMessage session_id "entry_filter option"
  | ActSyncProcessMessage protocol_message bytes sync_outcome session_id "entry_filter option"
  | ActGetSyncPeers
  | ActRegisterUsefulPeer bytes
  | ActGetExact author_id bytes bool
  | ActGetMany query
  | ActDropReplica
  | ActExportSecretKey
  | ActHasNewsForUs author_heads
  | ActSetDownloadPolicy download_policy
  | ActGetDownloadPolicy

datatype action =
    ActImportAuthor author
  | ActExportAuthor author_id
  | ActDeleteAuthor author_id
  | ActImportNamespace capability
  | ActListAuthors
  | ActListReplicas
  | ActContentHashes
  | ActFlushStore
  | ActReplica namespace_id replica_action
  | ActSyncSessionEnd session_id

datatype actor_error =
    ErrStore store_error
  | ErrOpen open_error
  | ErrInsert insert_error
  | ErrSync sync_error
  | ErrMerge capability_error
  | ErrNotOpen
  | ErrSyncNotEnabled
  | ErrAuthorNotFound
  | ErrForeignActor
  | ErrSessionNotRegistered
  | ErrSessionOtherNamespace
  | ErrReadOnly

datatype reply =
    ReplyUnit
  | ReplyBool bool
  | ReplyCount nat
  | ReplyAuthorId author_id
  | ReplyAuthor "author option"
  | ReplyAuthors "author_id list"
  | ReplyNamespace namespace_id
  | ReplyNamespaces "(store_error + namespace_id \<times> capability_kind) list"
  | ReplyHashes "bytes list"
  | ReplyState open_state
  | ReplySession session_id
  | ReplyMessage protocol_message
  | ReplyProcessed "protocol_message option" sync_outcome
  | ReplyPeers "bytes list option"
  | ReplyEntry "signed_entry option"
  | ReplyEntries "signed_entry list"
  | ReplySecret namespace_secret
  | ReplyNews "nat option"
  | ReplyPolicy download_policy

text \<open>What an action reads of the outside: the codec of download policies, which subscribers are alive, the
  wall clock (microseconds, read twice by a local insert; nanoseconds since the epoch for peers).\<close>

record actor_env =
  ev_policy_codec :: "download_policy postcard"
  ev_alive :: "channel \<Rightarrow> bool"
  ev_now1 :: u64
  ev_now2 :: u64
  ev_since_epoch :: "nat option"

definition metrics_default :: metrics where
  "metrics_default = \<lparr>new_entries_local = 0, new_entries_local_size = 0, new_entries_remote = 0,
     new_entries_remote_size = 0, sync_sessions_open = 0, sync_sessions_reclaimed = 0, actor_tick_main = 0\<rparr>"

definition actor_spawn ::
  "u64 \<Rightarrow> nat \<Rightarrow> fs_store \<Rightarrow> (bytes \<Rightarrow> content_status) option \<Rightarrow> capability_validator option \<Rightarrow> nat option \<Rightarrow> actor" where
  "actor_spawn actor_id now store cb validator observer =
     \<lparr>ac_id = actor_id, ac_store = store, ac_states = [], ac_sessions = [], ac_next_session = 0, ac_last_sweep = now,
      ac_content_status_cb = cb, ac_capability_validator = validator, ac_rejection_observer = observer,
      ac_observed = [], ac_metrics = metrics_default\<rparr>"

section \<open>Open replicas\<close>

definition states_get :: "namespace_id \<Rightarrow> actor \<Rightarrow> actor_error + open_replica_state" where
  "states_get ns a = (case table_get (ac_states a) ns of None \<Rightarrow> Inl ErrNotOpen | Some st \<Rightarrow> Inr st)"

definition states_ensure_open :: "namespace_id \<Rightarrow> actor \<Rightarrow> actor_error + unit" where
  "states_ensure_open ns a = (if table_get (ac_states a) ns \<noteq> None then Inr () else Inl ErrNotOpen)"

definition states_ensure_syncing :: "namespace_id \<Rightarrow> actor \<Rightarrow> actor_error + unit" where
  "states_ensure_syncing ns a =
     rbind (states_get ns a) (\<lambda>st. if op_sync st then Inr () else Inl ErrSyncNotEnabled)"

definition info_subscribe_opt :: "channel option \<Rightarrow> replica_info \<Rightarrow> replica_info" where
  "info_subscribe_opt tx i = (case tx of Some c \<Rightarrow> info_subscribe c i | None \<Rightarrow> i)"

text \<open>The callback \<open>open\<close> passes to \<open>open_with\<close>: load the replica and install what the actor was spawned with.\<close>

definition open_callbacks :: "actor \<Rightarrow> replica_info \<Rightarrow> replica_info" where
  "open_callbacks a i =
     (let i1 = (case ac_content_status_cb a of Some cb \<Rightarrow> snd (set_content_status_callback cb i) | None \<Rightarrow> i);
          i2 = (case ac_capability_validator a of Some v \<Rightarrow> snd (set_capability_validator v i1) | None \<Rightarrow> i1)
      in (case ac_rejection_observer a of Some ob \<Rightarrow> snd (set_rejection_observer ob i2) | None \<Rightarrow> i2))"

definition actor_open :: "crypto \<Rightarrow> namespace_id \<Rightarrow> open_opts \<Rightarrow> (actor, actor_error, unit) op" where
  "actor_open C ns opts a =
     (case table_get (ac_states a) ns of
        None \<Rightarrow>
          (case load_replica_info C ns (ac_store a) of
             (Inl e, s) \<Rightarrow> (Inl (ErrOpen e), a\<lparr>ac_store := s\<rparr>)
           | (Inr cap, s) \<Rightarrow>
               (let info = info_subscribe_opt (oo_subscribe opts) (open_callbacks a (replica_info_new cap))
                in (Inr (), a\<lparr>ac_store := s, ac_states := table_insert ns
                      \<lparr>op_info = info, op_sync = oo_sync opts, op_handles = 1\<rparr> (ac_states a)\<rparr>)))
      | Some st \<Rightarrow>
          (Inr (), a\<lparr>ac_states := table_insert ns
             \<lparr>op_info = info_subscribe_opt (oo_subscribe opts) (op_info st), op_sync = (op_sync st \<or> oo_sync opts),
              op_handles = op_handles st + 1\<rparr> (ac_states a)\<rparr>))"

definition states_close :: "namespace_id \<Rightarrow> (namespace_id, open_replica_state) table \<Rightarrow> bool \<times> (namespace_id, open_replica_state) table" where
  "states_close ns sts =
     (case table_get sts ns of
        None \<Rightarrow> (True, sts)
      | Some st \<Rightarrow>
          if op_handles st - 1 = 0 then (True, table_remove ns sts)
          else (False, table_insert ns (st\<lparr>op_handles := op_handles st - 1\<rparr>) sts))"

definition record_open_sessions :: "actor \<Rightarrow> actor" where
  "record_open_sessions a = a\<lparr>ac_metrics := (ac_metrics a)\<lparr>sync_sessions_open := length (ac_sessions a)\<rparr>\<rparr>"

definition actor_close :: "namespace_id \<Rightarrow> actor \<Rightarrow> bool \<times> actor" where
  "actor_close ns a =
     (case states_close ns (ac_states a) of
        (closed, sts) \<Rightarrow>
          if closed
          then (True, (record_open_sessions (a\<lparr>ac_states := sts,
                  ac_sessions := filter (\<lambda>(_, s). ss_namespace s \<noteq> ns) (ac_sessions a)\<rparr>))\<lparr>
                  ac_store := close_replica ns (ac_store a)\<rparr>)
          else (False, a\<lparr>ac_states := sts\<rparr>))"

definition actor_close_all :: "actor \<Rightarrow> actor" where
  "actor_close_all a =
     (let ids = map fst (ac_states a)
      in (record_open_sessions (a\<lparr>ac_sessions := [], ac_states := []\<rparr>))\<lparr>
           ac_store := fold close_replica ids (ac_store a)\<rparr>)"

section \<open>Running a replica\<close>

definition replica_at :: "crypto \<Rightarrow> tables option \<Rightarrow> open_replica_state \<Rightarrow> actor \<Rightarrow> replica" where
  "replica_at C snap st a =
     \<lparr>rp_namespace = capability_id C (ri_capability (op_info st)), rp_snapshot = snap, rp_store = ac_store a,
      rp_info = op_info st, rp_observed = ac_observed a\<rparr>"

text \<open>What a replica changed through its references is in the actor afterwards.\<close>

definition replica_back :: "namespace_id \<Rightarrow> open_replica_state \<Rightarrow> replica \<Rightarrow> actor \<Rightarrow> actor" where
  "replica_back ns st r a =
     a\<lparr>ac_store := rp_store r, ac_states := table_insert ns (st\<lparr>op_info := rp_info r\<rparr>) (ac_states a),
       ac_observed := rp_observed r\<rparr>"

definition run_replica ::
  "crypto \<Rightarrow> namespace_id \<Rightarrow> tables option \<Rightarrow> ('e \<Rightarrow> actor_error) \<Rightarrow> (replica, 'e, 'a) op \<Rightarrow> (actor, actor_error, 'a) op" where
  "run_replica C ns snap err m a =
     (case states_get ns a of
        Inl e \<Rightarrow> (Inl e, a)
      | Inr st \<Rightarrow>
          (case m (replica_at C snap st a) of (res, r) \<Rightarrow> (map_sum err id res, replica_back ns st r a)))"

definition run_if_syncing ::
  "crypto \<Rightarrow> namespace_id \<Rightarrow> tables option \<Rightarrow> ('e \<Rightarrow> actor_error) \<Rightarrow> (replica, 'e, 'a) op \<Rightarrow> (actor, actor_error, 'a) op" where
  "run_if_syncing C ns snap err m a =
     (case states_ensure_syncing ns a of Inl e \<Rightarrow> (Inl e, a) | Inr _ \<Rightarrow> run_replica C ns snap err m a)"

definition session_tables :: "actor \<Rightarrow> session_id \<Rightarrow> namespace_id \<Rightarrow> actor_error + tables" where
  "session_tables a session ns =
     (if fst session \<noteq> ac_id a then Inl ErrForeignActor
      else (case table_get (ac_sessions a) session of
          None \<Rightarrow> Inl ErrSessionNotRegistered
        | Some s \<Rightarrow> if ss_namespace s \<noteq> ns then Inl ErrSessionOtherNamespace else Inr (ss_tables s)))"

definition session_replica ::
  "crypto \<Rightarrow> namespace_id \<Rightarrow> session_id \<Rightarrow> ('e \<Rightarrow> actor_error) \<Rightarrow> (replica, 'e, 'a) op \<Rightarrow> (actor, actor_error, 'a) op" where
  "session_replica C ns session err m a =
     (case session_tables a session ns of Inl e \<Rightarrow> (Inl e, a) | Inr t \<Rightarrow> run_if_syncing C ns (Some t) err m a)"

text \<open>A store operation inside an action.\<close>

definition on_actor_store :: "('e \<Rightarrow> actor_error) \<Rightarrow> (fs_store, 'e, 'a) op \<Rightarrow> (actor, actor_error, 'a) op" where
  "on_actor_store err m a = (case m (ac_store a) of (r, s) \<Rightarrow> (map_sum err id r, a\<lparr>ac_store := s\<rparr>))"

definition actor_read :: "(fs_store \<Rightarrow> 'a \<times> fs_store) \<Rightarrow> (actor, actor_error, 'a) op" where
  "actor_read f a = (case f (ac_store a) of (x, s) \<Rightarrow> (Inr x, a\<lparr>ac_store := s\<rparr>))"

definition actor_get_author :: "author_id \<Rightarrow> (actor, actor_error, author) op" where
  "actor_get_author i = op_bind (actor_read (get_author i)) (\<lambda>found.
     case found of None \<Rightarrow> op_fail ErrAuthorNotFound | Some au \<Rightarrow> op_return au)"

definition count_local :: "u64 \<Rightarrow> actor \<Rightarrow> actor" where
  "count_local len a = a\<lparr>ac_metrics := (ac_metrics a)\<lparr>new_entries_local := new_entries_local (ac_metrics a) + 1,
     new_entries_local_size := new_entries_local_size (ac_metrics a) + unat len\<rparr>\<rparr>"

definition count_remote :: "u64 \<Rightarrow> actor \<Rightarrow> actor" where
  "count_remote len a = a\<lparr>ac_metrics := (ac_metrics a)\<lparr>new_entries_remote := new_entries_remote (ac_metrics a) + 1,
     new_entries_remote_size := new_entries_remote_size (ac_metrics a) + unat len\<rparr>\<rparr>"

definition op_update :: "('s \<Rightarrow> 's) \<Rightarrow> ('s, 'e, unit) op" where
  "op_update f s = (Inr (), f s)"

section \<open>Sync sessions\<close>

text \<open>\<open>SyncSessionStart\<close>: freeze a snapshot that holds everything written so far and register it.\<close>

definition session_start :: "namespace_id \<Rightarrow> (actor, actor_error, session_id) op" where
  "session_start ns a =
     (case states_ensure_syncing ns a of
        Inl e \<Rightarrow> (Inl e, a)
      | Inr _ \<Rightarrow>
          (case snapshot_owned (ac_store a) of (t, s) \<Rightarrow>
             let session = (ac_id a, ac_next_session a)
             in (Inr session, record_open_sessions (a\<lparr>ac_store := s, ac_next_session := ac_next_session a + 1,
                   ac_sessions := table_insert session \<lparr>ss_namespace = ns, ss_tables = t\<rparr> (ac_sessions a)\<rparr>))))"

definition session_end :: "session_id \<Rightarrow> actor \<Rightarrow> actor" where
  "session_end session a = record_open_sessions (a\<lparr>ac_sessions := table_remove session (ac_sessions a)\<rparr>)"

text \<open>The outcome is returned with the reply; on an error it is dropped with the action.\<close>

definition session_process ::
  "crypto \<Rightarrow> actor_env \<Rightarrow> namespace_id \<Rightarrow> protocol_message \<Rightarrow> bytes \<Rightarrow> sync_outcome \<Rightarrow> session_id \<Rightarrow> entry_filter option
     \<Rightarrow> (actor, actor_error, protocol_message option \<times> sync_outcome) op" where
  "session_process C ev ns msg from_peer outcome session filt =
     session_replica C ns session ErrSync (\<lambda>r.
       case sync_process_message C (ev_policy_codec ev) (ev_alive ev) (ev_now1 ev) msg from_peer filt (r, outcome) of
         (Inl e, (r', _)) \<Rightarrow> (Inl e, r')
       | (Inr reply, (r', outcome')) \<Rightarrow> (Inr (reply, outcome'), r'))"

text \<open>Drop the snapshots nobody holds, at most once per commit delay.\<close>

definition reclaim_abandoned_sessions :: "(session_id \<Rightarrow> bool) \<Rightarrow> nat \<Rightarrow> actor \<Rightarrow> actor" where
  "reclaim_abandoned_sessions held now a =
     (if ac_sessions a = [] then a
      else if now - ac_last_sweep a < MAX_COMMIT_DELAY then a
      else let kept = filter (\<lambda>(i, _). held i) (ac_sessions a);
               reclaimed = length (ac_sessions a) - length kept
           in record_open_sessions (a\<lparr>ac_last_sweep := now, ac_sessions := kept,
                ac_metrics := (ac_metrics a)\<lparr>sync_sessions_reclaimed := sync_sessions_reclaimed (ac_metrics a) + reclaimed\<rparr>\<rparr>))"

section \<open>Actions\<close>

definition op_reply :: "('a \<Rightarrow> reply) \<Rightarrow> (actor, actor_error, 'a) op \<Rightarrow> (actor, actor_error, reply) op" where
  "op_reply f m = op_bind m (\<lambda>x. op_return (f x))"

definition change_state :: "namespace_id \<Rightarrow> (open_replica_state \<Rightarrow> open_replica_state) \<Rightarrow> (actor, actor_error, unit) op" where
  "change_state ns f a =
     (case states_get ns a of
        Inl e \<Rightarrow> (Inl e, a)
      | Inr st \<Rightarrow> (Inr (), a\<lparr>ac_states := table_insert ns (f st) (ac_states a)\<rparr>))"

definition import_namespace_action :: "crypto \<Rightarrow> capability \<Rightarrow> (actor, actor_error, namespace_id) op" where
  "import_namespace_action C cap =
     (let ns = capability_id C cap in
      op_bind (on_actor_store ErrStore (import_namespace C cap)) (\<lambda>outcome a.
        if outcome \<noteq> ImportUpgraded then (Inr ns, a)
        else (case table_get (ac_states a) ns of
            None \<Rightarrow> (Inr ns, a)
          | Some st \<Rightarrow>
              (case merge_capability C cap (op_info st) of (res, info) \<Rightarrow>
                 (map_sum ErrMerge (\<lambda>_. ns) res,
                  a\<lparr>ac_states := table_insert ns (st\<lparr>op_info := info\<rparr>) (ac_states a)\<rparr>)))))"

definition drop_replica :: "namespace_id \<Rightarrow> (actor, actor_error, unit) op" where
  "drop_replica ns a = (case actor_close ns a of (_, a') \<Rightarrow> on_actor_store ErrStore (remove_replica ns) a')"

definition insert_local :: "crypto \<Rightarrow> actor_env \<Rightarrow> namespace_id \<Rightarrow> author_id \<Rightarrow> bytes \<Rightarrow> bytes \<Rightarrow> u64 \<Rightarrow> (actor, actor_error, unit) op" where
  "insert_local C ev ns author key hash len =
     op_bind (actor_get_author author) (\<lambda>au.
     op_bind (run_replica C ns None ErrInsert
         (replica_insert C (ev_policy_codec ev) (ev_alive ev) (ev_now1 ev) (ev_now2 ev) key au hash len)) (\<lambda>_.
     op_update (count_local len)))"

definition delete_local :: "crypto \<Rightarrow> actor_env \<Rightarrow> namespace_id \<Rightarrow> author_id \<Rightarrow> bytes \<Rightarrow> (actor, actor_error, nat) op" where
  "delete_local C ev ns author key =
     op_bind (actor_get_author author) (\<lambda>au.
       run_replica C ns None ErrInsert
         (delete_prefix C (ev_policy_codec ev) (ev_alive ev) (ev_now1 ev) (ev_now2 ev) key au))"

definition insert_remote :: "crypto \<Rightarrow> actor_env \<Rightarrow> namespace_id \<Rightarrow> signed_entry \<Rightarrow> bytes \<Rightarrow> content_status \<Rightarrow> (actor, actor_error, unit) op" where
  "insert_remote C ev ns e from_peer status =
     op_bind (run_if_syncing C ns None ErrInsert
         (insert_remote_entry C (ev_policy_codec ev) (ev_alive ev) (ev_now1 ev) e from_peer status)) (\<lambda>_.
     op_update (count_remote (entry_content_len (se_entry e))))"

definition export_secret_key :: "namespace_id \<Rightarrow> actor \<Rightarrow> actor_error + namespace_secret" where
  "export_secret_key ns a =
     rbind (states_get ns a) (\<lambda>st. map_sum (\<lambda>_. ErrReadOnly) id (capability_secret_key (ri_capability (op_info st))))"

definition get_state :: "namespace_id \<Rightarrow> actor \<Rightarrow> actor_error + open_state" where
  "get_state ns a = rbind (states_get ns a) (\<lambda>st.
     Inr \<lparr>os_sync = op_sync st, os_subscribers = subscribers_count (op_info st), os_handles = op_handles st\<rparr>)"

definition when_open :: "namespace_id \<Rightarrow> (actor, actor_error, 'a) op \<Rightarrow> (actor, actor_error, 'a) op" where
  "when_open ns m a = (case states_ensure_open ns a of Inl e \<Rightarrow> (Inl e, a) | Inr _ \<Rightarrow> m a)"

fun on_replica_action :: "crypto \<Rightarrow> actor_env \<Rightarrow> namespace_id \<Rightarrow> replica_action \<Rightarrow> (actor, actor_error, reply) op" where
  "on_replica_action C ev ns (ActOpen opts) a = op_reply (\<lambda>_. ReplyUnit) (actor_open C ns opts) a"
| "on_replica_action C ev ns ActClose a = (case actor_close ns a of (res, a') \<Rightarrow> (Inr (ReplyBool res), a'))"
| "on_replica_action C ev ns (ActSubscribe tx) a =
     op_reply (\<lambda>_. ReplyUnit) (change_state ns (\<lambda>st. st\<lparr>op_info := info_subscribe tx (op_info st)\<rparr>)) a"
| "on_replica_action C ev ns (ActUnsubscribe tx) a =
     op_reply (\<lambda>_. ReplyUnit) (change_state ns (\<lambda>st. st\<lparr>op_info := info_unsubscribe tx (op_info st)\<rparr>)) a"
| "on_replica_action C ev ns (ActSetSync sync) a =
     op_reply (\<lambda>_. ReplyUnit) (change_state ns (\<lambda>st. st\<lparr>op_sync := sync\<rparr>)) a"
| "on_replica_action C ev ns (ActInsertLocal author key hash len) a =
     op_reply (\<lambda>_. ReplyUnit) (insert_local C ev ns author key hash len) a"
| "on_replica_action C ev ns (ActDeletePrefix author key) a =
     op_reply ReplyCount (delete_local C ev ns author key) a"
| "on_replica_action C ev ns (ActInsertRemote e from_peer status) a =
     op_reply (\<lambda>_. ReplyUnit) (insert_remote C ev ns e from_peer status) a"
| "on_replica_action C ev ns ActSyncSessionStart a = op_reply ReplySession (session_start ns) a"
| "on_replica_action C ev ns (ActSyncInitialMessage session filt) a =
     op_reply ReplyMessage (session_replica C ns session ErrSync (sync_initial_message C filt)) a"
| "on_replica_action C ev ns (ActSyncProcessMessage msg from_peer outcome session filt) a =
     op_reply (\<lambda>(reply, outcome'). ReplyProcessed reply outcome')
       (session_process C ev ns msg from_peer outcome session filt) a"
| "on_replica_action C ev ns ActGetSyncPeers a =
     op_reply ReplyPeers (when_open ns (actor_read (get_sync_peers ns))) a"
| "on_replica_action C ev ns (ActRegisterUsefulPeer peer) a =
     op_reply (\<lambda>_. ReplyUnit) (on_actor_store ErrStore (register_useful_peer (ev_since_epoch ev) ns peer)) a"
| "on_replica_action C ev ns (ActGetExact author key include_empty) a =
     op_reply ReplyEntry (when_open ns (actor_read (get_exact C ns author key include_empty))) a"
| "on_replica_action C ev ns (ActRetractEntry author key up_to) a =
     op_reply ReplyBool (when_open ns (on_actor_store ErrStore (retract_entry ns author key up_to))) a"
| "on_replica_action C ev ns (ActGetMany q) a =
     op_reply (\<lambda>it. ReplyEntries (query_run C it)) (when_open ns (actor_read (get_many ns q))) a"
| "on_replica_action C ev ns ActDropReplica a = op_reply (\<lambda>_. ReplyUnit) (drop_replica ns) a"
| "on_replica_action C ev ns ActExportSecretKey a = op_reply ReplySecret (op_lift (export_secret_key ns a)) a"
| "on_replica_action C ev ns ActGetState a = op_reply ReplyState (op_lift (get_state ns a)) a"
| "on_replica_action C ev ns (ActHasNewsForUs heads) a =
     op_reply ReplyNews (actor_read (has_news_for_us ns heads)) a"
| "on_replica_action C ev ns (ActSetDownloadPolicy policy) a =
     op_reply (\<lambda>_. ReplyUnit) (on_actor_store ErrStore (set_download_policy (ev_policy_codec ev) ns policy)) a"
| "on_replica_action C ev ns ActGetDownloadPolicy a =
     op_reply ReplyPolicy (on_actor_store ErrStore (get_download_policy (ev_policy_codec ev) ns)) a"

fun on_action :: "crypto \<Rightarrow> actor_env \<Rightarrow> action \<Rightarrow> (actor, actor_error, reply) op" where
  "on_action C ev (ActImportAuthor au) a =
     op_reply (\<lambda>_. ReplyAuthorId (author_id C au)) (on_actor_store ErrStore (import_author C au)) a"
| "on_action C ev (ActExportAuthor i) a = op_reply ReplyAuthor (actor_read (get_author i)) a"
| "on_action C ev (ActDeleteAuthor i) a = op_reply (\<lambda>_. ReplyUnit) (on_actor_store ErrStore (delete_author i)) a"
| "on_action C ev (ActImportNamespace cap) a = op_reply ReplyNamespace (import_namespace_action C cap) a"
| "on_action C ev ActListAuthors a =
     op_reply (\<lambda>aus. ReplyAuthors (map (author_id C) aus)) (actor_read list_authors) a"
| "on_action C ev ActListReplicas a = op_reply ReplyNamespaces (actor_read (list_namespaces C)) a"
| "on_action C ev ActContentHashes a = op_reply ReplyHashes (actor_read content_hashes) a"
| "on_action C ev ActFlushStore a = (Inr ReplyUnit, a\<lparr>ac_store := flush (ac_store a)\<rparr>)"
| "on_action C ev (ActSyncSessionEnd session) a = (Inr ReplyUnit, session_end session a)"
| "on_action C ev (ActReplica ns act) a = on_replica_action C ev ns act a"

section \<open>The main loop\<close>

text \<open>What the loop waits for: the commit timer, a finished streaming task, an action, the request to shut down, or the
  end of the action channel.\<close>

datatype actor_input =
    InTimeout "session_id \<Rightarrow> bool" nat
  | InTaskDone
  | InAction actor_env "session_id \<Rightarrow> bool" nat action
  | InShutdown "session_id \<Rightarrow> bool" nat
  | InDisconnected

definition actor_tick :: "(session_id \<Rightarrow> bool) \<Rightarrow> nat \<Rightarrow> actor \<Rightarrow> actor" where
  "actor_tick held now a = reclaim_abandoned_sessions held now
     (a\<lparr>ac_metrics := (ac_metrics a)\<lparr>actor_tick_main := actor_tick_main (ac_metrics a) + 1\<rparr>\<rparr>)"

definition actor_finish :: "actor \<Rightarrow> actor" where
  "actor_finish a = actor_close_all (a\<lparr>ac_store := flush (ac_store a)\<rparr>)"

fun run_async :: "crypto \<Rightarrow> actor_input list \<Rightarrow> actor \<Rightarrow> (actor_error + reply) list \<times> actor" where
  "run_async C [] a = ([], a)"
| "run_async C (InTimeout held now # rest) a =
     (let a' = reclaim_abandoned_sessions held now a
      in run_async C rest (a'\<lparr>ac_store := flush (ac_store a')\<rparr>))"
| "run_async C (InTaskDone # rest) a = run_async C rest a"
| "run_async C (InAction ev held now act # rest) a =
     (case on_action C ev act (actor_tick held now a) of
        (reply, a') \<Rightarrow> (case run_async C rest a' of (replies, a'') \<Rightarrow> (reply # replies, a'')))"
| "run_async C (InShutdown held now # rest) a = ([], actor_finish (actor_tick held now a))"
| "run_async C (InDisconnected # rest) a = ([], actor_finish a)"

end
