(* ===== verification/Net.thy ===== *)
theory Net
  imports Actor
begin

text \<open>
  The vocabulary of a sync exchange, \<^verbatim>\<open>src/src/net.rs\<close>: why a request is declined, how an exchange ends
  on either side, and what both sides do after their rounds: counting, tearing the streams down, and
  the bound on the whole exchange.

  The transport is not part of the development. What it does in one exchange is an argument: whether
  the connection and the stream open, whether the teardown succeeds, whether the time bound is hit.
  An error that wraps a foreign error is the place it comes from.
\<close>

type_synonym public_key = bytes

datatype abort_reason = AbortNotFound | AbortAlreadySyncing | AbortInternalServerError

datatype accept_outcome = Allow "entry_filter option" | RejectRequest abort_reason

record timings =
  tm_connect :: nat
  tm_process :: nat

record sync_finished =
  sf_namespace :: namespace_id
  sf_peer :: public_key
  sf_outcome :: sync_outcome
  sf_timings :: timings

text \<open>Where an \<open>anyhow\<close> error of an exchange comes from.\<close>

datatype net_error =
    NetActor actor_error
  | NetActorGone
  | NetFrame
  | NetSend
  | NetUnexpectedInit
  | NetDoubleInit
  | NetSyncBeforeInit
  | NetUnexpectedAbort
  | NetClosedBeforeInit
  | NetTransport
  | NetTimeout
  | NetDenied

datatype accept_error =
    AcceptConnect net_error
  | AcceptOpen public_key net_error
  | AcceptAbort public_key namespace_id abort_reason
  | AcceptSync public_key "namespace_id option" net_error
  | AcceptClose public_key "namespace_id option" net_error

datatype connect_error =
    ConnectConnect net_error
  | ConnectRemoteAbort abort_reason
  | ConnectSync net_error
  | ConnectClose net_error

fun accept_error_peer :: "accept_error \<Rightarrow> public_key option" where
  "accept_error_peer (AcceptConnect e) = None"
| "accept_error_peer (AcceptOpen peer e) = Some peer"
| "accept_error_peer (AcceptSync peer ns e) = Some peer"
| "accept_error_peer (AcceptClose peer ns e) = Some peer"
| "accept_error_peer (AcceptAbort peer ns reason) = Some peer"

fun accept_error_namespace :: "accept_error \<Rightarrow> namespace_id option" where
  "accept_error_namespace (AcceptConnect e) = None"
| "accept_error_namespace (AcceptOpen peer e) = None"
| "accept_error_namespace (AcceptSync peer ns e) = ns"
| "accept_error_namespace (AcceptClose peer ns e) = ns"
| "accept_error_namespace (AcceptAbort peer ns reason) = Some ns"

section \<open>Teardown\<close>

text \<open>What the transport answers in one exchange, and the clock readings of its start and after the
  connection and the rounds.\<close>

record transport =
  tr_opens :: bool
  tr_finish :: bool
  tr_stopped :: bool
  tr_read_to_end :: bool
  tr_start :: nat
  tr_connected :: nat
  tr_processed :: nat

definition closed_ok :: "transport \<Rightarrow> bool" where
  "closed_ok tr \<longleftrightarrow> tr_finish tr \<and> tr_stopped tr \<and> tr_read_to_end tr"

definition sync_timings :: "transport \<Rightarrow> timings" where
  "sync_timings tr = \<lparr>tm_connect = tr_connected tr - tr_start tr,
     tm_process = (tr_processed tr - tr_start tr) - (tr_connected tr - tr_start tr)\<rparr>"

text \<open>The dialing side: a failing teardown hides the result of the rounds, and the counters (success, failure) are
  bumped only after a clean one. The rounds are an argument, and the counters are
  optional.\<close>

definition connect_and_sync_inner ::
  "transport \<Rightarrow> namespace_id \<Rightarrow> public_key \<Rightarrow> ('w \<Rightarrow> (connect_error + sync_outcome) \<times> 'w)
     \<Rightarrow> (nat \<times> nat) option \<times> 'w \<Rightarrow> (connect_error + sync_finished) \<times> (nat \<times> nat) option \<times> 'w" where
  "connect_and_sync_inner tr ns peer rounds st =
     (case st of (counters, w) \<Rightarrow>
        if \<not> tr_opens tr then (Inl (ConnectConnect NetTransport), (counters, w))
        else (case rounds w of (res, w') \<Rightarrow>
          if \<not> closed_ok tr then (Inl (ConnectClose NetTransport), (counters, w'))
          else (map_sum id (\<lambda>outcome. \<lparr>sf_namespace = ns, sf_peer = peer, sf_outcome = outcome,
                  sf_timings = sync_timings tr\<rparr>) res,
                (map_option (\<lambda>(succ, fail). case res of Inr _ \<Rightarrow> (succ + 1, fail) | Inl _ \<Rightarrow> (succ, fail + 1)) counters, w'))))"

text \<open>The bound on the whole exchange: when it is hit the future is dropped, with what it has done so far (\<open>partial\<close>).\<close>

definition connect_and_sync ::
  "bool \<Rightarrow> ((nat \<times> nat) option \<times> 'w \<Rightarrow> (nat \<times> nat) option \<times> 'w) \<Rightarrow> transport \<Rightarrow> namespace_id \<Rightarrow> public_key
     \<Rightarrow> ('w \<Rightarrow> (connect_error + sync_outcome) \<times> 'w) \<Rightarrow> (nat \<times> nat) option \<times> 'w
     \<Rightarrow> (connect_error + sync_finished) \<times> (nat \<times> nat) option \<times> 'w" where
  "connect_and_sync elapsed partial tr ns peer rounds st =
     (if elapsed then (Inl (ConnectConnect NetTimeout), partial st)
      else connect_and_sync_inner tr ns peer rounds st)"

text \<open>The accepting side: the result of the rounds wins over the teardown, and the counters are bumped before it. The rounds
  return the namespace of the exchange, and leave the namespace and the outcome of the state.\<close>

definition handle_connection_inner ::
  "transport \<Rightarrow> public_key \<Rightarrow> ('w \<Rightarrow> (accept_error + namespace_id) \<times> (namespace_id option \<times> sync_outcome) \<times> 'w)
     \<Rightarrow> (nat \<times> nat) option \<times> 'w \<Rightarrow> (accept_error + sync_finished) \<times> (nat \<times> nat) option \<times> 'w" where
  "handle_connection_inner tr peer rounds st =
     (case st of (counters, w) \<Rightarrow>
        if \<not> tr_opens tr then (Inl (AcceptOpen peer NetTransport), (counters, w))
        else (case rounds w of (res, (named, outcome), w') \<Rightarrow>
          ((case res of
              Inl e \<Rightarrow> Inl e
            | Inr ns \<Rightarrow>
                if closed_ok tr
                then Inr \<lparr>sf_namespace = ns, sf_peer = peer, sf_outcome = outcome, sf_timings = sync_timings tr\<rparr>
                else Inl (AcceptClose peer named NetTransport)),
           (map_option (\<lambda>(succ, fail). case res of Inr _ \<Rightarrow> (succ + 1, fail) | Inl _ \<Rightarrow> (succ, fail + 1)) counters, w'))))"

text \<open>A timeout names the namespace the accept decision was asked about, if it was: \<open>accepted\<close>.\<close>

definition handle_connection ::
  "bool \<Rightarrow> namespace_id option \<Rightarrow> ((nat \<times> nat) option \<times> 'w \<Rightarrow> (nat \<times> nat) option \<times> 'w) \<Rightarrow> transport \<Rightarrow> public_key
     \<Rightarrow> ('w \<Rightarrow> (accept_error + namespace_id) \<times> (namespace_id option \<times> sync_outcome) \<times> 'w)
     \<Rightarrow> (nat \<times> nat) option \<times> 'w \<Rightarrow> (accept_error + sync_finished) \<times> (nat \<times> nat) option \<times> 'w" where
  "handle_connection elapsed accepted partial tr peer rounds st =
     (if elapsed then (Inl (AcceptSync peer accepted NetTimeout), partial st)
      else handle_connection_inner tr peer rounds st)"

end
