(* ===== verification/Codec.thy ===== *)
theory Codec
  imports Net
begin

text \<open>
  The wire protocol of an exchange, \<^verbatim>\<open>src/src/net/codec.rs\<close>: length-prefixed frames, the initiator
  (\<open>run_alice\<close>) and the receiver (\<open>BobState\<close>).

  What a framed reader yields until its stream ends is a list of decoded messages and errors; whether
  the n-th send succeeds is a predicate. The two sides talk to the actor through its handle: before
  each call is processed the actor may process any other inputs, given by \<open>cl_before\<close>.
\<close>

section \<open>Frames\<close>

datatype sync_message =
    Init namespace_id protocol_message
  | SyncMsg protocol_message
  | AbortMsg abort_reason

datatype codec_error = FrameTooLarge nat | FramePostcard

definition MAX_MESSAGE_SIZE :: nat where
  "MAX_MESSAGE_SIZE = 1024 * 1024 * 1024"

definition codec_decode ::
  "sync_message postcard \<Rightarrow> bytes \<Rightarrow> (codec_error + sync_message option) \<times> bytes" where
  "codec_decode M src =
     (if length src < 4 then (Inr None, src)
      else let frame_len = be_value (take 4 src) in
        if MAX_MESSAGE_SIZE < frame_len then (Inl (FrameTooLarge frame_len), src)
        else if length src < 4 + frame_len then (Inr None, src)
        else (case pc_from_bytes M (take frame_len (drop 4 src)) of
            None \<Rightarrow> (Inl FramePostcard, src)
          | Some msg \<Rightarrow> (Inr (Some msg), drop (4 + frame_len) src)))"

text \<open>\<open>postcard::to_slice\<close> writes at the start of the slice and fails when it is too short.\<close>

definition write_at :: "nat \<Rightarrow> bytes \<Rightarrow> bytes \<Rightarrow> bytes option" where
  "write_at i b dst = (if length dst < i + length b then None else Some (take i dst @ b @ drop (i + length b) dst))"

definition codec_encode :: "sync_message postcard \<Rightarrow> sync_message \<Rightarrow> bytes \<Rightarrow> (codec_error + unit) \<times> bytes" where
  "codec_encode M item dst =
     (let len = pc_serialized_size M item in
      if MAX_MESSAGE_SIZE < len then (Inl (FrameTooLarge len), dst)
      else let dst1 = dst @ be_bytes 4 len;
               dst2 = (if length dst1 < 4 + len then dst1 @ replicate (4 + len - length dst1) 0 else dst1)
           in (case write_at 4 (pc_to_stdvec M item) dst2 of
                 None \<Rightarrow> (Inl FramePostcard, dst2)
               | Some dst3 \<Rightarrow> (Inr (), dst3)))"

section \<open>Calling the actor\<close>

record call =
  cl_before :: "actor_input list"
  cl_held :: "session_id \<Rightarrow> bool"
  cl_now :: nat
  cl_env :: actor_env

text \<open>The surroundings of one exchange: its calls, its sends, and whether the release message of its session gets through.\<close>

record world =
  w_codec :: "sync_message postcard"
  w_call :: "nat \<Rightarrow> call"
  w_send :: "nat \<Rightarrow> bool"
  w_release :: bool

record exchange_io =
  ex_actor :: actor
  ex_running :: bool
  ex_calls :: nat
  ex_sends :: nat
  ex_sent :: "sync_message list"

definition exchange_start :: "actor \<Rightarrow> exchange_io" where
  "exchange_start a = \<lparr>ex_actor = a, ex_running = True, ex_calls = 0, ex_sends = 0, ex_sent = []\<rparr>"

text \<open>A call fails once the actor has left its loop: its channel is closed.\<close>

fun input_stops :: "actor_input \<Rightarrow> bool" where
  "input_stops (InShutdown held now) = True"
| "input_stops InDisconnected = True"
| "input_stops _ = False"

definition io_call ::
  "crypto \<Rightarrow> world \<Rightarrow> (actor_env \<Rightarrow> (actor, actor_error, 'a) op) \<Rightarrow> (exchange_io, net_error, 'a) op" where
  "io_call C W m x =
     (let cl = w_call W (ex_calls x); x1 = x\<lparr>ex_calls := ex_calls x + 1\<rparr> in
      if \<not> ex_running x then (Inl NetActorGone, x1)
      else let a = snd (run_async C (cl_before cl) (ex_actor x)) in
        if list_ex input_stops (cl_before cl) then (Inl NetActorGone, x1\<lparr>ex_actor := a, ex_running := False\<rparr>)
        else (case m (cl_env cl) (actor_tick (cl_held cl) (cl_now cl) a) of (r, a') \<Rightarrow>
                (map_sum NetActor id r, x1\<lparr>ex_actor := a'\<rparr>)))"

definition io_send :: "world \<Rightarrow> sync_message \<Rightarrow> (exchange_io, net_error, unit) op" where
  "io_send W msg x =
     (case fst (codec_encode (w_codec W) msg []) of
        Inl _ \<Rightarrow> (Inl NetFrame, x\<lparr>ex_sends := ex_sends x + 1\<rparr>)
      | Inr _ \<Rightarrow>
          if w_send W (ex_sends x)
          then (Inr (), x\<lparr>ex_sends := ex_sends x + 1, ex_sent := ex_sent x @ [msg]\<rparr>)
          else (Inl NetSend, x\<lparr>ex_sends := ex_sends x + 1\<rparr>))"

definition io_session_start :: "crypto \<Rightarrow> world \<Rightarrow> namespace_id \<Rightarrow> (exchange_io, net_error, session_id) op" where
  "io_session_start C W ns = io_call C W (\<lambda>_. session_start ns)"

definition io_initial ::
  "crypto \<Rightarrow> world \<Rightarrow> namespace_id \<Rightarrow> session_id \<Rightarrow> entry_filter option \<Rightarrow> (exchange_io, net_error, protocol_message) op" where
  "io_initial C W ns session filt = io_call C W (\<lambda>_. session_replica C ns session ErrSync (sync_initial_message C filt))"

definition io_process ::
  "crypto \<Rightarrow> world \<Rightarrow> namespace_id \<Rightarrow> protocol_message \<Rightarrow> public_key \<Rightarrow> sync_outcome \<Rightarrow> session_id \<Rightarrow> entry_filter option
     \<Rightarrow> (exchange_io, net_error, protocol_message option \<times> sync_outcome) op" where
  "io_process C W ns msg peer progress session filt =
     io_call C W (\<lambda>ev. session_process C ev ns msg peer progress session filt)"

text \<open>Dropping the session handle: the release message, unless the queue is full.\<close>

definition io_release :: "crypto \<Rightarrow> world \<Rightarrow> session_id \<Rightarrow> exchange_io \<Rightarrow> exchange_io" where
  "io_release C W session x =
     (if w_release W then snd (io_call C W (\<lambda>_ a. (Inr (), session_end session a)) x) else x)"

section \<open>The initiator\<close>

fun alice_rounds ::
  "crypto \<Rightarrow> world \<Rightarrow> namespace_id \<Rightarrow> public_key \<Rightarrow> entry_filter option \<Rightarrow> session_id
     \<Rightarrow> (codec_error + sync_message) list \<Rightarrow> sync_outcome \<Rightarrow> (exchange_io, connect_error, sync_outcome) op" where
  "alice_rounds C W ns peer filt session [] progress = op_return progress"
| "alice_rounds C W ns peer filt session (Inl e # rest) progress = op_fail (ConnectSync NetFrame)"
| "alice_rounds C W ns peer filt session (Inr (Init n m) # rest) progress = op_fail (ConnectSync NetUnexpectedInit)"
| "alice_rounds C W ns peer filt session (Inr (SyncMsg msg) # rest) progress =
     op_bind (op_map_err ConnectSync (io_process C W ns msg peer progress session filt)) (\<lambda>(reply, progress').
       case reply of
         None \<Rightarrow> op_return progress'
       | Some m \<Rightarrow>
           op_bind (op_map_err ConnectSync (io_send W (SyncMsg m))) (\<lambda>_.
             alice_rounds C W ns peer filt session rest progress'))"
| "alice_rounds C W ns peer filt session (Inr (AbortMsg reason) # rest) progress = op_fail (ConnectRemoteAbort reason)"

definition alice_session ::
  "crypto \<Rightarrow> world \<Rightarrow> namespace_id \<Rightarrow> public_key \<Rightarrow> entry_filter option \<Rightarrow> (codec_error + sync_message) list \<Rightarrow> session_id
     \<Rightarrow> (exchange_io, connect_error, sync_outcome) op" where
  "alice_session C W ns peer filt items session =
     op_bind (op_map_err ConnectSync (io_initial C W ns session filt)) (\<lambda>message.
     op_bind (op_map_err ConnectSync (io_send W (Init ns message))) (\<lambda>_.
       alice_rounds C W ns peer filt session items sync_outcome_default))"

definition run_alice ::
  "crypto \<Rightarrow> world \<Rightarrow> namespace_id \<Rightarrow> public_key \<Rightarrow> entry_filter option \<Rightarrow> (codec_error + sync_message) list
     \<Rightarrow> (exchange_io, connect_error, sync_outcome) op" where
  "run_alice C W ns peer filt items x =
     (case op_map_err ConnectSync (io_session_start C W ns) x of
        (Inl e, x1) \<Rightarrow> (Inl e, x1)
      | (Inr session, x1) \<Rightarrow>
          (case alice_session C W ns peer filt items session x1 of
             (res, x2) \<Rightarrow> (res, io_release C W session x2)))"

section \<open>The receiver\<close>

record bob_state =
  bs_namespace :: "namespace_id option"
  bs_peer :: public_key
  bs_progress :: sync_outcome
  bs_filter :: "entry_filter option"
  bs_session :: "(namespace_id \<times> session_id) option"

definition bob_new :: "public_key \<Rightarrow> bob_state" where
  "bob_new peer = \<lparr>bs_namespace = None, bs_peer = peer, bs_progress = sync_outcome_default, bs_filter = None, bs_session = None\<rparr>"

definition bob_fail :: "bob_state \<Rightarrow> net_error \<Rightarrow> accept_error" where
  "bob_fail b e = AcceptSync (bs_peer b) (bs_namespace b) e"

text \<open>Running an operation of the exchange under a state of the receiver.\<close>

definition on_exchange :: "(exchange_io, net_error, 'a) op \<Rightarrow> (bob_state \<times> exchange_io, accept_error, 'a) op" where
  "on_exchange m bx = (case m (snd bx) of (r, x) \<Rightarrow> (map_sum (bob_fail (fst bx)) id r, (fst bx, x)))"

definition bob_update :: "(bob_state \<Rightarrow> bob_state) \<Rightarrow> (bob_state \<times> exchange_io, accept_error, unit) op" where
  "bob_update f bx = (Inr (), (f (fst bx), snd bx))"

text \<open>One round, up to the reply to send: what the message is and whether a session is running decide.\<close>

definition bob_message ::
  "crypto \<Rightarrow> world \<Rightarrow> (namespace_id \<Rightarrow> public_key \<Rightarrow> accept_outcome) \<Rightarrow> sync_message
     \<Rightarrow> (bob_state \<times> exchange_io, accept_error, protocol_message option \<times> sync_outcome) op" where
  "bob_message C W accept_cb msg bx =
     (case (msg, bs_session (fst bx)) of
        (Init ns message, None) \<Rightarrow>
          op_bind (bob_update (\<lambda>b. b\<lparr>bs_namespace := Some ns\<rparr>)) (\<lambda>_ bx.
            case accept_cb ns (bs_peer (fst bx)) of
              RejectRequest reason \<Rightarrow>
                op_bind (on_exchange (io_send W (AbortMsg reason))) (\<lambda>_.
                  op_fail (AcceptAbort (bs_peer (fst bx)) ns reason)) bx
            | Allow filt \<Rightarrow>
                op_bind (bob_update (\<lambda>b. b\<lparr>bs_filter := filt\<rparr>)) (\<lambda>_.
                op_bind (on_exchange (io_session_start C W ns)) (\<lambda>session.
                op_bind (bob_update (\<lambda>b. b\<lparr>bs_session := Some (ns, session)\<rparr>)) (\<lambda>_ bx.
                  on_exchange (io_process C W ns message (bs_peer (fst bx)) (bs_progress (fst bx)) session
                    (bs_filter (fst bx))) bx))) bx) bx
      | (SyncMsg m, Some (ns, session)) \<Rightarrow>
          on_exchange (io_process C W ns m (bs_peer (fst bx)) (bs_progress (fst bx)) session (bs_filter (fst bx))) bx
      | (Init _ _, Some _) \<Rightarrow> (Inl (bob_fail (fst bx) NetDoubleInit), bx)
      | (SyncMsg _, None) \<Rightarrow> (Inl (bob_fail (fst bx) NetSyncBeforeInit), bx)
      | (AbortMsg _, _) \<Rightarrow> (Inl (bob_fail (fst bx) NetUnexpectedAbort), bx))"

definition bob_done :: "(bob_state \<times> exchange_io, accept_error, namespace_id) op" where
  "bob_done bx =
     (case bs_namespace (fst bx) of
        Some ns \<Rightarrow> (Inr ns, bx)
      | None \<Rightarrow> (Inl (bob_fail (fst bx) NetClosedBeforeInit), bx))"

fun run_rounds ::
  "crypto \<Rightarrow> world \<Rightarrow> (namespace_id \<Rightarrow> public_key \<Rightarrow> accept_outcome) \<Rightarrow> (codec_error + sync_message) list
     \<Rightarrow> (bob_state \<times> exchange_io, accept_error, namespace_id) op" where
  "run_rounds C W accept_cb [] bx = bob_done bx"
| "run_rounds C W accept_cb (Inl e # rest) bx = (Inl (bob_fail (fst bx) NetFrame), bx)"
| "run_rounds C W accept_cb (Inr msg # rest) bx =
     op_bind (bob_message C W accept_cb msg) (\<lambda>(reply, progress).
     op_bind (bob_update (\<lambda>b. b\<lparr>bs_progress := progress\<rparr>)) (\<lambda>_.
       case reply of
         None \<Rightarrow> bob_done
       | Some m \<Rightarrow>
           op_bind (on_exchange (io_send W (SyncMsg m))) (\<lambda>_. run_rounds C W accept_cb rest))) bx"

text \<open>\<open>run\<close>: an error that is not a refusal is announced to the peer with a terminal frame, best effort.\<close>

definition bob_run ::
  "crypto \<Rightarrow> world \<Rightarrow> (namespace_id \<Rightarrow> public_key \<Rightarrow> accept_outcome) \<Rightarrow> (codec_error + sync_message) list
     \<Rightarrow> (bob_state \<times> exchange_io, accept_error, namespace_id) op" where
  "bob_run C W accept_cb items bx =
     (case run_rounds C W accept_cb items bx of
        (Inr ns, bx') \<Rightarrow> (Inr ns, bx')
      | (Inl err, (b, x)) \<Rightarrow>
          (Inl err, (b, case err of
              AcceptAbort _ _ _ \<Rightarrow> x
            | _ \<Rightarrow> snd (io_send W (AbortMsg AbortInternalServerError) x))))"

text \<open>The state is dropped after its outcome is read, and its session with it.\<close>

definition bob_into_outcome :: "crypto \<Rightarrow> world \<Rightarrow> bob_state \<times> exchange_io \<Rightarrow> sync_outcome \<times> exchange_io" where
  "bob_into_outcome C W bx =
     (bs_progress (fst bx),
      case bs_session (fst bx) of Some (_, session) \<Rightarrow> io_release C W session (snd bx) | None \<Rightarrow> snd bx)"

section \<open>Whole exchanges\<close>

text \<open>The rounds of either side inside its setup, teardown and time bound.\<close>

definition dial_exchange where
  "dial_exchange C W elapsed partial tr ns peer filt items =
     connect_and_sync elapsed partial tr ns peer (run_alice C W ns peer filt items)"

definition accept_exchange where
  "accept_exchange C W elapsed accepted partial tr peer accept_cb items =
     handle_connection elapsed accepted partial tr peer (\<lambda>x.
       case bob_run C W accept_cb items (bob_new peer, x) of (res, (b, x')) \<Rightarrow>
         (case bob_into_outcome C W (b, x') of (outcome, x'') \<Rightarrow> (res, (bs_namespace b, outcome), x'')))"

end
