(* ===== verification/Engine_State.thy ===== *)
theory Engine_State
  imports Net
begin

text \<open>
  The live actor's record of running exchanges, \<^verbatim>\<open>src/src/engine/state.rs\<close>: for each syncing namespace
  and each peer whether an exchange runs, who started it, and whether to run again afterwards. Clock
  readings are arguments.
\<close>

section \<open>Data\<close>

text \<open>An exchange fails with the error of its side.\<close>

datatype exchange_error = DialFailed connect_error | AcceptFailed accept_error

datatype sync_reason = DirectJoin | NewNeighbor | SyncReportReason | Resync

datatype origin = Connect sync_reason | OriginAccept

datatype sync_state = Idle | Running (run_start: nat) (run_origin: origin)

record peer_state =
  ps_state :: sync_state
  ps_resync_requested :: bool
  ps_last_sync :: "(nat \<times> (exchange_error + sync_finished)) option"

definition peer_state_default :: peer_state where
  "peer_state_default = \<lparr>ps_state = Idle, ps_resync_requested = False, ps_last_sync = None\<rparr>"

record namespace_state =
  nst_nodes :: "(public_key, peer_state) table"
  nst_may_emit_ready :: bool

definition namespace_state_default :: namespace_state where
  "namespace_state_default = \<lparr>nst_nodes = [], nst_may_emit_ready = False\<rparr>"

type_synonym namespace_states = "(namespace_id, namespace_state) table"

datatype sync_direction = DirAccept | DirConnect

definition expected_sync_direction :: "public_key \<Rightarrow> public_key \<Rightarrow> sync_direction" where
  "expected_sync_direction self_node_id other_node_id =
     (if other_node_id < self_node_id then DirAccept else DirConnect)"

section \<open>One peer\<close>

definition set_sync_running :: "nat \<Rightarrow> origin \<Rightarrow> peer_state \<Rightarrow> peer_state" where
  "set_sync_running now orig ps = ps\<lparr>ps_state := Running now orig, ps_resync_requested := False\<rparr>"

text \<open>A mismatch of the origins is only logged.\<close>

definition peer_finish ::
  "nat \<Rightarrow> origin \<Rightarrow> exchange_error + sync_finished \<Rightarrow> peer_state \<Rightarrow> (nat \<times> bool) option \<times> peer_state" where
  "peer_finish now orig result ps =
     (let start = (case ps_state ps of Running start _ \<Rightarrow> Some start | Idle \<Rightarrow> None)
      in (map_option (\<lambda>s. (s, ps_resync_requested ps)) start,
          ps\<lparr>ps_last_sync := Some (now, result), ps_state := Idle\<rparr>))"

definition peer_start_connect :: "nat \<Rightarrow> sync_reason \<Rightarrow> peer_state \<Rightarrow> bool \<times> peer_state" where
  "peer_start_connect now reason ps =
     (case ps_state ps of
        Running _ _ \<Rightarrow> (False, if reason = SyncReportReason then ps\<lparr>ps_resync_requested := True\<rparr> else ps)
      | Idle \<Rightarrow> (True, set_sync_running now (Connect reason) ps))"

definition peer_abort_connect :: "sync_reason \<Rightarrow> peer_state \<Rightarrow> bool \<times> peer_state" where
  "peer_abort_connect reason ps =
     (case ps_state ps of
        Running _ (Connect running_reason) \<Rightarrow>
          if running_reason = reason then (True, ps\<lparr>ps_state := Idle\<rparr>) else (False, ps)
      | _ \<Rightarrow> (False, ps))"

definition peer_accept_request :: "nat \<Rightarrow> public_key \<Rightarrow> public_key \<Rightarrow> peer_state \<Rightarrow> accept_outcome \<times> peer_state" where
  "peer_accept_request now me node ps =
     (let outcome = (case ps_state ps of
          Idle \<Rightarrow> Allow None
        | Running _ orig \<Rightarrow>
            (case orig of
               OriginAccept \<Rightarrow> RejectRequest AbortAlreadySyncing
             | Connect _ \<Rightarrow>
                 (case expected_sync_direction me node of
                    DirAccept \<Rightarrow> Allow None
                  | DirConnect \<Rightarrow> RejectRequest AbortAlreadySyncing)))
      in (outcome, case outcome of Allow _ \<Rightarrow> set_sync_running now OriginAccept ps | RejectRequest _ \<Rightarrow> ps))"

section \<open>All namespaces\<close>

definition ns_is_syncing :: "namespace_id \<Rightarrow> namespace_states \<Rightarrow> bool" where
  "ns_is_syncing ns sts \<longleftrightarrow> table_get sts ns \<noteq> None"

definition ns_insert :: "namespace_id \<Rightarrow> namespace_states \<Rightarrow> namespace_states" where
  "ns_insert ns sts = (case table_get sts ns of Some _ \<Rightarrow> sts | None \<Rightarrow> table_insert ns namespace_state_default sts)"

definition ns_remove :: "namespace_id \<Rightarrow> namespace_states \<Rightarrow> bool \<times> namespace_states" where
  "ns_remove ns sts = (table_get sts ns \<noteq> None, table_remove ns sts)"

text \<open>\<open>entry\<close>: run an operation on the state of a peer of a syncing namespace, a fresh one if it is unknown.\<close>

definition ns_entry ::
  "namespace_id \<Rightarrow> public_key \<Rightarrow> 'a \<Rightarrow> (peer_state \<Rightarrow> 'a \<times> peer_state) \<Rightarrow> namespace_states \<Rightarrow> 'a \<times> namespace_states" where
  "ns_entry ns node absent f sts =
     (case table_get sts ns of
        None \<Rightarrow> (absent, sts)
      | Some n \<Rightarrow>
          (case f (case table_get (nst_nodes n) node of Some ps \<Rightarrow> ps | None \<Rightarrow> peer_state_default) of
             (x, ps) \<Rightarrow> (x, table_insert ns (n\<lparr>nst_nodes := table_insert node ps (nst_nodes n)\<rparr>) sts)))"

definition ns_start_connect ::
  "nat \<Rightarrow> namespace_id \<Rightarrow> public_key \<Rightarrow> sync_reason \<Rightarrow> namespace_states \<Rightarrow> bool \<times> namespace_states" where
  "ns_start_connect now ns node reason = ns_entry ns node False (peer_start_connect now reason)"

definition ns_abort_connect ::
  "namespace_id \<Rightarrow> public_key \<Rightarrow> sync_reason \<Rightarrow> namespace_states \<Rightarrow> bool \<times> namespace_states" where
  "ns_abort_connect ns node reason = ns_entry ns node False (peer_abort_connect reason)"

definition ns_accept_request ::
  "nat \<Rightarrow> public_key \<Rightarrow> namespace_id \<Rightarrow> public_key \<Rightarrow> namespace_states \<Rightarrow> accept_outcome \<times> namespace_states" where
  "ns_accept_request now me ns node = ns_entry ns node (RejectRequest AbortNotFound) (peer_accept_request now me node)"

definition ns_finish ::
  "nat \<Rightarrow> namespace_id \<Rightarrow> public_key \<Rightarrow> origin \<Rightarrow> exchange_error + sync_finished \<Rightarrow> namespace_states
     \<Rightarrow> (nat \<times> bool) option \<times> namespace_states" where
  "ns_finish now ns node orig result = ns_entry ns node None (peer_finish now orig result)"

definition ns_set_may_emit_ready :: "namespace_id \<Rightarrow> bool \<Rightarrow> namespace_states \<Rightarrow> unit option \<times> namespace_states" where
  "ns_set_may_emit_ready ns v sts =
     (case table_get sts ns of
        None \<Rightarrow> (None, sts)
      | Some n \<Rightarrow> (Some (), table_insert ns (n\<lparr>nst_may_emit_ready := v\<rparr>) sts))"

definition ns_may_emit_ready :: "namespace_id \<Rightarrow> namespace_states \<Rightarrow> bool option \<times> namespace_states" where
  "ns_may_emit_ready ns sts =
     (case table_get sts ns of
        None \<Rightarrow> (None, sts)
      | Some n \<Rightarrow>
          if nst_may_emit_ready n
          then (Some True, table_insert ns (n\<lparr>nst_may_emit_ready := False\<rparr>) sts)
          else (Some False, sts))"

section \<open>What the record says\<close>

definition exchange :: "namespace_states \<Rightarrow> namespace_id \<Rightarrow> public_key \<Rightarrow> sync_state" where
  "exchange sts ns node =
     (case table_get sts ns of
        None \<Rightarrow> Idle
      | Some n \<Rightarrow> (case table_get (nst_nodes n) node of None \<Rightarrow> Idle | Some ps \<Rightarrow> ps_state ps))"

definition resync_queued :: "namespace_states \<Rightarrow> namespace_id \<Rightarrow> public_key \<Rightarrow> bool" where
  "resync_queued sts ns node =
     (case table_get sts ns of
        None \<Rightarrow> False
      | Some n \<Rightarrow> (case table_get (nst_nodes n) node of None \<Rightarrow> False | Some ps \<Rightarrow> ps_resync_requested ps))"

lemma ns_entry_syncing: "ns_is_syncing n (snd (ns_entry ns node absent f sts)) = ns_is_syncing n sts"
  by (auto simp: ns_is_syncing_def ns_entry_def table_get_insert split: option.splits prod.splits)

text \<open>An operation on one pair is a function of the two flags of that pair, and leaves every other pair alone.\<close>

lemma ns_entry_cases:
  assumes "ns_is_syncing ns sts"
  obtains ps where "ps_state ps = exchange sts ns node" "ps_resync_requested ps = resync_queued sts ns node"
    "fst (ns_entry ns node absent f sts) = fst (f ps)"
    "exchange (snd (ns_entry ns node absent f sts)) ns node = ps_state (snd (f ps))"
    "resync_queued (snd (ns_entry ns node absent f sts)) ns node = ps_resync_requested (snd (f ps))"
    "\<And>n m. (n, m) \<noteq> (ns, node) \<Longrightarrow> exchange (snd (ns_entry ns node absent f sts)) n m = exchange sts n m \<and>
       resync_queued (snd (ns_entry ns node absent f sts)) n m = resync_queued sts n m"
proof -
  obtain n where n: "table_get sts ns = Some n" using assms by (auto simp: ns_is_syncing_def)
  let ?ps = "case table_get (nst_nodes n) node of Some ps \<Rightarrow> ps | None \<Rightarrow> peer_state_default"
  obtain x ps' where f: "f ?ps = (x, ps')" by fastforce
  show thesis
    using that[of ?ps] n f
    by (auto simp: ns_entry_def exchange_def resync_queued_def table_get_insert peer_state_default_def split: option.splits)
qed

section \<open>Behaviour of a pair\<close>

lemma start_connect_eq:
  assumes "ns_is_syncing ns sts"
  shows "fst (ns_start_connect now ns node reason sts) \<longleftrightarrow> exchange sts ns node = Idle"
    "exchange (snd (ns_start_connect now ns node reason sts)) ns node =
       (if exchange sts ns node = Idle then Running now (Connect reason) else exchange sts ns node)"
    "resync_queued (snd (ns_start_connect now ns node reason sts)) ns node \<longleftrightarrow>
       exchange sts ns node \<noteq> Idle \<and> (resync_queued sts ns node \<or> reason = SyncReportReason)"
  by (rule ns_entry_cases[OF assms, of node False "peer_start_connect now reason"];
      auto simp: ns_start_connect_def peer_start_connect_def set_sync_running_def split: sync_state.splits)+

lemma accept_request_eq:
  assumes "ns_is_syncing ns sts"
  shows "fst (ns_accept_request now me ns node sts) =
      (case exchange sts ns node of
         Idle \<Rightarrow> Allow None
       | Running _ (Connect _) \<Rightarrow> if node < me then Allow None else RejectRequest AbortAlreadySyncing
       | Running _ OriginAccept \<Rightarrow> RejectRequest AbortAlreadySyncing)"
    "exchange (snd (ns_accept_request now me ns node sts)) ns node =
      (if fst (ns_accept_request now me ns node sts) = Allow None then Running now OriginAccept else exchange sts ns node)"
  by (rule ns_entry_cases[OF assms, of node "RejectRequest AbortNotFound" "peer_accept_request now me node"];
      auto simp: ns_accept_request_def peer_accept_request_def set_sync_running_def expected_sync_direction_def
        split: sync_state.splits origin.splits)+

lemma abort_connect_eq:
  assumes "ns_is_syncing ns sts"
  shows "fst (ns_abort_connect ns node reason sts) \<longleftrightarrow> (\<exists>t. exchange sts ns node = Running t (Connect reason))"
    "exchange (snd (ns_abort_connect ns node reason sts)) ns node =
      (if fst (ns_abort_connect ns node reason sts) then Idle else exchange sts ns node)"
  by (rule ns_entry_cases[OF assms, of node False "peer_abort_connect reason"];
      auto simp: ns_abort_connect_def peer_abort_connect_def split: sync_state.splits origin.splits)+

lemma ns_finish_eq:
  assumes "ns_is_syncing ns sts"
  shows "fst (ns_finish now ns node orig result sts) =
      (case exchange sts ns node of Idle \<Rightarrow> None | Running start _ \<Rightarrow> Some (start, resync_queued sts ns node))"
    "exchange (snd (ns_finish now ns node orig result sts)) ns node = Idle"
  by (rule ns_entry_cases[OF assms, of node None "peer_finish now orig result"];
      auto simp: ns_finish_def peer_finish_def Let_def split: sync_state.splits)+

text \<open>C29. Two peers that dial each other at the same time settle on one exchange. When each gets the other's request while its own
  dial is running, exactly one of them allows it, the one with the greater id; its slot then belongs to
  the incoming exchange, the other side's slot still to its dial. When the winner then learns that its own
  dial was refused, clearing that dial leaves the incoming exchange alone.\<close>

theorem mutual_dial_one_winner:
  assumes "a \<noteq> b" "ns_is_syncing ns sa" "ns_is_syncing ns sb"
    "exchange sa ns b = Running t (Connect r)" "exchange sb ns a = Running t' (Connect r')"
    "ns_accept_request now a ns b sa = (oa, sa')" "ns_accept_request now' b ns a sb = (ob, sb')"
  shows "(oa = Allow None) \<noteq> (ob = Allow None) \<and>
    (oa = Allow None \<longleftrightarrow> b < a) \<and>
    (b < a \<longrightarrow> exchange sa' ns b = Running now OriginAccept \<and> exchange sb' ns a = Running t' (Connect r') \<and>
       ob = RejectRequest AbortAlreadySyncing \<and>
       fst (ns_abort_connect ns b r sa') = False \<and>
       exchange (snd (ns_abort_connect ns b r sa')) ns b = Running now OriginAccept) \<and>
    (a < b \<longrightarrow> exchange sb' ns a = Running now' OriginAccept \<and> exchange sa' ns b = Running t (Connect r) \<and>
       oa = RejectRequest AbortAlreadySyncing)"
proof -
  have syncing: "ns_is_syncing ns sa'" using ns_entry_syncing assms(2,6) by (metis ns_accept_request_def snd_conv)
  have a: "oa = (if b < a then Allow None else RejectRequest AbortAlreadySyncing)"
    "exchange sa' ns b = (if b < a then Running now OriginAccept else Running t (Connect r))"
    using accept_request_eq[OF assms(2), of now a b] assms(4,6) by auto
  have b: "ob = (if a < b then Allow None else RejectRequest AbortAlreadySyncing)"
    "exchange sb' ns a = (if a < b then Running now' OriginAccept else Running t' (Connect r'))"
    using accept_request_eq[OF assms(3), of now' b a] assms(5,7) by auto
  show ?thesis using a b abort_connect_eq[OF syncing, of b r] assms(1) by auto
qed

text \<open>The triggers that arrive while an exchange runs.\<close>

definition triggers ::
  "namespace_id \<Rightarrow> public_key \<Rightarrow> (nat \<times> sync_reason) list \<Rightarrow> namespace_states \<Rightarrow> namespace_states" where
  "triggers ns node rs sts = fold (\<lambda>(now, reason) sts. snd (ns_start_connect now ns node reason sts)) rs sts"

lemma triggers_running:
  assumes "ns_is_syncing ns sts" "exchange sts ns node = Running t orig"
  shows "ns_is_syncing ns (triggers ns node rs sts) \<and> exchange (triggers ns node rs sts) ns node = Running t orig \<and>
    (resync_queued (triggers ns node rs sts) ns node \<longleftrightarrow>
       resync_queued sts ns node \<or> SyncReportReason \<in> snd ` set rs)"
  using assms
proof (induction rs arbitrary: sts)
  case (Cons x rs)
  obtain now reason where x: "x = (now, reason)" by fastforce
  let ?s = "snd (ns_start_connect now ns node reason sts)"
  have "ns_is_syncing ns ?s" using Cons.prems(1) by (simp add: ns_start_connect_def ns_entry_syncing)
  then show ?case using Cons.IH[of ?s] start_connect_eq[OF Cons.prems(1), of now node reason] Cons.prems(2)
    by (auto simp: triggers_def x)
qed (simp add: triggers_def)

text \<open>No news is lost while an exchange runs. Every trigger that arrives for a pair whose exchange is running is refused, so
  there are never two at a time; and when that exchange finishes, the pair is idle and another exchange
  is asked for exactly when one of the triggers was a sync report (or one was queued before). The start
  time reported is that of the exchange.\<close>

theorem running_exchange_coalesces:
  assumes "ns_is_syncing ns sts" "exchange sts ns node = Running t orig"
  shows "fst (ns_start_connect now ns node reason (triggers ns node rs sts)) = False \<and>
    fst (ns_finish now' ns node orig result (triggers ns node rs sts)) =
      Some (t, resync_queued sts ns node \<or> SyncReportReason \<in> snd ` set rs) \<and>
    exchange (snd (ns_finish now' ns node orig result (triggers ns node rs sts))) ns node = Idle \<and>
    fst (ns_start_connect now'' ns node reason (snd (ns_finish now' ns node orig result (triggers ns node rs sts))))"
proof -
  let ?s = "triggers ns node rs sts"
  have s: "ns_is_syncing ns ?s" "exchange ?s ns node = Running t orig"
    "resync_queued ?s ns node \<longleftrightarrow> resync_queued sts ns node \<or> SyncReportReason \<in> snd ` set rs"
    using triggers_running[OF assms, of rs] by auto
  have "ns_is_syncing ns (snd (ns_finish now' ns node orig result ?s))" using s(1) by (simp add: ns_finish_def ns_entry_syncing)
  then show ?thesis using start_connect_eq[OF s(1)] ns_finish_eq[OF s(1), of now' node orig result] s(2,3)
      start_connect_eq(1)[of ns "snd (ns_finish now' ns node orig result ?s)" now'' node reason] by auto
qed

text \<open>C39. A finish with the wrong origin still releases the slot. When an incoming exchange has taken the slot over from our
  dial and that dial then ends with an error other than a refusal, the record says idle although the
  incoming exchange is still running, and the next trigger starts a second exchange beside it.\<close>

theorem stale_finish_releases_slot:
  assumes "ns_is_syncing ns sts" "exchange sts ns node = Running t (Connect r)" "node < me"
    "ns_accept_request now me ns node sts = (outcome, sts1)"
    "ns_finish now1 ns node (Connect r) (Inl e) sts1 = (fin, sts2)"
  shows "outcome = Allow None \<and> exchange sts1 ns node = Running now OriginAccept \<and>
    fin \<noteq> None \<and> exchange sts2 ns node = Idle \<and> fst (ns_start_connect now2 ns node NewNeighbor sts2)"
proof -
  have s1: "outcome = Allow None" "exchange sts1 ns node = Running now OriginAccept"
    using accept_request_eq[OF assms(1), of now me node] assms(2,3,4) by auto
  have "ns_is_syncing ns sts1" using ns_entry_syncing assms(1,4) by (metis ns_accept_request_def snd_conv)
  then have s2: "fin \<noteq> None" "exchange sts2 ns node = Idle" "ns_is_syncing ns sts2"
    using ns_finish_eq[of ns sts1 now1 node "Connect r" "Inl e"] s1(2) assms(5) ns_entry_syncing[of ns ns node None "peer_finish now1 (Connect r) (Inl e)" sts1]
    by (auto simp: ns_finish_def)
  then show ?thesis using s1 start_connect_eq(1)[OF s2(3)] by simp
qed

section \<open>Concrete pairs\<close>

definition sample_dial :: "public_key \<Rightarrow> namespace_states" where
  "sample_dial node = snd (ns_start_connect 3 [7] node DirectJoin (ns_insert [7] []))"

lemma sample_dial_running: "ns_is_syncing [7] (sample_dial node)" "exchange (sample_dial node) [7] node = Running 3 (Connect DirectJoin)"
proof -
  have s: "ns_is_syncing [7] (ns_insert [7] [])" "exchange (ns_insert [7] []) [7] node = Idle"
    by (simp_all add: ns_is_syncing_def ns_insert_def exchange_def namespace_state_default_def table_get_def)
  show "ns_is_syncing [7] (sample_dial node)" using s(1) by (simp add: sample_dial_def ns_start_connect_def ns_entry_syncing)
  show "exchange (sample_dial node) [7] node = Running 3 (Connect DirectJoin)"
    using start_connect_eq(2)[OF s(1)] s(2) by (simp add: sample_dial_def)
qed

theorem mutual_dial_one_winner_witness:
  "fst (ns_accept_request 5 [2] [7] [1] (sample_dial [1])) = Allow None \<and>
   fst (ns_accept_request 5 [1] [7] [2] (sample_dial [2])) = RejectRequest AbortAlreadySyncing"
proof -
  have "[1] < ([2] :: public_key)" by simp
  then show ?thesis
    using mutual_dial_one_winner[OF _ sample_dial_running(1) sample_dial_running(1) sample_dial_running(2) sample_dial_running(2)
        prod.collapse[symmetric] prod.collapse[symmetric], of "[2]" "[1]" 5 5] by simp
qed

theorem running_exchange_coalesces_witness:
  "fst (ns_finish 9 [7] [1] (Connect DirectJoin) (Inl (DialFailed (ConnectConnect NetTimeout)))
     (triggers [7] [1] [(4, NewNeighbor), (5, SyncReportReason)] (sample_dial [1]))) = Some (3, True)"
  using running_exchange_coalesces[OF sample_dial_running, of 0 "[1]" DirectJoin "[(4, NewNeighbor), (5, SyncReportReason)]"] by simp

theorem stale_finish_releases_slot_witness:
  "exchange (snd (ns_finish 6 [7] [1] (Connect DirectJoin) (Inl (DialFailed (ConnectClose NetTransport)))
     (snd (ns_accept_request 5 [2] [7] [1] (sample_dial [1]))))) [7] [1] = Idle"
  using stale_finish_releases_slot[OF sample_dial_running _ prod.collapse[symmetric] prod.collapse[symmetric], of "[1]" "[2]"] by simp

end
