(* ===== verification/Gossip.thy ===== *)
theory Gossip
  imports Engine_State
begin

text \<open>
  Gossip topics of the live actor, \<^verbatim>\<open>src/src/engine/gossip.rs\<close>, and the messages of the live actor,
  \<^verbatim>\<open>src/src/engine/live.rs\<close>. The gossip network is not part of the development: whether it lets us
  join, and which events a topic delivers, are arguments.
\<close>

section \<open>Messages\<close>

record sync_report =
  sr_namespace :: namespace_id
  sr_heads :: bytes

datatype gossip_op = OpPut signed_entry | OpContentReady bytes | OpSyncReport sync_report

text \<open>An address is the peer and opaque addressing information.\<close>

type_synonym endpoint_addr = "public_key \<times> bytes list"

text \<open>What the live actor receives. A reply channel is known by a number; a connection by the task that handles it and its peer.\<close>

datatype to_live_actor =
    StartSync namespace_id "endpoint_addr list" (join_gossip: bool)
  | Leave namespace_id (kill_subscribers: bool)
  | LeaveGossip namespace_id
  | Subscribe namespace_id channel
  | HandleConnection nat public_key
  | AcceptSyncRequest namespace_id public_key (accept_reply: nat)
  | IncomingSyncReport public_key sync_report
  | NeighborContentReady namespace_id public_key bytes
  | NeighborUp namespace_id public_key
  | NeighborDown namespace_id public_key

section \<open>Topics\<close>

text \<open>The receive loop of a topic runs as a task: it loops, was aborted, or has ended with a result nobody has collected yet.\<close>

datatype loop_state = Looping | LoopAborted | LoopEnded bool

record gossip_state =
  gs_active :: "(namespace_id, nat) table"
  gs_tasks :: "(nat, namespace_id \<times> loop_state) table"
  gs_next :: nat

definition gossip_new :: gossip_state where
  "gossip_new = \<lparr>gs_active = [], gs_tasks = [], gs_next = 0\<rparr>"

definition gossip_join :: "bool \<Rightarrow> namespace_id \<Rightarrow> public_key list \<Rightarrow> gossip_state \<Rightarrow> (net_error + unit) \<times> gossip_state" where
  "gossip_join ok ns bootstrap g =
     (case table_get (gs_active g) ns of
        Some _ \<Rightarrow> (if bootstrap \<noteq> [] \<and> \<not> ok then Inl NetTransport else Inr (), g)
      | None \<Rightarrow>
          if \<not> ok then (Inl NetTransport, g)
          else (Inr (), \<lparr>gs_active = table_insert ns (gs_next g) (gs_active g),
                  gs_tasks = table_insert (gs_next g) (ns, Looping) (gs_tasks g), gs_next = gs_next g + 1\<rparr>))"

text \<open>Aborting a task that has already ended does nothing.\<close>

definition loop_abort :: "nat \<Rightarrow> gossip_state \<Rightarrow> gossip_state" where
  "loop_abort i g =
     (case table_get (gs_tasks g) i of
        Some (ns, Looping) \<Rightarrow> g\<lparr>gs_tasks := table_insert i (ns, LoopAborted) (gs_tasks g)\<rparr>
      | _ \<Rightarrow> g)"

definition gossip_quit :: "namespace_id \<Rightarrow> gossip_state \<Rightarrow> gossip_state" where
  "gossip_quit ns g =
     (case table_get (gs_active g) ns of
        None \<Rightarrow> g
      | Some i \<Rightarrow> loop_abort i (g\<lparr>gs_active := table_remove ns (gs_active g)\<rparr>))"

text \<open>One turn of \<open>progress\<close>: the task that has finished is collected; one that was aborted leaves the topic alone.\<close>

definition gossip_collect :: "nat \<Rightarrow> gossip_state \<Rightarrow> gossip_state" where
  "gossip_collect i g =
     (case table_get (gs_tasks g) i of
        Some (ns, LoopAborted) \<Rightarrow> g\<lparr>gs_tasks := table_remove i (gs_tasks g)\<rparr>
      | Some (ns, LoopEnded _) \<Rightarrow> g\<lparr>gs_tasks := table_remove i (gs_tasks g), gs_active := table_remove ns (gs_active g)\<rparr>
      | _ \<Rightarrow> g)"

text \<open>The receive loop of a task comes to its end.\<close>

definition loop_end :: "nat \<Rightarrow> bool \<Rightarrow> gossip_state \<Rightarrow> gossip_state" where
  "loop_end i ok g =
     (case table_get (gs_tasks g) i of
        Some (ns, Looping) \<Rightarrow> g\<lparr>gs_tasks := table_insert i (ns, LoopEnded ok) (gs_tasks g)\<rparr>
      | _ \<Rightarrow> g)"

text \<open>Shutting down aborts the active loops and then waits for every task: no result while one still loops.\<close>

definition gossip_shutdown :: "gossip_state \<Rightarrow> gossip_state option" where
  "gossip_shutdown g =
     (let aborted = fold (\<lambda>(ns, i). loop_abort i) (gs_active g) (g\<lparr>gs_active := []\<rparr>)
      in if list_ex (\<lambda>(i, ns, st). st = Looping) (gs_tasks aborted) then None
         else Some (fold (\<lambda>(i, _). gossip_collect i) (gs_tasks aborted) aborted))"

definition gossip_is_empty :: "gossip_state \<Rightarrow> bool" where
  "gossip_is_empty g \<longleftrightarrow> gs_active g = []"

section \<open>The receive loop\<close>

text \<open>What a topic delivers; a failing stream is its end with an error.\<close>

datatype gossip_event = GLagged | GReceived public_key bytes | GNeighborUp public_key | GNeighborDown public_key

fun receive_events ::
  "gossip_op postcard \<Rightarrow> namespace_id \<Rightarrow> gossip_event list \<Rightarrow> to_live_actor list \<times> bool" where
  "receive_events M ns [] = ([], True)"
| "receive_events M ns (GLagged # rest) = receive_events M ns rest"
| "receive_events M ns (GReceived from_peer content # rest) =
     (case pc_from_bytes M content of
        None \<Rightarrow> ([], False)
      | Some (OpPut _) \<Rightarrow> receive_events M ns rest
      | Some (OpContentReady hash) \<Rightarrow>
          (case receive_events M ns rest of (out, ok) \<Rightarrow> (NeighborContentReady ns from_peer hash # out, ok))
      | Some (OpSyncReport report) \<Rightarrow>
          (case receive_events M ns rest of (out, ok) \<Rightarrow> (IncomingSyncReport from_peer report # out, ok)))"
| "receive_events M ns (GNeighborUp peer # rest) =
     (case receive_events M ns rest of (out, ok) \<Rightarrow> (NeighborUp ns peer # out, ok))"
| "receive_events M ns (GNeighborDown peer # rest) =
     (case receive_events M ns rest of (out, ok) \<Rightarrow> (NeighborDown ns peer # out, ok))"

definition receive_loop ::
  "gossip_op postcard \<Rightarrow> namespace_id \<Rightarrow> public_key list \<Rightarrow> gossip_event list \<Rightarrow> to_live_actor list \<times> bool" where
  "receive_loop M ns neighbors events =
     (case receive_events M ns events of (out, ok) \<Rightarrow> (map (NeighborUp ns) neighbors @ out, ok))"

section \<open>Leaving and joining again\<close>

lemma table_get_set: "table_get t k = Some v \<Longrightarrow> (k, v) \<in> set t"
  by (simp add: table_get_def map_of_SomeD)

lemma table_insert_subset: "set (table_insert k v t) \<subseteq> insert (k, v) (set t)"
  by (induction t) auto

lemma loop_abort_other: "i \<noteq> j \<Longrightarrow> table_get (gs_tasks (loop_abort i g)) j = table_get (gs_tasks g) j"
  by (auto simp: loop_abort_def table_get_insert split: option.splits prod.splits loop_state.splits)

lemma fold_abort_other:
  "\<forall>(n, i) \<in> set rows. i \<noteq> j \<Longrightarrow> table_get (gs_tasks (fold (\<lambda>(ns, i). loop_abort i) rows g)) j = table_get (gs_tasks g) j"
  by (induction rows arbitrary: g) (auto simp: loop_abort_other)

text \<open>A loop that nobody aborts keeps the shutdown waiting.\<close>

lemma shutdown_waits:
  assumes "table_get (gs_tasks g) j = Some (ns, Looping)" "\<forall>(n, i) \<in> set (gs_active g). i \<noteq> j"
  shows "gossip_shutdown g = None"
proof -
  let ?g = "fold (\<lambda>(ns, i). loop_abort i) (gs_active g) (g\<lparr>gs_active := []\<rparr>)"
  have "table_get (gs_tasks ?g) j = Some (ns, Looping)" using fold_abort_other[OF assms(2), of "g\<lparr>gs_active := []\<rparr>"] assms(1) by simp
  then have "(j, ns, Looping) \<in> set (gs_tasks ?g)" by (rule table_get_set)
  then show ?thesis by (auto simp: gossip_shutdown_def Let_def list_ex_iff)
qed

text \<open>A topic that is left and joined again can lose its new subscription. When the receive loop of a topic has ended but was not
  collected yet, leaving and joining again starts a new loop; collecting the old one then removes the
  new topic: broadcasts go nowhere, the new loop runs on, and a shutdown waits for it.\<close>

theorem stale_loop_drops_topic:
  assumes "table_get (gs_active g) ns = Some i" "table_get (gs_tasks g) i = Some (ns, LoopEnded ok)"
    "\<forall>(n, j) \<in> set (gs_active g). j < gs_next g"
    "gossip_join True ns bootstrap (gossip_quit ns g) = (joined, g2)" "g3 = gossip_collect i g2"
  shows "joined = Inr () \<and> table_get (gs_active g2) ns = Some (gs_next g) \<and> table_get (gs_active g3) ns = None \<and>
    table_get (gs_tasks g3) (gs_next g) = Some (ns, Looping) \<and> gossip_shutdown g3 = None"
proof -
  have i: "i < gs_next g" using assms(3) table_get_set[OF assms(1)] by blast
  have quit: "gossip_quit ns g = g\<lparr>gs_active := table_remove ns (gs_active g)\<rparr>"
    using assms(1,2) by (simp add: gossip_quit_def loop_abort_def)
  have g2: "joined = Inr ()" "g2 = \<lparr>gs_active = table_insert ns (gs_next g) (table_remove ns (gs_active g)),
      gs_tasks = table_insert (gs_next g) (ns, Looping) (gs_tasks g), gs_next = gs_next g + 1\<rparr>"
    using assms(4) by (simp_all add: quit gossip_join_def table_get_remove)
  have g3: "g3 = g2\<lparr>gs_tasks := table_remove i (gs_tasks g2), gs_active := table_remove ns (gs_active g2)\<rparr>"
    using assms(2,5) i g2(2) by (simp add: gossip_collect_def table_get_insert)
  have task: "table_get (gs_tasks g3) (gs_next g) = Some (ns, Looping)"
    using i g2(2) by (simp add: g3 table_get_remove table_get_insert)
  have "\<forall>(n, j) \<in> set (gs_active g3). j \<noteq> gs_next g"
  proof safe
    fix n assume "(n, gs_next g) \<in> set (gs_active g3)"
    then have "(n, gs_next g) \<in> set (gs_active g)" 
      using table_insert_subset[of ns "gs_next g" "table_remove ns (gs_active g)"] by (auto simp: g3 g2(2) table_remove_def)
    then show False using assms(3) by auto
  qed
  from shutdown_waits[OF task this] show ?thesis using task g2 by (simp add: g3 table_get_remove table_get_insert)
qed

theorem stale_loop_drops_topic_witness:
  "gossip_shutdown (gossip_collect 0 (snd (gossip_join True [7] [] (gossip_quit [7]
     \<lparr>gs_active = [([7], 0)], gs_tasks = [(0, ([7], LoopEnded True))], gs_next = 1\<rparr>)))) = None"
  using stale_loop_drops_topic[OF _ _ _ prod.collapse[symmetric] refl,
      of "\<lparr>gs_active = [([7], 0)], gs_tasks = [(0, ([7], LoopEnded True))], gs_next = 1\<rparr>" "[7]" 0 True "[]"]
  by (simp add: table_get_def)

end
