(* ===== verification/Live.thy ===== *)
theory Live
  imports Codec Gossip
begin

text \<open>
  The live actor, \<^verbatim>\<open>src/src/engine/live.rs\<close>: which exchanges, downloads and topics run, what is dialed
  when, and what subscribers are told.

  Hash sets are lists without duplicates and hash maps are tables; the order in which a hash set is
  iterated is an argument. Tasks that run beside the actor (dials, accepted connections, downloads) are
  lists of what was spawned; their results arrive as inputs. The store actor is called the way an
  exchange calls it: it may process other inputs before each call.
\<close>

section \<open>Subscribers\<close>

record sync_details =
  sd_entries_received :: nat
  sd_entries_sent :: nat

definition sync_details_of :: "sync_finished \<Rightarrow> sync_details" where
  "sync_details_of f = \<lparr>sd_entries_received = num_recv (sf_outcome f), sd_entries_sent = num_sent (sf_outcome f)\<rparr>"

record sync_event =
  sv_peer :: public_key
  sv_origin :: origin
  sv_finished :: nat
  sv_started :: nat
  sv_result :: "exchange_error + sync_details"

datatype live_event =
    EvContentReady bytes
  | EvNeighborUp public_key
  | EvNeighborDown public_key
  | EvSyncFinished sync_event
  | EvPendingContentReady

type_synonym subscribers_map = "(namespace_id, channel list) table"

definition map_subscribe :: "namespace_id \<Rightarrow> channel \<Rightarrow> subscribers_map \<Rightarrow> subscribers_map" where
  "map_subscribe ns tx m =
     table_insert ns ((case table_get m ns of Some txs \<Rightarrow> txs | None \<Rightarrow> []) @ [tx]) m"

text \<open>\<open>Subscribers::send\<close>: those that are gone are dropped; false when none is left.\<close>

definition event_send :: "(channel \<Rightarrow> bool) \<Rightarrow> channel list \<Rightarrow> bool \<times> channel list" where
  "event_send alive txs = (filter alive txs \<noteq> [], filter alive txs)"

definition map_send :: "(channel \<Rightarrow> bool) \<Rightarrow> namespace_id \<Rightarrow> subscribers_map \<Rightarrow> bool \<times> subscribers_map" where
  "map_send alive ns m =
     (case table_get m ns of
        None \<Rightarrow> (False, m)
      | Some txs \<Rightarrow>
          (case event_send alive txs of (some_left, txs') \<Rightarrow>
             (True, if some_left then table_insert ns txs' m else table_remove ns m)))"

section \<open>Queued content\<close>

record queued_hashes =
  qh_by_hash :: "(bytes, namespace_id list) table"
  qh_by_namespace :: "(namespace_id, bytes list) table"

definition queued_default :: queued_hashes where
  "queued_default = \<lparr>qh_by_hash = [], qh_by_namespace = []\<rparr>"

text \<open>\<open>entry(k).or_default().insert(x)\<close> on a map to hash sets.\<close>

definition bucket_insert :: "'k::linorder \<Rightarrow> 'x \<Rightarrow> ('k, 'x list) table \<Rightarrow> ('k, 'x list) table" where
  "bucket_insert k x m = table_insert k (List.insert x (case table_get m k of Some xs \<Rightarrow> xs | None \<Rightarrow> [])) m"

definition qh_insert :: "bytes \<Rightarrow> namespace_id \<Rightarrow> queued_hashes \<Rightarrow> queued_hashes" where
  "qh_insert hash ns q =
     \<lparr>qh_by_hash = bucket_insert hash ns (qh_by_hash q), qh_by_namespace = bucket_insert ns hash (qh_by_namespace q)\<rparr>"

fun remove_from_namespaces ::
  "bytes \<Rightarrow> namespace_id list \<Rightarrow> (namespace_id, bytes list) table \<Rightarrow> namespace_id list \<times> (namespace_id, bytes list) table" where
  "remove_from_namespaces hash [] m = ([], m)"
| "remove_from_namespaces hash (ns # rest) m =
     (case table_get m ns of
        None \<Rightarrow> remove_from_namespaces hash rest m
      | Some hashes \<Rightarrow>
          let hashes' = removeAll hash hashes in
          if hashes' = []
          then (case remove_from_namespaces hash rest (table_remove ns m) of (emptied, m') \<Rightarrow> (ns # emptied, m'))
          else remove_from_namespaces hash rest (table_insert ns hashes' m))"

definition qh_remove_hash :: "bytes \<Rightarrow> queued_hashes \<Rightarrow> namespace_id list \<times> queued_hashes" where
  "qh_remove_hash hash q =
     (let namespaces = (case table_get (qh_by_hash q) hash of Some nss \<Rightarrow> nss | None \<Rightarrow> [])
      in case remove_from_namespaces hash namespaces (qh_by_namespace q) of (emptied, m) \<Rightarrow>
           (emptied, \<lparr>qh_by_hash = table_remove hash (qh_by_hash q), qh_by_namespace = m\<rparr>))"

definition qh_contains_hash :: "bytes \<Rightarrow> queued_hashes \<Rightarrow> bool" where
  "qh_contains_hash hash q \<longleftrightarrow> table_get (qh_by_hash q) hash \<noteq> None"

definition qh_contains_namespace :: "namespace_id \<Rightarrow> queued_hashes \<Rightarrow> bool" where
  "qh_contains_namespace ns q \<longleftrightarrow> table_get (qh_by_namespace q) ns \<noteq> None"

definition find_providers :: "(bytes, public_key list) table \<Rightarrow> bytes \<Rightarrow> public_key list" where
  "find_providers m hash = (case table_get m hash of Some nodes \<Rightarrow> nodes | None \<Rightarrow> [])"

section \<open>The state\<close>

type_synonym session_access_provider = "namespace_id \<Rightarrow> public_key \<Rightarrow> session_role \<Rightarrow> session_access"

record live =
  lv_me :: public_key
  lv_actor :: actor
  lv_actor_running :: bool
  lv_calls :: nat
  lv_lookup :: "endpoint_addr list"
  lv_replica_events :: channel
  lv_gossip :: gossip_state
  lv_broadcasts :: "(namespace_id \<times> gossip_op) list"
  lv_connects :: "(namespace_id \<times> public_key \<times> sync_reason) list"
  lv_accepts :: "(nat \<times> public_key) list"
  lv_answered :: "(nat \<times> namespace_id \<times> public_key \<times> accept_outcome) list"
  lv_downloads :: "(namespace_id \<times> bytes) list"
  lv_missing :: "(namespace_id \<times> bytes) list"
  lv_retry :: "(namespace_id \<times> bytes) list"
  lv_queued :: queued_hashes
  lv_providers :: "(bytes, public_key list) table"
  lv_subscribers :: subscribers_map
  lv_delivered :: "(channel \<times> namespace_id \<times> live_event) list"
  lv_state :: namespace_states

definition live_new :: "public_key \<Rightarrow> channel \<Rightarrow> actor \<Rightarrow> live" where
  "live_new me events_tx a =
     \<lparr>lv_me = me, lv_actor = a, lv_actor_running = True, lv_calls = 0, lv_lookup = [], lv_replica_events = events_tx,
      lv_gossip = gossip_new, lv_broadcasts = [], lv_connects = [], lv_accepts = [], lv_answered = [], lv_downloads = [],
      lv_missing = [], lv_retry = [], lv_queued = queued_default, lv_providers = [], lv_subscribers = [], lv_delivered = [],
      lv_state = []\<rparr>"

text \<open>What a step reads of the outside: the other users of the store actor, the clock, the gossip network and its message
  size, the serializers, which subscribers are alive, which content is complete, which bytes are a
  public key, and the iteration order of hash sets.\<close>

record live_env =
  le_world :: world
  le_now :: nat
  le_gossip_ok :: bool
  le_max_message_size :: nat
  le_heads_codec :: "(u64 \<times> author_id) list postcard"
  le_serializes :: "gossip_op \<Rightarrow> bool"
  le_alive :: "channel \<Rightarrow> bool"
  le_complete :: "bytes \<Rightarrow> bool"
  le_public_key :: "bytes \<Rightarrow> bool"
  le_order :: "bytes list \<Rightarrow> bytes list"

definition live_call :: "crypto \<Rightarrow> live_env \<Rightarrow> action \<Rightarrow> (live, net_error, reply) op" where
  "live_call C env act lv =
     (case io_call C (le_world env) (\<lambda>ev. on_action C ev act)
        \<lparr>ex_actor = lv_actor lv, ex_running = lv_actor_running lv, ex_calls = lv_calls lv, ex_sends = 0, ex_sent = []\<rparr> of
        (r, x) \<Rightarrow> (r, lv\<lparr>lv_actor := ex_actor x, lv_actor_running := ex_running x, lv_calls := ex_calls x\<rparr>))"

definition live_emit :: "live_env \<Rightarrow> namespace_id \<Rightarrow> live_event \<Rightarrow> live \<Rightarrow> live" where
  "live_emit env ns ev lv =
     lv\<lparr>lv_subscribers := snd (map_send (le_alive env) ns (lv_subscribers lv)),
        lv_delivered := lv_delivered lv @ map (\<lambda>tx. (tx, ns, ev))
          (filter (le_alive env) (case table_get (lv_subscribers lv) ns of Some txs \<Rightarrow> txs | None \<Rightarrow> []))\<rparr>"

definition broadcast_neighbors :: "live_env \<Rightarrow> namespace_id \<Rightarrow> gossip_op \<Rightarrow> live \<Rightarrow> live" where
  "broadcast_neighbors env ns op_msg lv =
     (if \<not> ns_is_syncing ns (lv_state lv) then lv
      else if \<not> le_serializes env op_msg then lv
      else if table_get (gs_active (lv_gossip lv)) ns \<noteq> None then lv\<lparr>lv_broadcasts := lv_broadcasts lv @ [(ns, op_msg)]\<rparr>
      else lv)"

section \<open>Dialing\<close>

definition sync_with_peer :: "live_env \<Rightarrow> namespace_id \<Rightarrow> public_key \<Rightarrow> sync_reason \<Rightarrow> live \<Rightarrow> live" where
  "sync_with_peer env ns peer reason lv =
     (case ns_start_connect (le_now env) ns peer reason (lv_state lv) of (started, sts) \<Rightarrow>
        if started then lv\<lparr>lv_state := sts, lv_connects := lv_connects lv @ [(ns, peer, reason)]\<rparr>
        else lv\<lparr>lv_state := sts\<rparr>)"

text \<open>What the spawned dial does: the provider is asked for this role, and the exchange runs with its answer.\<close>

definition dial_task ::
  "session_access_provider option \<Rightarrow> namespace_id \<Rightarrow> public_key
     \<Rightarrow> (entry_filter option \<Rightarrow> 'w \<Rightarrow> (connect_error + sync_finished) \<times> 'w) \<Rightarrow> 'w \<Rightarrow> (connect_error + sync_finished) \<times> 'w" where
  "dial_task provider ns peer dial w =
     (case (case provider of None \<Rightarrow> Full | Some p \<Rightarrow> p ns peer RoleDial) of
        Deny \<Rightarrow> (Inl (ConnectSync NetDenied), w)
      | Full \<Rightarrow> dial None w
      | Filtered f \<Rightarrow> dial (Some f) w)"

section \<open>Accepting\<close>

definition accept_sync_request :: "live_env \<Rightarrow> namespace_id \<Rightarrow> public_key \<Rightarrow> live \<Rightarrow> accept_outcome \<times> live" where
  "accept_sync_request env ns peer lv =
     (case ns_accept_request (le_now env) (lv_me lv) ns peer (lv_state lv) of (outcome, sts) \<Rightarrow>
        (outcome, lv\<lparr>lv_state := sts\<rparr>))"

text \<open>The accept decision inside an accepted connection: the answer of the live actor (none if it is gone), then the provider.\<close>

definition accept_request_cb ::
  "session_access_provider option \<Rightarrow> accept_outcome option \<Rightarrow> namespace_id \<Rightarrow> public_key \<Rightarrow> accept_outcome" where
  "accept_request_cb provider answer ns peer =
     (let outcome = (case answer of Some o1 \<Rightarrow> o1 | None \<Rightarrow> RejectRequest AbortInternalServerError)
      in case (outcome, provider) of
           (Allow _, Some p) \<Rightarrow>
             (case p ns peer RoleAccept of
                Full \<Rightarrow> Allow None
              | Filtered f \<Rightarrow> Allow (Some f)
              | Deny \<Rightarrow> RejectRequest AbortNotFound)
         | _ \<Rightarrow> outcome)"

section \<open>Downloads\<close>

definition queue_download :: "live_env \<Rightarrow> namespace_id \<Rightarrow> bytes \<Rightarrow> bool \<Rightarrow> live \<Rightarrow> live" where
  "queue_download env ns hash only_if_missing lv =
     (if le_complete env hash then lv\<lparr>lv_missing := removeAll (ns, hash) (lv_missing lv)\<rparr>
      else if qh_contains_hash hash (lv_queued lv) then lv\<lparr>lv_queued := qh_insert hash ns (lv_queued lv)\<rparr>
      else if \<not> only_if_missing \<or> (ns, hash) \<in> set (lv_missing lv)
      then lv\<lparr>lv_queued := qh_insert hash ns (lv_queued lv), lv_missing := removeAll (ns, hash) (lv_missing lv),
              lv_downloads := lv_downloads lv @ [(ns, hash)]\<rparr>
      else lv)"

definition start_download :: "live_env \<Rightarrow> namespace_id \<Rightarrow> bytes \<Rightarrow> public_key \<Rightarrow> bool \<Rightarrow> live \<Rightarrow> live" where
  "start_download env ns hash node only_if_missing lv =
     queue_download env ns hash only_if_missing (lv\<lparr>lv_providers := bucket_insert hash node (lv_providers lv)\<rparr>)"

definition emit_when_ready :: "live_env \<Rightarrow> namespace_id \<Rightarrow> live \<Rightarrow> live" where
  "emit_when_ready env ns lv =
     (case ns_may_emit_ready ns (lv_state lv) of (ready, sts) \<Rightarrow>
        let lv1 = lv\<lparr>lv_state := sts\<rparr>
        in if ready = Some True then live_emit env ns EvPendingContentReady lv1 else lv1)"

definition on_download_ready :: "live_env \<Rightarrow> namespace_id \<Rightarrow> bytes \<Rightarrow> bool \<Rightarrow> live \<Rightarrow> live" where
  "on_download_ready env ns hash ok lv =
     (case qh_remove_hash hash (lv_queued lv) of (completed, q) \<Rightarrow>
        let lv1 = lv\<lparr>lv_queued := q\<rparr>;
            lv2 = (if ok
              then broadcast_neighbors env ns (OpContentReady hash)
                     (live_emit env ns (EvContentReady hash)
                       (lv1\<lparr>lv_retry := filter (\<lambda>(_, h). h \<noteq> hash) (lv_retry lv1)\<rparr>))
              else let lv3 = lv1\<lparr>lv_missing := List.insert (ns, hash) (lv_missing lv1)\<rparr>
                   in if (ns, hash) \<in> set (lv_retry lv3)
                      then queue_download env ns hash True (lv3\<lparr>lv_retry := removeAll (ns, hash) (lv_retry lv3)\<rparr>)
                      else lv3)
        in fold (emit_when_ready env) completed lv2)"

section \<open>The end of an exchange\<close>

definition retry_content :: "live_env \<Rightarrow> namespace_id \<Rightarrow> public_key \<Rightarrow> live \<Rightarrow> live" where
  "retry_content env ns peer lv =
     (let queued = le_order env (case table_get (qh_by_namespace (lv_queued lv)) ns of Some hs \<Rightarrow> hs | None \<Rightarrow> []);
          parked = le_order env (map snd (filter (\<lambda>(n, _). n = ns) (lv_missing lv)))
      in fold (\<lambda>hash lv. start_download env ns hash peer True (lv\<lparr>lv_retry := List.insert (ns, hash) (lv_retry lv)\<rparr>)) queued
           (fold (\<lambda>hash. start_download env ns hash peer True) parked lv))"

definition report_sync :: "live_env \<Rightarrow> namespace_id \<Rightarrow> sync_finished \<Rightarrow> live \<Rightarrow> live" where
  "report_sync env ns details lv =
     (if 0 < num_recv (sf_outcome details)
      then broadcast_neighbors env ns (OpSyncReport \<lparr>sr_namespace = ns,
             sr_heads = heads_encode (le_heads_codec env) (heads_received (sf_outcome details)) (Some (le_max_message_size env))\<rparr>) lv
      else lv)"

definition sync_succeeded :: "crypto \<Rightarrow> live_env \<Rightarrow> namespace_id \<Rightarrow> public_key \<Rightarrow> sync_finished \<Rightarrow> live \<Rightarrow> live" where
  "sync_succeeded C env ns peer details lv =
     report_sync env ns details (retry_content env ns peer
       (snd (live_call C env (ActReplica ns (ActRegisterUsefulPeer peer)) lv)))"

text \<open>Content that is still queued delays the event to the end of its download.\<close>

definition ready_or_later :: "live_env \<Rightarrow> namespace_id \<Rightarrow> live \<Rightarrow> live" where
  "ready_or_later env ns lv =
     (if qh_contains_namespace ns (lv_queued lv)
      then lv\<lparr>lv_state := snd (ns_set_may_emit_ready ns True (lv_state lv))\<rparr>
      else let lv1 = live_emit env ns EvPendingContentReady lv
           in lv1\<lparr>lv_state := snd (ns_set_may_emit_ready ns False (lv_state lv1))\<rparr>)"

definition on_sync_finished ::
  "crypto \<Rightarrow> live_env \<Rightarrow> namespace_id \<Rightarrow> public_key \<Rightarrow> origin \<Rightarrow> exchange_error + sync_finished \<Rightarrow> live \<Rightarrow> live" where
  "on_sync_finished C env ns peer orig result lv =
     (let lv1 = (case result of Inl _ \<Rightarrow> lv | Inr details \<Rightarrow> sync_succeeded C env ns peer details lv)
      in case ns_finish (le_now env) ns peer orig result (lv_state lv1) of
           (None, sts) \<Rightarrow> lv1\<lparr>lv_state := sts\<rparr>
         | (Some (started, resync), sts) \<Rightarrow>
             let lv2 = live_emit env ns (EvSyncFinished \<lparr>sv_peer = peer, sv_origin = orig, sv_finished = le_now env,
                         sv_started = started, sv_result = map_sum id sync_details_of result\<rparr>) (lv1\<lparr>lv_state := sts\<rparr>);
                 lv3 = ready_or_later env ns lv2
             in if resync then sync_with_peer env ns peer Resync lv3 else lv3)"

definition on_sync_via_connect_finished ::
  "crypto \<Rightarrow> live_env \<Rightarrow> namespace_id \<Rightarrow> public_key \<Rightarrow> sync_reason \<Rightarrow> connect_error + sync_finished \<Rightarrow> live \<Rightarrow> live" where
  "on_sync_via_connect_finished C env ns peer reason result lv =
     (case result of
        Inl (ConnectRemoteAbort AbortAlreadySyncing) \<Rightarrow>
          lv\<lparr>lv_state := snd (ns_abort_connect ns peer reason (lv_state lv))\<rparr>
      | _ \<Rightarrow> on_sync_finished C env ns peer (Connect reason) (map_sum DialFailed id result) lv)"

definition on_sync_via_accept_finished ::
  "crypto \<Rightarrow> live_env \<Rightarrow> accept_error + sync_finished \<Rightarrow> live \<Rightarrow> live" where
  "on_sync_via_accept_finished C env result lv =
     (case result of
        Inr f \<Rightarrow> on_sync_finished C env (sf_namespace f) (sf_peer f) OriginAccept (Inr f) lv
      | Inl (AcceptAbort _ _ AbortAlreadySyncing) \<Rightarrow> lv
      | Inl err \<Rightarrow>
          (case (accept_error_peer err, accept_error_namespace err) of
             (Some peer, Some ns) \<Rightarrow> on_sync_finished C env ns peer OriginAccept (Inl (AcceptFailed err)) lv
           | _ \<Rightarrow> lv))"

section \<open>Requests\<close>

definition join_peers :: "live_env \<Rightarrow> namespace_id \<Rightarrow> endpoint_addr list \<Rightarrow> bool \<Rightarrow> (live, net_error, unit) op" where
  "join_peers env ns peers join lv =
     (let lv1 = lv\<lparr>lv_lookup := lv_lookup lv @ filter (\<lambda>(_, addrs). addrs \<noteq> []) peers\<rparr>;
          dial = fold (\<lambda>peer. sync_with_peer env ns peer DirectJoin) (map fst peers)
      in if join
         then (case gossip_join (le_gossip_ok env) ns (map fst peers) (lv_gossip lv1) of
             (Inl e, g) \<Rightarrow> (Inl e, lv1\<lparr>lv_gossip := g\<rparr>)
           | (Inr _, g) \<Rightarrow> (Inr (), dial (lv1\<lparr>lv_gossip := g\<rparr>)))
         else (Inr (), dial lv1))"

text \<open>The peers stored for a document; undecodable ones and a failing read are ignored.\<close>

definition stored_peers :: "crypto \<Rightarrow> live_env \<Rightarrow> namespace_id \<Rightarrow> live \<Rightarrow> endpoint_addr list \<times> live" where
  "stored_peers C env ns lv =
     (case live_call C env (ActReplica ns ActGetSyncPeers) lv of
        (Inr (ReplyPeers (Some ps)), lv') \<Rightarrow> (map (\<lambda>p. (p, [])) (filter (le_public_key env) ps), lv')
      | (_, lv') \<Rightarrow> ([], lv'))"

definition start_sync :: "crypto \<Rightarrow> live_env \<Rightarrow> namespace_id \<Rightarrow> endpoint_addr list \<Rightarrow> bool \<Rightarrow> (live, net_error, unit) op" where
  "start_sync C env ns peers join lv =
     op_bind (\<lambda>lv.
       if ns_is_syncing ns (lv_state lv) then (Inr (), lv)
       else op_bind (live_call C env (ActReplica ns
              (ActOpen \<lparr>oo_sync = True, oo_subscribe = Some (lv_replica_events lv)\<rparr>)))
            (\<lambda>_ lv. (Inr (), lv\<lparr>lv_state := ns_insert ns (lv_state lv)\<rparr>)) lv)
     (\<lambda>_ lv. case stored_peers C env ns lv of (stored, lv') \<Rightarrow> join_peers env ns (peers @ stored) join lv') lv"

definition leave :: "crypto \<Rightarrow> live_env \<Rightarrow> namespace_id \<Rightarrow> bool \<Rightarrow> (live, net_error, unit) op" where
  "leave C env ns kill lv =
     op_bind (\<lambda>lv.
       case ns_remove ns (lv_state lv) of (was_syncing, sts) \<Rightarrow>
         let lv1 = lv\<lparr>lv_state := sts\<rparr> in
         if \<not> was_syncing then (Inr (), lv1)
         else op_bind (live_call C env (ActReplica ns (ActSetSync False))) (\<lambda>_.
              op_bind (live_call C env (ActReplica ns (ActUnsubscribe (lv_replica_events lv1)))) (\<lambda>_.
              op_bind (live_call C env (ActReplica ns ActClose)) (\<lambda>_ lv.
                (Inr (), lv\<lparr>lv_gossip := gossip_quit ns (lv_gossip lv)\<rparr>)))) lv1)
     (\<lambda>_ lv. (Inr (), if kill then lv\<lparr>lv_subscribers := table_remove ns (lv_subscribers lv)\<rparr> else lv)) lv"

definition on_sync_report :: "crypto \<Rightarrow> live_env \<Rightarrow> public_key \<Rightarrow> sync_report \<Rightarrow> live \<Rightarrow> live" where
  "on_sync_report C env from_peer report lv =
     (if \<not> ns_is_syncing (sr_namespace report) (lv_state lv) then lv
      else (case heads_decode (le_heads_codec env) (sr_heads report) of
          None \<Rightarrow> lv
        | Some heads \<Rightarrow>
            (case live_call C env (ActReplica (sr_namespace report) (ActHasNewsForUs heads)) lv of
               (Inr (ReplyNews (Some _)), lv') \<Rightarrow> sync_with_peer env (sr_namespace report) from_peer SyncReportReason lv'
             | (_, lv') \<Rightarrow> lv')))"

section \<open>Replica events\<close>

definition broadcast_local_head :: "live_env \<Rightarrow> namespace_id \<Rightarrow> signed_entry \<Rightarrow> live \<Rightarrow> live" where
  "broadcast_local_head env ns e =
     broadcast_neighbors env ns (OpSyncReport \<lparr>sr_namespace = ns,
       sr_heads = heads_encode (le_heads_codec env) (heads_insert (entry_author (se_entry e)) (entry_timestamp (se_entry e)) heads_default)
         (Some (le_max_message_size env))\<rparr>)"

fun on_replica_event :: "live_env \<Rightarrow> event \<Rightarrow> live \<Rightarrow> live" where
  "on_replica_event env (LocalInsert ns e) lv =
     (if ns_is_syncing ns (lv_state lv) then broadcast_local_head env ns e lv else lv)"
| "on_replica_event env (RemoteInsert ns e from_peer download status) lv =
     (if \<not> download then lv
      else if status = Complete
      then if le_public_key env from_peer then start_download env ns (entry_content_hash (se_entry e)) from_peer False lv else lv
      else lv\<lparr>lv_missing := List.insert (ns, entry_content_hash (se_entry e)) (lv_missing lv)\<rparr>)"

section \<open>The main loop\<close>

fun on_actor_message :: "crypto \<Rightarrow> live_env \<Rightarrow> to_live_actor \<Rightarrow> live \<Rightarrow> live" where
  "on_actor_message C env (IncomingSyncReport from_peer report) lv = on_sync_report C env from_peer report lv"
| "on_actor_message C env (NeighborUp ns peer) lv = live_emit env ns (EvNeighborUp peer) (sync_with_peer env ns peer NewNeighbor lv)"
| "on_actor_message C env (NeighborDown ns peer) lv = live_emit env ns (EvNeighborDown peer) lv"
| "on_actor_message C env (StartSync ns peers join) lv = snd (start_sync C env ns peers join lv)"
| "on_actor_message C env (Leave ns kill) lv = snd (leave C env ns kill lv)"
| "on_actor_message C env (LeaveGossip ns) lv = lv\<lparr>lv_gossip := gossip_quit ns (lv_gossip lv)\<rparr>"
| "on_actor_message C env (Subscribe ns tx) lv = lv\<lparr>lv_subscribers := map_subscribe ns tx (lv_subscribers lv)\<rparr>"
| "on_actor_message C env (HandleConnection task peer) lv = lv\<lparr>lv_accepts := lv_accepts lv @ [(task, peer)]\<rparr>"
| "on_actor_message C env (AcceptSyncRequest ns peer task) lv =
     (case accept_sync_request env ns peer lv of (outcome, lv') \<Rightarrow>
        lv'\<lparr>lv_answered := lv_answered lv' @ [(task, ns, peer, outcome)]\<rparr>)"
| "on_actor_message C env (NeighborContentReady ns node hash) lv = start_download env ns hash node True lv"

text \<open>What the loop waits for. The result of a task is that of one that was spawned.\<close>

datatype live_input =
    LvMessage to_live_actor
  | LvReplicaEvent event
  | LvConnectDone namespace_id public_key sync_reason "connect_error + sync_finished"
  | LvAcceptDone nat public_key "accept_error + sync_finished"
  | LvDownloadDone namespace_id bytes bool
  | LvGossipDone nat

fun live_tick :: "crypto \<Rightarrow> live_env \<Rightarrow> live_input \<Rightarrow> live \<Rightarrow> live" where
  "live_tick C env (LvMessage msg) lv = on_actor_message C env msg lv"
| "live_tick C env (LvReplicaEvent ev) lv = on_replica_event env ev lv"
| "live_tick C env (LvConnectDone ns peer reason res) lv =
     on_sync_via_connect_finished C env ns peer reason res (lv\<lparr>lv_connects := remove1 (ns, peer, reason) (lv_connects lv)\<rparr>)"
| "live_tick C env (LvAcceptDone task peer res) lv =
     on_sync_via_accept_finished C env res (lv\<lparr>lv_accepts := remove1 (task, peer) (lv_accepts lv)\<rparr>)"
| "live_tick C env (LvDownloadDone ns hash ok) lv =
     on_download_ready env ns hash ok (lv\<lparr>lv_downloads := remove1 (ns, hash) (lv_downloads lv)\<rparr>)"
| "live_tick C env (LvGossipDone i) lv = lv\<lparr>lv_gossip := gossip_collect i (lv_gossip lv)\<rparr>"

fun live_run :: "crypto \<Rightarrow> (live_env \<times> live_input) list \<Rightarrow> live \<Rightarrow> live" where
  "live_run C [] lv = lv"
| "live_run C ((env, i) # rest) lv = live_run C rest (live_tick C env i lv)"

text \<open>Shutting down: subscribers go, the topics are quit, the store actor finishes. The tasks are aborted with the state.\<close>

definition live_shutdown :: "live \<Rightarrow> (gossip_state option \<times> live)" where
  "live_shutdown lv =
     (gossip_shutdown (lv_gossip lv),
      lv\<lparr>lv_subscribers := [], lv_actor := actor_finish (lv_actor lv), lv_actor_running := False\<rparr>)"

end
