(* ===== verification/Handle.thy ===== *)
theory Handle
  imports Live
begin

text \<open>
  The handle of the store actor, \<open>SyncHandle\<close> of \<^verbatim>\<open>src/src/actor.rs\<close>: each method sends one action and waits
  for its reply. Other users of the actor may be served before the action is; a call fails when the
  actor is gone or drops the reply. The handle is used by the engine, whose state holds the actor.
\<close>

section \<open>Calls\<close>

text \<open>The kind of answer an action is given is fixed by the type of its reply channel.\<close>

definition handle_call :: "crypto \<Rightarrow> live_env \<Rightarrow> action \<Rightarrow> (reply \<Rightarrow> 'a option) \<Rightarrow> (live, net_error, 'a) op" where
  "handle_call C env act answer =
     op_bind (live_call C env act) (\<lambda>r. case answer r of Some x \<Rightarrow> op_return x | None \<Rightarrow> op_fail NetActorGone)"

fun reply_unit :: "reply \<Rightarrow> unit option" where
  "reply_unit ReplyUnit = Some ()" | "reply_unit _ = None"

fun reply_bool :: "reply \<Rightarrow> bool option" where
  "reply_bool (ReplyBool b) = Some b" | "reply_bool _ = None"

fun reply_count :: "reply \<Rightarrow> nat option" where
  "reply_count (ReplyCount n) = Some n" | "reply_count _ = None"

fun reply_author_id :: "reply \<Rightarrow> author_id option" where
  "reply_author_id (ReplyAuthorId i) = Some i" | "reply_author_id _ = None"

fun reply_author :: "reply \<Rightarrow> author option option" where
  "reply_author (ReplyAuthor a) = Some a" | "reply_author _ = None"

fun reply_authors :: "reply \<Rightarrow> author_id list option" where
  "reply_authors (ReplyAuthors is) = Some is" | "reply_authors _ = None"

fun reply_namespace :: "reply \<Rightarrow> namespace_id option" where
  "reply_namespace (ReplyNamespace ns) = Some ns" | "reply_namespace _ = None"

fun reply_namespaces :: "reply \<Rightarrow> (store_error + namespace_id \<times> capability_kind) list option" where
  "reply_namespaces (ReplyNamespaces nss) = Some nss" | "reply_namespaces _ = None"

fun reply_hashes :: "reply \<Rightarrow> bytes list option" where
  "reply_hashes (ReplyHashes hs) = Some hs" | "reply_hashes _ = None"

fun reply_state :: "reply \<Rightarrow> open_state option" where
  "reply_state (ReplyState st) = Some st" | "reply_state _ = None"

fun reply_peers :: "reply \<Rightarrow> bytes list option option" where
  "reply_peers (ReplyPeers ps) = Some ps" | "reply_peers _ = None"

fun reply_entry :: "reply \<Rightarrow> signed_entry option option" where
  "reply_entry (ReplyEntry e) = Some e" | "reply_entry _ = None"

fun reply_entries :: "reply \<Rightarrow> signed_entry list option" where
  "reply_entries (ReplyEntries es) = Some es" | "reply_entries _ = None"

fun reply_secret :: "reply \<Rightarrow> namespace_secret option" where
  "reply_secret (ReplySecret s) = Some s" | "reply_secret _ = None"

fun reply_news :: "reply \<Rightarrow> nat option option" where
  "reply_news (ReplyNews n) = Some n" | "reply_news _ = None"

fun reply_policy :: "reply \<Rightarrow> download_policy option" where
  "reply_policy (ReplyPolicy p) = Some p" | "reply_policy _ = None"

section \<open>Replicas\<close>

definition handle_open :: "crypto \<Rightarrow> live_env \<Rightarrow> namespace_id \<Rightarrow> open_opts \<Rightarrow> (live, net_error, unit) op" where
  "handle_open C env ns opts = handle_call C env (ActReplica ns (ActOpen opts)) reply_unit"

definition handle_close :: "crypto \<Rightarrow> live_env \<Rightarrow> namespace_id \<Rightarrow> (live, net_error, bool) op" where
  "handle_close C env ns = handle_call C env (ActReplica ns ActClose) reply_bool"

definition handle_subscribe :: "crypto \<Rightarrow> live_env \<Rightarrow> namespace_id \<Rightarrow> channel \<Rightarrow> (live, net_error, unit) op" where
  "handle_subscribe C env ns tx = handle_call C env (ActReplica ns (ActSubscribe tx)) reply_unit"

definition handle_unsubscribe :: "crypto \<Rightarrow> live_env \<Rightarrow> namespace_id \<Rightarrow> channel \<Rightarrow> (live, net_error, unit) op" where
  "handle_unsubscribe C env ns tx = handle_call C env (ActReplica ns (ActUnsubscribe tx)) reply_unit"

definition handle_set_sync :: "crypto \<Rightarrow> live_env \<Rightarrow> namespace_id \<Rightarrow> bool \<Rightarrow> (live, net_error, unit) op" where
  "handle_set_sync C env ns sync = handle_call C env (ActReplica ns (ActSetSync sync)) reply_unit"

definition handle_insert_local ::
  "crypto \<Rightarrow> live_env \<Rightarrow> namespace_id \<Rightarrow> author_id \<Rightarrow> bytes \<Rightarrow> bytes \<Rightarrow> u64 \<Rightarrow> (live, net_error, unit) op" where
  "handle_insert_local C env ns author key hash len =
     handle_call C env (ActReplica ns (ActInsertLocal author key hash len)) reply_unit"

definition handle_delete_prefix ::
  "crypto \<Rightarrow> live_env \<Rightarrow> namespace_id \<Rightarrow> author_id \<Rightarrow> bytes \<Rightarrow> (live, net_error, nat) op" where
  "handle_delete_prefix C env ns author key = handle_call C env (ActReplica ns (ActDeletePrefix author key)) reply_count"

definition handle_insert_remote ::
  "crypto \<Rightarrow> live_env \<Rightarrow> namespace_id \<Rightarrow> signed_entry \<Rightarrow> bytes \<Rightarrow> content_status \<Rightarrow> (live, net_error, unit) op" where
  "handle_insert_remote C env ns e from_peer status =
     handle_call C env (ActReplica ns (ActInsertRemote e from_peer status)) reply_unit"

definition handle_get_sync_peers :: "crypto \<Rightarrow> live_env \<Rightarrow> namespace_id \<Rightarrow> (live, net_error, bytes list option) op" where
  "handle_get_sync_peers C env ns = handle_call C env (ActReplica ns ActGetSyncPeers) reply_peers"

definition handle_register_useful_peer :: "crypto \<Rightarrow> live_env \<Rightarrow> namespace_id \<Rightarrow> bytes \<Rightarrow> (live, net_error, unit) op" where
  "handle_register_useful_peer C env ns peer = handle_call C env (ActReplica ns (ActRegisterUsefulPeer peer)) reply_unit"

definition handle_has_news_for_us ::
  "crypto \<Rightarrow> live_env \<Rightarrow> namespace_id \<Rightarrow> author_heads \<Rightarrow> (live, net_error, nat option) op" where
  "handle_has_news_for_us C env ns heads = handle_call C env (ActReplica ns (ActHasNewsForUs heads)) reply_news"

definition handle_get_many :: "crypto \<Rightarrow> live_env \<Rightarrow> namespace_id \<Rightarrow> query \<Rightarrow> (live, net_error, signed_entry list) op" where
  "handle_get_many C env ns q = handle_call C env (ActReplica ns (ActGetMany q)) reply_entries"

definition handle_get_exact ::
  "crypto \<Rightarrow> live_env \<Rightarrow> namespace_id \<Rightarrow> author_id \<Rightarrow> bytes \<Rightarrow> bool \<Rightarrow> (live, net_error, signed_entry option) op" where
  "handle_get_exact C env ns author key include_empty =
     handle_call C env (ActReplica ns (ActGetExact author key include_empty)) reply_entry"

definition handle_retract_entry ::
  "crypto \<Rightarrow> live_env \<Rightarrow> namespace_id \<Rightarrow> author_id \<Rightarrow> bytes \<Rightarrow> u64 \<Rightarrow> (live, net_error, bool) op" where
  "handle_retract_entry C env ns author key up_to =
     handle_call C env (ActReplica ns (ActRetractEntry author key up_to)) reply_bool"

definition handle_drop_replica :: "crypto \<Rightarrow> live_env \<Rightarrow> namespace_id \<Rightarrow> (live, net_error, unit) op" where
  "handle_drop_replica C env ns = handle_call C env (ActReplica ns ActDropReplica) reply_unit"

definition handle_export_secret_key :: "crypto \<Rightarrow> live_env \<Rightarrow> namespace_id \<Rightarrow> (live, net_error, namespace_secret) op" where
  "handle_export_secret_key C env ns = handle_call C env (ActReplica ns ActExportSecretKey) reply_secret"

definition handle_get_state :: "crypto \<Rightarrow> live_env \<Rightarrow> namespace_id \<Rightarrow> (live, net_error, open_state) op" where
  "handle_get_state C env ns = handle_call C env (ActReplica ns ActGetState) reply_state"

definition handle_get_download_policy :: "crypto \<Rightarrow> live_env \<Rightarrow> namespace_id \<Rightarrow> (live, net_error, download_policy) op" where
  "handle_get_download_policy C env ns = handle_call C env (ActReplica ns ActGetDownloadPolicy) reply_policy"

definition handle_set_download_policy ::
  "crypto \<Rightarrow> live_env \<Rightarrow> namespace_id \<Rightarrow> download_policy \<Rightarrow> (live, net_error, unit) op" where
  "handle_set_download_policy C env ns policy = handle_call C env (ActReplica ns (ActSetDownloadPolicy policy)) reply_unit"

section \<open>The store\<close>

definition handle_list_authors :: "crypto \<Rightarrow> live_env \<Rightarrow> (live, net_error, author_id list) op" where
  "handle_list_authors C env = handle_call C env ActListAuthors reply_authors"

definition handle_list_replicas ::
  "crypto \<Rightarrow> live_env \<Rightarrow> (live, net_error, (store_error + namespace_id \<times> capability_kind) list) op" where
  "handle_list_replicas C env = handle_call C env ActListReplicas reply_namespaces"

definition handle_import_author :: "crypto \<Rightarrow> live_env \<Rightarrow> author \<Rightarrow> (live, net_error, author_id) op" where
  "handle_import_author C env author = handle_call C env (ActImportAuthor author) reply_author_id"

definition handle_export_author :: "crypto \<Rightarrow> live_env \<Rightarrow> author_id \<Rightarrow> (live, net_error, author option) op" where
  "handle_export_author C env i = handle_call C env (ActExportAuthor i) reply_author"

definition handle_delete_author :: "crypto \<Rightarrow> live_env \<Rightarrow> author_id \<Rightarrow> (live, net_error, unit) op" where
  "handle_delete_author C env i = handle_call C env (ActDeleteAuthor i) reply_unit"

definition handle_import_namespace :: "crypto \<Rightarrow> live_env \<Rightarrow> capability \<Rightarrow> (live, net_error, namespace_id) op" where
  "handle_import_namespace C env cap = handle_call C env (ActImportNamespace cap) reply_namespace"

definition handle_content_hashes :: "crypto \<Rightarrow> live_env \<Rightarrow> (live, net_error, bytes list) op" where
  "handle_content_hashes C env = handle_call C env ActContentHashes reply_hashes"

definition handle_flush_store :: "crypto \<Rightarrow> live_env \<Rightarrow> (live, net_error, unit) op" where
  "handle_flush_store C env = handle_call C env ActFlushStore reply_unit"

text \<open>\<open>shutdown\<close>, and dropping the last handle, make the actor leave its loop; the store comes back flushed.\<close>

definition handle_shutdown :: "crypto \<Rightarrow> live_env \<Rightarrow> (live, net_error, fs_store) op" where
  "handle_shutdown C env lv =
     (let cl = w_call (le_world env) (lv_calls lv); lv1 = lv\<lparr>lv_calls := lv_calls lv + 1\<rparr> in
      if \<not> lv_actor_running lv then (Inl NetActorGone, lv1)
      else let a = snd (run_async C (cl_before cl @ [InShutdown (cl_held cl) (cl_now cl)]) (lv_actor lv));
               lv2 = lv1\<lparr>lv_actor := a, lv_actor_running := False\<rparr>
           in (if list_ex input_stops (cl_before cl) then Inl NetActorGone else Inr (ac_store a), lv2))"

end
