(* ===== verification/Engine.thy ===== *)
theory Engine
  imports Handle
begin

text \<open>
  The engine, \<^verbatim>\<open>src/src/engine.rs\<close>: it spawns the store actor and the live actor, keeps the default author,
  answers the garbage collector of the blob store, and passes requests on.

  The live actor and with it the store actor are in \<open>en_live\<close>. Files are a map from paths to their text;
  what a write to a file achieves, the status of blobs and the bytes of the random generator are
  arguments, as are the inputs the live actor handles before a request reaches it.
\<close>

section \<open>Errors\<close>

datatype engine_error =
    EngineNet net_error
  | AuthorFileInvalid parse_error
  | DefaultAuthorMissing
  | AuthorFileWrite
  | AuthorUnknown
  | DefaultAuthorInUse
  | BlobAddFailed
  | EntryGone
  | DocumentClosed
  | ImportPolledAgain

section \<open>Content status\<close>

datatype blob_status = BlobComplete | BlobPartial | BlobNotFound

fun entry_to_content_status :: "unit + blob_status \<Rightarrow> content_status" where
  "entry_to_content_status (Inr BlobComplete) = Complete"
| "entry_to_content_status (Inr BlobPartial) = Incomplete"
| "entry_to_content_status (Inr BlobNotFound) = Missing"
| "entry_to_content_status (Inl _) = Missing"

section \<open>The default author\<close>

datatype default_author_storage = StorageMem | StoragePersistent string

type_synonym author_files = "string \<Rightarrow> string option"

text \<open>A write creates or truncates the file and then writes the text: it may fail before it touches the file
  or after some of the text.\<close>

datatype write_outcome = WriteDone | WriteFailed "nat option"

definition author_persist :: "hexlib \<Rightarrow> write_outcome \<Rightarrow> default_author_storage \<Rightarrow> author_id \<Rightarrow> (author_files, engine_error, unit) op" where
  "author_persist H w storage i files =
     (case storage of
        StorageMem \<Rightarrow> (Inr (), files)
      | StoragePersistent path \<Rightarrow>
          (case w of
             WriteDone \<Rightarrow> (Inr (), files(path \<mapsto> author_id_display H i))
           | WriteFailed None \<Rightarrow> (Inl AuthorFileWrite, files)
           | WriteFailed (Some n) \<Rightarrow> (Inl AuthorFileWrite, files(path \<mapsto> take n (author_id_display H i)))))"

text \<open>Loading works on the store actor and on the files.\<close>

definition with_store :: "(live, net_error, 'a) op \<Rightarrow> (live \<times> author_files, engine_error, 'a) op" where
  "with_store m s = (case m (fst s) of (r, lv) \<Rightarrow> (map_sum EngineNet id r, (lv, snd s)))"

definition with_files :: "(author_files, engine_error, 'a) op \<Rightarrow> (live \<times> author_files, engine_error, 'a) op" where
  "with_files m s = (case m (snd s) of (r, files) \<Rightarrow> (r, (fst s, files)))"

definition storage_load ::
  "crypto \<Rightarrow> live_env \<Rightarrow> hexlib \<Rightarrow> write_outcome \<Rightarrow> bytes \<Rightarrow> default_author_storage
     \<Rightarrow> (live \<times> author_files, engine_error, author_id) op" where
  "storage_load C env H w rng storage s =
     (let author = author_new rng; i = author_id C author in
      case storage of
        StorageMem \<Rightarrow> op_bind (with_store (handle_import_author C env author)) (\<lambda>_. op_return i) s
      | StoragePersistent path \<Rightarrow>
          (case snd s path of
             Some data \<Rightarrow>
               op_bind (op_lift (map_sum AuthorFileInvalid id (author_id_from_str C H data))) (\<lambda>stored.
               op_bind (with_store (handle_export_author C env stored)) (\<lambda>found.
                 if found = None then op_fail DefaultAuthorMissing else op_return stored)) s
           | None \<Rightarrow>
               op_bind (with_store (handle_import_author C env author)) (\<lambda>_.
               op_bind (with_store (handle_flush_store C env)) (\<lambda>_.
               op_bind (with_files (author_persist H w storage i)) (\<lambda>_.
                 op_return i))) s))"

section \<open>The engine\<close>

record engine =
  en_live :: live
  en_running :: bool
  en_default_author :: author_id
  en_storage :: default_author_storage
  en_files :: author_files

text \<open>When the default author cannot be loaded the store actor is shut down again; the error comes with the
  store and the files that remain.\<close>

definition engine_spawn ::
  "crypto \<Rightarrow> live_env \<Rightarrow> hexlib \<Rightarrow> write_outcome \<Rightarrow> bytes \<Rightarrow> u64 \<Rightarrow> nat \<Rightarrow> public_key \<Rightarrow> channel
     \<Rightarrow> (bytes \<Rightarrow> unit + blob_status) \<Rightarrow> capability_validator option \<Rightarrow> nat option \<Rightarrow> default_author_storage
     \<Rightarrow> fs_store \<Rightarrow> author_files \<Rightarrow> engine_error \<times> fs_store \<times> author_files + engine" where
  "engine_spawn C env H w rng actor_id now me events_tx blobs validator observer storage store files =
     (let cb = (\<lambda>hash. entry_to_content_status (blobs hash));
          lv = live_new me events_tx (actor_spawn actor_id now store (Some cb) validator observer)
      in case storage_load C env H w rng storage (lv, files) of
           (Inl e, (lv', files')) \<Rightarrow> Inl (e, ac_store (lv_actor (snd (handle_shutdown C env lv'))), files')
         | (Inr i, (lv', files')) \<Rightarrow>
             Inr \<lparr>en_live = lv', en_running = True, en_default_author = i, en_storage = storage, en_files = files'\<rparr>)"

text \<open>A call of the store actor through the handle, and a message to the live actor that waits for its reply.\<close>

definition engine_call :: "(live, net_error, 'a) op \<Rightarrow> (engine, engine_error, 'a) op" where
  "engine_call m e = (case m (en_live e) of (r, lv) \<Rightarrow> (map_sum EngineNet id r, e\<lparr>en_live := lv\<rparr>))"

definition engine_ask ::
  "crypto \<Rightarrow> (live_env \<times> live_input) list \<Rightarrow> (live, net_error, 'a) op \<Rightarrow> (engine, engine_error, 'a) op" where
  "engine_ask C before m e =
     (if \<not> en_running e then (Inl (EngineNet NetActorGone), e)
      else engine_call m (e\<lparr>en_live := live_run C before (en_live e)\<rparr>))"

definition engine_start_sync ::
  "crypto \<Rightarrow> live_env \<Rightarrow> (live_env \<times> live_input) list \<Rightarrow> namespace_id \<Rightarrow> endpoint_addr list \<Rightarrow> (engine, engine_error, unit) op" where
  "engine_start_sync C env before ns peers = engine_ask C before (start_sync C env ns peers True)"

definition engine_start_sync_scoped ::
  "crypto \<Rightarrow> live_env \<Rightarrow> (live_env \<times> live_input) list \<Rightarrow> namespace_id \<Rightarrow> endpoint_addr list \<Rightarrow> (engine, engine_error, unit) op" where
  "engine_start_sync_scoped C env before ns peers = engine_ask C before (start_sync C env ns peers False)"

definition engine_leave ::
  "crypto \<Rightarrow> live_env \<Rightarrow> (live_env \<times> live_input) list \<Rightarrow> namespace_id \<Rightarrow> bool \<Rightarrow> (engine, engine_error, unit) op" where
  "engine_leave C env before ns kill = engine_ask C before (leave C env ns kill)"

definition engine_leave_gossip ::
  "crypto \<Rightarrow> live_env \<Rightarrow> (live_env \<times> live_input) list \<Rightarrow> namespace_id \<Rightarrow> (engine, engine_error, unit) op" where
  "engine_leave_gossip C env before ns = engine_ask C before (\<lambda>lv. (Inr (), on_actor_message C env (LeaveGossip ns) lv))"

definition engine_handle_connection ::
  "crypto \<Rightarrow> live_env \<Rightarrow> (live_env \<times> live_input) list \<Rightarrow> nat \<Rightarrow> public_key \<Rightarrow> (engine, engine_error, unit) op" where
  "engine_handle_connection C env before task peer =
     engine_ask C before (\<lambda>lv. (Inr (), on_actor_message C env (HandleConnection task peer) lv))"

text \<open>A shutdown that waits for a topic forever does not answer.\<close>

definition engine_shutdown ::
  "crypto \<Rightarrow> (live_env \<times> live_input) list \<Rightarrow> engine \<Rightarrow> (engine_error + unit) option \<times> engine" where
  "engine_shutdown C before e =
     (if \<not> en_running e then (Some (Inl (EngineNet NetActorGone)), e)
      else case live_shutdown (live_run C before (en_live e)) of
          (Some g, lv) \<Rightarrow> (Some (Inr ()), e\<lparr>en_live := lv\<lparr>lv_gossip := g\<rparr>, en_running := False\<rparr>)
        | (None, lv) \<Rightarrow> (None, e\<lparr>en_live := lv, en_running := False\<rparr>))"

definition default_author_get :: "engine \<Rightarrow> author_id" where
  "default_author_get e = en_default_author e"

definition default_author_set :: "crypto \<Rightarrow> live_env \<Rightarrow> hexlib \<Rightarrow> write_outcome \<Rightarrow> author_id \<Rightarrow> (engine, engine_error, unit) op" where
  "default_author_set C env H w i =
     op_bind (engine_call (handle_export_author C env i)) (\<lambda>found.
       if found = None then op_fail AuthorUnknown
       else (\<lambda>e. case author_persist H w (en_storage e) i (en_files e) of
           (Inl err, files) \<Rightarrow> (Inl err, e\<lparr>en_files := files\<rparr>)
         | (Inr _, files) \<Rightarrow> (Inr (), e\<lparr>en_files := files, en_default_author := i\<rparr>)))"

section \<open>Events\<close>

datatype engine_event =
    InsertLocalEvent entry
  | InsertRemoteEvent public_key entry content_status
  | ContentReadyEvent bytes
  | PendingContentReadyEvent
  | NeighborUpEvent public_key
  | NeighborDownEvent public_key
  | SyncFinishedEvent sync_event

fun event_from_live :: "live_event \<Rightarrow> engine_event" where
  "event_from_live (EvContentReady hash) = ContentReadyEvent hash"
| "event_from_live (EvNeighborUp peer) = NeighborUpEvent peer"
| "event_from_live (EvNeighborDown peer) = NeighborDownEvent peer"
| "event_from_live (EvSyncFinished ev) = SyncFinishedEvent ev"
| "event_from_live EvPendingContentReady = PendingContentReadyEvent"

fun event_from_replica :: "(bytes \<Rightarrow> bool) \<Rightarrow> (bytes \<Rightarrow> content_status) \<Rightarrow> event \<Rightarrow> key_parsing_error + engine_event" where
  "event_from_replica is_key cb (LocalInsert ns e) = Inr (InsertLocalEvent (se_entry e))"
| "event_from_replica is_key cb (RemoteInsert ns e from_peer download status) =
     (let status' = cb (entry_content_hash (se_entry e))
      in if is_key from_peer then Inr (InsertRemoteEvent from_peer (se_entry e) status') else Inl KeyParsingError)"

text \<open>A subscription: one channel at the replica and one at the live actor. What has arrived on the first is
  yielded before what has arrived on the second.\<close>

definition engine_subscribe ::
  "crypto \<Rightarrow> live_env \<Rightarrow> (live_env \<times> live_input) list \<Rightarrow> namespace_id \<Rightarrow> channel \<Rightarrow> channel \<Rightarrow> (engine, engine_error, unit) op" where
  "engine_subscribe C env before ns replica_tx live_tx =
     op_bind (engine_call (handle_subscribe C env ns replica_tx)) (\<lambda>_.
       engine_ask C before (\<lambda>lv. (Inr (), on_actor_message C env (Subscribe ns live_tx) lv)))"

fun subscription_next ::
  "(bytes \<Rightarrow> bool) \<Rightarrow> (bytes \<Rightarrow> content_status) \<Rightarrow> event list \<times> live_event list
     \<Rightarrow> (key_parsing_error + engine_event) option \<times> event list \<times> live_event list" where
  "subscription_next is_key cb (ev # evs, live_evs) = (Some (event_from_replica is_key cb ev), (evs, live_evs))"
| "subscription_next is_key cb ([], ev # evs) = (Some (Inr (event_from_live ev)), ([], evs))"
| "subscription_next is_key cb ([], []) = (None, ([], []))"

section \<open>Garbage collection\<close>

datatype protect_outcome = ProtectContinue | ProtectAbort

text \<open>What the task of the engine sends for one request of the garbage collector: the content hashes, or the error
  of getting them. If the task is aborted after some messages, the channel closes there.\<close>

definition protect_messages :: "net_error + bytes list \<Rightarrow> (net_error + bytes) list" where
  "protect_messages res = (case res of Inl e \<Rightarrow> [Inl e] | Inr hashes \<Rightarrow> map Inr hashes)"

definition protect_task ::
  "crypto \<Rightarrow> live_env \<Rightarrow> nat option \<Rightarrow> live \<Rightarrow> (net_error + bytes) list \<times> live" where
  "protect_task C env aborted lv =
     (case handle_content_hashes C env lv of (res, lv') \<Rightarrow>
        ((case aborted of None \<Rightarrow> protect_messages res | Some n \<Rightarrow> take n (protect_messages res)), lv'))"

fun protect_collect :: "(net_error + bytes) list \<Rightarrow> bytes list \<Rightarrow> protect_outcome \<times> bytes list" where
  "protect_collect [] live = (ProtectContinue, live)"
| "protect_collect (Inl e # rest) live = (ProtectAbort, live)"
| "protect_collect (Inr hash # rest) live = protect_collect rest (List.insert hash live)"

text \<open>The callback: the request may find the task gone, or be dropped unanswered.\<close>

datatype protect_answer = RequestRefused | RequestDropped | RequestStream "(net_error + bytes) list"

fun protect_cb :: "protect_answer \<Rightarrow> bytes list \<Rightarrow> protect_outcome \<times> bytes list" where
  "protect_cb RequestRefused live = (ProtectAbort, live)"
| "protect_cb RequestDropped live = (ProtectAbort, live)"
| "protect_cb (RequestStream msgs) live = protect_collect msgs live"

end
