(* ===== verification/Tickets.thy ===== *)
theory Tickets
  imports Gossip
begin

text \<open>
  Tickets, \<^verbatim>\<open>src/src/ticket.rs\<close>: a capability for a document with the addresses of nodes to contact, and the
  choice of which addresses to publish (\<open>AddrInfoOptions\<close> of \<^verbatim>\<open>src/src/api/protocol.rs\<close>).

  The serializer and the textual form of the ticket package are arguments. Which addresses are relays and
  which are direct is a matter of the transport package, hence a pair of predicates.
\<close>

section \<open>Tickets\<close>

record doc_ticket =
  dt_capability :: capability
  dt_nodes :: "endpoint_addr list"

datatype ticket_wire_format = Variant0 doc_ticket

datatype ticket_error = TicketPostcard | TicketVerify | TicketText

definition ticket_new :: "capability \<Rightarrow> endpoint_addr list \<Rightarrow> doc_ticket" where
  "ticket_new cap peers = \<lparr>dt_capability = cap, dt_nodes = peers\<rparr>"

definition ticket_encode_bytes :: "ticket_wire_format postcard \<Rightarrow> doc_ticket \<Rightarrow> bytes" where
  "ticket_encode_bytes M t = pc_to_stdvec M (Variant0 t)"

definition ticket_decode_bytes :: "ticket_wire_format postcard \<Rightarrow> bytes \<Rightarrow> ticket_error + doc_ticket" where
  "ticket_decode_bytes M b =
     (case pc_from_bytes M b of
        None \<Rightarrow> Inl TicketPostcard
      | Some (Variant0 t) \<Rightarrow> if dt_nodes t = [] then Inl TicketVerify else Inr t)"

text \<open>The text of a ticket is its kind followed by an encoding of its bytes, both up to the ticket package.\<close>

record ticket_text =
  tt_encode :: "string \<Rightarrow> bytes \<Rightarrow> string"
  tt_decode :: "string \<Rightarrow> string \<Rightarrow> bytes option"

definition TICKET_KIND :: string where
  "TICKET_KIND = ''doc''"

definition ticket_display :: "ticket_text \<Rightarrow> ticket_wire_format postcard \<Rightarrow> doc_ticket \<Rightarrow> string" where
  "ticket_display T M t = tt_encode T TICKET_KIND (ticket_encode_bytes M t)"

definition ticket_from_str :: "ticket_text \<Rightarrow> ticket_wire_format postcard \<Rightarrow> string \<Rightarrow> ticket_error + doc_ticket" where
  "ticket_from_str T M s =
     (case tt_decode T TICKET_KIND s of None \<Rightarrow> Inl TicketText | Some b \<Rightarrow> ticket_decode_bytes M b)"

section \<open>Addresses\<close>

datatype addr_info_options = AddrId | AddrRelayAndAddresses | AddrRelay | AddrAddresses

record addr_kinds =
  is_relay :: "bytes \<Rightarrow> bool"
  is_ip :: "bytes \<Rightarrow> bool"

fun addr_apply :: "addr_kinds \<Rightarrow> addr_info_options \<Rightarrow> endpoint_addr \<Rightarrow> endpoint_addr" where
  "addr_apply K AddrId (i, addrs) = (i, [])"
| "addr_apply K AddrRelay (i, addrs) = (i, filter (is_relay K) addrs)"
| "addr_apply K AddrAddresses (i, addrs) = (i, filter (is_ip K) addrs)"
| "addr_apply K AddrRelayAndAddresses (i, addrs) = (i, addrs)"

section \<open>Laws\<close>

definition ticket_text_ok :: "ticket_text \<Rightarrow> bool" where
  "ticket_text_ok T \<longleftrightarrow> (\<forall>kind b. tt_decode T kind (tt_encode T kind b) = Some b)"

lemma ticket_roundtrip:
  assumes "postcard_ok M" "ticket_text_ok T"
  shows "ticket_from_str T M (ticket_display T M t) = (if dt_nodes t = [] then Inl TicketVerify else Inr t)"
  using assms by (simp add: ticket_from_str_def ticket_display_def ticket_text_ok_def ticket_decode_bytes_def
      ticket_encode_bytes_def postcard_ok_def)

lemma decoded_ticket_has_nodes: "ticket_from_str T M s = Inr t \<Longrightarrow> dt_nodes t \<noteq> []"
  by (auto simp: ticket_from_str_def ticket_decode_bytes_def split: option.splits ticket_wire_format.splits if_splits)

lemma addr_apply_id [simp]: "fst (addr_apply K opts addr) = fst addr"
  by (cases addr, cases opts) auto

lemma addr_apply_subset: "set (snd (addr_apply K opts addr)) \<subseteq> set (snd addr)"
  by (cases addr, cases opts) auto

end
