(* ===== verification/Api.thy ===== *)
theory Api
  imports Engine Tickets
begin

text \<open>
  The public interface: the requests of \<^verbatim>\<open>src/src/api/protocol.rs\<close>, the actor of \<^verbatim>\<open>src/src/api/actor.rs\<close> that serves them one
  after the other, and the client of \<^verbatim>\<open>src/src/api.rs\<close> with its document handles.

  The client talks to the actor of the same process; a remote connection adds only transport errors. A
  stream of results is the list of its items.
\<close>

section \<open>Requests\<close>

datatype share_mode = ShareRead | ShareWrite

datatype docs_request =
    ReqOpen namespace_id
  | ReqClose namespace_id
  | ReqStatus namespace_id
  | ReqList
  | ReqCreate
  | ReqDrop namespace_id
  | ReqImport capability
  | ReqSet namespace_id author_id bytes bytes
  | ReqSetHash namespace_id author_id bytes bytes u64
  | ReqGet namespace_id query
  | ReqGetExact namespace_id author_id bytes bool
  | ReqDel namespace_id author_id bytes
  | ReqRetract namespace_id author_id bytes u64
  | ReqStartSync namespace_id "endpoint_addr list" bool
  | ReqLeave namespace_id
  | ReqLeaveGossip namespace_id
  | ReqShare namespace_id share_mode addr_info_options
  | ReqSubscribe namespace_id
  | ReqGetDownloadPolicy namespace_id
  | ReqSetDownloadPolicy namespace_id download_policy
  | ReqGetSyncPeers namespace_id
  | ReqAuthorList
  | ReqAuthorCreate
  | ReqAuthorGetDefault
  | ReqAuthorSetDefault author_id
  | ReqAuthorImport author
  | ReqAuthorExport author_id
  | ReqAuthorDelete author_id

datatype docs_response =
    RespUnit "engine_error + unit"
  | RespStatus "engine_error + open_state"
  | RespList "(engine_error + namespace_id \<times> capability_kind) list"
  | RespNamespace "engine_error + namespace_id"
  | RespEntry "engine_error + signed_entry"
  | RespEntries "(engine_error + signed_entry) list"
  | RespExact "engine_error + signed_entry option"
  | RespCount "engine_error + nat"
  | RespBool "engine_error + bool"
  | RespTicket "engine_error + doc_ticket"
  | RespSubscription "engine_error + channel \<times> channel"
  | RespPolicy "engine_error + download_policy"
  | RespPeers "engine_error + bytes list option"
  | RespAuthors "(engine_error + author_id) list"
  | RespAuthorId "engine_error + author_id"
  | RespAuthor "engine_error + author option"

text \<open>What serving a request reads of the outside: the environment of calls, what the live actor handles before it is
  asked, the hex library, the fate of a write to the author file, the bytes of the random generator, what
  adding a blob gives, the addresses of this node, and fresh channels.\<close>

record api_env =
  ae_env :: live_env
  ae_before :: "(live_env \<times> live_input) list"
  ae_hex :: hexlib
  ae_write :: write_outcome
  ae_rng :: bytes
  ae_add_bytes :: "bytes \<Rightarrow> bytes option"
  ae_addr :: endpoint_addr
  ae_kinds :: addr_kinds
  ae_replica_tx :: channel
  ae_live_tx :: channel

section \<open>Authors\<close>

definition author_create :: "crypto \<Rightarrow> api_env \<Rightarrow> (engine, engine_error, author_id) op" where
  "author_create C ev =
     (let author = author_new (ae_rng ev) in
      op_bind (engine_call (handle_import_author C (ae_env ev) author)) (\<lambda>_. op_return (author_id C author)))"

definition author_default :: "(engine, engine_error, author_id) op" where
  "author_default e = (Inr (default_author_get e), e)"

definition author_set_default :: "crypto \<Rightarrow> api_env \<Rightarrow> author_id \<Rightarrow> (engine, engine_error, unit) op" where
  "author_set_default C ev i = default_author_set C (ae_env ev) (ae_hex ev) (ae_write ev) i"

definition stream_of :: "(engine, engine_error, (engine_error + 'a) list) op \<Rightarrow> engine \<Rightarrow> (engine_error + 'a) list \<times> engine" where
  "stream_of m e = (case m e of (Inl err, e') \<Rightarrow> ([Inl err], e') | (Inr items, e') \<Rightarrow> (items, e'))"

definition author_list :: "crypto \<Rightarrow> api_env \<Rightarrow> engine \<Rightarrow> (engine_error + author_id) list \<times> engine" where
  "author_list C ev = stream_of (op_bind (engine_call (handle_list_authors C (ae_env ev))) (\<lambda>is. op_return (map Inr is)))"

definition author_import :: "crypto \<Rightarrow> api_env \<Rightarrow> author \<Rightarrow> (engine, engine_error, author_id) op" where
  "author_import C ev author = engine_call (handle_import_author C (ae_env ev) author)"

definition author_export :: "crypto \<Rightarrow> api_env \<Rightarrow> author_id \<Rightarrow> (engine, engine_error, author option) op" where
  "author_export C ev i = engine_call (handle_export_author C (ae_env ev) i)"

definition author_delete :: "crypto \<Rightarrow> api_env \<Rightarrow> author_id \<Rightarrow> (engine, engine_error, unit) op" where
  "author_delete C ev i e =
     (if i = default_author_get e then (Inl DefaultAuthorInUse, e)
      else engine_call (handle_delete_author C (ae_env ev) i) e)"

section \<open>Documents\<close>

definition open_default :: open_opts where
  "open_default = \<lparr>oo_sync = False, oo_subscribe = None\<rparr>"

definition doc_create :: "crypto \<Rightarrow> api_env \<Rightarrow> (engine, engine_error, namespace_id) op" where
  "doc_create C ev =
     (let secret = namespace_new (ae_rng ev); i = namespace_id C secret in
      op_bind (engine_call (handle_import_namespace C (ae_env ev) (Write secret))) (\<lambda>_.
      op_bind (engine_call (handle_open C (ae_env ev) i open_default)) (\<lambda>_.
        op_return i)))"

definition doc_drop :: "crypto \<Rightarrow> api_env \<Rightarrow> namespace_id \<Rightarrow> (engine, engine_error, unit) op" where
  "doc_drop C ev ns =
     op_bind (engine_leave C (ae_env ev) (ae_before ev) ns True) (\<lambda>_.
       engine_call (handle_drop_replica C (ae_env ev) ns))"

definition doc_list :: "crypto \<Rightarrow> api_env \<Rightarrow> engine \<Rightarrow> (engine_error + namespace_id \<times> capability_kind) list \<times> engine" where
  "doc_list C ev = stream_of (op_bind (engine_call (handle_list_replicas C (ae_env ev)))
     (\<lambda>rows. op_return (map (map_sum (\<lambda>e. EngineNet (NetActor (ErrStore e))) id) rows)))"

definition doc_open :: "crypto \<Rightarrow> api_env \<Rightarrow> namespace_id \<Rightarrow> (engine, engine_error, unit) op" where
  "doc_open C ev ns = engine_call (handle_open C (ae_env ev) ns open_default)"

definition doc_close :: "crypto \<Rightarrow> api_env \<Rightarrow> namespace_id \<Rightarrow> (engine, engine_error, unit) op" where
  "doc_close C ev ns = op_bind (engine_call (handle_close C (ae_env ev) ns)) (\<lambda>_. op_return ())"

definition doc_status :: "crypto \<Rightarrow> api_env \<Rightarrow> namespace_id \<Rightarrow> (engine, engine_error, open_state) op" where
  "doc_status C ev ns = engine_call (handle_get_state C (ae_env ev) ns)"

definition doc_share :: "crypto \<Rightarrow> api_env \<Rightarrow> namespace_id \<Rightarrow> share_mode \<Rightarrow> addr_info_options \<Rightarrow> (engine, engine_error, doc_ticket) op" where
  "doc_share C ev ns mode opts =
     (let me = addr_apply (ae_kinds ev) opts (ae_addr ev) in
      op_bind (case mode of
          ShareRead \<Rightarrow> op_return (Read ns)
        | ShareWrite \<Rightarrow> op_bind (engine_call (handle_export_secret_key C (ae_env ev) ns)) (\<lambda>secret. op_return (Write secret)))
      (\<lambda>cap. op_bind (engine_start_sync C (ae_env ev) (ae_before ev) ns []) (\<lambda>_.
        op_return \<lparr>dt_capability = cap, dt_nodes = [me]\<rparr>)))"

definition doc_subscribe :: "crypto \<Rightarrow> api_env \<Rightarrow> namespace_id \<Rightarrow> (engine, engine_error, channel \<times> channel) op" where
  "doc_subscribe C ev ns =
     op_bind (engine_subscribe C (ae_env ev) (ae_before ev) ns (ae_replica_tx ev) (ae_live_tx ev)) (\<lambda>_.
       op_return (ae_replica_tx ev, ae_live_tx ev))"

definition doc_import :: "crypto \<Rightarrow> api_env \<Rightarrow> capability \<Rightarrow> (engine, engine_error, namespace_id) op" where
  "doc_import C ev cap =
     op_bind (engine_call (handle_import_namespace C (ae_env ev) cap)) (\<lambda>i.
     op_bind (engine_call (handle_open C (ae_env ev) i open_default)) (\<lambda>_.
       op_return i))"

definition doc_start_sync :: "crypto \<Rightarrow> api_env \<Rightarrow> namespace_id \<Rightarrow> endpoint_addr list \<Rightarrow> bool \<Rightarrow> (engine, engine_error, unit) op" where
  "doc_start_sync C ev ns peers join =
     (if join then engine_start_sync C (ae_env ev) (ae_before ev) ns peers
      else engine_start_sync_scoped C (ae_env ev) (ae_before ev) ns peers)"

definition doc_leave :: "crypto \<Rightarrow> api_env \<Rightarrow> namespace_id \<Rightarrow> (engine, engine_error, unit) op" where
  "doc_leave C ev ns = engine_leave C (ae_env ev) (ae_before ev) ns False"

definition doc_leave_gossip :: "crypto \<Rightarrow> api_env \<Rightarrow> namespace_id \<Rightarrow> (engine, engine_error, unit) op" where
  "doc_leave_gossip C ev ns = engine_leave_gossip C (ae_env ev) (ae_before ev) ns"

definition doc_set :: "crypto \<Rightarrow> api_env \<Rightarrow> namespace_id \<Rightarrow> author_id \<Rightarrow> bytes \<Rightarrow> bytes \<Rightarrow> (engine, engine_error, signed_entry) op" where
  "doc_set C ev ns author key content =
     op_bind (op_lift (case ae_add_bytes ev content of None \<Rightarrow> Inl BlobAddFailed | Some hash \<Rightarrow> Inr hash)) (\<lambda>hash.
     op_bind (engine_call (handle_insert_local C (ae_env ev) ns author key hash (word_of_nat (length content)))) (\<lambda>_.
     op_bind (engine_call (handle_get_exact C (ae_env ev) ns author key False)) (\<lambda>found.
       case found of Some entry \<Rightarrow> op_return entry | None \<Rightarrow> op_fail EntryGone)))"

definition doc_del :: "crypto \<Rightarrow> api_env \<Rightarrow> namespace_id \<Rightarrow> author_id \<Rightarrow> bytes \<Rightarrow> (engine, engine_error, nat) op" where
  "doc_del C ev ns author pre = engine_call (handle_delete_prefix C (ae_env ev) ns author pre)"

definition doc_retract :: "crypto \<Rightarrow> api_env \<Rightarrow> namespace_id \<Rightarrow> author_id \<Rightarrow> bytes \<Rightarrow> u64 \<Rightarrow> (engine, engine_error, bool) op" where
  "doc_retract C ev ns author key up_to = engine_call (handle_retract_entry C (ae_env ev) ns author key up_to)"

definition doc_set_hash ::
  "crypto \<Rightarrow> api_env \<Rightarrow> namespace_id \<Rightarrow> author_id \<Rightarrow> bytes \<Rightarrow> bytes \<Rightarrow> u64 \<Rightarrow> (engine, engine_error, unit) op" where
  "doc_set_hash C ev ns author key hash len = engine_call (handle_insert_local C (ae_env ev) ns author key hash len)"

definition doc_get_many :: "crypto \<Rightarrow> api_env \<Rightarrow> namespace_id \<Rightarrow> query \<Rightarrow> engine \<Rightarrow> (engine_error + signed_entry) list \<times> engine" where
  "doc_get_many C ev ns q =
     stream_of (op_bind (engine_call (handle_get_many C (ae_env ev) ns q)) (\<lambda>es. op_return (map Inr es)))"

definition doc_get_exact :: "crypto \<Rightarrow> api_env \<Rightarrow> namespace_id \<Rightarrow> author_id \<Rightarrow> bytes \<Rightarrow> bool \<Rightarrow> (engine, engine_error, signed_entry option) op" where
  "doc_get_exact C ev ns author key include_empty =
     engine_call (handle_get_exact C (ae_env ev) ns author key include_empty)"

definition doc_set_download_policy :: "crypto \<Rightarrow> api_env \<Rightarrow> namespace_id \<Rightarrow> download_policy \<Rightarrow> (engine, engine_error, unit) op" where
  "doc_set_download_policy C ev ns policy = engine_call (handle_set_download_policy C (ae_env ev) ns policy)"

definition doc_get_download_policy :: "crypto \<Rightarrow> api_env \<Rightarrow> namespace_id \<Rightarrow> (engine, engine_error, download_policy) op" where
  "doc_get_download_policy C ev ns = engine_call (handle_get_download_policy C (ae_env ev) ns)"

definition doc_get_sync_peers :: "crypto \<Rightarrow> api_env \<Rightarrow> namespace_id \<Rightarrow> (engine, engine_error, bytes list option) op" where
  "doc_get_sync_peers C ev ns = engine_call (handle_get_sync_peers C (ae_env ev) ns)"

section \<open>The actor\<close>

definition respond :: "((engine_error + 'a) \<Rightarrow> docs_response) \<Rightarrow> (engine, engine_error, 'a) op \<Rightarrow> engine \<Rightarrow> docs_response \<times> engine" where
  "respond f m e = (case m e of (r, e') \<Rightarrow> (f r, e'))"

fun rpc_handle :: "crypto \<Rightarrow> api_env \<Rightarrow> docs_request \<Rightarrow> engine \<Rightarrow> docs_response \<times> engine" where
  "rpc_handle C ev (ReqOpen ns) e = respond RespUnit (doc_open C ev ns) e"
| "rpc_handle C ev (ReqClose ns) e = respond RespUnit (doc_close C ev ns) e"
| "rpc_handle C ev (ReqStatus ns) e = respond RespStatus (doc_status C ev ns) e"
| "rpc_handle C ev ReqList e = apfst RespList (doc_list C ev e)"
| "rpc_handle C ev ReqCreate e = respond RespNamespace (doc_create C ev) e"
| "rpc_handle C ev (ReqDrop ns) e = respond RespUnit (doc_drop C ev ns) e"
| "rpc_handle C ev (ReqImport cap) e = respond RespNamespace (doc_import C ev cap) e"
| "rpc_handle C ev (ReqSet ns author key content) e = respond RespEntry (doc_set C ev ns author key content) e"
| "rpc_handle C ev (ReqSetHash ns author key hash len) e = respond RespUnit (doc_set_hash C ev ns author key hash len) e"
| "rpc_handle C ev (ReqGet ns q) e = apfst RespEntries (doc_get_many C ev ns q e)"
| "rpc_handle C ev (ReqGetExact ns author key include_empty) e =
     respond RespExact (doc_get_exact C ev ns author key include_empty) e"
| "rpc_handle C ev (ReqDel ns author pre) e = respond RespCount (doc_del C ev ns author pre) e"
| "rpc_handle C ev (ReqRetract ns author key up_to) e = respond RespBool (doc_retract C ev ns author key up_to) e"
| "rpc_handle C ev (ReqStartSync ns peers join) e = respond RespUnit (doc_start_sync C ev ns peers join) e"
| "rpc_handle C ev (ReqLeave ns) e = respond RespUnit (doc_leave C ev ns) e"
| "rpc_handle C ev (ReqLeaveGossip ns) e = respond RespUnit (doc_leave_gossip C ev ns) e"
| "rpc_handle C ev (ReqShare ns mode opts) e = respond RespTicket (doc_share C ev ns mode opts) e"
| "rpc_handle C ev (ReqSubscribe ns) e = respond RespSubscription (doc_subscribe C ev ns) e"
| "rpc_handle C ev (ReqGetDownloadPolicy ns) e = respond RespPolicy (doc_get_download_policy C ev ns) e"
| "rpc_handle C ev (ReqSetDownloadPolicy ns policy) e = respond RespUnit (doc_set_download_policy C ev ns policy) e"
| "rpc_handle C ev (ReqGetSyncPeers ns) e = respond RespPeers (doc_get_sync_peers C ev ns) e"
| "rpc_handle C ev ReqAuthorList e = apfst RespAuthors (author_list C ev e)"
| "rpc_handle C ev ReqAuthorCreate e = respond RespAuthorId (author_create C ev) e"
| "rpc_handle C ev ReqAuthorGetDefault e = respond RespAuthorId author_default e"
| "rpc_handle C ev (ReqAuthorSetDefault i) e = respond RespUnit (author_set_default C ev i) e"
| "rpc_handle C ev (ReqAuthorImport author) e = respond RespAuthorId (author_import C ev author) e"
| "rpc_handle C ev (ReqAuthorExport i) e = respond RespAuthor (author_export C ev i) e"
| "rpc_handle C ev (ReqAuthorDelete i) e = respond RespUnit (author_delete C ev i) e"

fun rpc_run :: "crypto \<Rightarrow> (api_env \<times> docs_request) list \<Rightarrow> engine \<Rightarrow> docs_response list \<times> engine" where
  "rpc_run C [] e = ([], e)"
| "rpc_run C ((ev, req) # rest) e =
     (case rpc_handle C ev req e of (r, e') \<Rightarrow> (case rpc_run C rest e' of (rs, e'') \<Rightarrow> (r # rs, e'')))"

end
