(* ===== verification/Client.thy ===== *)
theory Client
  imports Api
begin

text \<open>
  The client of the public interface, \<^verbatim>\<open>src/src/api.rs\<close>: requests, document handles that refuse to work once they
  are closed, importing tickets, and adding a file as a state machine over the progress of the blob store.
\<close>

section \<open>Requests\<close>

definition client_rpc ::
  "crypto \<Rightarrow> api_env \<Rightarrow> docs_request \<Rightarrow> (docs_response \<Rightarrow> 'a) \<Rightarrow> engine \<Rightarrow> 'a \<times> engine" where
  "client_rpc C ev req answer e = (case rpc_handle C ev req e of (resp, e') \<Rightarrow> (answer resp, e'))"

text \<open>The type of the answer is fixed by the request; any other one would not deserialize.\<close>

fun resp_unit :: "docs_response \<Rightarrow> engine_error + unit" where
  "resp_unit (RespUnit r) = r" | "resp_unit _ = Inl (EngineNet NetTransport)"

fun resp_status :: "docs_response \<Rightarrow> engine_error + open_state" where
  "resp_status (RespStatus r) = r" | "resp_status _ = Inl (EngineNet NetTransport)"

fun resp_namespace :: "docs_response \<Rightarrow> engine_error + namespace_id" where
  "resp_namespace (RespNamespace r) = r" | "resp_namespace _ = Inl (EngineNet NetTransport)"

fun resp_entry :: "docs_response \<Rightarrow> engine_error + signed_entry" where
  "resp_entry (RespEntry r) = r" | "resp_entry _ = Inl (EngineNet NetTransport)"

fun resp_exact :: "docs_response \<Rightarrow> engine_error + signed_entry option" where
  "resp_exact (RespExact r) = r" | "resp_exact _ = Inl (EngineNet NetTransport)"

fun resp_count :: "docs_response \<Rightarrow> engine_error + nat" where
  "resp_count (RespCount r) = r" | "resp_count _ = Inl (EngineNet NetTransport)"

fun resp_bool :: "docs_response \<Rightarrow> engine_error + bool" where
  "resp_bool (RespBool r) = r" | "resp_bool _ = Inl (EngineNet NetTransport)"

fun resp_ticket :: "docs_response \<Rightarrow> engine_error + doc_ticket" where
  "resp_ticket (RespTicket r) = r" | "resp_ticket _ = Inl (EngineNet NetTransport)"

fun resp_subscription :: "docs_response \<Rightarrow> engine_error + channel \<times> channel" where
  "resp_subscription (RespSubscription r) = r" | "resp_subscription _ = Inl (EngineNet NetTransport)"

fun resp_policy :: "docs_response \<Rightarrow> engine_error + download_policy" where
  "resp_policy (RespPolicy r) = r" | "resp_policy _ = Inl (EngineNet NetTransport)"

fun resp_peers :: "docs_response \<Rightarrow> engine_error + bytes list option" where
  "resp_peers (RespPeers r) = r" | "resp_peers _ = Inl (EngineNet NetTransport)"

fun resp_author_id :: "docs_response \<Rightarrow> engine_error + author_id" where
  "resp_author_id (RespAuthorId r) = r" | "resp_author_id _ = Inl (EngineNet NetTransport)"

fun resp_author :: "docs_response \<Rightarrow> engine_error + author option" where
  "resp_author (RespAuthor r) = r" | "resp_author _ = Inl (EngineNet NetTransport)"

fun resp_entries :: "docs_response \<Rightarrow> (engine_error + signed_entry) list" where
  "resp_entries (RespEntries r) = r" | "resp_entries _ = [Inl (EngineNet NetTransport)]"

fun resp_list :: "docs_response \<Rightarrow> (engine_error + namespace_id \<times> capability_kind) list" where
  "resp_list (RespList r) = r" | "resp_list _ = [Inl (EngineNet NetTransport)]"

fun resp_authors :: "docs_response \<Rightarrow> (engine_error + author_id) list" where
  "resp_authors (RespAuthors r) = r" | "resp_authors _ = [Inl (EngineNet NetTransport)]"

section \<open>Document handles\<close>

record doc =
  dc_id :: namespace_id
  dc_closed :: bool

definition doc_new :: "namespace_id \<Rightarrow> doc" where
  "doc_new ns = \<lparr>dc_id = ns, dc_closed = False\<rparr>"

definition doc_ensure_open :: "doc \<Rightarrow> engine_error + unit" where
  "doc_ensure_open d = (if dc_closed d then Inl DocumentClosed else Inr ())"

text \<open>The handle is closed whether or not the request succeeds.\<close>

definition client_close :: "crypto \<Rightarrow> api_env \<Rightarrow> doc \<Rightarrow> engine \<Rightarrow> (engine_error + unit) \<times> doc \<times> engine" where
  "client_close C ev d e =
     (let d' = d\<lparr>dc_closed := True\<rparr>
      in case client_rpc C ev (ReqClose (dc_id d)) resp_unit e of (r, e') \<Rightarrow> (r, d', e'))"

definition doc_rpc ::
  "crypto \<Rightarrow> api_env \<Rightarrow> doc \<Rightarrow> docs_request \<Rightarrow> (docs_response \<Rightarrow> engine_error + 'a) \<Rightarrow> (engine, engine_error, 'a) op" where
  "doc_rpc C ev d req answer = op_bind (op_lift (doc_ensure_open d)) (\<lambda>_. client_rpc C ev req answer)"

definition client_set_bytes :: "crypto \<Rightarrow> api_env \<Rightarrow> doc \<Rightarrow> author_id \<Rightarrow> bytes \<Rightarrow> bytes \<Rightarrow> (engine, engine_error, bytes) op" where
  "client_set_bytes C ev d author key content =
     op_bind (doc_rpc C ev d (ReqSet (dc_id d) author key content) resp_entry) (\<lambda>entry.
       op_return (entry_content_hash (se_entry entry)))"

definition client_set_hash :: "crypto \<Rightarrow> api_env \<Rightarrow> doc \<Rightarrow> author_id \<Rightarrow> bytes \<Rightarrow> bytes \<Rightarrow> u64 \<Rightarrow> (engine, engine_error, unit) op" where
  "client_set_hash C ev d author key hash len = doc_rpc C ev d (ReqSetHash (dc_id d) author key hash len) resp_unit"

definition client_del :: "crypto \<Rightarrow> api_env \<Rightarrow> doc \<Rightarrow> author_id \<Rightarrow> bytes \<Rightarrow> (engine, engine_error, nat) op" where
  "client_del C ev d author pre = doc_rpc C ev d (ReqDel (dc_id d) author pre) resp_count"

definition client_retract :: "crypto \<Rightarrow> api_env \<Rightarrow> doc \<Rightarrow> author_id \<Rightarrow> bytes \<Rightarrow> u64 \<Rightarrow> (engine, engine_error, bool) op" where
  "client_retract C ev d author key up_to = doc_rpc C ev d (ReqRetract (dc_id d) author key up_to) resp_bool"

definition client_get_exact :: "crypto \<Rightarrow> api_env \<Rightarrow> doc \<Rightarrow> author_id \<Rightarrow> bytes \<Rightarrow> bool \<Rightarrow> (engine, engine_error, entry option) op" where
  "client_get_exact C ev d author key include_empty =
     op_bind (doc_rpc C ev d (ReqGetExact (dc_id d) author key include_empty) resp_exact) (\<lambda>found.
       op_return (map_option se_entry found))"

definition client_get_many :: "crypto \<Rightarrow> api_env \<Rightarrow> doc \<Rightarrow> query \<Rightarrow> (engine, engine_error, (engine_error + entry) list) op" where
  "client_get_many C ev d q =
     doc_rpc C ev d (ReqGet (dc_id d) q) (\<lambda>resp. Inr (map (map_sum id se_entry) (resp_entries resp)))"

definition client_get_one :: "crypto \<Rightarrow> api_env \<Rightarrow> doc \<Rightarrow> query \<Rightarrow> (engine, engine_error, entry option) op" where
  "client_get_one C ev d q =
     op_bind (op_lift (doc_ensure_open d)) (\<lambda>_.
     op_bind (client_get_many C ev d q) (\<lambda>items.
       case items of [] \<Rightarrow> op_return None | Inl err # _ \<Rightarrow> op_fail err | Inr entry # _ \<Rightarrow> op_return (Some entry)))"

definition client_share :: "crypto \<Rightarrow> api_env \<Rightarrow> doc \<Rightarrow> share_mode \<Rightarrow> addr_info_options \<Rightarrow> (engine, engine_error, doc_ticket) op" where
  "client_share C ev d mode opts = doc_rpc C ev d (ReqShare (dc_id d) mode opts) resp_ticket"

definition client_start_sync :: "crypto \<Rightarrow> api_env \<Rightarrow> doc \<Rightarrow> endpoint_addr list \<Rightarrow> (engine, engine_error, unit) op" where
  "client_start_sync C ev d peers = doc_rpc C ev d (ReqStartSync (dc_id d) peers True) resp_unit"

definition client_start_sync_scoped :: "crypto \<Rightarrow> api_env \<Rightarrow> doc \<Rightarrow> endpoint_addr list \<Rightarrow> (engine, engine_error, unit) op" where
  "client_start_sync_scoped C ev d peers = doc_rpc C ev d (ReqStartSync (dc_id d) peers False) resp_unit"

definition client_leave :: "crypto \<Rightarrow> api_env \<Rightarrow> doc \<Rightarrow> (engine, engine_error, unit) op" where
  "client_leave C ev d = doc_rpc C ev d (ReqLeave (dc_id d)) resp_unit"

definition client_leave_gossip :: "crypto \<Rightarrow> api_env \<Rightarrow> doc \<Rightarrow> (engine, engine_error, unit) op" where
  "client_leave_gossip C ev d = doc_rpc C ev d (ReqLeaveGossip (dc_id d)) resp_unit"

definition client_subscribe :: "crypto \<Rightarrow> api_env \<Rightarrow> doc \<Rightarrow> (engine, engine_error, channel \<times> channel) op" where
  "client_subscribe C ev d = doc_rpc C ev d (ReqSubscribe (dc_id d)) resp_subscription"

definition client_status :: "crypto \<Rightarrow> api_env \<Rightarrow> doc \<Rightarrow> (engine, engine_error, open_state) op" where
  "client_status C ev d = doc_rpc C ev d (ReqStatus (dc_id d)) resp_status"

definition client_set_download_policy :: "crypto \<Rightarrow> api_env \<Rightarrow> doc \<Rightarrow> download_policy \<Rightarrow> (engine, engine_error, unit) op" where
  "client_set_download_policy C ev d policy = doc_rpc C ev d (ReqSetDownloadPolicy (dc_id d) policy) resp_unit"

definition client_get_download_policy :: "crypto \<Rightarrow> api_env \<Rightarrow> doc \<Rightarrow> (engine, engine_error, download_policy) op" where
  "client_get_download_policy C ev d = doc_rpc C ev d (ReqGetDownloadPolicy (dc_id d)) resp_policy"

definition client_get_sync_peers :: "crypto \<Rightarrow> api_env \<Rightarrow> doc \<Rightarrow> (engine, engine_error, bytes list option) op" where
  "client_get_sync_peers C ev d = doc_rpc C ev d (ReqGetSyncPeers (dc_id d)) resp_peers"

section \<open>The interface\<close>

definition api_author_create :: "crypto \<Rightarrow> api_env \<Rightarrow> (engine, engine_error, author_id) op" where
  "api_author_create C ev = client_rpc C ev ReqAuthorCreate resp_author_id"

definition api_author_default :: "crypto \<Rightarrow> api_env \<Rightarrow> (engine, engine_error, author_id) op" where
  "api_author_default C ev = client_rpc C ev ReqAuthorGetDefault resp_author_id"

definition api_author_set_default :: "crypto \<Rightarrow> api_env \<Rightarrow> author_id \<Rightarrow> (engine, engine_error, unit) op" where
  "api_author_set_default C ev i = client_rpc C ev (ReqAuthorSetDefault i) resp_unit"

definition api_author_list :: "crypto \<Rightarrow> api_env \<Rightarrow> engine \<Rightarrow> (engine_error + author_id) list \<times> engine" where
  "api_author_list C ev = client_rpc C ev ReqAuthorList resp_authors"

definition api_author_export :: "crypto \<Rightarrow> api_env \<Rightarrow> author_id \<Rightarrow> (engine, engine_error, author option) op" where
  "api_author_export C ev i = client_rpc C ev (ReqAuthorExport i) resp_author"

definition api_author_import :: "crypto \<Rightarrow> api_env \<Rightarrow> author \<Rightarrow> (engine, engine_error, unit) op" where
  "api_author_import C ev author = op_bind (client_rpc C ev (ReqAuthorImport author) resp_author_id) (\<lambda>_. op_return ())"

definition api_author_delete :: "crypto \<Rightarrow> api_env \<Rightarrow> author_id \<Rightarrow> (engine, engine_error, unit) op" where
  "api_author_delete C ev i = client_rpc C ev (ReqAuthorDelete i) resp_unit"

definition api_create :: "crypto \<Rightarrow> api_env \<Rightarrow> (engine, engine_error, doc) op" where
  "api_create C ev = op_bind (client_rpc C ev ReqCreate resp_namespace) (\<lambda>i. op_return (doc_new i))"

definition api_drop_doc :: "crypto \<Rightarrow> api_env \<Rightarrow> namespace_id \<Rightarrow> (engine, engine_error, unit) op" where
  "api_drop_doc C ev ns = client_rpc C ev (ReqDrop ns) resp_unit"

definition api_import_namespace :: "crypto \<Rightarrow> api_env \<Rightarrow> capability \<Rightarrow> (engine, engine_error, doc) op" where
  "api_import_namespace C ev cap = op_bind (client_rpc C ev (ReqImport cap) resp_namespace) (\<lambda>i. op_return (doc_new i))"

text \<open>The environments of the requests an operation makes one after the other are separate arguments.\<close>

definition api_import :: "crypto \<Rightarrow> api_env \<Rightarrow> api_env \<Rightarrow> doc_ticket \<Rightarrow> (engine, engine_error, doc) op" where
  "api_import C ev1 ev2 ticket =
     op_bind (api_import_namespace C ev1 (dt_capability ticket)) (\<lambda>d.
     op_bind (client_start_sync C ev2 d (dt_nodes ticket)) (\<lambda>_. op_return d))"

definition api_import_and_subscribe ::
  "crypto \<Rightarrow> api_env \<Rightarrow> api_env \<Rightarrow> api_env \<Rightarrow> doc_ticket \<Rightarrow> (engine, engine_error, doc \<times> channel \<times> channel) op" where
  "api_import_and_subscribe C ev1 ev2 ev3 ticket =
     op_bind (client_rpc C ev1 (ReqImport (dt_capability ticket)) resp_namespace) (\<lambda>i.
     op_bind (client_subscribe C ev2 (doc_new i)) (\<lambda>events.
     op_bind (client_start_sync C ev3 (doc_new i) (dt_nodes ticket)) (\<lambda>_. op_return (doc_new i, events))))"

definition api_list :: "crypto \<Rightarrow> api_env \<Rightarrow> engine \<Rightarrow> (engine_error + namespace_id \<times> capability_kind) list \<times> engine" where
  "api_list C ev = client_rpc C ev ReqList resp_list"

definition api_open :: "crypto \<Rightarrow> api_env \<Rightarrow> namespace_id \<Rightarrow> (engine, engine_error, doc option) op" where
  "api_open C ev ns = op_bind (client_rpc C ev (ReqOpen ns) resp_unit) (\<lambda>_. op_return (Some (doc_new ns)))"

section \<open>Adding a file\<close>

text \<open>The blob store reports the size, copying (which is passed on), and in the end the hash or an error.\<close>

datatype add_progress = AddSize u64 | AddError | AddDone bytes | AddCopy u64

record entry_context =
  ec_doc :: doc
  ec_author :: author_id
  ec_key :: bytes
  ec_size :: "u64 option"

datatype import_inner =
    ImportBlobs "add_progress list" "entry_context option"
  | ImportEntry entry_context bytes u64
  | ImportFinished

record import_outcome =
  io_hash :: bytes
  io_size :: u64
  io_key :: bytes

datatype import_item = ItemError engine_error | ItemBlobs add_progress | ItemDone import_outcome

datatype 'a polled = Yielded 'a | Ended | Panicked

definition import_file :: "doc \<Rightarrow> author_id \<Rightarrow> bytes \<Rightarrow> add_progress list \<Rightarrow> engine_error + import_inner" where
  "import_file d author key items =
     rbind (doc_ensure_open d) (\<lambda>_.
       Inr (ImportBlobs items (Some \<lparr>ec_doc = d, ec_author = author, ec_key = key, ec_size = None\<rparr>)))"

fun import_poll :: "crypto \<Rightarrow> api_env \<Rightarrow> import_inner \<Rightarrow> engine \<Rightarrow> import_item polled \<times> import_inner \<times> engine" where
  "import_poll C ev (ImportBlobs (AddSize len # items) ctx) e =
     (case ctx of
        None \<Rightarrow> (Panicked, ImportBlobs items ctx, e)
      | Some c \<Rightarrow> (Yielded (ItemBlobs (AddSize len)), ImportBlobs items (Some (c\<lparr>ec_size := Some len\<rparr>)), e))"
| "import_poll C ev (ImportBlobs (AddError # items) ctx) e = (Yielded (ItemError BlobAddFailed), ImportFinished, e)"
| "import_poll C ev (ImportBlobs (AddDone hash # items) ctx) e =
     (case ctx of
        None \<Rightarrow> (Panicked, ImportBlobs items None, e)
      | Some c \<Rightarrow>
          (case ec_size c of
             None \<Rightarrow> (Panicked, ImportBlobs items None, e)
           | Some len \<Rightarrow> (Yielded (ItemBlobs (AddDone hash)), ImportEntry c hash len, e)))"
| "import_poll C ev (ImportBlobs (AddCopy n # items) ctx) e = (Yielded (ItemBlobs (AddCopy n)), ImportBlobs items ctx, e)"
| "import_poll C ev (ImportBlobs [] ctx) e = (Panicked, ImportBlobs [] ctx, e)"
| "import_poll C ev (ImportEntry c hash len) e =
     (case client_set_hash C ev (ec_doc c) (ec_author c) (ec_key c) hash len e of
        (Inr _, e') \<Rightarrow> (Yielded (ItemDone \<lparr>io_hash = hash, io_size = len, io_key = ec_key c\<rparr>), ImportFinished, e')
      | (Inl err, e') \<Rightarrow> (Yielded (ItemError err), ImportFinished, e'))"
| "import_poll C ev ImportFinished e = (Ended, ImportFinished, e)"

fun import_work :: "import_inner \<Rightarrow> nat" where
  "import_work (ImportBlobs items ctx) = length items + 1"
| "import_work (ImportEntry c hash len) = 0"
| "import_work ImportFinished = 0"

lemma import_poll_works:
  "import_poll C ev st e = (Yielded (ItemBlobs x), st', e') \<Longrightarrow> import_work st' < import_work st"
  by (cases "(C, ev, st, e)" rule: import_poll.cases) (auto split: option.splits prod.splits sum.splits)

text \<open>Awaiting the import polls it until there is an outcome or an error.\<close>

function import_await :: "crypto \<Rightarrow> api_env \<Rightarrow> import_inner \<Rightarrow> engine \<Rightarrow> (engine_error + import_outcome) polled \<times> engine" where
  "import_await C ev st e =
     (case import_poll C ev st e of
        (Yielded (ItemError err), _, e') \<Rightarrow> (Yielded (Inl err), e')
      | (Yielded (ItemBlobs _), st', e') \<Rightarrow> import_await C ev st' e'
      | (Yielded (ItemDone out), _, e') \<Rightarrow> (Yielded (Inr out), e')
      | (Ended, _, e') \<Rightarrow> (Yielded (Inl ImportPolledAgain), e')
      | (Panicked, _, e') \<Rightarrow> (Panicked, e'))"
  by pat_completeness auto
termination
  by (relation "measure (\<lambda>(C, ev, st, e). import_work st)") (auto dest: import_poll_works[OF sym])

end
