(* ===== verification/Migrations.thy ===== *)
theory Migrations
  imports Fs_Laws
begin

text \<open>
  Opening a store from a file: \<open>persistent\<close> and \<open>new_impl\<close> of \<^verbatim>\<open>src/src/store/fs.rs\<close>, the schema migrations of
  \<^verbatim>\<open>src/src/store/fs/migrations.rs\<close>, and the rewriting of files with the tuple encoding of redb 2.x of
  \<^verbatim>\<open>src/src/store/fs/migrate_redb_v2_tuples.rs\<close>.

  A database file holds each table or not. The three tables with variable-width tuples carry the type
  tag they were written with; opening one with the other tag is an error, opening a missing table
  creates it. A write transaction works on a copy of the file that a commit writes back.
\<close>

section \<open>Database files\<close>

datatype tuple_tag = CurrentTag | LegacyTag

record db_file =
  db_authors :: "(bytes, bytes) table option"
  db_namespaces_v1 :: "(bytes, bytes) table option"
  db_namespaces :: "(bytes, byte \<times> bytes) table option"
  db_records :: "(tuple_tag \<times> records_table) option"
  db_latest :: "(tuple_tag \<times> (bytes \<times> bytes, u64 \<times> bytes) table) option"
  db_by_key :: "(tuple_tag \<times> (by_key_id, unit) table) option"
  db_peers :: "(bytes, u64 \<times> bytes) multimap option"
  db_policy :: "(bytes, bytes) table option"

definition db_empty :: db_file where
  "db_empty = \<lparr>db_authors = None, db_namespaces_v1 = None, db_namespaces = None, db_records = None, db_latest = None,
     db_by_key = None, db_peers = None, db_policy = None\<rparr>"

datatype open_failure = TableTypeMismatch | UpgradeRequired | NoParentDirectory | NoSuchFile | TargetExists

definition opened :: "'t list option \<Rightarrow> 't list" where
  "opened t = (case t of Some rows \<Rightarrow> rows | None \<Rightarrow> [])"

definition opened_tagged :: "tuple_tag \<Rightarrow> (tuple_tag \<times> 't list) option \<Rightarrow> open_failure + 't list" where
  "opened_tagged tag t = (case t of
     Some (tag', rows) \<Rightarrow> if tag' = tag then Inr rows else Inl TableTypeMismatch
   | None \<Rightarrow> Inr [])"

section \<open>Tables of a store\<close>

text \<open>\<open>Tables::new\<close> opens every table of the current schema, in this order.\<close>

definition tables_new :: "(db_file, open_failure, unit) op" where
  "tables_new db =
     (case opened_tagged CurrentTag (db_records db) of Inl e \<Rightarrow> (Inl e, db) | Inr records \<Rightarrow>
      case opened_tagged CurrentTag (db_by_key db) of Inl e \<Rightarrow> (Inl e, db) | Inr by_key \<Rightarrow>
      let namespaces = opened (db_namespaces db) in
      case opened_tagged CurrentTag (db_latest db) of Inl e \<Rightarrow> (Inl e, db) | Inr latest \<Rightarrow>
      (Inr (), db\<lparr>db_records := Some (CurrentTag, records), db_by_key := Some (CurrentTag, by_key),
         db_namespaces := Some namespaces, db_latest := Some (CurrentTag, latest),
         db_peers := Some (opened (db_peers db)), db_policy := Some (opened (db_policy db)),
         db_authors := Some (opened (db_authors db))\<rparr>))"

definition tagged_rows :: "(tuple_tag \<times> 't list) option \<Rightarrow> 't list" where
  "tagged_rows t = (case t of Some (_, rows) \<Rightarrow> rows | None \<Rightarrow> [])"

definition db_tables :: "db_file \<Rightarrow> tables" where
  "db_tables db = \<lparr>t_records = tagged_rows (db_records db), t_records_by_key = tagged_rows (db_by_key db),
     t_namespaces = opened (db_namespaces db), t_latest_per_author = tagged_rows (db_latest db),
     t_namespace_peers = opened (db_peers db), t_download_policy = opened (db_policy db),
     t_authors = opened (db_authors db)\<rparr>"

section \<open>Schema migrations\<close>

datatype migrate_outcome = Skip | Execute nat

text \<open>A migration that fails or has nothing to do drops its transaction.\<close>

definition run_migration :: "(db_file, open_failure, migrate_outcome) op \<Rightarrow> (db_file, open_failure, unit) op" where
  "run_migration f db =
     (case f db of
        (Inl e, _) \<Rightarrow> (Inl e, db)
      | (Inr (Execute len), db') \<Rightarrow> (Inr (), db')
      | (Inr Skip, _) \<Rightarrow> (Inr (), db))"

text \<open>The map of heads is iterated in no particular order; its keys are distinct, so the order of the
  inserts does not matter.\<close>

definition head_step ::
  "records_id \<times> records_value \<Rightarrow> (bytes \<times> bytes, u64 \<times> bytes) table \<Rightarrow> (bytes \<times> bytes, u64 \<times> bytes) table" where
  "head_step row heads =
     (case row of ((namespace, author, key), (timestamp, _)) \<Rightarrow>
        case table_get heads (namespace, author) of
          Some e \<Rightarrow> if fst e \<le> timestamp then table_insert (namespace, author) (timestamp, key) heads else heads
        | None \<Rightarrow> table_insert (namespace, author) (timestamp, key) heads)"

definition migration_001_populate_latest_table :: "(db_file, open_failure, migrate_outcome) op" where
  "migration_001_populate_latest_table db =
     (case opened_tagged CurrentTag (db_latest db) of Inl e \<Rightarrow> (Inl e, db) | Inr latest \<Rightarrow>
      case opened_tagged CurrentTag (db_records db) of Inl e \<Rightarrow> (Inl e, db) | Inr records \<Rightarrow>
      if latest \<noteq> [] \<or> records = [] then (Inr Skip, db)
      else let heads = fold head_step records [];
               latest' = fold (\<lambda>(k, v). table_insert k v) heads latest
           in (Inr (Execute (length heads)),
               db\<lparr>db_records := Some (CurrentTag, records), db_latest := Some (CurrentTag, latest')\<rparr>))"

definition v1_step :: "crypto \<Rightarrow> bytes \<times> bytes \<Rightarrow> (bytes, byte \<times> bytes) table \<Rightarrow> (bytes, byte \<times> bytes) table" where
  "v1_step C row namespaces =
     (let capability = Write (NamespaceSecret (snd row))
      in table_insert (capability_id C capability) (capability_raw capability) namespaces)"

definition migration_002_namespaces_populate_v2 :: "crypto \<Rightarrow> (db_file, open_failure, migrate_outcome) op" where
  "migration_002_namespaces_populate_v2 C db =
     (case db_namespaces_v1 db of
        None \<Rightarrow> (Inr Skip, db)
      | Some v1 \<Rightarrow> (Inr (Execute (length v1)),
          db\<lparr>db_namespaces := Some (fold (v1_step C) v1 (opened (db_namespaces db)))\<rparr>))"

definition migration_003_namespaces_delete_v1 :: "(db_file, open_failure, migrate_outcome) op" where
  "migration_003_namespaces_delete_v1 db =
     (case db_namespaces_v1 db of
        None \<Rightarrow> (Inr Skip, db)
      | Some _ \<Rightarrow> (Inr (Execute 1), db\<lparr>db_namespaces_v1 := None\<rparr>))"

definition migration_004_populate_by_key_index :: "(db_file, open_failure, migrate_outcome) op" where
  "migration_004_populate_by_key_index db =
     (case opened_tagged CurrentTag (db_by_key db) of Inl e \<Rightarrow> (Inl e, db) | Inr by_key \<Rightarrow>
      case opened_tagged CurrentTag (db_records db) of Inl e \<Rightarrow> (Inl e, db) | Inr records \<Rightarrow>
      if by_key \<noteq> [] then (Inr Skip, db)
      else (Inr (Execute (length records)),
            db\<lparr>db_by_key := Some (CurrentTag,
                  fold (\<lambda>((namespace, author, key), _). table_insert (namespace, key, author) ()) records by_key),
               db_records := Some (CurrentTag, records)\<rparr>))"

definition run_migrations :: "crypto \<Rightarrow> (db_file, open_failure, unit) op" where
  "run_migrations C =
     op_bind (run_migration migration_001_populate_latest_table) (\<lambda>_.
     op_bind (run_migration (migration_002_namespaces_populate_v2 C)) (\<lambda>_.
     op_bind (run_migration migration_003_namespaces_delete_v1) (\<lambda>_.
     run_migration migration_004_populate_by_key_index)))"

section \<open>Rewriting a file\<close>

text \<open>The macros copy row by row into the new table when \<open>list_tables\<close> names the table; that lists
  normal tables, a multimap table is not among them.\<close>

definition list_tables :: "db_file \<Rightarrow> string list" where
  "list_tables db =
     (if db_authors db \<noteq> None then [''authors-1''] else []) @
     (if db_namespaces_v1 db \<noteq> None then [''namespaces-1''] else []) @
     (if db_namespaces db \<noteq> None then [''namespaces-2''] else []) @
     (if db_records db \<noteq> None then [''records-1''] else []) @
     (if db_latest db \<noteq> None then [''latest-by-author-1''] else []) @
     (if db_by_key db \<noteq> None then [''records-by-key-1''] else []) @
     (if db_policy db \<noteq> None then [''download-policy-1''] else [])"

definition copy_rows :: "('k::linorder, 'v) table \<Rightarrow> ('k, 'v) table" where
  "copy_rows rows = fold (\<lambda>(k, v). table_insert k v) rows []"

definition migrate_table :: "string list \<Rightarrow> string \<Rightarrow> ('k::linorder, 'v) table option \<Rightarrow> ('k, 'v) table option" where
  "migrate_table existing name old = (if name \<in> set existing then Some (copy_rows (opened old)) else None)"

definition migrate_tagged ::
  "string list \<Rightarrow> string \<Rightarrow> (tuple_tag \<times> ('k::linorder, 'v) table) option
     \<Rightarrow> open_failure + (tuple_tag \<times> ('k, 'v) table) option" where
  "migrate_tagged existing name old =
     (if name \<in> set existing
      then map_sum id (\<lambda>rows. Some (CurrentTag, copy_rows rows)) (opened_tagged LegacyTag old)
      else Inr None)"

definition migrate_tables :: "db_file \<Rightarrow> open_failure + db_file" where
  "migrate_tables old =
     (let existing = list_tables old in
      rbind (migrate_tagged existing ''records-1'' (db_records old)) (\<lambda>records.
      rbind (migrate_tagged existing ''latest-by-author-1'' (db_latest old)) (\<lambda>latest.
      rbind (migrate_tagged existing ''records-by-key-1'' (db_by_key old)) (\<lambda>by_key.
      Inr \<lparr>db_authors = migrate_table existing ''authors-1'' (db_authors old),
           db_namespaces_v1 = migrate_table existing ''namespaces-1'' (db_namespaces_v1 old),
           db_namespaces = migrate_table existing ''namespaces-2'' (db_namespaces old),
           db_records = records, db_latest = latest, db_by_key = by_key,
           db_peers = migrate_table existing ''sync-peers-1'' (db_peers old),
           db_policy = migrate_table existing ''download-policy-1'' (db_policy old)\<rparr>))))"

section \<open>Opening a path\<close>

datatype disk_file = OldFormat | DbFile db_file

type_synonym files = "string \<Rightarrow> disk_file option"

text \<open>\<open>Database::create\<close> creates a missing file; a file of redb 1.x is refused.\<close>

definition open_database :: "string \<Rightarrow> (files, open_failure, db_file) op" where
  "open_database path fs =
     (case fs path of
        None \<Rightarrow> (Inr db_empty, fs(path \<mapsto> DbFile db_empty))
      | Some OldFormat \<Rightarrow> (Inl UpgradeRequired, fs)
      | Some (DbFile db) \<Rightarrow> (Inr db, fs))"

definition new_impl :: "crypto \<Rightarrow> (db_file, open_failure, unit) op" where
  "new_impl C db =
     (case tables_new db of
        (Inl e, _) \<Rightarrow> (Inl e, db)
      | (Inr _, db1) \<Rightarrow> run_migrations C db1)"

definition backup_path :: "string \<Rightarrow> string" where
  "backup_path source = source @ ''.backup-redb-v2-tuples''"

text \<open>The three changes of the rewriting to the directory: the rewritten file is complete under the
  temporary name, the source is renamed, the rewritten file takes its place.\<close>

definition migrate_written :: "string \<Rightarrow> db_file \<Rightarrow> files \<Rightarrow> files" where
  "migrate_written target db fs = fs(target \<mapsto> DbFile db)"

definition migrate_renamed :: "string \<Rightarrow> files \<Rightarrow> files" where
  "migrate_renamed source fs = fs(backup_path source := fs source, source := None)"

definition migrate_persisted :: "string \<Rightarrow> string \<Rightarrow> files \<Rightarrow> files" where
  "migrate_persisted target source fs = fs(source := fs target, target := None)"

definition migrate_run :: "(string \<Rightarrow> string option) \<Rightarrow> string \<Rightarrow> string \<Rightarrow> (files, open_failure, unit) op" where
  "migrate_run parent target source fs =
     (case parent source of None \<Rightarrow> (Inl NoParentDirectory, fs) | Some dir \<Rightarrow>
      case fs source of None \<Rightarrow> (Inl NoSuchFile, fs) | Some OldFormat \<Rightarrow> (Inl UpgradeRequired, fs) | Some (DbFile old) \<Rightarrow>
      case migrate_tables old of Inl e \<Rightarrow> (Inl e, fs) | Inr db \<Rightarrow>
      let fs2 = migrate_renamed source (migrate_written target db fs) in
      if fs2 source \<noteq> None then (Inl TargetExists, fs2(target := None))
      else (Inr (), migrate_persisted target source fs2))"

definition store_new :: "(nat \<Rightarrow> nat) \<Rightarrow> db_file \<Rightarrow> fs_store" where
  "store_new clock db = (store_memory clock)\<lparr>st_db := db_tables db\<rparr>"

definition open_once :: "crypto \<Rightarrow> (nat \<Rightarrow> nat) \<Rightarrow> string \<Rightarrow> (files, open_failure, fs_store) op" where
  "open_once C clock path =
     op_bind (open_database path) (\<lambda>db fs.
       case new_impl C db of (res, db') \<Rightarrow> (map_sum id (\<lambda>_. store_new clock db') res, fs(path \<mapsto> DbFile db')))"

definition persistent ::
  "crypto \<Rightarrow> (nat \<Rightarrow> nat) \<Rightarrow> (string \<Rightarrow> string option) \<Rightarrow> string \<Rightarrow> string \<Rightarrow> (files, open_failure, fs_store) op" where
  "persistent C clock parent target path fs =
     (case open_once C clock path fs of
        (Inl TableTypeMismatch, fs1) \<Rightarrow>
          op_bind (migrate_run parent target path) (\<lambda>_. open_once C clock path) fs1
      | (res, fs1) \<Rightarrow> (res, fs1))"

section \<open>Copies\<close>

lemma table_insert_last: "\<forall>row \<in> set t. fst row < k \<Longrightarrow> table_insert k v t = t @ [(k, v)]"
  by (induction t) auto

lemma fold_insert_sorted:
  "table_ok (t @ rows) \<Longrightarrow> fold (\<lambda>(k, v). table_insert k v) rows t = t @ rows"
proof (induction rows arbitrary: t)
  case (Cons row rows)
  obtain k v where row: "row = (k, v)" by fastforce
  have "\<forall>r \<in> set t. fst r < k" using Cons.prems row by (auto simp: table_ok_def sorted_wrt_append)
  then have "table_insert k v t = t @ [row]" using row by (simp add: table_insert_last)
  then show ?case using Cons.IH[of "t @ [row]"] Cons.prems row by simp
qed simp

lemma copy_rows_eq: "table_ok rows \<Longrightarrow> copy_rows rows = rows"
  using fold_insert_sorted[of "[]" rows] by (simp add: copy_rows_def)

section \<open>The populated tables\<close>

text \<open>The latest entry of each author: a record of his with the greatest timestamp.\<close>

definition row_owner :: "records_id \<times> records_value \<Rightarrow> bytes \<times> bytes" where
  "row_owner row = (fst (fst row), fst (snd (fst row)))"

definition row_stamp :: "records_id \<times> records_value \<Rightarrow> u64 \<times> bytes" where
  "row_stamp row = (fst (snd row), snd (snd (fst row)))"

definition stamps :: "records_table \<Rightarrow> bytes \<times> bytes \<Rightarrow> (u64 \<times> bytes) set" where
  "stamps rs na = row_stamp ` {row \<in> set rs. row_owner row = na}"

definition latest_of :: "records_table \<Rightarrow> (bytes \<times> bytes, u64 \<times> bytes) table \<Rightarrow> bool" where
  "latest_of rs l \<longleftrightarrow> (\<forall>na. case table_get l na of
     None \<Rightarrow> stamps rs na = {} | Some e \<Rightarrow> e \<in> stamps rs na \<and> (\<forall>e' \<in> stamps rs na. fst e' \<le> fst e))"

lemma stamps_snoc:
  "stamps (rs @ [row]) na = (if row_owner row = na then insert (row_stamp row) (stamps rs na) else stamps rs na)"
  by (auto simp: stamps_def)

lemma head_step_alt:
  "head_step row l = (case table_get l (row_owner row) of
     Some e \<Rightarrow> if fst e \<le> fst (row_stamp row) then table_insert (row_owner row) (row_stamp row) l else l
   | None \<Rightarrow> table_insert (row_owner row) (row_stamp row) l)"
proof -
  obtain n a k ts v where "row = ((n, a, k), (ts, v))" by (metis surj_pair)
  then show ?thesis by (simp add: head_step_def row_owner_def row_stamp_def split: option.splits)
qed

lemma head_step_laws:
  assumes "table_ok l" "latest_of rs l"
  shows "table_ok (head_step row l)" "latest_of (rs @ [row]) (head_step row l)"
proof -
  show "table_ok (head_step row l)" using assms(1) by (simp add: head_step_alt table_insert_ok split: option.splits)
  show "latest_of (rs @ [row]) (head_step row l)"
    unfolding latest_of_def
  proof
    fix na
    have old: "case table_get l na of None \<Rightarrow> stamps rs na = {}
      | Some e \<Rightarrow> e \<in> stamps rs na \<and> (\<forall>e' \<in> stamps rs na. fst e' \<le> fst e)" using assms(2) unfolding latest_of_def by blast
    show "case table_get (head_step row l) na of None \<Rightarrow> stamps (rs @ [row]) na = {}
      | Some e \<Rightarrow> e \<in> stamps (rs @ [row]) na \<and> (\<forall>e' \<in> stamps (rs @ [row]) na. fst e' \<le> fst e)"
    proof (cases "row_owner row = na")
      case False
      then have "table_get (head_step row l) na = table_get l na"
        using assms(1) by (simp add: head_step_alt table_get_insert split: option.splits)
      then show ?thesis using old False by (auto simp: stamps_snoc split: option.splits)
    next
      case True
      show ?thesis
      proof (cases "table_get l na")
        case None
        then have "table_get (head_step row l) na = Some (row_stamp row)"
          using assms(1) True by (simp add: head_step_alt table_get_insert)
        then show ?thesis using old None True by (simp add: stamps_snoc)
      next
        case (Some e)
        then have "table_get (head_step row l) na = Some (if fst e \<le> fst (row_stamp row) then row_stamp row else e)"
          using assms(1) True by (simp add: head_step_alt table_get_insert)
        then show ?thesis using old Some True by (auto simp: stamps_snoc intro: order_trans)
      qed
    qed
  qed
qed

lemma fold_head_step:
  "table_ok l \<Longrightarrow> latest_of rs l \<Longrightarrow> table_ok (fold head_step rows l) \<and> latest_of (rs @ rows) (fold head_step rows l)"
proof (induction rows arbitrary: rs l)
  case (Cons row rows)
  then show ?case using head_step_laws[OF Cons.prems, of row] Cons.IH[of "head_step row l" "rs @ [row]"] by simp
qed simp

lemma heads_of_records: "table_ok (fold head_step rs [])" "latest_of rs (fold head_step rs [])"
  using fold_head_step[of "[]" "[]" rs] by (simp_all add: latest_of_def table_get_def stamps_def)

lemma latest_of_ok:
  assumes "table_ok l" "latest_of rs l" "records_ok rs"
  shows "latest_ok l"
  unfolding latest_ok_def
proof (intro conjI ballI)
  fix row assume row: "row \<in> set l"
  then have "table_get l (fst row) = Some (snd row)" using assms(1) by (simp add: table_get_Some_iff)
  moreover have "case table_get l (fst row) of None \<Rightarrow> stamps rs (fst row) = {}
      | Some e \<Rightarrow> e \<in> stamps rs (fst row) \<and> (\<forall>e' \<in> stamps rs (fst row). fst e' \<le> fst e)"
    using assms(2) unfolding latest_of_def by blast
  ultimately have "stamps rs (fst row) \<noteq> {}" by auto
  then obtain r where "r \<in> set rs" "row_owner r = fst row" by (auto simp: stamps_def)
  then show "length (fst (fst row)) = 32" "length (snd (fst row)) = 32"
    using assms(3) by (auto simp: records_ok_def records_id_ok_def row_owner_def prod_eq_iff)
qed (rule assms(1))

lemma by_key_populated:
  assumes "records_ok rs"
  shows "index_ok rs (fold (\<lambda>((namespace, author, key), _). table_insert (namespace, key, author) ()) rs [])"
proof -
  let ?add = "\<lambda>((namespace, author, key), _). table_insert (namespace, key, author) ()"
  have step: "?add row ix = table_insert (by_key_of (fst row)) () ix" for row :: "records_id \<times> records_value" and ix
    by (cases row) (auto simp: by_key_of_def)
  have "index_ok (done_rows @ rs) (fold ?add rs ix)" if "index_ok done_rows ix" "records_ok rs" for done_rows ix rs
    using that
  proof (induction rs arbitrary: done_rows ix)
    case (Cons row rs)
    have "index_ok (done_rows @ [row]) (?add row ix)"
      using Cons.prems unfolding index_ok_def step
      by (auto simp: table_insert_ok set_table_insert records_ok_def records_id_ok_def by_key_id_ok_def by_key_of_def split: prod.splits)
    then show ?case using Cons.IH[of "done_rows @ [row]" "?add row ix"] Cons.prems(2)
      by (simp add: records_ok_def table_ok_Cons)
  qed simp
  from this[of "[]" "[]" rs] show ?thesis using assms by (simp add: index_ok_def)
qed

lemma v1_populated:
  assumes "namespaces_ok C ns"
  shows "namespaces_ok C (fold (v1_step C) v1 ns)"
    "row \<in> set v1 \<Longrightarrow> table_get (fold (v1_step C) v1 ns) (namespace_id C (NamespaceSecret (snd row))) \<noteq> None"
  using assms
proof (induction v1 arbitrary: ns)
  have ok: "namespaces_ok C (v1_step C r ns)" if "namespaces_ok C ns" for r ns
    using namespaces_ok_insert[OF that] unfolding v1_step_def Let_def .
  have stays: "table_get (fold (v1_step C) v1 ns) n \<noteq> None" if "table_get ns n \<noteq> None" "namespaces_ok C ns" for v1 ns n
    using that
  proof (induction v1 arbitrary: ns)
    case (Cons r v1)
    have "table_ok ns" using Cons.prems(2) by (simp add: namespaces_ok_def)
    then have "table_get (v1_step C r ns) n \<noteq> None" using Cons.prems(1) by (simp add: v1_step_def Let_def table_get_insert)
    then show ?case using Cons.IH ok[OF Cons.prems(2)] by simp
  qed simp
  { case (Cons r v1)
    { case 1
      then show ?case using Cons.IH(1) ok by simp
    next
      case 2
      show ?case
      proof (cases "row = r")
        case True
        have "table_ok ns" using 2 by (simp add: namespaces_ok_def)
        then have "table_get (v1_step C r ns) (namespace_id C (NamespaceSecret (snd row))) \<noteq> None"
          using True by (simp add: v1_step_def Let_def table_get_insert)
        then show ?thesis using stays ok[OF 2(2)] by simp
      next
        case False
        then show ?thesis using Cons.IH(2)[OF _ ok[OF 2(2)]] 2(1) by simp
      qed } }
qed simp_all

section \<open>Opening a file\<close>

text \<open>A file as the program writes it: the rows are in order, and the index of records by key is empty or
  complete. The tables with variable-width tuples all carry the given tag.\<close>

definition tag_ok :: "tuple_tag \<Rightarrow> (tuple_tag \<times> 't list) option \<Rightarrow> bool" where
  "tag_ok tag t \<longleftrightarrow> (case t of Some (tag', _) \<Rightarrow> tag' = tag | None \<Rightarrow> True)"

definition file_ok :: "crypto \<Rightarrow> tuple_tag \<Rightarrow> db_file \<Rightarrow> bool" where
  "file_ok C tag db \<longleftrightarrow> tag_ok tag (db_records db) \<and> tag_ok tag (db_latest db) \<and> tag_ok tag (db_by_key db) \<and>
     records_ok (tagged_rows (db_records db)) \<and>
     (tagged_rows (db_by_key db) = [] \<or> index_ok (tagged_rows (db_records db)) (tagged_rows (db_by_key db))) \<and>
     namespaces_ok C (opened (db_namespaces db)) \<and> latest_ok (tagged_rows (db_latest db)) \<and>
     peers_ok (opened (db_peers db)) \<and> table_ok (opened (db_policy db)) \<and> table_ok (opened (db_authors db)) \<and>
     table_ok (opened (db_namespaces_v1 db))"

lemma opened_tag_ok: "tag_ok tag t \<Longrightarrow> opened_tagged tag t = Inr (tagged_rows t)"
  by (auto simp: tag_ok_def opened_tagged_def tagged_rows_def split: option.splits)

lemma tagged_rows_Some [simp]: "tagged_rows (Some (tag, rows)) = rows" "opened (Some rows) = rows"
  by (simp_all add: tagged_rows_def opened_def)

lemma tag_ok_Some [simp]: "tag_ok tag (Some (tag', rows)) \<longleftrightarrow> tag' = tag"
  by (simp add: tag_ok_def)

text \<open>The tables that opening the file presents.\<close>

definition migrated :: "crypto \<Rightarrow> db_file \<Rightarrow> tables" where
  "migrated C db =
     (db_tables db)
       \<lparr>t_latest_per_author :=
          (if tagged_rows (db_latest db) = [] then fold head_step (tagged_rows (db_records db)) []
           else tagged_rows (db_latest db)),
        t_namespaces := fold (v1_step C) (opened (db_namespaces_v1 db)) (opened (db_namespaces db)),
        t_records_by_key :=
          (if tagged_rows (db_by_key db) = []
           then fold (\<lambda>((namespace, author, key), _). table_insert (namespace, key, author) ()) (tagged_rows (db_records db)) []
           else tagged_rows (db_by_key db))\<rparr>"

text \<open>A file of the current schema.\<close>

definition file_of :: "tables \<Rightarrow> db_file" where
  "file_of t = \<lparr>db_authors = Some (t_authors t), db_namespaces_v1 = None, db_namespaces = Some (t_namespaces t),
     db_records = Some (CurrentTag, t_records t), db_latest = Some (CurrentTag, t_latest_per_author t),
     db_by_key = Some (CurrentTag, t_records_by_key t), db_peers = Some (t_namespace_peers t),
     db_policy = Some (t_download_policy t)\<rparr>"

lemma db_tables_file_of [simp]: "db_tables (file_of t) = t"
  by (simp add: db_tables_def file_of_def)

lemma new_impl_eq:
  assumes "file_ok C CurrentTag db"
  shows "new_impl C db = (Inr (), file_of (migrated C db))"
proof -
  define db1 where "db1 = snd (tables_new db)"
  have tags: "opened_tagged CurrentTag (db_records db) = Inr (tagged_rows (db_records db))"
    "opened_tagged CurrentTag (db_latest db) = Inr (tagged_rows (db_latest db))"
    "opened_tagged CurrentTag (db_by_key db) = Inr (tagged_rows (db_by_key db))"
    using assms opened_tag_ok unfolding file_ok_def by blast+
  then have new: "tables_new db = (Inr (), db1)" by (simp add: tables_new_def db1_def Let_def)
  have db1: "db_records db1 = Some (CurrentTag, tagged_rows (db_records db))"
    "db_latest db1 = Some (CurrentTag, tagged_rows (db_latest db))"
    "db_by_key db1 = Some (CurrentTag, tagged_rows (db_by_key db))"
    "db_namespaces db1 = Some (opened (db_namespaces db))" "db_namespaces_v1 db1 = db_namespaces_v1 db"
    "db_peers db1 = Some (opened (db_peers db))" "db_policy db1 = Some (opened (db_policy db))"
    "db_authors db1 = Some (opened (db_authors db))"
    using tags by (simp_all add: db1_def tables_new_def Let_def)
  have heads: "fold (\<lambda>(k, v). table_insert k v) (fold head_step rs []) [] = fold head_step rs []" for rs
    using copy_rows_eq[OF heads_of_records(1)] by (simp add: copy_rows_def)
  define db2 where "db2 = db1\<lparr>db_latest := Some (CurrentTag, t_latest_per_author (migrated C db))\<rparr>"
  have m1: "run_migration migration_001_populate_latest_table db1 = (Inr (), db2)"
    using db1 by (auto simp: run_migration_def migration_001_populate_latest_table_def opened_tag_ok db2_def migrated_def
        Let_def heads)
  define db3 where "db3 = db2\<lparr>db_namespaces := Some (t_namespaces (migrated C db))\<rparr>"
  have m2: "run_migration (migration_002_namespaces_populate_v2 C) db2 = (Inr (), db3)"
    using db1 by (cases "db_namespaces_v1 db")
      (simp_all add: run_migration_def migration_002_namespaces_populate_v2_def db2_def db3_def migrated_def opened_def)
  define db4 where "db4 = db3\<lparr>db_namespaces_v1 := None\<rparr>"
  have m3: "run_migration migration_003_namespaces_delete_v1 db3 = (Inr (), db4)"
    using db1 by (cases "db_namespaces_v1 db")
      (simp_all add: run_migration_def migration_003_namespaces_delete_v1_def db2_def db3_def db4_def)
  define db5 where "db5 = db4\<lparr>db_by_key := Some (CurrentTag, t_records_by_key (migrated C db))\<rparr>"
  have m4: "run_migration migration_004_populate_by_key_index db4 = (Inr (), db5)"
    using db1 by (auto simp: run_migration_def migration_004_populate_by_key_index_def opened_tag_ok
        db2_def db3_def db4_def db5_def migrated_def)
  have "new_impl C db = (Inr (), db5)"
    using new m1 m2 m3 m4 by (simp add: new_impl_def run_migrations_def op_bind_def)
  moreover have "db5 = file_of (migrated C db)"
    by (rule db_file.equality) (simp_all add: db5_def db4_def db3_def db2_def db1 file_of_def migrated_def db_tables_def)
  ultimately show ?thesis by simp
qed

lemma migrated_ok:
  assumes "file_ok C tag db"
  shows "tables_ok C (migrated C db)"
proof -
  have rs: "records_ok (tagged_rows (db_records db))" using assms by (simp add: file_ok_def)
  show ?thesis
    using assms heads_of_records[of "tagged_rows (db_records db)"] latest_of_ok[OF _ _ rs] by_key_populated[OF rs]
      v1_populated(1)[of C "opened (db_namespaces db)" "opened (db_namespaces_v1 db)"]
    by (auto simp: tables_ok_def migrated_def db_tables_def file_ok_def)
qed

text \<open>A file of the current schema stays as it is.\<close>

lemma migrated_again:
  assumes "file_ok C tag db"
  shows "file_ok C CurrentTag (file_of (migrated C db))" "migrated C (file_of (migrated C db)) = migrated C db"
proof -
  show "file_ok C CurrentTag (file_of (migrated C db))"
    using migrated_ok[OF assms] by (simp add: file_ok_def file_of_def tables_ok_def) (simp add: opened_def)
  have "fold head_step (tagged_rows (db_records db)) [] = []" if "t_latest_per_author (migrated C db) = []"
    using that by (simp add: migrated_def split: if_splits)
  moreover have "fold (\<lambda>((namespace, author, key), _). table_insert (namespace, key, author) ()) (tagged_rows (db_records db)) [] = []"
    if "t_records_by_key (migrated C db) = []"
    using that by (simp add: migrated_def split: if_splits)
  ultimately show "migrated C (file_of (migrated C db)) = migrated C db"
    by (simp add: migrated_def[of C "file_of t" for t]) (simp add: file_of_def opened_def migrated_def[of C db] db_tables_def)
qed

lemma open_once_eq:
  assumes "fs path = Some (DbFile db)" "file_ok C CurrentTag db"
  shows "open_once C clock path fs =
    (Inr (store_new clock (file_of (migrated C db))), fs(path \<mapsto> DbFile (file_of (migrated C db))))"
  using assms(1) new_impl_eq[OF assms(2)] by (simp add: open_once_def op_bind_def open_database_def)

lemma visible_store_new [simp]: "visible (store_new clock db) = db_tables db"
  by (simp add: store_new_def visible_def store_memory_def)

text \<open>What the tables of the file become: the capability of a namespace is its secret in the first namespaces table (the last such row), or
  else its row in the second one.\<close>

lemma v1_rows:
  "table_get (fold (v1_step C) v1 ns) n =
     (case filter (\<lambda>row. namespace_id C (NamespaceSecret (snd row)) = n) v1 of
        [] \<Rightarrow> table_get ns n | rows \<Rightarrow> Some (capability_raw (Write (NamespaceSecret (snd (last rows))))))"
proof (induction v1 rule: rev_induct)
  case (snoc row v1)
  then show ?case
    by (auto simp: v1_step_def Let_def table_get_insert namespace_from_bytes_def split: list.splits)
qed simp

lemma by_key_rows:
  "table_get (fold (\<lambda>((namespace, author, key), _). table_insert (namespace, key, author) ()) rs ix) i \<noteq> None \<longleftrightarrow>
     i \<in> by_key_of ` fst ` set rs \<or> table_get ix i \<noteq> None"
  by (induction rs arbitrary: ix) (auto simp: table_get_insert by_key_of_def case_prod_unfold)

text \<open>C13. Opening a store brings its file up to date. Whatever of the later tables the file lacks, opening it
  succeeds with well-formed tables. Records, peers, policies and authors are those of the file. The rows of latest entries are those of the
  file, and if it has none they are a newest entry of each author. Each namespace has the capability of the last secret for it in
  the first namespaces table, and if there is none the row it had, or none. The index by key is that of the file, and if it was empty it has exactly the
  keys of the records; in both cases no record is missing from it. Opening it again gives the same store and leaves the file alone.\<close>

theorem open_brings_up_to_date:
  assumes "fs path = Some (DbFile db)" "file_ok C CurrentTag db"
  shows "\<exists>s fs'. persistent C clock parent target path fs = (Inr s, fs') \<and> tables_ok C (visible s) \<and>
     t_records (visible s) = tagged_rows (db_records db) \<and> t_namespace_peers (visible s) = opened (db_peers db) \<and>
     t_download_policy (visible s) = opened (db_policy db) \<and> t_authors (visible s) = opened (db_authors db) \<and>
     (if tagged_rows (db_latest db) = [] then latest_of (tagged_rows (db_records db)) (t_latest_per_author (visible s))
      else t_latest_per_author (visible s) = tagged_rows (db_latest db)) \<and>
     (\<forall>ns. table_get (t_namespaces (visible s)) ns =
        (case filter (\<lambda>row. namespace_id C (NamespaceSecret (snd row)) = ns) (opened (db_namespaces_v1 db)) of
           [] \<Rightarrow> table_get (opened (db_namespaces db)) ns
         | rows \<Rightarrow> Some (capability_raw (Write (NamespaceSecret (snd (last rows))))))) \<and>
     (if tagged_rows (db_by_key db) = []
      then \<forall>i. table_get (t_records_by_key (visible s)) i \<noteq> None \<longleftrightarrow> i \<in> by_key_of ` fst ` set (tagged_rows (db_records db))
      else t_records_by_key (visible s) = tagged_rows (db_by_key db)) \<and>
     persistent C clock parent target path fs' = (Inr s, fs')"
proof -
  let ?s = "store_new clock (file_of (migrated C db))" and ?fs = "fs(path \<mapsto> DbFile (file_of (migrated C db)))"
  have "persistent C clock parent target path fs = (Inr ?s, ?fs)"
    using open_once_eq[where fs = fs and path = path, OF assms] by (simp add: persistent_def)
  moreover have "persistent C clock parent target path ?fs = (Inr ?s, ?fs)"
    using open_once_eq[of ?fs path "file_of (migrated C db)" C clock] migrated_again[OF assms(2)]
    by (simp add: persistent_def)
  moreover have "tables_ok C (visible ?s)" using migrated_ok[OF assms(2)] by simp
  moreover have "if tagged_rows (db_latest db) = [] then latest_of (tagged_rows (db_records db)) (t_latest_per_author (visible ?s))
      else t_latest_per_author (visible ?s) = tagged_rows (db_latest db)"
    using heads_of_records(2) by (simp add: migrated_def)
  moreover have "table_get (t_namespaces (visible ?s)) ns =
        (case filter (\<lambda>row. namespace_id C (NamespaceSecret (snd row)) = ns) (opened (db_namespaces_v1 db)) of
           [] \<Rightarrow> table_get (opened (db_namespaces db)) ns
         | rows \<Rightarrow> Some (capability_raw (Write (NamespaceSecret (snd (last rows))))))" for ns
    using v1_rows[of C "opened (db_namespaces_v1 db)"] by (simp add: migrated_def)
  moreover have "if tagged_rows (db_by_key db) = []
      then \<forall>i. table_get (t_records_by_key (visible ?s)) i \<noteq> None \<longleftrightarrow> i \<in> by_key_of ` fst ` set (tagged_rows (db_records db))
      else t_records_by_key (visible ?s) = tagged_rows (db_by_key db)"
    using by_key_rows[of "tagged_rows (db_records db)" "[]"] by (simp add: migrated_def) (simp add: table_get_def)
  moreover have "t_records (visible ?s) = tagged_rows (db_records db)" "t_namespace_peers (visible ?s) = opened (db_peers db)"
    "t_download_policy (visible ?s) = opened (db_policy db)" "t_authors (visible ?s) = opened (db_authors db)"
    by (simp_all, simp_all add: migrated_def db_tables_def)
  ultimately show ?thesis by blast
qed

section \<open>Files of redb 2.x\<close>

lemma listed_tables:
  "''authors-1'' \<in> set (list_tables db) \<longleftrightarrow> db_authors db \<noteq> None"
  "''namespaces-1'' \<in> set (list_tables db) \<longleftrightarrow> db_namespaces_v1 db \<noteq> None"
  "''namespaces-2'' \<in> set (list_tables db) \<longleftrightarrow> db_namespaces db \<noteq> None"
  "''records-1'' \<in> set (list_tables db) \<longleftrightarrow> db_records db \<noteq> None"
  "''latest-by-author-1'' \<in> set (list_tables db) \<longleftrightarrow> db_latest db \<noteq> None"
  "''records-by-key-1'' \<in> set (list_tables db) \<longleftrightarrow> db_by_key db \<noteq> None"
  "''download-policy-1'' \<in> set (list_tables db) \<longleftrightarrow> db_policy db \<noteq> None"
  "''sync-peers-1'' \<notin> set (list_tables db)"
  by (simp_all add: list_tables_def)

lemma migrate_listed:
  assumes "name \<in> set existing \<longleftrightarrow> t \<noteq> None" "table_ok (opened t)"
  shows "migrate_table existing name t = t"
  using assms copy_rows_eq[OF assms(2)] by (cases t) (auto simp: migrate_table_def)

lemma migrate_listed_tagged:
  assumes "name \<in> set existing \<longleftrightarrow> t \<noteq> None" "table_ok (tagged_rows t)" "tag_ok LegacyTag t"
  shows "migrate_tagged existing name t = Inr (map_option (\<lambda>_. (CurrentTag, tagged_rows t)) t)"
  using assms(1) copy_rows_eq[OF assms(2)] opened_tag_ok[OF assms(3)] by (cases t) (auto simp: migrate_tagged_def)

lemma migrate_tables_eq:
  assumes "file_ok C LegacyTag db"
  obtains db' where "migrate_tables db = Inr db'" "file_ok C CurrentTag db'"
    "migrated C db' = (migrated C db)\<lparr>t_namespace_peers := []\<rparr>"
proof -
  let ?r = "tagged_rows (db_records db)" and ?l = "tagged_rows (db_latest db)" and ?k = "tagged_rows (db_by_key db)"
  have ok: "table_ok ?r" "table_ok ?l" "table_ok ?k" "table_ok (opened (db_namespaces db))"
    using assms by (auto simp: file_ok_def index_ok_def records_ok_def latest_ok_def namespaces_ok_def)
  define db' where "db' = db\<lparr>db_records := map_option (\<lambda>_. (CurrentTag, ?r)) (db_records db),
      db_latest := map_option (\<lambda>_. (CurrentTag, ?l)) (db_latest db),
      db_by_key := map_option (\<lambda>_. (CurrentTag, ?k)) (db_by_key db), db_peers := None\<rparr>"
  have "migrate_tables db = Inr db'"
    using assms ok unfolding file_ok_def
    by (simp add: migrate_tables_def Let_def migrate_listed migrate_listed_tagged listed_tables db'_def)
       (simp add: migrate_table_def listed_tables)
  moreover have rows: "tagged_rows (db_records db') = ?r" "tagged_rows (db_latest db') = ?l" "tagged_rows (db_by_key db') = ?k"
    by (auto simp: db'_def tagged_rows_def split: option.splits)
  moreover have "tag_ok CurrentTag (db_records db')" "tag_ok CurrentTag (db_latest db')" "tag_ok CurrentTag (db_by_key db')"
    by (auto simp: db'_def tag_ok_def split: option.splits)
  ultimately show thesis using assms that[of db']
    by (simp add: file_ok_def migrated_def db_tables_def) (simp add: db'_def opened_def peers_ok_def multimap_get_def)
qed

text \<open>C36. A file of redb 2.x is rewritten once and nothing but the peers is lost. Opening it renames it and opens
  the rewritten copy: every table is what opening the old file in place would have given, except that no
  document has peers any more, because the copy of the peers table depends on a list that does not name
  multimap tables. The old file remains as the backup.\<close>

theorem legacy_file_loses_peers:
  assumes "fs path = Some (DbFile db)" "file_ok C LegacyTag db" "db_records db \<noteq> None" "parent path = Some dir"
    "target \<noteq> path" "target \<noteq> backup_path path"
  shows "\<exists>s fs'. persistent C clock parent target path fs = (Inr s, fs') \<and>
     visible s = (migrated C db)\<lparr>t_namespace_peers := []\<rparr> \<and> tables_ok C (visible s) \<and>
     fs' (backup_path path) = Some (DbFile db) \<and> fs' target = None"
proof -
  have ne: "backup_path path \<noteq> path" by (simp add: backup_path_def)
  obtain rs where rs: "db_records db = Some (LegacyTag, rs)"
    using assms(2,3) by (auto simp: file_ok_def tag_ok_def split: option.splits)
  then have "new_impl C db = (Inl TableTypeMismatch, db)"
    by (simp add: new_impl_def tables_new_def opened_tagged_def)
  then have first: "open_once C clock path fs = (Inl TableTypeMismatch, fs)"
    using assms(1) by (simp add: open_once_def op_bind_def open_database_def fun_upd_idem)
  obtain db' where db': "migrate_tables db = Inr db'" "file_ok C CurrentTag db'"
    "migrated C db' = (migrated C db)\<lparr>t_namespace_peers := []\<rparr>" by (rule migrate_tables_eq[OF assms(2)])
  define fs1 where "fs1 = migrate_persisted target path (migrate_renamed path (migrate_written target db' fs))"
  have run: "migrate_run parent target path fs = (Inr (), fs1)"
    using assms(1,4) db'(1) by (simp add: migrate_run_def migrate_renamed_def fs1_def)
  have at: "fs1 path = Some (DbFile db')" "fs1 (backup_path path) = Some (DbFile db)" "fs1 target = None"
    using assms(1,5,6) ne by (simp_all add: fs1_def migrate_persisted_def migrate_renamed_def migrate_written_def)
  have "persistent C clock parent target path fs =
      (Inr (store_new clock (file_of (migrated C db'))), fs1(path \<mapsto> DbFile (file_of (migrated C db'))))"
    using first run open_once_eq[where fs = fs1 and path = path, OF at(1) db'(2)] by (simp add: persistent_def op_bind_def)
  moreover have "tables_ok C (migrated C db')" by (rule migrated_ok[OF db'(2)])
  ultimately show ?thesis using at(2,3) db'(3) ne assms(5) by (auto simp: fun_upd_def)
qed

text \<open>C37. A rewriting that is interrupted between its two renames leaves no file at the path: the data is in the
  backup only, and the next opening creates an empty store there without a word.\<close>

theorem interrupted_rewriting_opens_empty:
  assumes "fs path = Some (DbFile db)" "migrate_tables db = Inr db'" "target \<noteq> path" "target \<noteq> backup_path path"
  shows "\<exists>s fs'. persistent C clock parent target' path (migrate_renamed path (migrate_written target db' fs)) = (Inr s, fs') \<and>
     visible s = tables_empty \<and> fs' (backup_path path) = Some (DbFile db)"
proof -
  let ?fs = "migrate_renamed path (migrate_written target db' fs)"
  have ne: "backup_path path \<noteq> path" by (simp add: backup_path_def)
  have at: "?fs path = None" "?fs (backup_path path) = Some (DbFile db)"
    using assms ne by (simp_all add: migrate_renamed_def migrate_written_def)
  have ok: "file_ok C CurrentTag db_empty"
    by (simp add: file_ok_def db_empty_def tag_ok_def tagged_rows_def opened_def records_ok_def namespaces_ok_def latest_ok_def
        peers_ok_def multimap_get_def)
  have "migrated C db_empty = tables_empty"
    by (simp add: migrated_def db_tables_def db_empty_def tagged_rows_def opened_def tables_empty_def)
  then have "new_impl C db_empty = (Inr (), file_of tables_empty)" using new_impl_eq[OF ok] by simp
  then have "open_once C clock path ?fs = (Inr (store_new clock (file_of tables_empty)),
      ?fs(path \<mapsto> DbFile (file_of tables_empty)))"
    using at(1) by (simp add: open_once_def op_bind_def open_database_def)
  then show ?thesis using at(2) ne by (simp add: persistent_def)
qed

section \<open>Closed instances\<close>

text \<open>A file with one record, one secret in the first namespaces table, one peer and nothing else.\<close>

definition old_row :: "records_id \<times> records_value" where
  "old_row = ((replicate 32 1, replicate 32 2, [104]), (42, replicate 64 3, replicate 64 4, 7, replicate 32 5))"

definition old_file :: "tuple_tag \<Rightarrow> db_file" where
  "old_file tag = db_empty\<lparr>db_records := Some (tag, [old_row]), db_namespaces_v1 := Some [(replicate 32 1, replicate 32 1)],
     db_peers := Some [((replicate 32 1, (9, replicate 32 6)), ())]\<rparr>"

definition old_disk :: "tuple_tag \<Rightarrow> files" where
  "old_disk tag = [''docs.db'' \<mapsto> DbFile (old_file tag)]"

lemma old_file_ok: "file_ok sample_crypto tag (old_file tag)"
  by (auto simp: file_ok_def old_file_def db_empty_def tag_ok_def tagged_rows_def opened_def records_ok_def old_row_def
      records_id_ok_def namespaces_ok_def latest_ok_def peers_ok_def multimap_get_def table_ok_Cons PEERS_PER_DOC_CACHE_SIZE_def)

theorem open_brings_up_to_date_witness:
  "\<exists>s fs'. persistent sample_crypto (\<lambda>n. n) (\<lambda>_. Some []) ''tmp'' ''docs.db'' (old_disk CurrentTag) = (Inr s, fs') \<and>
     t_records (visible s) = [old_row] \<and>
     table_get (t_namespaces (visible s)) (namespace_id sample_crypto (NamespaceSecret (replicate 32 1))) =
       Some (capability_raw (Write (NamespaceSecret (replicate 32 1)))) \<and>
     table_get (t_records_by_key (visible s)) (replicate 32 1, [104], replicate 32 2) \<noteq> None \<and>
     persistent sample_crypto (\<lambda>n. n) (\<lambda>_. Some []) ''tmp'' ''docs.db'' fs' = (Inr s, fs')"
proof -
  have disk: "old_disk CurrentTag ''docs.db'' = Some (DbFile (old_file CurrentTag))" by (simp add: old_disk_def)
  obtain s fs' where "persistent sample_crypto (\<lambda>n. n) (\<lambda>_. Some []) ''tmp'' ''docs.db'' (old_disk CurrentTag) = (Inr s, fs')"
    "t_records (visible s) = [old_row]"
    "table_get (t_namespaces (visible s)) (namespace_id sample_crypto (NamespaceSecret (replicate 32 1))) =
       Some (capability_raw (Write (NamespaceSecret (replicate 32 1))))"
    "\<forall>i. table_get (t_records_by_key (visible s)) i \<noteq> None \<longleftrightarrow> i \<in> by_key_of ` fst ` {old_row}"
    "persistent sample_crypto (\<lambda>n. n) (\<lambda>_. Some []) ''tmp'' ''docs.db'' fs' = (Inr s, fs')"
    using open_brings_up_to_date[where fs = "old_disk CurrentTag" and path = "''docs.db''" and clock = "\<lambda>n. n" and parent = "\<lambda>_. Some []"
        and target = "''tmp''", OF disk old_file_ok]
    by (auto simp: old_file_def db_empty_def tagged_rows_def opened_def)
  then show ?thesis by (intro exI[of _ s] exI[of _ fs']) (auto simp: old_row_def by_key_of_def)
qed

theorem legacy_file_loses_peers_witness:
  "\<exists>s fs'. persistent sample_crypto (\<lambda>n. n) (\<lambda>_. Some []) ''tmp'' ''docs.db'' (old_disk LegacyTag) = (Inr s, fs') \<and>
     t_records (visible s) = [old_row] \<and> t_namespace_peers (visible s) = [] \<and>
     fs' ''docs.db.backup-redb-v2-tuples'' = Some (DbFile (old_file LegacyTag))"
  using legacy_file_loses_peers[of "old_disk LegacyTag" "''docs.db''" "old_file LegacyTag" sample_crypto "\<lambda>_. Some []" "[]" "''tmp''" "\<lambda>n. n"]
    old_file_ok[of LegacyTag]
  by (auto simp: old_disk_def backup_path_def) (auto simp: old_file_def migrated_def db_tables_def)

theorem interrupted_rewriting_opens_empty_witness:
  "\<exists>s fs'. persistent sample_crypto (\<lambda>n. n) (\<lambda>_. Some []) ''tmp2'' ''docs.db'' (migrate_renamed ''docs.db''
       (migrate_written ''tmp'' ((old_file CurrentTag)\<lparr>db_peers := None\<rparr>) (old_disk LegacyTag))) = (Inr s, fs') \<and>
     visible s = tables_empty \<and> fs' ''docs.db.backup-redb-v2-tuples'' = Some (DbFile (old_file LegacyTag))"
proof -
  have "migrate_tables (old_file LegacyTag) = Inr ((old_file CurrentTag)\<lparr>db_peers := None\<rparr>)"
    by (simp add: migrate_tables_def old_file_def db_empty_def Let_def migrate_table_def migrate_tagged_def list_tables_def
        opened_tagged_def copy_rows_def old_row_def)
  then show ?thesis
    using interrupted_rewriting_opens_empty[of "old_disk LegacyTag" "''docs.db''" "old_file LegacyTag"
        "(old_file CurrentTag)\<lparr>db_peers := None\<rparr>" "''tmp''" sample_crypto "\<lambda>n. n" "\<lambda>_. Some []" "''tmp2''"]
    by (simp add: old_disk_def backup_path_def)
qed

end
