(* ===== verification/Docs.thy ===== *)
theory Docs
  imports Client Migrations
begin

text \<open>
  Starting a node, \<^verbatim>\<open>src/src/protocol.rs\<close>: the builder with the choices of the embedder, and spawning the engine over a store in
  memory or in a directory.
\<close>

section \<open>The builder\<close>

datatype docs_storage = DocsMemory | DocsPersistent string

record builder =
  bd_storage :: docs_storage
  bd_protect :: bool
  bd_validator :: "capability_validator option"
  bd_observer :: "nat option"
  bd_access :: "session_access_provider option"

definition docs_memory :: builder where
  "docs_memory = \<lparr>bd_storage = DocsMemory, bd_protect = False, bd_validator = None, bd_observer = None, bd_access = None\<rparr>"

definition docs_persistent :: "string \<Rightarrow> builder" where
  "docs_persistent path =
     \<lparr>bd_storage = DocsPersistent path, bd_protect = False, bd_validator = None, bd_observer = None, bd_access = None\<rparr>"

definition with_protect_handler :: "builder \<Rightarrow> builder" where
  "with_protect_handler b = b\<lparr>bd_protect := True\<rparr>"

definition with_capability_validator :: "capability_validator \<Rightarrow> builder \<Rightarrow> builder" where
  "with_capability_validator validator b = b\<lparr>bd_validator := Some validator\<rparr>"

definition with_rejection_observer :: "nat \<Rightarrow> builder \<Rightarrow> builder" where
  "with_rejection_observer observer b = b\<lparr>bd_observer := Some observer\<rparr>"

definition with_session_access_provider :: "session_access_provider \<Rightarrow> builder \<Rightarrow> builder" where
  "with_session_access_provider provider b = b\<lparr>bd_access := Some provider\<rparr>"

section \<open>Spawning\<close>

definition path_join :: "string \<Rightarrow> string \<Rightarrow> string" where
  "path_join dir name = dir @ ''/'' @ name"

record docs =
  dk_engine :: engine
  dk_access :: "session_access_provider option"
  dk_protect :: bool

datatype docs_error = DocsStore open_failure | DocsEngine engine_error

text \<open>The outside of a start: the clock of the store, parents of paths, a name for a temporary file, the node and its channel
  for replica events, the blob store, and what loading the default author reads.\<close>

record spawn_env =
  se_clock :: "nat \<Rightarrow> nat"
  se_parent :: "string \<Rightarrow> string option"
  se_temp :: string
  se_env :: live_env
  se_hex :: hexlib
  se_write :: write_outcome
  se_rng :: bytes
  se_actor_id :: u64
  se_now :: nat
  se_me :: public_key
  se_events_tx :: channel
  se_blobs :: "bytes \<Rightarrow> unit + blob_status"

definition docs_open_store :: "crypto \<Rightarrow> spawn_env \<Rightarrow> docs_storage \<Rightarrow> (files, open_failure, fs_store) op" where
  "docs_open_store C ev storage =
     (case storage of
        DocsMemory \<Rightarrow> op_return (store_memory (se_clock ev))
      | DocsPersistent path \<Rightarrow> persistent C (se_clock ev) (se_parent ev) (se_temp ev) (path_join path ''docs.redb''))"

definition docs_author_storage :: "docs_storage \<Rightarrow> default_author_storage" where
  "docs_author_storage storage =
     (case storage of
        DocsMemory \<Rightarrow> StorageMem
      | DocsPersistent path \<Rightarrow> StoragePersistent (path_join path ''default-author''))"

definition docs_spawn :: "crypto \<Rightarrow> spawn_env \<Rightarrow> builder \<Rightarrow> files \<times> author_files \<Rightarrow> (docs_error + docs) \<times> files \<times> author_files" where
  "docs_spawn C ev b disk =
     (case docs_open_store C ev (bd_storage b) (fst disk) of
        (Inl err, fs) \<Rightarrow> (Inl (DocsStore err), fs, snd disk)
      | (Inr store, fs) \<Rightarrow>
          (case engine_spawn C (se_env ev) (se_hex ev) (se_write ev) (se_rng ev) (se_actor_id ev) (se_now ev) (se_me ev) (se_events_tx ev)
              (se_blobs ev) (bd_validator b) (bd_observer b) (docs_author_storage (bd_storage b)) store (snd disk) of
             Inl (err, _, author_files) \<Rightarrow> (Inl (DocsEngine err), fs, author_files)
           | Inr e \<Rightarrow> (Inr \<lparr>dk_engine = e, dk_access = bd_access b, dk_protect = bd_protect b\<rparr>, fs, en_files e)))"

section \<open>Connections and shutdown\<close>

definition docs_accept ::
  "crypto \<Rightarrow> live_env \<Rightarrow> (live_env \<times> live_input) list \<Rightarrow> nat \<Rightarrow> public_key \<Rightarrow> docs \<Rightarrow> (engine_error + unit) \<times> docs" where
  "docs_accept C env before task peer d =
     (case engine_handle_connection C env before task peer (dk_engine d) of (r, e) \<Rightarrow> (r, d\<lparr>dk_engine := e\<rparr>))"

text \<open>An error of the shutdown is only logged; \<open>False\<close> when it does not come to an end.\<close>

definition docs_shutdown :: "crypto \<Rightarrow> (live_env \<times> live_input) list \<Rightarrow> docs \<Rightarrow> bool \<times> docs" where
  "docs_shutdown C before d =
     (case engine_shutdown C before (dk_engine d) of (r, e) \<Rightarrow> (r \<noteq> None, d\<lparr>dk_engine := e\<rparr>))"

text \<open>What a crash leaves: the file of the store with what was committed, and the author files.\<close>

definition crash_disk :: "string \<Rightarrow> files \<Rightarrow> docs \<Rightarrow> files \<times> author_files" where
  "crash_disk path fs d =
     (fs(path_join path ''docs.redb'' \<mapsto> DbFile (file_of (st_db (ac_store (lv_actor (en_live (dk_engine d))))))), en_files (dk_engine d))"

end
