(* ===== verification/Ranger_Runs.thy ===== *)
theory Ranger_Runs
  imports Ranger
begin

text \<open>
  What the reconciliation handler does to its store, whatever the store is: only calls of the store's
  own operations and of the validation callback. A reflexive and transitive relation that each of
  them respects is respected by the whole handler, error exits included.
\<close>

definition moves :: "('s \<Rightarrow> 's \<Rightarrow> bool) \<Rightarrow> ('s, 'e, 'a) op \<Rightarrow> bool" where
  "moves R m \<longleftrightarrow> (\<forall>s. R s (snd (m s)))"

definition validation_moves :: "('s \<Rightarrow> 's \<Rightarrow> bool) \<Rightarrow> ('x, 's, 'c) callbacks \<Rightarrow> bool" where
  "validation_moves R B \<longleftrightarrow> (\<forall>x cs s. R s (snd (validate_cb B x cs s)))"

lemma movesD: "moves R m \<Longrightarrow> m s = (r, s') \<Longrightarrow> R s s'"
  by (metis moves_def snd_conv)

locale trace_relation =
  fixes R :: "'s \<Rightarrow> 's \<Rightarrow> bool"
  assumes rel_refl [simp]: "R s s"
    and rel_trans: "R s t \<Longrightarrow> R t u \<Longrightarrow> R s u"
begin

lemma moves_pure [intro]: "moves R (op_return x)" "moves R (op_fail e)" "moves R (op_lift r)"
  by (simp_all add: moves_def op_return_def op_fail_def op_lift_def)

lemma moves_bind [intro]:
  assumes "moves R m" "\<And>x. moves R (f x)"
  shows "moves R (op_bind m f)"
  unfolding moves_def
proof
  fix s
  obtain r s' where m: "m s = (r, s')" by fastforce
  show "R s (snd (op_bind m f s))"
    using movesD[OF assms(1) m] assms(2) rel_trans[of s s'] m
    by (cases r) (auto simp: op_bind_def moves_def)
qed

lemma moves_for:
  assumes "\<And>x acc. x \<in> set xs \<Longrightarrow> moves R (f x acc)"
  shows "moves R (op_for f xs acc)"
  using assms by (induction xs arbitrary: acc) auto

lemma moves_if [intro]: "(b \<Longrightarrow> moves R m) \<Longrightarrow> (\<not> b \<Longrightarrow> moves R n) \<Longrightarrow> moves R (if b then m else n)"
  by simp

end

locale store_trace = trace_relation R
  for R :: "'s \<Rightarrow> 's \<Rightarrow> bool" +
  fixes S :: "('s, 'e, 'k::linorder, 'x, 'v) store_ops"
    and entry_okay :: "'x \<Rightarrow> bool"
  assumes first_moves: "moves R (so_get_first S)"
    and fingerprint_moves: "moves R (so_get_fingerprint S r)"
    and range_moves: "moves R (so_get_range S r)"
    and prefixes_moves: "moves R (so_prefixes_of S k)"
    and remove_moves: "moves R (so_remove_prefix_filtered S k p)"
    and put_moves: "entry_okay x \<Longrightarrow> moves R (so_entry_put S x)"

sublocale store_trace \<subseteq> paired: trace_relation "\<lambda>st st'. R (fst st) (fst st')"
  using rel_trans by unfold_locales auto

context store_trace
begin

abbreviation R2 :: "'s \<times> 'c \<Rightarrow> 's \<times> 'c \<Rightarrow> bool" where
  "R2 \<equiv> \<lambda>st st'. R (fst st) (fst st')"

lemma on_store_moves [intro]: "moves R m \<Longrightarrow> moves R2 (on_store m)"
  by (auto simp: moves_def on_store_def split: prod.splits) (metis snd_conv)

lemma would_insert_moves: "moves R (would_insert E S x)"
  unfolding would_insert_def using prefixes_moves by blast

lemma ranger_put_moves: "entry_okay x \<Longrightarrow> moves R (ranger_put E S x)"
  unfolding ranger_put_def using would_insert_moves remove_moves put_moves by (intro moves_bind moves_if moves_pure) auto

lemma initial_message_moves: "moves R (initial_message S)"
  unfolding initial_message_def message_init_def using first_moves fingerprint_moves by blast

lemma store_value_moves:
  fixes B :: "('x, 's, 'c) callbacks"
  assumes "entry_okay (fst v)" "validation_moves R B"
  shows "moves R2 (store_value E S B v out)"
  unfolding moves_def
proof
  fix st :: "'s \<times> 'c"
  obtain x cs where v: "v = (x, cs)" by fastforce
  obtain outcome s' where s': "validate_cb B x cs (fst st) = (outcome, s')" by fastforce
  have step: "R (fst st) s'" using assms(2) s' by (metis validation_moves_def snd_conv)
  have put: "R s' (snd (ranger_put E S x s'))" and ask: "R s' (snd (would_insert E S x s'))"
    using ranger_put_moves[of x E] would_insert_moves[of E x] assms(1) v by (auto simp: moves_def)
  show "R (fst st) (fst (snd (store_value E S B v out st)))"
    using step put ask rel_trans[of "fst st" s'] v s'
    by (cases outcome)
       (auto simp: store_value_def op_bind_def op_return_def on_store_def split: prod.splits sum.splits insert_outcome.splits)
qed

lemma item_diff_moves: "moves R2 (item_diff E S B rng values have_local)"
  unfolding item_diff_def using range_moves by (intro paired.moves_if paired.moves_bind paired.moves_pure on_store_moves)

lemma process_item_moves:
  assumes "\<forall>v \<in> set (fst (snd item)). entry_okay (fst v)" "validation_moves R B"
  shows "moves R2 (process_item E S B item out)"
  unfolding process_item_def split_beta
  using assms
  by (intro paired.moves_bind paired.moves_for paired.moves_pure item_diff_moves store_value_moves) auto

lemma pivot_moves: "moves R2 (pivot E S cfg rng num start i)"
  unfolding pivot_def Let_def using range_moves
  by (intro paired.moves_if paired.moves_bind on_store_moves) (auto split: sum.splits)

lemma split_ranges_moves: "moves R2 (split_ranges E S cfg rng num start)"
  unfolding split_ranges_def split_between_def
  by (intro paired.moves_if paired.moves_bind paired.moves_for paired.moves_pure pivot_moves)

lemma process_fingerprint_moves: "moves R2 (process_fingerprint C E S B cfg part out)"
  unfolding process_fingerprint_def split_beta emit_range_def get_range_len_def
  using range_moves fingerprint_moves
  by (intro paired.moves_bind paired.moves_if paired.moves_for paired.moves_pure on_store_moves split_ranges_moves
      moves_bind moves_pure)

lemma process_message_moves:
  assumes "\<forall>item \<in> set (message_items msg). \<forall>v \<in> set (fst (snd item)). entry_okay (fst v)"
    "validation_moves R B"
  shows "moves R2 (process_message C E S B cfg msg)"
  unfolding process_message_def
  using assms
  by (intro paired.moves_bind paired.moves_for paired.moves_pure process_item_moves process_fingerprint_moves) auto

end

end
