(* ===== verification/Replica_Runs.thy ===== *)
theory Replica_Runs
  imports Store_History Ranger_Runs
begin

text \<open>
  The operations of a replica seen from the store: each is a sequence of store operations, and none of
  them changes which replicas are open or which namespaces the store knows.
\<close>

section \<open>Runs of the store\<close>

definition account_frame :: "fs_store \<Rightarrow> fs_store \<Rightarrow> bool" where
  "account_frame s s' \<longleftrightarrow> (tx_ok s \<longrightarrow> tx_ok s' \<and> st_open_replicas s' = st_open_replicas s \<and>
     t_namespaces (visible s') = t_namespaces (visible s))"

text \<open>An author the store knows, now and after a crash.\<close>

definition durable_author :: "author_id \<Rightarrow> fs_store \<Rightarrow> bool" where
  "durable_author i s \<longleftrightarrow> tx_ok s \<and> table_get (t_authors (visible s)) i \<noteq> None \<and> table_get (t_authors (st_db s)) i \<noteq> None"

definition authors_kept :: "fs_store \<Rightarrow> fs_store \<Rightarrow> bool" where
  "authors_kept s s' \<longleftrightarrow> (\<forall>i. durable_author i s \<longrightarrow> durable_author i s')"

definition store_run :: "crypto \<Rightarrow> download_policy postcard \<Rightarrow> fs_store \<Rightarrow> fs_store \<Rightarrow> bool" where
  "store_run C P s s' \<longleftrightarrow> (store_step C P)\<^sup>*\<^sup>* s s' \<and> account_frame s s' \<and> authors_kept s s'"

interpretation store_run: trace_relation "store_run C P" for C P
  by unfold_locales (auto simp: store_run_def account_frame_def authors_kept_def)

lemma authors_same [simp]: "authors_kept s s"
  by (simp add: authors_kept_def)

lemma authors_read:
  assumes "tx_ok s \<Longrightarrow> tx_ok s' \<and> visible s' = visible s \<and> (st_db s' = st_db s \<or> st_db s' = visible s)"
  shows "authors_kept s s'"
  using assms by (auto simp: authors_kept_def durable_author_def)

lemma durable_modify:
  assumes "durable_author i s" "table_get (t_authors (snd (f (visible s)))) i \<noteq> None"
  shows "durable_author i (snd (modify f s))"
proof -
  have tx: "tx_ok s" using assms(1) by (simp add: durable_author_def)
  obtain r t where f: "f (visible s) = (r, t)" by fastforce
  obtain s' where "modify f s = (r, s')" "visible s' = t" "tx_ok s'" "st_db s' = st_db s \<or> st_db s' = visible s"
    by (rule modify_eq[where f = f, OF tx f])
  then show ?thesis using assms f by (auto simp: durable_author_def)
qed

lemma authors_modify:
  assumes "\<And>t. t_authors (snd (f t)) = t_authors t"
  shows "authors_kept s (snd (modify f s))"
  unfolding authors_kept_def
proof (intro allI impI)
  fix i assume i: "durable_author i s"
  then have "table_get (t_authors (snd (f (visible s)))) i \<noteq> None" using assms by (simp add: durable_author_def)
  with i show "durable_author i (snd (modify f s))" by (rule durable_modify)
qed

lemma frame_read:
  assumes "tx_ok s \<Longrightarrow> tx_ok s' \<and> visible s' = visible s \<and> same_rest s s'"
  shows "account_frame s s'"
  using assms by (auto simp: account_frame_def same_rest_def)

lemma frame_modify:
  assumes "\<And>t. t_namespaces (snd (f t)) = t_namespaces t"
  shows "account_frame s (snd (modify f s))"
  unfolding account_frame_def
proof
  assume tx: "tx_ok s"
  obtain r s' where m: "modify f s = (r, s')" by fastforce
  show "tx_ok (snd (modify f s)) \<and> st_open_replicas (snd (modify f s)) = st_open_replicas s \<and>
      t_namespaces (visible (snd (modify f s))) = t_namespaces (visible s)"
    using modify_laws[OF tx m] assms[of "visible s"] m by (simp add: same_rest_def)
qed

lemma frame_tables: "account_frame s (snd (store_tables s))"
  using store_tables_laws[of s, OF _ prod.collapse[symmetric]] by (intro frame_read) auto

lemma authors_tables: "authors_kept s (snd (store_tables s))"
  using store_tables_laws[of s, OF _ prod.collapse[symmetric]] by (intro authors_read) auto

lemma tables_run: "store_run C P s (snd (store_tables s))"
  using do_tables[of C P s] frame_tables authors_tables by (auto simp: store_run_def)

lemma public_key_run: "moves (store_run C P) (store_public_key C b)"
proof -
  have "account_frame s (snd (store_public_key C b s))" "authors_kept s (snd (store_public_key C b s))" for s
    by (auto simp: account_frame_def authors_kept_def durable_author_def store_public_key_def visible_def tx_ok_def
        split: prod.splits current_transaction.splits)
  then show ?thesis using do_public_key[of C P] by (auto simp: moves_def store_run_def)
qed

lemma policy_run: "store_run C P s (snd (policy_or_default P ns s))"
  using tables_run[of C P s] policy_tables[of P ns s]
  by (auto simp: policy_or_default_def split: prod.splits sum.splits)

lemma read_source_run: "store_run C P s (snd (read_source snap s))"
  using tables_run by (auto simp: read_source_def split: option.splits)

lemma instance_range_run: "moves (store_run C P) (instance_get_range ns snap r)"
  using read_source_run[of C P _ snap]
  by (auto simp: moves_def instance_get_range_def split: prod.splits) (metis snd_conv)+

text \<open>The instance of a namespace, behind a session's filter or not.\<close>

interpretation instance_runs: store_trace "store_run C P" "instance_ops C ns snap" entry_ok for C P ns snap
proof
  show "moves (store_run C P) (so_get_first (instance_ops C ns snap))"
    using read_source_run[of C P _ snap]
    by (auto simp: moves_def instance_ops_def instance_get_first_def split: prod.splits) (metis snd_conv)
  show "moves (store_run C P) (so_get_range (instance_ops C ns snap) r)" for r
    by (simp add: instance_ops_def instance_range_run)
  show "moves (store_run C P) (so_get_fingerprint (instance_ops C ns snap) r)" for r
    by (simp add: instance_ops_def instance_get_fingerprint_def store_run.moves_bind instance_range_run store_run.moves_pure)
  show "moves (store_run C P) (so_prefixes_of (instance_ops C ns snap) k)" for k
    using tables_run[of C P]
    by (auto simp: moves_def instance_ops_def instance_prefixes_of_def split: prod.splits) (metis snd_conv)
  have "account_frame s (snd (instance_remove_prefix_filtered k p s))" for k p s
    unfolding instance_remove_prefix_filtered_def by (intro frame_modify) (auto simp: remove_prefix_tables_def split: prod.splits)
  moreover have "authors_kept s (snd (instance_remove_prefix_filtered k p s))" for k p s
    unfolding instance_remove_prefix_filtered_def by (intro authors_modify) (auto simp: remove_prefix_tables_def split: prod.splits)
  ultimately show "moves (store_run C P) (so_remove_prefix_filtered (instance_ops C ns snap) k p)" for k p
    using do_remove_prefix[of C P] by (auto simp: moves_def instance_ops_def store_run_def)
  have "account_frame s (snd (instance_entry_put x s))" for x s
    unfolding instance_entry_put_def by (intro frame_modify) (simp add: entry_put_tables_def Let_def)
  moreover have "authors_kept s (snd (instance_entry_put x s))" for x s
    unfolding instance_entry_put_def by (intro authors_modify) (simp add: entry_put_tables_def Let_def)
  ultimately show "entry_ok x \<Longrightarrow> moves (store_run C P) (so_entry_put (instance_ops C ns snap) x)" for x
    using do_entry_put[of x C P] by (auto simp: moves_def instance_ops_def store_run_def)
qed

interpretation session_runs: store_trace "store_run C P" "session_ops C filt (instance_ops C ns snap)" entry_ok
  for C P filt ns snap
  using instance_runs.first_moves instance_runs.range_moves instance_runs.fingerprint_moves instance_runs.prefixes_moves
    instance_runs.remove_moves instance_runs.put_moves
  by unfold_locales
     (auto simp: session_ops_def session_get_first_def session_get_range_def session_get_fingerprint_def
       split: option.splits intro!: store_run.moves_bind store_run.moves_pure)

section \<open>Runs of a replica\<close>

lemma verify_run: "moves (store_run C P) (signed_entry_verify C (store_public_key C) e)"
proof -
  have err: "moves (store_run C P) m \<Longrightarrow> moves (store_run C P) (op_map_err g m)" for g :: "'a \<Rightarrow> 'b" and m :: "(fs_store, 'a, 'c) op"
    by (auto simp: moves_def op_map_err_def split: prod.splits sum.splits) (metis snd_conv)+
  show ?thesis unfolding signed_entry_verify_def namespace_key_def author_key_def
    by (intro store_run.moves_bind store_run.moves_pure public_key_run err)
qed

lemma validate_run: "store_run C P s (snd (validate_entry C (store_public_key C) now ns e origin v s))"
proof -
  obtain r s' where v: "signed_entry_verify C (store_public_key C) e s = (r, s')" by fastforce
  show ?thesis using movesD[OF verify_run v] v
    by (cases r) (auto simp: validate_entry_def split: insert_origin.splits option.splits validate_outcome.splits)
qed

abbreviation replica_run :: "crypto \<Rightarrow> download_policy postcard \<Rightarrow> replica \<Rightarrow> replica \<Rightarrow> bool" where
  "replica_run C P r r' \<equiv> store_run C P (rp_store r) (rp_store r')"

lemma insert_entry_run:
  assumes "entry_ok e" shows "replica_run C P r (snd (insert_entry C P alive now e origin r))"
proof -
  obtain res s1 where v: "validate_entry C (store_public_key C) now (replica_id C r) e origin
      (ri_capability_validator (rp_info r)) (rp_store r) = (res, s1)" by fastforce
  have s1: "store_run C P (rp_store r) s1" using validate_run v by (metis snd_conv)
  obtain ins s2 where p: "ranger_put (signed_entry_range C) (replica_ops C r) e s1 = (ins, s2)" by fastforce
  have s2: "store_run C P (rp_store r) s2"
    using store_run.rel_trans[OF s1] movesD[OF instance_runs.ranger_put_moves[OF assms] p[unfolded replica_ops_def]] by blast
  have s3: "store_run C P (rp_store r) (snd (policy_or_default P (replica_id C r) s2))"
    using store_run.rel_trans[OF s2 policy_run] .
  show ?thesis using s1 s2 s3 v p
    by (auto simp: insert_entry_def Let_def split: sum.splits insert_outcome.splits insert_origin.splits prod.splits)
qed

lemma local_insert_run:
  assumes "crypto_ok C"
  shows "replica_run C P r (snd (replica_insert C P alive now1 now2 key a hash len r))"
    "replica_run C P r (snd (delete_prefix C P alive now1 now2 key a r))"
  using insert_entry_run[OF local_entry(1)[OF assms]]
  by (auto simp: replica_insert_def delete_prefix_def ensure_open_def Let_def entry_new_empty_alt split: sum.splits)

lemma remote_insert_run:
  "entry_ok e \<Longrightarrow> replica_run C P r (snd (insert_remote_entry C P alive now e from status r))"
  using insert_entry_run by (auto simp: insert_remote_entry_def ensure_open_def split: sum.splits)

lemma sync_initial_run: "replica_run C P r (snd (sync_initial_message C filt r))"
proof -
  obtain res s' where m: "(initial_message (session_ops C filt (instance_ops C (rp_namespace r) (rp_snapshot r))) (rp_store r)
      :: (store_error + protocol_message) \<times> fs_store) = (res, s')" by fastforce
  show ?thesis using movesD[OF session_runs.initial_message_moves m] m
    by (cases res) (auto simp: sync_initial_message_def on_replica_store_def replica_ops_def)
qed

lemma session_callbacks_moves:
  "validation_moves (store_run C P) (session_callbacks C alive now ns from info policy)"
  using validate_run[of C P]
  by (auto simp: validation_moves_def session_callbacks_def session_validate_def split: prod.splits sum.splits) (metis snd_conv)+

lemma sync_process_run:
  assumes "message_ok msg"
  shows "replica_run C P r (fst (snd (sync_process_message C P alive now msg peer filt (r, st))))"
proof -
  have ok: "\<forall>item \<in> set (message_items msg). \<forall>v \<in> set (fst (snd item)). entry_ok (fst v)"
    using assms by (auto simp: message_ok_def)
  obtain policy s1 where p: "policy_or_default P (replica_id C r) (rp_store r) = (policy, s1)" by fastforce
  have s1: "store_run C P (rp_store r) s1" using policy_run p by (metis snd_conv)
  have "store_run C P s1 (fst (snd (process_message C (signed_entry_range C) (session_ops C filt (replica_ops C r))
      (session_callbacks C alive now (replica_id C r) peer (rp_info r) policy) sync_config_default msg (s1, subs))))" for subs
    using session_runs.process_message_moves[OF ok session_callbacks_moves, unfolded moves_def, rule_format,
        of C P "(s1, subs)"]
    by (simp add: replica_ops_def)
  then show ?thesis using s1 store_run.rel_trans[OF s1] p
    by (auto simp: sync_process_message_def Let_def split: prod.splits sum.splits) (metis fst_conv snd_conv)+
qed

end
