(* ===== verification/Actor_Laws.thy ===== *)
theory Actor_Laws
  imports Actor Replica_Runs
begin

text \<open>
  What the actor of \<^verbatim>\<open>src/src/actor.rs\<close> keeps: the replicas it has open are those the store has open, each with
  the stored capability; the registered sessions belong to open replicas and hold well-formed
  snapshots; the store only ever makes store steps. Then sessions, handles, reclaiming and shutdown.
\<close>

section \<open>The invariant\<close>

definition open_ok :: "tables \<Rightarrow> namespace_id \<Rightarrow> open_replica_state \<Rightarrow> bool" where
  "open_ok t ns st \<longleftrightarrow> length ns = 32 \<and> stored_capability t ns = Some (ri_capability (op_info st)) \<and> \<not> ri_closed (op_info st)"

definition sessions_ok :: "crypto \<Rightarrow> u64 \<Rightarrow> namespace_id set \<Rightarrow> (session_id, session_snapshot) table \<Rightarrow> bool" where
  "sessions_ok C actor_id opened ss \<longleftrightarrow> table_ok ss \<and> (\<forall>i s. table_get ss i = Some s \<longrightarrow>
     fst i = actor_id \<and> ss_namespace s \<in> opened \<and> tables_ok C (ss_tables s) \<and> doc_authentic C (ss_tables s))"

definition actor_ok :: "crypto \<Rightarrow> actor \<Rightarrow> bool" where
  "actor_ok C a \<longleftrightarrow> store_ok C (ac_store a) \<and> doc_authentic C (visible (ac_store a)) \<and> table_ok (ac_states a) \<and>
     st_open_replicas (ac_store a) = dom (table_get (ac_states a)) \<and>
     (\<forall>ns st. table_get (ac_states a) ns = Some st \<longrightarrow> open_ok (visible (ac_store a)) ns st) \<and>
     sessions_ok C (ac_id a) (dom (table_get (ac_states a))) (ac_sessions a) \<and>
     sync_sessions_open (ac_metrics a) = length (ac_sessions a)"

definition actor_moves :: "crypto \<Rightarrow> download_policy postcard \<Rightarrow> actor \<Rightarrow> actor \<Rightarrow> bool" where
  "actor_moves C P a a' \<longleftrightarrow> (actor_ok C a \<longrightarrow> actor_ok C a' \<and> ac_id a' = ac_id a \<and> (store_step C P)\<^sup>*\<^sup>* (ac_store a) (ac_store a'))"

interpretation actor_trace: trace_relation "actor_moves C P" for C P
  by unfold_locales (auto simp: actor_moves_def)

section \<open>Store operations inside an action\<close>

text \<open>A store operation that opens, closes and renames nothing and adds no entry.\<close>

definition quiet_step :: "crypto \<Rightarrow> download_policy postcard \<Rightarrow> fs_store \<Rightarrow> fs_store \<Rightarrow> bool" where
  "quiet_step C P s s' \<longleftrightarrow> (store_step C P)\<^sup>*\<^sup>* s s' \<and> st_open_replicas s' = st_open_replicas s \<and>
     (\<forall>n \<in> st_open_replicas s. stored_capability (visible s') n = stored_capability (visible s) n) \<and>
     doc_map (visible s') \<subseteq>\<^sub>m doc_map (visible s)"

lemma authentic_subset: "doc_map t' \<subseteq>\<^sub>m doc_map t \<Longrightarrow> doc_authentic C t \<Longrightarrow> doc_authentic C t'"
  unfolding doc_authentic_def map_le_def by (metis domI)

lemma quiet_actor:
  assumes "actor_ok C a" "quiet_step C P (ac_store a) s'"
  shows "actor_ok C (a\<lparr>ac_store := s'\<rparr>)" "(store_step C P)\<^sup>*\<^sup>* (ac_store a) s'"
proof -
  show run: "(store_step C P)\<^sup>*\<^sup>* (ac_store a) s'" using assms(2) by (simp add: quiet_step_def)
  have "store_ok C s'" using history_store_ok[OF run] assms(1) by (simp add: actor_ok_def)
  then show "actor_ok C (a\<lparr>ac_store := s'\<rparr>)"
    using assms authentic_subset by (auto simp: actor_ok_def quiet_step_def open_ok_def dom_def)
qed

lemma on_actor_store_moves:
  assumes "\<And>s. store_ok C s \<Longrightarrow> quiet_step C P s (snd (m s))"
  shows "moves (actor_moves C P) (on_actor_store err m)"
  unfolding moves_def actor_moves_def
proof (intro allI impI)
  fix a assume a: "actor_ok C a"
  obtain r s' where m: "m (ac_store a) = (r, s')" by fastforce
  have "quiet_step C P (ac_store a) s'" using assms[of "ac_store a"] a m by (simp add: actor_ok_def)
  from quiet_actor[OF a this] m show "actor_ok C (snd (on_actor_store err m a)) \<and> ac_id (snd (on_actor_store err m a)) = ac_id a \<and>
      (store_step C P)\<^sup>*\<^sup>* (ac_store a) (ac_store (snd (on_actor_store err m a)))"
    by (simp add: on_actor_store_def)
qed

lemma actor_read_on_store: "actor_read f = on_actor_store err (\<lambda>s. case f s of (x, s') \<Rightarrow> (Inr x, s'))"
  by (auto simp: fun_eq_iff actor_read_def on_actor_store_def split: prod.splits)

lemma actor_read_moves:
  assumes "\<And>s. store_ok C s \<Longrightarrow> quiet_step C P s (snd (f s))"
  shows "moves (actor_moves C P) (actor_read f)"
  unfolding actor_read_on_store[where err = ErrStore]
  by (rule on_actor_store_moves) (use assms in \<open>force split: prod.splits\<close>)

lemma quiet_read:
  assumes "store_ok C s" "store_step C P s s'" "visible s' = visible s" "same_rest s s'"
  shows "quiet_step C P s s'"
  using assms by (auto simp: quiet_step_def same_rest_def)

lemma quiet_reads:
  assumes "store_ok C s"
  shows "quiet_step C P s (snd (store_tables s))" "quiet_step C P s (snd (snapshot s))"
    "quiet_step C P s (snd (snapshot_owned s))" "quiet_step C P s (flush s)"
proof -
  have tx: "tx_ok s" using assms by (simp add: store_ok_def)
  show "quiet_step C P s (snd (store_tables s))"
    using store_tables_laws[OF tx prod.collapse[symmetric]] by (intro quiet_read[OF assms do_tables]) auto
  show "quiet_step C P s (snd (snapshot s))"
    using snapshot_laws[OF tx prod.collapse[symmetric]] by (intro quiet_read[OF assms do_snapshot]) auto
  show "quiet_step C P s (snd (snapshot_owned s))"
    using snapshot_owned_laws[OF tx prod.collapse[symmetric]] by (intro quiet_read[OF assms do_snapshot_owned]) auto
  show "quiet_step C P s (flush s)" using flush_laws[OF tx] by (intro quiet_read[OF assms do_flush]) auto
qed

lemma quiet_modify:
  assumes "store_ok C s" "store_step C P s (snd (modify f s))" "\<And>t. t_namespaces (snd (f t)) = t_namespaces t"
    "doc_map (snd (f (visible s))) \<subseteq>\<^sub>m doc_map (visible s)"
  shows "quiet_step C P s (snd (modify f s))"
proof -
  have tx: "tx_ok s" using assms(1) by (simp add: store_ok_def)
  obtain r s' where m: "modify f s = (r, s')" by fastforce
  show ?thesis using modify_laws[OF tx m] m assms(2,3,4) frame_modify[of f s] tx
    by (auto simp: quiet_step_def account_frame_def stored_capability_def)
qed

text \<open>Every reading operation of the store leaves it as one of the three transaction steps does.\<close>

lemma read_results:
  "snd (get_author i s) = snd (store_tables s)" "snd (get_sync_peers ns s) = snd (store_tables s)"
  "snd (get_exact C ns au k ie s) = snd (store_tables s)" "snd (has_news_for_us ns h s) = snd (store_tables s)"
  "snd (list_authors s) = snd (snapshot s)" "snd (list_namespaces C s) = snd (snapshot s)"
  "snd (content_hashes s) = snd (snapshot_owned s)" "snd (get_many ns q s) = snd (snapshot_owned s)"
  by (simp_all add: get_author_def get_sync_peers_def get_exact_def has_news_for_us_def get_latest_for_each_author_def
      list_authors_def list_namespaces_def content_hashes_def get_many_def Let_def split: prod.splits)

lemma read_moves:
  "moves (actor_moves C P) (actor_read (get_author i))" "moves (actor_moves C P) (actor_read (get_sync_peers ns))"
  "moves (actor_moves C P) (actor_read (get_exact C ns au k ie))" "moves (actor_moves C P) (actor_read (has_news_for_us ns h))"
  "moves (actor_moves C P) (actor_read list_authors)" "moves (actor_moves C P) (actor_read (list_namespaces C))"
  "moves (actor_moves C P) (actor_read content_hashes)" "moves (actor_moves C P) (actor_read (get_many ns q))"
  by (rule actor_read_moves; simp add: read_results quiet_reads)+

lemma quiet_writes:
  assumes "store_ok C s"
  shows "quiet_step C P s (snd (register_useful_peer now ns peer s))" "quiet_step C P s (snd (retract_entry ns au k up_to s))"
    "quiet_step C P s (snd (set_download_policy P ns policy s))" "quiet_step C P s (snd (get_download_policy P ns s))"
    "quiet_step C P s (snd (import_author C author s))" "quiet_step C P s (snd (delete_author i s))"
proof -
  have peers: "t_namespaces (snd (register_peer_tables ns peer nanos t)) = t_namespaces t"
    "doc_map (snd (register_peer_tables ns peer nanos t)) \<subseteq>\<^sub>m doc_map t" for nanos t
    by (auto simp: register_peer_tables_def Let_def doc_map_def split: list.splits prod.splits option.splits)
  have "quiet_step C P s (snd (modify (register_peer_tables ns peer (word_of_nat (the now))) s))" if "now \<noteq> None"
  proof (rule quiet_modify[OF assms])
    show "store_step C P s (snd (modify (register_peer_tables ns peer (word_of_nat (the now))) s))"
      using do_register_peer[of C P s now ns peer] that by (auto simp: register_useful_peer_def)
  qed (use peers in auto)
  then show "quiet_step C P s (snd (register_useful_peer now ns peer s))"
    by (auto simp: register_useful_peer_def quiet_step_def split: option.splits)
  show "quiet_step C P s (snd (retract_entry ns au k up_to s))" unfolding retract_entry_def
    by (rule quiet_modify[OF assms do_retract[unfolded retract_entry_def]])
       (auto simp: retract_entry_tables_def doc_map_def map_le_def table_get_remove split: option.splits if_splits)
  show "quiet_step C P s (snd (set_download_policy P ns policy s))" unfolding set_download_policy_def
    by (rule quiet_modify[OF assms do_set_policy[unfolded set_download_policy_def]]) (auto simp: doc_map_def)
  show "quiet_step C P s (snd (get_download_policy P ns s))" using quiet_reads(1)[OF assms] by (simp add: policy_tables)
  show "quiet_step C P s (snd (import_author C author s))" unfolding import_author_def
    by (rule quiet_modify[OF assms do_import_author[unfolded import_author_def]]) (auto simp: doc_map_def)
  show "quiet_step C P s (snd (delete_author i s))" unfolding delete_author_def
    by (rule quiet_modify[OF assms do_delete_author[unfolded delete_author_def]]) (auto simp: doc_map_def)
qed

lemma write_moves:
  "moves (actor_moves C P) (on_actor_store err (register_useful_peer now ns peer))"
  "moves (actor_moves C P) (on_actor_store err (retract_entry ns au k up_to))"
  "moves (actor_moves C P) (on_actor_store err (set_download_policy P ns policy))"
  "moves (actor_moves C P) (on_actor_store err (get_download_policy P ns))"
  "moves (actor_moves C P) (on_actor_store err (import_author C author))"
  "moves (actor_moves C P) (on_actor_store err (delete_author i))"
  by (rule on_actor_store_moves; erule quiet_writes)+

section \<open>Running a replica\<close>

lemma actor_states_get:
  assumes "actor_ok C a" "table_get (ac_states a) ns = Some st"
  shows "open_ok (visible (ac_store a)) ns st" "capability_id C (ri_capability (op_info st)) = ns"
proof -
  show o: "open_ok (visible (ac_store a)) ns st" using assms by (simp add: actor_ok_def)
  have "namespaces_ok C (t_namespaces (visible (ac_store a)))"
    using assms(1) by (simp add: actor_ok_def store_ok_def tables_ok_def)
  then show "capability_id C (ri_capability (op_info st)) = ns"
    using o namespaces_ok_get[of C] by (metis open_ok_def stored_capability_eq sum.inject(2))
qed

definition snap_ok :: "crypto \<Rightarrow> tables option \<Rightarrow> bool" where
  "snap_ok C snap \<longleftrightarrow> (\<forall>t. snap = Some t \<longrightarrow> tables_ok C t)"

lemma replica_at_ok:
  assumes "actor_ok C a" "table_get (ac_states a) ns = Some st" "snap_ok C snap"
  shows "replica_ok C (replica_at C snap st a)" "rp_namespace (replica_at C snap st a) = ns"
  using actor_states_get[OF assms(1,2)] assms(1,3)
  by (auto simp: replica_ok_def replica_at_def replica_id_def instance_valid_def actor_ok_def store_ok_def open_ok_def snap_ok_def
      split: option.splits)

lemma replica_back_ok:
  assumes "actor_ok C a" "table_get (ac_states a) ns = Some st" "snap_ok C snap"
    "keeps_replica C (replica_at C snap st a) r" "replica_run C P (replica_at C snap st a) r"
  shows "actor_ok C (replica_back ns st r a)" "(store_step C P)\<^sup>*\<^sup>* (ac_store a) (ac_store (replica_back ns st r a))"
proof -
  have s: "rp_store (replica_at C snap st a) = ac_store a" "rp_info (replica_at C snap st a) = op_info st"
    by (simp_all add: replica_at_def)
  show run: "(store_step C P)\<^sup>*\<^sup>* (ac_store a) (ac_store (replica_back ns st r a))"
    using assms(5) s by (simp add: store_run_def replica_back_def)
  have ok: "store_ok C (rp_store r)" using history_store_ok[of C P] run assms(1) by (auto simp: actor_ok_def replica_back_def)
  have frame: "st_open_replicas (rp_store r) = st_open_replicas (ac_store a)"
    "t_namespaces (visible (rp_store r)) = t_namespaces (visible (ac_store a))"
    using assms(1,5) s by (auto simp: store_run_def account_frame_def actor_ok_def store_ok_def)
  have handle: "ri_capability (rp_info r) = ri_capability (op_info st)" "ri_closed (rp_info r) = ri_closed (op_info st)"
    "doc_authentic C (visible (rp_store r))"
    using assms(1,4) s by (auto simp: keeps_replica_def same_handle_def actor_ok_def)
  have dom: "dom (table_get (table_insert ns (st\<lparr>op_info := rp_info r\<rparr>) (ac_states a))) = dom (table_get (ac_states a))"
    using assms(2) by (auto simp: table_get_insert split: if_splits)
  show "actor_ok C (replica_back ns st r a)"
    using assms(1) ok frame handle dom actor_states_get(1)[OF assms(1)] assms(2)
    by (auto simp: actor_ok_def replica_back_def table_insert_ok table_get_insert open_ok_def stored_capability_def)
qed

text \<open>An operation on a replica that keeps it in order and only makes store steps.\<close>

definition replica_sound :: "crypto \<Rightarrow> download_policy postcard \<Rightarrow> (replica, 'e, 'a) op \<Rightarrow> bool" where
  "replica_sound C P m \<longleftrightarrow> (\<forall>r. replica_ok C r \<longrightarrow> keeps_replica C r (snd (m r)) \<and> replica_run C P r (snd (m r)))"

lemma run_replica_keeps:
  assumes "replica_sound C P m" "snap_ok C snap"
  shows "moves (actor_moves C P) (run_replica C ns snap err m)"
  unfolding moves_def actor_moves_def
proof (intro allI impI)
  fix a assume a: "actor_ok C a"
  show "actor_ok C (snd (run_replica C ns snap err m a)) \<and> ac_id (snd (run_replica C ns snap err m a)) = ac_id a \<and>
      (store_step C P)\<^sup>*\<^sup>* (ac_store a) (ac_store (snd (run_replica C ns snap err m a)))"
  proof (cases "table_get (ac_states a) ns")
    case (Some st)
    obtain res r where m: "m (replica_at C snap st a) = (res, r)" by fastforce
    have "keeps_replica C (replica_at C snap st a) r" "replica_run C P (replica_at C snap st a) r"
      using assms(1) replica_at_ok(1)[OF a Some assms(2)] m by (auto simp: replica_sound_def)
    from replica_back_ok[OF a Some assms(2) this] show ?thesis
      using Some m by (simp add: run_replica_def states_get_def) (simp add: replica_back_def)
  qed (use a in \<open>simp add: run_replica_def states_get_def\<close>)
qed

lemma run_if_syncing_keeps:
  assumes "replica_sound C P m" "snap_ok C snap"
  shows "moves (actor_moves C P) (run_if_syncing C ns snap err m)"
  using run_replica_keeps[OF assms, unfolded moves_def] by (auto simp: moves_def run_if_syncing_def split: sum.splits)

lemma session_tables_ok:
  assumes "actor_ok C a" "session_tables a session ns = Inr t"
  shows "table_get (ac_sessions a) session = Some \<lparr>ss_namespace = ns, ss_tables = t\<rparr>" "tables_ok C t" "doc_authentic C t"
proof -
  obtain s where s: "table_get (ac_sessions a) session = Some s" "ss_namespace s = ns" "ss_tables s = t"
    using assms(2) by (auto simp: session_tables_def split: if_splits option.splits)
  show "table_get (ac_sessions a) session = Some \<lparr>ss_namespace = ns, ss_tables = t\<rparr>" using s by (cases s) auto
  show "tables_ok C t" "doc_authentic C t" using assms(1) s unfolding actor_ok_def sessions_ok_def by blast+
qed

lemma session_replica_keeps:
  assumes "replica_sound C P m"
  shows "moves (actor_moves C P) (session_replica C ns session err m)"
  unfolding moves_def
proof
  fix a
  show "actor_moves C P a (snd (session_replica C ns session err m a))"
  proof (cases "actor_ok C a")
    case True
    have "snap_ok C (Some t)" if "session_tables a session ns = Inr t" for t
      using session_tables_ok(2)[OF True that] by (simp add: snap_ok_def)
    then show ?thesis using run_if_syncing_keeps[OF assms, unfolded moves_def]
      by (auto simp: session_replica_def split: sum.splits)
  qed (simp add: actor_moves_def)
qed

lemma replica_ops_sound:
  assumes "crypto_ok C"
  shows "replica_sound C P (replica_insert C P alive now1 now2 key au hash len)"
    "replica_sound C P (delete_prefix C P alive now1 now2 key au)"
    "entry_ok e \<Longrightarrow> replica_sound C P (insert_remote_entry C P alive now1 e from status)"
    "replica_sound C P (sync_initial_message C filt)"
  using assms replica_insert_keeps delete_prefix_keeps insert_remote_entry_keeps sync_initial_keeps
    local_insert_run remote_insert_run sync_initial_run
  by (auto simp: replica_sound_def)

end
