(* ===== verification/Actor_Sessions.thy ===== *)
theory Actor_Sessions
  imports Actor_Laws
begin

text \<open>
  The actions of the actor one by one against the invariant, the main loop, and what clients of the
  actor can rely on: handles, sessions, upgrades of a capability, reclaiming, shutdown.
\<close>

section \<open>Opening and closing\<close>

lemma dom_table_get [simp]:
  "dom (table_get (table_insert k v t)) = insert k (dom (table_get t))"
  "dom (table_get (table_remove k t)) = dom (table_get t) - {k}"
  by (auto simp: table_get_insert table_get_remove split: if_splits)

lemma open_callbacks_simps [simp]:
  "ri_capability (open_callbacks a i) = ri_capability i" "ri_closed (open_callbacks a i) = ri_closed i"
  by (auto simp: open_callbacks_def set_content_status_callback_def set_capability_validator_def
      set_rejection_observer_def Let_def split: option.splits)

lemma info_subscribe_opt_simps [simp]:
  "ri_capability (info_subscribe_opt tx i) = ri_capability i" "ri_closed (info_subscribe_opt tx i) = ri_closed i"
  by (auto simp: info_subscribe_opt_def info_subscribe_def split: option.splits)

lemma sessions_ok_mono: "sessions_ok C i A ss \<Longrightarrow> A \<subseteq> B \<Longrightarrow> sessions_ok C i B ss"
  unfolding sessions_ok_def by blast

text \<open>Replacing what is known of a replica that is open.\<close>

lemma states_update_ok:
  assumes "actor_ok C a" "table_get (ac_states a) ns = Some st"
    "ri_capability (op_info st') = ri_capability (op_info st)" "ri_closed (op_info st') = ri_closed (op_info st)"
  shows "actor_ok C (a\<lparr>ac_states := table_insert ns st' (ac_states a)\<rparr>)"
proof -
  have "insert ns (dom (table_get (ac_states a))) = dom (table_get (ac_states a))" using assms(2) by auto
  then show ?thesis using assms by (auto simp: actor_ok_def table_insert_ok table_get_insert open_ok_def)
qed

lemma load_replica_eq:
  assumes "store_ok C s"
  obtains s' where "visible s' = visible s" "(store_step C P)\<^sup>*\<^sup>* s s'"
    "load_replica_info C ns s = (case stored_capability (visible s) ns of None \<Rightarrow> Inl NotFound | Some cap \<Rightarrow> Inr cap, s')"
    "st_open_replicas s' = (case stored_capability (visible s) ns of None \<Rightarrow> st_open_replicas s | Some _ \<Rightarrow> insert ns (st_open_replicas s))"
proof -
  have tx: "tx_ok s" and ok: "tables_ok C (visible s)" using assms by (simp_all add: store_ok_def)
  have n: "namespaces_ok C (t_namespaces (visible s))" using ok by (simp add: tables_ok_def)
  obtain u where u: "store_tables s = (visible s, u)" "visible u = visible s" "same_rest s u" by (rule store_tables_eq[OF tx])
  obtain r s' where l: "load_replica_info C ns s = (r, s')" by fastforce
  have step: "store_step C P s s'" using do_open[of C P s ns] l by (simp add: open_replica_def)
  have r: "r = (case stored_capability (visible s) ns of None \<Rightarrow> Inl NotFound | Some cap \<Rightarrow> Inr cap)"
    using open_replica_eq(1)[OF tx ok, of ns] l by (simp add: open_replica_def)
  have id: "capability_id C cap = ns" if "stored_capability (visible s) ns = Some cap" for cap
    using that namespaces_ok_get[OF n] by (metis stored_capability_eq sum.inject(2))
  have "visible s' = visible s \<and> st_open_replicas s' = (case stored_capability (visible s) ns of None \<Rightarrow> st_open_replicas s | Some _ \<Rightarrow> insert ns (st_open_replicas s))"
    using l u id r by (auto simp: load_replica_info_def same_rest_def split: option.splits sum.splits prod.splits)
  then show thesis using that step l r by blast
qed

lemma actor_open_moves: "length ns = 32 \<Longrightarrow> moves (actor_moves C P) (actor_open C ns opts)"
  unfolding moves_def actor_moves_def
proof (intro allI impI)
  fix a assume len: "length ns = 32" and a: "actor_ok C a"
  have ok: "store_ok C (ac_store a)" using a by (simp add: actor_ok_def)
  show "actor_ok C (snd (actor_open C ns opts a)) \<and> ac_id (snd (actor_open C ns opts a)) = ac_id a \<and>
      (store_step C P)\<^sup>*\<^sup>* (ac_store a) (ac_store (snd (actor_open C ns opts a)))"
  proof (cases "table_get (ac_states a) ns")
    case (Some st)
    then show ?thesis using states_update_ok[OF a Some] by (simp add: actor_open_def)
  next
    case None
    obtain s' where s': "visible s' = visible (ac_store a)" "(store_step C P)\<^sup>*\<^sup>* (ac_store a) s'"
      "load_replica_info C ns (ac_store a) = (case stored_capability (visible (ac_store a)) ns of None \<Rightarrow> Inl NotFound | Some cap \<Rightarrow> Inr cap, s')"
      "st_open_replicas s' = (case stored_capability (visible (ac_store a)) ns of None \<Rightarrow> st_open_replicas (ac_store a) | Some _ \<Rightarrow> insert ns (st_open_replicas (ac_store a)))"
      by (rule load_replica_eq[OF ok])
    have ok': "store_ok C s'" using history_store_ok[OF s'(2) ok] .
    show ?thesis
    proof (cases "stored_capability (visible (ac_store a)) ns")
      case None2: None
      then show ?thesis using None s' ok' a by (auto simp: actor_open_def actor_ok_def)
    next
      case (Some cap)
      let ?st = "\<lparr>op_info = info_subscribe_opt (oo_subscribe opts) (open_callbacks a (replica_info_new cap)),
                  op_sync = oo_sync opts, op_handles = 1\<rparr>"
      have "actor_ok C (a\<lparr>ac_store := s', ac_states := table_insert ns ?st (ac_states a)\<rparr>)"
        using a s' ok' Some len sessions_ok_mono[OF _ subset_insertI]
        by (auto simp: actor_ok_def table_insert_ok table_get_insert open_ok_def)
      then show ?thesis using None s' Some by (simp add: actor_open_def)
    qed
  qed
qed

lemma record_open_sessions_simps [simp]:
  "ac_store (record_open_sessions a) = ac_store a" "ac_states (record_open_sessions a) = ac_states a"
  "ac_sessions (record_open_sessions a) = ac_sessions a" "ac_id (record_open_sessions a) = ac_id a"
  "ac_next_session (record_open_sessions a) = ac_next_session a"
  "sync_sessions_open (ac_metrics (record_open_sessions a)) = length (ac_sessions a)"
  by (simp_all add: record_open_sessions_def)

lemma sessions_ok_filter: "sessions_ok C i A ss \<Longrightarrow> sessions_ok C i A (filter p ss)"
  unfolding sessions_ok_def by (auto simp: table_get_filter split: option.splits if_splits)

lemma close_replica_step: "(store_step C P)\<^sup>*\<^sup>* s (close_replica ns s)"
  using do_close by blast

lemma close_replica_simps [simp]:
  "visible (close_replica ns s) = visible s" "st_open_replicas (close_replica ns s) = st_open_replicas s - {ns}"
  "st_db (close_replica ns s) = st_db s"
  by (simp_all add: close_replica_def)

lemma actor_close_eq:
  "actor_close ns a =
     (case table_get (ac_states a) ns of
        Some st \<Rightarrow> if op_handles st \<noteq> 1 then (False, a\<lparr>ac_states := table_insert ns (st\<lparr>op_handles := op_handles st - 1\<rparr>) (ac_states a)\<rparr>)
          else (True, (record_open_sessions (a\<lparr>ac_states := table_remove ns (ac_states a),
             ac_sessions := filter (\<lambda>(_, s). ss_namespace s \<noteq> ns) (ac_sessions a)\<rparr>))\<lparr>ac_store := close_replica ns (ac_store a)\<rparr>)
      | None \<Rightarrow> (True, (record_open_sessions (a\<lparr>
             ac_sessions := filter (\<lambda>(_, s). ss_namespace s \<noteq> ns) (ac_sessions a)\<rparr>))\<lparr>ac_store := close_replica ns (ac_store a)\<rparr>))"
  by (simp add: actor_close_def states_close_def split: option.splits)

lemma actor_close_moves:
  assumes "actor_ok C a"
  shows "actor_moves C P a (snd (actor_close ns a))"
proof -
  let ?ss = "filter (\<lambda>(_, s). ss_namespace s \<noteq> ns) (ac_sessions a)"
  let ?b = "record_open_sessions (a\<lparr>ac_states := table_remove ns (ac_states a), ac_sessions := ?ss\<rparr>)"
  have ok: "store_ok C (close_replica ns (ac_store a))"
    using history_store_ok[OF close_replica_step] assms by (auto simp: actor_ok_def)
  have "sessions_ok C (ac_id a) (dom (table_get (ac_states a)) - {ns}) ?ss"
    using assms unfolding actor_ok_def sessions_ok_def by (auto simp: table_get_filter split: option.splits if_splits)
  then have closed: "actor_ok C (?b\<lparr>ac_store := close_replica ns (ac_store a)\<rparr>)"
    using assms ok by (auto simp: actor_ok_def table_remove_ok table_get_remove record_open_sessions_def split: if_splits)
  show ?thesis
  proof (cases "table_get (ac_states a) ns")
    case None
    then have "table_remove ns (ac_states a) = ac_states a" by (rule table_remove_absent)
    then show ?thesis using closed None close_replica_step by (simp add: actor_close_eq actor_moves_def)
  next
    case (Some st)
    then show ?thesis
      using closed close_replica_step states_update_ok[OF assms Some, of "st\<lparr>op_handles := op_handles st - 1\<rparr>"]
      by (simp add: actor_close_eq actor_moves_def)
  qed
qed

lemma change_state_moves:
  assumes "\<And>st. ri_capability (op_info (f st)) = ri_capability (op_info st)" "\<And>st. ri_closed (op_info (f st)) = ri_closed (op_info st)"
  shows "moves (actor_moves C P) (change_state ns f)"
  using states_update_ok[of C _ ns] assms
  by (auto simp: moves_def actor_moves_def change_state_def states_get_def split: option.splits)

section \<open>Importing and dropping a replica\<close>

lemma remove_replica_quiet:
  assumes "store_ok C s" "length ns = 32"
  shows "quiet_step C P s (snd (remove_replica ns s))"
proof (cases "ns \<in> st_open_replicas s")
  case False
  have tx: "tx_ok s" and rok: "table_ok (t_records (visible s))"
    using assms by (simp_all add: store_ok_def tables_ok_def records_ok_def)
  obtain r s' where m: "modify (remove_replica_tables ns) s = (r, s')" by fastforce
  have s': "visible s' = snd (remove_replica_tables ns (visible s))" "same_rest s s'"
    using modify_laws[OF tx m] by (auto simp: remove_replica_tables_def)
  have "store_step C P s s'" using do_remove_replica[OF assms(2), of C P s] m False by (simp add: remove_replica_def)
  moreover have "doc_map (visible s') \<subseteq>\<^sub>m doc_map (visible s)"
    by (auto simp: s' remove_replica_tables_def doc_map_def map_le_def table_retain_in_def table_get_filter[OF rok] split: option.splits if_splits)
  moreover have "stored_capability (visible s') n = stored_capability (visible s) n" if "n \<noteq> ns" for n
    using that by (simp add: s' remove_replica_tables_def stored_capability_def table_get_remove)
  ultimately show ?thesis using False s'(2) m
    by (simp add: quiet_step_def remove_replica_def same_rest_def r_into_rtranclp) metis
qed (simp add: remove_replica_def quiet_step_def)

lemma drop_replica_moves: "length ns = 32 \<Longrightarrow> moves (actor_moves C P) (drop_replica ns)"
proof (unfold moves_def, intro allI)
  fix a assume len: "length ns = 32"
  obtain closed b where b: "actor_close ns a = (closed, b)" by fastforce
  have rm: "moves (actor_moves C P) (on_actor_store ErrStore (remove_replica ns))"
    using on_actor_store_moves remove_replica_quiet[OF _ len] by blast
  show "actor_moves C P a (snd (drop_replica ns a))"
  proof (cases "actor_ok C a")
    case True
    then have "actor_moves C P a b" using actor_close_moves b by (metis snd_conv)
    then show ?thesis using rm b actor_trace.rel_trans by (auto simp: drop_replica_def moves_def)
  qed (simp add: actor_moves_def)
qed

lemma import_namespace_eq:
  assumes "store_ok C s"
  obtains out s' where "import_namespace C cap s = (Inr out, s')" "(store_step C P)\<^sup>*\<^sup>* s s'"
    "st_open_replicas s' = st_open_replicas s" "doc_map (visible s') = doc_map (visible s)"
    "\<And>n. stored_capability (visible s') n = (if n = capability_id C cap
       then Some (case stored_capability (visible s) n of None \<Rightarrow> cap | Some old \<Rightarrow> snd (capability_merge C old cap))
       else stored_capability (visible s) n)"
    "out = ImportUpgraded \<longleftrightarrow> (\<exists>old. stored_capability (visible s) (capability_id C cap) = Some old \<and> fst (capability_merge C old cap) = Inr True)"
proof -
  let ?i = "capability_id C cap" and ?t = "visible s"
  have tx: "tx_ok s" and n: "namespaces_ok C (t_namespaces (visible s))" using assms by (simp_all add: store_ok_def tables_ok_def)
  define cap' where "cap' = (case stored_capability ?t ?i of None \<Rightarrow> cap | Some old \<Rightarrow> snd (capability_merge C old cap))"
  define out where "out = (case stored_capability ?t ?i of None \<Rightarrow> ImportInserted
    | Some old \<Rightarrow> if fst (capability_merge C old cap) = Inr True then ImportUpgraded else ImportNoChange)"
  have f: "import_namespace_tables C cap ?t = (Inr out, ?t\<lparr>t_namespaces := table_insert ?i (capability_raw cap') (t_namespaces ?t)\<rparr>)"
    using import_namespace_tables_eq[OF n, of cap] by (simp add: cap'_def out_def split: option.splits)
  obtain s' where s': "modify (import_namespace_tables C cap) s = (Inr out, s')"
    "visible s' = ?t\<lparr>t_namespaces := table_insert ?i (capability_raw cap') (t_namespaces ?t)\<rparr>" "same_rest s s'"
    by (rule modify_eq[where f = "import_namespace_tables C cap", OF tx f])
  have step: "store_step C P s s'" using do_import_namespace[of C P s cap] s'(1) by (simp add: import_namespace_def)
  show thesis
  proof (rule that[of out s'])
    show "import_namespace C cap s = (Inr out, s')" using s'(1) by (simp add: import_namespace_def)
    show "stored_capability (visible s') n = (if n = ?i then Some (case stored_capability ?t n of None \<Rightarrow> cap
        | Some old \<Rightarrow> snd (capability_merge C old cap)) else stored_capability ?t n)" for n
      by (simp add: s'(2) stored_capability_def[of "_\<lparr>t_namespaces := _\<rparr>"] table_get_insert cap'_def) (simp add: stored_capability_def)
  qed (use step s'(2,3) in \<open>auto simp: same_rest_def doc_map_def out_def split: option.splits\<close>)
qed

lemma merge_unchanged: "fst (capability_merge C old cap) \<noteq> Inr True \<Longrightarrow> snd (capability_merge C old cap) = old"
  by (cases old; cases cap) (auto simp: capability_merge_def)

text \<open>An import keeps the invariant because an upgrade is merged into the open replica as well.\<close>

lemma import_action_moves: "moves (actor_moves C P) (import_namespace_action C cap)"
  unfolding moves_def actor_moves_def
proof (intro allI impI)
  fix a assume a: "actor_ok C a"
  let ?i = "capability_id C cap" and ?r = "import_namespace_action C cap a"
  have ok: "store_ok C (ac_store a)" using a by (simp add: actor_ok_def)
  obtain out s' where s': "import_namespace C cap (ac_store a) = (Inr out, s')" "(store_step C P)\<^sup>*\<^sup>* (ac_store a) s'"
    "st_open_replicas s' = st_open_replicas (ac_store a)" "doc_map (visible s') = doc_map (visible (ac_store a))"
    "\<And>n. stored_capability (visible s') n = (if n = ?i
       then Some (case stored_capability (visible (ac_store a)) n of None \<Rightarrow> cap | Some old \<Rightarrow> snd (capability_merge C old cap))
       else stored_capability (visible (ac_store a)) n)"
    "out = ImportUpgraded \<longleftrightarrow> (\<exists>old. stored_capability (visible (ac_store a)) ?i = Some old \<and> fst (capability_merge C old cap) = Inr True)"
    by (rule import_namespace_eq[OF ok, of cap P]) blast
  have ok': "store_ok C s'" using history_store_ok[OF s'(2) ok] .
  have auth: "doc_authentic C (visible s')" using a s'(4) by (simp add: actor_ok_def doc_authentic_def)
  show "actor_ok C (snd ?r) \<and> ac_id (snd ?r) = ac_id a \<and> (store_step C P)\<^sup>*\<^sup>* (ac_store a) (ac_store (snd ?r))"
  proof (cases "out = ImportUpgraded \<and> table_get (ac_states a) ?i \<noteq> None")
    case False
    have "open_ok (visible s') n st" if "table_get (ac_states a) n = Some st" for n st
      using actor_states_get(1)[OF a that] that False s'(5)[of n] s'(6) merge_unchanged[of C "ri_capability (op_info st)" cap]
      by (auto simp: open_ok_def)
    then show ?thesis using a False s' ok' auth
      by (auto simp: import_namespace_action_def Let_def op_bind_def on_actor_store_def actor_ok_def split: option.splits)
  next
    case True
    then obtain st where st: "table_get (ac_states a) ?i = Some st" by auto
    let ?st = "st\<lparr>op_info := (op_info st)\<lparr>ri_capability := snd (capability_merge C (ri_capability (op_info st)) cap)\<rparr>\<rparr>"
    have old: "stored_capability (visible (ac_store a)) ?i = Some (ri_capability (op_info st))"
      using actor_states_get(1)[OF a st] by (simp add: open_ok_def)
    have dom: "insert ?i (dom (table_get (ac_states a))) = dom (table_get (ac_states a))" using st by auto
    have "actor_ok C (a\<lparr>ac_store := s', ac_states := table_insert ?i ?st (ac_states a)\<rparr>)"
      using a ok' auth s' old dom actor_states_get(1)[OF a st]
      by (auto simp: actor_ok_def table_insert_ok table_get_insert open_ok_def)
    then show ?thesis using True st s'
      by (auto simp: import_namespace_action_def Let_def op_bind_def on_actor_store_def merge_capability_def split: prod.splits)
  qed
qed

section \<open>Sessions\<close>

lemma session_start_eq:
  assumes "actor_ok C a" "table_get (ac_states a) ns = Some st" "op_sync st"
  shows "session_start ns a = (Inr (ac_id a, ac_next_session a), record_open_sessions (a\<lparr>ac_store := flush (ac_store a),
      ac_next_session := ac_next_session a + 1, ac_sessions := table_insert (ac_id a, ac_next_session a)
        \<lparr>ss_namespace = ns, ss_tables = visible (ac_store a)\<rparr> (ac_sessions a)\<rparr>))"
proof -
  have tx: "tx_ok (ac_store a)" using assms(1) by (simp add: actor_ok_def store_ok_def)
  show ?thesis using assms(2,3) flush_laws(2)[OF tx]
    by (simp add: session_start_def states_ensure_syncing_def states_get_def rbind_def snapshot_owned_def Let_def)
qed

lemma session_start_moves: "moves (actor_moves C P) (session_start ns)"
  unfolding moves_def actor_moves_def
proof (intro allI impI)
  fix a assume a: "actor_ok C a"
  show "actor_ok C (snd (session_start ns a)) \<and> ac_id (snd (session_start ns a)) = ac_id a \<and>
      (store_step C P)\<^sup>*\<^sup>* (ac_store a) (ac_store (snd (session_start ns a)))"
  proof (cases "\<exists>st. table_get (ac_states a) ns = Some st \<and> op_sync st")
    case True
    then obtain st where st: "table_get (ac_states a) ns = Some st" "op_sync st" by blast
    have ok: "store_ok C (ac_store a)" using a by (simp add: actor_ok_def)
    note flushed = quiet_actor[OF a quiet_reads(4)[OF ok, of P]]
    have "sessions_ok C (ac_id a) (dom (table_get (ac_states a)))
        (table_insert (ac_id a, ac_next_session a) \<lparr>ss_namespace = ns, ss_tables = visible (ac_store a)\<rparr> (ac_sessions a))"
      using a st(1) ok unfolding actor_ok_def sessions_ok_def store_ok_def by (auto simp: table_insert_ok table_get_insert)
    then show ?thesis using flushed by (simp add: session_start_eq[OF a st]) (simp add: actor_ok_def record_open_sessions_def)
  qed (use a in \<open>auto simp: session_start_def states_ensure_syncing_def states_get_def rbind_def split: option.splits\<close>)
qed

lemma session_end_moves: "actor_moves C P a (session_end session a)"
proof -
  have "sessions_ok C i A (table_remove session ss)" if "sessions_ok C i A ss" for i A ss
    using that sessions_ok_filter[OF that, of "\<lambda>row. fst row \<noteq> session"] by (simp add: table_remove_def case_prod_beta)
  then show ?thesis by (auto simp: actor_moves_def session_end_def actor_ok_def record_open_sessions_def)
qed

lemma reclaim_moves: "actor_moves C P a (reclaim_abandoned_sessions held now a)"
  by (auto simp: actor_moves_def reclaim_abandoned_sessions_def actor_ok_def record_open_sessions_def Let_def
      intro: sessions_ok_filter)

section \<open>All actions\<close>

lemma op_reply_moves: "moves (actor_moves C P) m \<Longrightarrow> moves (actor_moves C P) (op_reply f m)"
  unfolding op_reply_def by (intro actor_trace.moves_bind actor_trace.moves_pure)

lemma when_open_moves: "moves (actor_moves C P) m \<Longrightarrow> moves (actor_moves C P) (when_open ns m)"
  by (auto simp: moves_def when_open_def split: sum.splits)

lemma op_update_moves: "(\<And>a. actor_moves C P a (f a)) \<Longrightarrow> moves (actor_moves C P) (op_update f)"
  by (simp add: moves_def op_update_def)

lemma count_moves: "actor_moves C P a (count_local len a)" "actor_moves C P a (count_remote len a)"
  by (simp_all add: actor_moves_def actor_ok_def count_local_def count_remote_def)

lemma get_author_moves: "moves (actor_moves C P) (actor_get_author i)"
  unfolding actor_get_author_def by (intro actor_trace.moves_bind read_moves) (auto split: option.splits)

lemma insert_moves:
  assumes "crypto_ok C" "ev_policy_codec ev = P"
  shows "moves (actor_moves C P) (insert_local C ev ns author key hash len)"
    "moves (actor_moves C P) (delete_local C ev ns author key)"
    "entry_ok e \<Longrightarrow> moves (actor_moves C P) (insert_remote C ev ns e from status)"
proof -
  have live: "snap_ok C None" by (simp add: snap_ok_def)
  show "moves (actor_moves C P) (insert_local C ev ns author key hash len)"
    unfolding insert_local_def assms(2)
    by (intro actor_trace.moves_bind get_author_moves run_replica_keeps replica_ops_sound assms live op_update_moves count_moves)
  show "moves (actor_moves C P) (delete_local C ev ns author key)"
    unfolding delete_local_def assms(2)
    by (intro actor_trace.moves_bind get_author_moves run_replica_keeps replica_ops_sound assms live)
  show "entry_ok e \<Longrightarrow> moves (actor_moves C P) (insert_remote C ev ns e from status)"
    unfolding insert_remote_def assms(2)
    by (intro actor_trace.moves_bind run_if_syncing_keeps replica_ops_sound assms live op_update_moves count_moves)
qed

lemma session_process_moves:
  assumes "message_ok msg" "ev_policy_codec ev = P"
  shows "moves (actor_moves C P) (session_process C ev ns msg from outcome session filt)"
  unfolding session_process_def assms(2)
proof (rule session_replica_keeps)
  let ?m = "\<lambda>r. sync_process_message C P (ev_alive ev) (ev_now1 ev) msg from filt (r, outcome)"
  have "snd (case ?m r of (Inl e, (r', _)) \<Rightarrow> (Inl e, r') | (Inr reply, (r', outcome')) \<Rightarrow> (Inr (reply, outcome'), r')) = fst (snd (?m r))" for r
    by (auto split: prod.splits sum.splits)
  then show "replica_sound C P (\<lambda>r. case ?m r of (Inl e, (r', _)) \<Rightarrow> (Inl e, r') | (Inr reply, (r', outcome')) \<Rightarrow> (Inr (reply, outcome'), r'))"
    unfolding replica_sound_def using sync_process_keeps[OF _ assms(1)] sync_process_run[OF assms(1)] by presburger
qed

text \<open>Identifiers are 32 bytes, and what arrives from a peer was decoded into entries and ranges of such.\<close>

fun replica_action_ok :: "replica_action \<Rightarrow> bool" where
  "replica_action_ok (ActInsertRemote e from status) \<longleftrightarrow> entry_ok e"
| "replica_action_ok (ActSyncProcessMessage msg from outcome session filt) \<longleftrightarrow> message_ok msg"
| "replica_action_ok _ \<longleftrightarrow> True"

fun action_ok :: "action \<Rightarrow> bool" where
  "action_ok (ActReplica ns act) \<longleftrightarrow> length ns = 32 \<and> replica_action_ok act"
| "action_ok _ \<longleftrightarrow> True"

lemma change_moves:
  "moves (actor_moves C P) (change_state ns (\<lambda>st. st\<lparr>op_info := info_subscribe tx (op_info st)\<rparr>))"
  "moves (actor_moves C P) (change_state ns (\<lambda>st. st\<lparr>op_info := info_unsubscribe tx (op_info st)\<rparr>))"
  "moves (actor_moves C P) (change_state ns (\<lambda>st. st\<lparr>op_sync := sync\<rparr>))"
  by (rule change_state_moves; simp add: info_subscribe_def info_unsubscribe_def)+

lemma reply_at: "moves (actor_moves C P) m \<Longrightarrow> actor_moves C P a (snd (op_reply f m a))"
  using op_reply_moves[of C P m f] by (simp add: moves_def)

lemma pure_reply_at: "actor_moves C P a (snd (op_reply f (op_lift r) a))"
  by (rule reply_at) auto

lemma actor_close_at: "actor_moves C P a (snd (case actor_close ns a of (res, a') \<Rightarrow> (Inr (ReplyBool res), a')))"
  using actor_close_moves[of C a P ns] by (cases "actor_ok C a") (auto simp: actor_moves_def case_prod_beta)

lemmas action_moves = reply_at pure_reply_at actor_close_at actor_open_moves session_start_moves session_replica_keeps
  session_process_moves read_moves write_moves change_moves drop_replica_moves insert_moves replica_ops_sound when_open_moves
  import_action_moves session_end_moves

lemma replica_action_moves:
  assumes "crypto_ok C" "ev_policy_codec ev = P" "length ns = 32" "replica_action_ok act"
  shows "actor_moves C P a (snd (on_replica_action C ev ns act a))"
  using assms by (cases act) (simp_all add: action_moves)

lemma flush_moves: "actor_moves C P a (a\<lparr>ac_store := flush (ac_store a)\<rparr>)"
proof -
  have "quiet_step C P (ac_store a) (flush (ac_store a))" if "actor_ok C a"
    using that quiet_reads(4) by (simp add: actor_ok_def)
  then show ?thesis using quiet_actor[of C a P] by (simp add: actor_moves_def)
qed

lemma on_action_moves:
  assumes "crypto_ok C" "ev_policy_codec ev = P" "action_ok act"
  shows "actor_moves C P a (snd (on_action C ev act a))"
proof (cases act)
  case ActFlushStore
  show ?thesis by (simp add: ActFlushStore flush_moves)
qed (use assms in \<open>simp_all add: action_moves replica_action_moves\<close>)

section \<open>The main loop\<close>

fun input_ok :: "download_policy postcard \<Rightarrow> actor_input \<Rightarrow> bool" where
  "input_ok P (InAction ev held now act) \<longleftrightarrow> ev_policy_codec ev = P \<and> action_ok act"
| "input_ok P _ \<longleftrightarrow> True"

lemma tick_moves: "actor_moves C P a (actor_tick held now a)"
  unfolding actor_tick_def
  by (rule actor_trace.rel_trans[OF _ reclaim_moves]) (simp add: actor_moves_def actor_ok_def)

lemma fold_close:
  "visible (fold close_replica ids s) = visible s \<and> st_db (fold close_replica ids s) = st_db s \<and>
   st_open_replicas (fold close_replica ids s) = st_open_replicas s - set ids \<and> (store_step C P)\<^sup>*\<^sup>* s (fold close_replica ids s)"
proof (induction ids arbitrary: s)
  case (Cons i ids)
  have "(store_step C P)\<^sup>*\<^sup>* s (fold close_replica ids (close_replica i s))"
    using rtranclp_trans[OF close_replica_step[of C P s i]] Cons[of "close_replica i s"] by blast
  moreover have "st_open_replicas s - set (i # ids) = st_open_replicas s - {i} - set ids" by auto
  ultimately show ?case using Cons[of "close_replica i s"] by simp
qed simp

lemma close_all_moves: "actor_moves C P a (actor_close_all a)"
proof -
  have dom: "dom (table_get (ac_states a)) = set (map fst (ac_states a))"
    using table_get_None_iff[of "ac_states a"] by (auto simp: set_eq_iff domIff simp del: not_None_eq)
  have "store_ok C (fold close_replica ids s)" if "store_ok C s" for ids s
    using fold_close[of ids s C P] history_store_ok that by blast
  then show ?thesis using fold_close[of "map fst (ac_states a)" "ac_store a" C P] dom
    by (auto simp: actor_moves_def actor_close_all_def actor_ok_def record_open_sessions_def Let_def sessions_ok_def table_get_def)
qed

lemma finish_moves: "actor_moves C P a (actor_finish a)"
  unfolding actor_finish_def by (rule actor_trace.rel_trans[OF flush_moves close_all_moves])

text \<open>One input of the loop: the actor after it, and whether the loop goes on.\<close>

lemma run_async_moves:
  assumes "crypto_ok C" "\<forall>i \<in> set inputs. input_ok P i"
  shows "actor_moves C P a (snd (run_async C inputs a))"
  using assms(2)
proof (induction inputs arbitrary: a)
  case (Cons i rest)
  then have rest: "actor_moves C P b (snd (run_async C rest b))" and i: "input_ok P i" for b by auto
  show ?case
  proof (cases i)
    case (InTimeout held now)
    let ?b = "reclaim_abandoned_sessions held now a"
    have "actor_moves C P a (?b\<lparr>ac_store := flush (ac_store ?b)\<rparr>)" by (rule actor_trace.rel_trans[OF reclaim_moves flush_moves])
    then show ?thesis using actor_trace.rel_trans[OF _ rest] by (simp add: InTimeout Let_def)
  next
    case (InAction ev held now act)
    obtain reply b where b: "on_action C ev act (actor_tick held now a) = (reply, b)" by fastforce
    have "actor_moves C P (actor_tick held now a) b"
      using on_action_moves[OF assms(1), of ev P act "actor_tick held now a"] i b by (simp add: InAction)
    then have "actor_moves C P a b" using actor_trace.rel_trans[OF tick_moves] by blast
    then have "actor_moves C P a (snd (run_async C rest b))" using actor_trace.rel_trans rest by blast
    then show ?thesis by (simp add: InAction b case_prod_beta)
  next
    case (InShutdown held now)
    then show ?thesis using actor_trace.rel_trans[OF tick_moves finish_moves] by simp
  qed (simp_all add: rest finish_moves)
qed simp

end
