(* ===== verification/Actor_Props.thy ===== *)
theory Actor_Props
  imports Actor_Sessions
begin

text \<open>
  What clients of the actor can rely on: the invariant over whole runs of the main loop, sessions that
  serve a frozen view, counted handles, capability upgrades, reclaiming and shutdown.
\<close>

section \<open>Runs\<close>

lemma spawn_ok:
  assumes "store_ok C s" "doc_authentic C (visible s)" "st_open_replicas s = {}"
  shows "actor_ok C (actor_spawn i now s cb v ob)"
  using assms by (auto simp: actor_ok_def actor_spawn_def sessions_ok_def table_get_def metrics_default_def)

text \<open>C1. The actor invariant, for every run of the main loop from a fresh actor over a store with no open replica: the open
  replicas are those the store has marked open, each with the capability that is stored for it; every
  registered session was issued by this actor, belongs to an open replica and holds a well-formed
  snapshot of authentic entries; the gauge counts the sessions; every stored entry is authentic; and
  the store has made nothing but store steps, so it is crash consistent.\<close>

theorem actor_run_invariant:
  assumes "crypto_ok C" "store_ok C s" "doc_authentic C (visible s)" "st_open_replicas s = {}"
    "\<forall>i \<in> set inputs. input_ok P i"
  shows "actor_ok C (snd (run_async C inputs (actor_spawn i now s cb v ob))) \<and>
    (store_step C P)\<^sup>*\<^sup>* s (ac_store (snd (run_async C inputs (actor_spawn i now s cb v ob))))"
  using run_async_moves[OF assms(1,5), of "actor_spawn i now s cb v ob"] spawn_ok[OF assms(2-4), of i now cb v ob]
  by (simp add: actor_moves_def) (simp add: actor_spawn_def)

lemma finish_eq:
  assumes "actor_ok C a"
  shows "visible (ac_store (actor_finish a)) = visible (ac_store a)" "st_db (ac_store (actor_finish a)) = visible (ac_store a)"
    "st_open_replicas (ac_store (actor_finish a)) = {}" "ac_sessions (actor_finish a) = []" "ac_states (actor_finish a) = []"
proof -
  let ?s = "flush (ac_store a)"
  have tx: "tx_ok (ac_store a)" using assms by (simp add: actor_ok_def store_ok_def)
  have "set (map fst (ac_states a)) = dom (table_get (ac_states a))"
    using table_get_None_iff[of "ac_states a"] by (auto simp: set_eq_iff domIff simp del: not_None_eq)
  then have "st_open_replicas ?s - set (map fst (ac_states a)) = {}"
    using assms flush_laws(5)[OF tx] by (simp add: actor_ok_def same_rest_def)
  then show "visible (ac_store (actor_finish a)) = visible (ac_store a)" "st_db (ac_store (actor_finish a)) = visible (ac_store a)"
    "st_open_replicas (ac_store (actor_finish a)) = {}" "ac_sessions (actor_finish a) = []" "ac_states (actor_finish a) = []"
    using fold_close[of "map fst (ac_states a)" ?s] flush_laws[OF tx]
    by (simp_all add: actor_finish_def actor_close_all_def Let_def)
qed

text \<open>C23. Shutting down, on request or because every sender is gone, makes everything written so far durable, closes every
  replica and releases every snapshot; what the client saw is what is on disk. Inputs after it are not processed.\<close>

theorem shutdown_durable:
  assumes "actor_ok C a" "i = InDisconnected \<or> i = InShutdown held now"
  shows "fst (run_async C (i # rest) a) = [] \<and>
    (let a' = snd (run_async C (i # rest) a) in
      visible (ac_store a') = visible (ac_store a) \<and> st_db (ac_store a') = visible (ac_store a) \<and>
      st_open_replicas (ac_store a') = {} \<and> ac_states a' = [] \<and> ac_sessions a' = [])"
proof -
  have ok: "actor_ok C (actor_tick held now a)" using tick_moves[of C undefined a held now] assms(1) by (simp add: actor_moves_def)
  have "ac_store (actor_tick held now a) = ac_store a"
    by (simp add: actor_tick_def reclaim_abandoned_sessions_def Let_def)
  then show ?thesis using assms finish_eq[OF ok] finish_eq[OF assms(1)] by (auto simp: Let_def)
qed

section \<open>Handles\<close>

definition handles_of :: "namespace_id \<Rightarrow> actor \<Rightarrow> u64 option" where
  "handles_of ns a = map_option op_handles (table_get (ac_states a) ns)"

lemma open_handles:
  assumes "actor_ok C a" "length ns = 32" "stored_capability (visible (ac_store a)) ns \<noteq> None"
  shows "fst (actor_open C ns opts a) = Inr ()"
    "handles_of ns (snd (actor_open C ns opts a)) = Some (case handles_of ns a of None \<Rightarrow> 1 | Some h \<Rightarrow> h + 1)"
    "visible (ac_store (snd (actor_open C ns opts a))) = visible (ac_store a)"
proof -
  have ok: "store_ok C (ac_store a)" using assms(1) by (simp add: actor_ok_def)
  obtain s' where "visible s' = visible (ac_store a)" "(store_step C undefined)\<^sup>*\<^sup>* (ac_store a) s'"
    "load_replica_info C ns (ac_store a) = (case stored_capability (visible (ac_store a)) ns of None \<Rightarrow> Inl NotFound | Some cap \<Rightarrow> Inr cap, s')"
    by (rule load_replica_eq[OF ok, of undefined ns]) blast
  then show "fst (actor_open C ns opts a) = Inr ()"
    "handles_of ns (snd (actor_open C ns opts a)) = Some (case handles_of ns a of None \<Rightarrow> 1 | Some h \<Rightarrow> h + 1)"
    "visible (ac_store (snd (actor_open C ns opts a))) = visible (ac_store a)"
    using assms(3) by (auto simp: actor_open_def handles_of_def table_get_insert Let_def split: option.splits)
qed

lemma close_handles:
  "fst (actor_close ns a) \<longleftrightarrow> handles_of ns a = None \<or> handles_of ns a = Some 1"
  "handles_of ns (snd (actor_close ns a)) = (if handles_of ns a = Some 1 then None else map_option (\<lambda>h. h - 1) (handles_of ns a))"
  by (auto simp: actor_close_eq handles_of_def table_get_insert table_get_remove record_open_sessions_def split: option.splits)

definition opens :: "crypto \<Rightarrow> namespace_id \<Rightarrow> open_opts \<Rightarrow> nat \<Rightarrow> actor \<Rightarrow> actor" where
  "opens C ns opts n = (\<lambda>a. snd (actor_open C ns opts a)) ^^ n"

definition closes :: "namespace_id \<Rightarrow> nat \<Rightarrow> actor \<Rightarrow> actor" where
  "closes ns n = (\<lambda>a. snd (actor_close ns a)) ^^ n"

lemma opens_handles:
  assumes "actor_ok C a" "length ns = 32" "stored_capability (visible (ac_store a)) ns \<noteq> None" "handles_of ns a = None"
  shows "actor_ok C (opens C ns opts n a) \<and> visible (ac_store (opens C ns opts n a)) = visible (ac_store a) \<and>
    handles_of ns (opens C ns opts n a) = (if n = 0 then None else Some (of_nat n))"
proof (induction n)
  case (Suc n)
  let ?b = "opens C ns opts n a"
  have "actor_ok C (snd (actor_open C ns opts ?b))"
    using actor_open_moves[OF assms(2), of C undefined opts] Suc by (simp add: moves_def actor_moves_def)
  then show ?case using Suc open_handles[of C ?b ns opts] assms(2,3) by (auto simp: opens_def split: if_splits)
qed (use assms in \<open>simp add: opens_def\<close>)

lemma of_nat_one: "k < 2 ^ 64 \<Longrightarrow> (of_nat k :: u64) = 1 \<longleftrightarrow> k = 1"
  using word_of_nat_eq_iff[of k 1, where 'a = 64] by (simp add: take_bit_nat_def)

lemma closes_handles:
  assumes "handles_of ns a = Some (of_nat n)" "n < 2 ^ 64" "m \<le> n" "actor_ok C a"
  shows "handles_of ns (closes ns m a) = (if m = n \<and> 0 < n then None else Some (of_nat (n - m))) \<and> actor_ok C (closes ns m a) \<and>
    visible (ac_store (closes ns m a)) = visible (ac_store a)"
  using assms(3)
proof (induction m)
  case (Suc m)
  let ?b = "closes ns m a"
  have b: "handles_of ns ?b = Some (of_nat (n - m))" "actor_ok C ?b" "visible (ac_store ?b) = visible (ac_store a)" using Suc by auto
  have one: "(of_nat (n - m) :: u64) = 1 \<longleftrightarrow> n = Suc m" using of_nat_one[of "n - m"] assms(2) Suc.prems by auto
  have sub: "(of_nat (n - m) :: u64) - 1 = of_nat (n - Suc m)" using Suc.prems Suc_diff_Suc[of m n] by (metis Suc_le_lessD add_diff_cancel_left' of_nat_Suc)
  have "actor_ok C (snd (actor_close ns ?b))" using actor_close_moves[OF b(2), of undefined ns] b(2) by (simp add: actor_moves_def)
  moreover have "visible (ac_store (snd (actor_close ns ?b))) = visible (ac_store ?b)"
    by (auto simp: actor_close_eq split: option.splits)
  ultimately show ?case using close_handles(2)[of ns ?b] b one sub by (auto simp: closes_def)
qed (use assms(1,4) in \<open>auto simp: closes_def\<close>)

text \<open>Handles are counted. Opening a known namespace n times (fewer than 2^64) and closing it fewer times leaves it open with
  the difference as its count; the n-th close closes it: it is open neither for the actor nor for the
  store, no session of it is left, and its data is as before.\<close>

theorem open_close_balance:
  assumes "actor_ok C a" "length ns = 32" "stored_capability (visible (ac_store a)) ns \<noteq> None" "handles_of ns a = None"
    "0 < n" "n < 2 ^ 64" "m \<le> n"
  shows "(m < n \<longrightarrow> handles_of ns (closes ns m (opens C ns opts n a)) = Some (of_nat (n - m))) \<and>
    (m = n \<longrightarrow> handles_of ns (closes ns m (opens C ns opts n a)) = None \<and>
       ns \<notin> st_open_replicas (ac_store (closes ns m (opens C ns opts n a))) \<and>
       (\<forall>i s. table_get (ac_sessions (closes ns m (opens C ns opts n a))) i = Some s \<longrightarrow> ss_namespace s \<noteq> ns)) \<and>
    visible (ac_store (closes ns m (opens C ns opts n a))) = visible (ac_store a)"
proof -
  let ?b = "opens C ns opts n a" and ?c = "closes ns m (opens C ns opts n a)"
  have b: "actor_ok C ?b" "visible (ac_store ?b) = visible (ac_store a)" "handles_of ns ?b = Some (of_nat n)"
    using opens_handles[OF assms(1-4)] assms(5) by auto
  note c = closes_handles[OF b(3) assms(6,7) b(1)]
  have closed: "ns \<notin> st_open_replicas (ac_store ?c) \<and> (\<forall>i s. table_get (ac_sessions ?c) i = Some s \<longrightarrow> ss_namespace s \<noteq> ns)"
    if "handles_of ns ?c = None"
    using c that unfolding actor_ok_def sessions_ok_def handles_of_def by (metis domIff option.map_disc_iff)
  show ?thesis using b c closed assms(5) by auto
qed

section \<open>Capability upgrades\<close>

text \<open>Importing a write capability for a replica that is open read-only takes effect at once: the stored capability and the
  one of the open replica both become the imported one, so exporting the secret then succeeds.\<close>

theorem upgrade_reaches_open_replica:
  assumes "actor_ok C a" "table_get (ac_states a) ns = Some st" "kind_of_capability (ri_capability (op_info st)) = KindRead"
    "namespace_id C secret = ns" "on_action C ev (ActImportNamespace (Write secret)) a = (res, a')"
  shows "res = Inr (ReplyNamespace ns) \<and> stored_capability (visible (ac_store a')) ns = Some (Write secret) \<and>
    fst (on_action C ev (ActReplica ns ActExportSecretKey) a') = Inr (ReplySecret secret)"
proof -
  let ?cap = "ri_capability (op_info st)"
  have ok: "store_ok C (ac_store a)" using assms(1) by (simp add: actor_ok_def)
  have st: "stored_capability (visible (ac_store a)) ns = Some ?cap" "capability_id C ?cap = ns"
    using actor_states_get[OF assms(1,2)] by (auto simp: open_ok_def)
  have merge: "capability_merge C ?cap (Write secret) = (Inr True, Write secret)"
    using assms(3,4) st(2) by (cases ?cap) (auto simp: capability_merge_def)
  obtain out s' where s': "import_namespace C (Write secret) (ac_store a) = (Inr out, s')"
    "stored_capability (visible s') ns = Some (Write secret)" "out = ImportUpgraded"
    using import_namespace_eq[OF ok, of "Write secret" undefined] st merge assms(4) by (metis capability_id.simps(1) fst_conv option.simps(5) snd_conv)
  then show ?thesis using assms(2,4,5) merge
    by (auto simp: op_reply_def op_bind_def op_return_def op_lift_def import_namespace_action_def on_actor_store_def
        merge_capability_def export_secret_key_def states_get_def rbind_def table_get_insert)
qed

section \<open>Reclaiming\<close>

text \<open>The reclaim pass never drops the snapshot of a session somebody holds; when it is due it drops every other one, and
  counts them; when it is not due it does nothing.\<close>

theorem reclaim_spares_held:
  assumes "actor_ok C a"
  shows "let a' = reclaim_abandoned_sessions held now a in
    (\<forall>i. held i \<longrightarrow> table_get (ac_sessions a') i = table_get (ac_sessions a) i) \<and>
    (MAX_COMMIT_DELAY \<le> now - ac_last_sweep a \<longrightarrow>
       (\<forall>i. \<not> held i \<longrightarrow> table_get (ac_sessions a') i = None) \<and>
       sync_sessions_reclaimed (ac_metrics a') + length (ac_sessions a') =
         sync_sessions_reclaimed (ac_metrics a) + length (ac_sessions a)) \<and>
    (now - ac_last_sweep a < MAX_COMMIT_DELAY \<longrightarrow> a' = a)"
proof -
  have ok: "table_ok (ac_sessions a)" using assms by (simp add: actor_ok_def sessions_ok_def)
  have le: "x + length (ac_sessions a) - length (filter p (ac_sessions a)) + length (filter p (ac_sessions a)) =
      x + length (ac_sessions a)" for p x using length_filter_le[of p "ac_sessions a"] by linarith
  show ?thesis
    by (auto simp: reclaim_abandoned_sessions_def Let_def record_open_sessions_def table_get_filter[OF ok] le
        table_get_def[of "[]"] split: option.splits)
qed

section \<open>Sessions\<close>

lemma session_replica_refused:
  assumes "fst session \<noteq> ac_id a \<or> (\<forall>s. table_get (ac_sessions a) session = Some s \<longrightarrow> ss_namespace s \<noteq> ns) \<or>
    (\<forall>st. table_get (ac_states a) ns = Some st \<longrightarrow> \<not> op_sync st)"
  shows "\<exists>e. op_reply f (session_replica C ns session err m) a = (Inl e, a)"
  using assms
  by (auto simp: op_reply_def op_bind_def session_replica_def session_tables_def run_if_syncing_def states_ensure_syncing_def
      states_get_def rbind_def split: option.splits sum.splits)

text \<open>A session message is refused, and nothing at all changes, when the session was issued by another actor, is not
  registered any more, belongs to another namespace, or when the replica is closed or not syncing.\<close>

theorem stray_session_refused:
  assumes "fst session \<noteq> ac_id a \<or> (\<forall>s. table_get (ac_sessions a) session = Some s \<longrightarrow> ss_namespace s \<noteq> ns) \<or>
    (\<forall>st. table_get (ac_states a) ns = Some st \<longrightarrow> \<not> op_sync st)"
  shows "(\<exists>e. on_replica_action C ev ns (ActSyncInitialMessage session filt) a = (Inl e, a)) \<and>
    (\<exists>e. on_replica_action C ev ns (ActSyncProcessMessage msg peer outcome session filt) a = (Inl e, a))"
  by (simp add: session_process_def session_replica_refused[OF assms])

text \<open>No action but a session start adds a session.\<close>

definition shrinks :: "actor \<Rightarrow> actor \<Rightarrow> bool" where
  "shrinks a a' \<longleftrightarrow> (table_ok (ac_sessions a) \<longrightarrow> table_ok (ac_sessions a') \<and> ac_id a' = ac_id a \<and>
     ac_next_session a' = ac_next_session a \<and>
     (\<forall>i s. table_get (ac_sessions a') i = Some s \<longrightarrow> table_get (ac_sessions a) i = Some s))"

interpretation shrinking: trace_relation shrinks
  by unfold_locales (auto simp: shrinks_def)

lemma shrinks_same:
  "ac_sessions a' = ac_sessions a \<Longrightarrow> ac_id a' = ac_id a \<Longrightarrow> ac_next_session a' = ac_next_session a \<Longrightarrow> shrinks a a'"
  by (simp add: shrinks_def)

lemma shrinks_filter:
  "ac_sessions a' = filter p (ac_sessions a) \<Longrightarrow> ac_id a' = ac_id a \<Longrightarrow> ac_next_session a' = ac_next_session a \<Longrightarrow> shrinks a a'"
  by (auto simp: shrinks_def table_get_filter split: option.splits if_splits)

lemma shrinks_store: "moves shrinks (on_actor_store err m)" "moves shrinks (actor_read f)"
  by (auto simp: moves_def on_actor_store_def actor_read_def split: prod.splits intro: shrinks_same)

lemma shrinks_replica:
  "moves shrinks (run_replica C ns snap err m)" "moves shrinks (run_if_syncing C ns snap err m)"
  "moves shrinks (session_replica C ns session err m)"
proof -
  show run: "moves shrinks (run_replica C ns snap err m)" for snap
    by (auto simp: moves_def run_replica_def replica_back_def split: sum.splits prod.splits intro: shrinks_same)
  then show sync: "moves shrinks (run_if_syncing C ns snap err m)" for snap
    by (auto simp: moves_def run_if_syncing_def split: sum.splits)
  then show "moves shrinks (session_replica C ns session err m)"
    by (auto simp: moves_def session_replica_def split: sum.splits)
qed

lemma shrinks_close: "shrinks a (snd (actor_close ns a))"
  by (auto simp: actor_close_eq split: option.splits intro: shrinks_same shrinks_filter)

lemma shrinks_ops:
  "moves shrinks (actor_open C ns opts)" "moves shrinks (change_state ns g)" "moves shrinks (import_namespace_action C cap)"
  "moves shrinks (drop_replica ns)" "moves shrinks (insert_local C ev ns author key hash len)"
  "moves shrinks (delete_local C ev ns author key)" "moves shrinks (insert_remote C ev ns e from status)"
proof -
  have author: "moves shrinks (actor_get_author author)"
    unfolding actor_get_author_def by (intro shrinking.moves_bind shrinks_store) (auto split: option.splits)
  have count: "moves shrinks (op_update (count_local n))" "moves shrinks (op_update (count_remote n))" for n
    by (auto simp: moves_def op_update_def count_local_def count_remote_def intro: shrinks_same)
  show "moves shrinks (actor_open C ns opts)"
    by (auto simp: moves_def actor_open_def Let_def split: option.splits prod.splits sum.splits intro: shrinks_same)
  show "moves shrinks (change_state ns g)"
    by (auto simp: moves_def change_state_def split: sum.splits intro: shrinks_same)
  show "moves shrinks (import_namespace_action C cap)"
    unfolding import_namespace_action_def Let_def
    by (intro shrinking.moves_bind shrinks_store) (auto simp: moves_def split: option.splits prod.splits intro: shrinks_same)
  show "moves shrinks (drop_replica ns)"
    using shrinks_store(1)[of ErrStore "remove_replica ns"] shrinking.rel_trans[OF shrinks_close]
    by (auto simp: moves_def drop_replica_def case_prod_beta)
  show "moves shrinks (insert_local C ev ns author key hash len)" "moves shrinks (delete_local C ev ns author key)"
    "moves shrinks (insert_remote C ev ns e from status)"
    unfolding insert_local_def delete_local_def insert_remote_def
    by (intro shrinking.moves_bind author shrinks_replica count)+
qed

lemma shrinks_reply: "moves shrinks m \<Longrightarrow> shrinks a (snd (op_reply f m a))"
  using shrinking.moves_bind[OF _ shrinking.moves_pure(1), of m f] by (simp add: op_reply_def moves_def)

lemma shrinks_when_open: "moves shrinks m \<Longrightarrow> moves shrinks (when_open ns m)"
  by (auto simp: moves_def when_open_def split: sum.splits)

lemma action_shrinks:
  assumes "\<nexists>ns. act = ActReplica ns ActSyncSessionStart"
  shows "shrinks a (snd (on_action C ev act a))"
proof (cases act)
  case (ActReplica ns ract)
  have "shrinks a (snd (on_replica_action C ev ns ract a))" if "ract \<noteq> ActSyncSessionStart"
    using that shrinks_close[of a ns]
    by (cases ract)
       (auto simp: session_process_def case_prod_beta intro!: shrinks_reply shrinks_ops shrinks_replica shrinks_store shrinks_when_open)
  then show ?thesis using assms ActReplica by auto
next
  case (ActSyncSessionEnd session)
  then show ?thesis
    by (auto simp: session_end_def table_remove_def intro!: shrinks_filter[where p = "\<lambda>row. fst row \<noteq> session"])
qed (auto intro!: shrinks_reply shrinks_ops shrinks_store shrinks_same)

text \<open>At most \<open>k\<close> sessions were started, under the next sequence numbers.\<close>

definition started :: "nat \<Rightarrow> actor \<Rightarrow> actor \<Rightarrow> bool" where
  "started k a a' \<longleftrightarrow> table_ok (ac_sessions a) \<longrightarrow> table_ok (ac_sessions a') \<and> ac_id a' = ac_id a \<and>
     (\<exists>j \<le> k. ac_next_session a' = ac_next_session a + of_nat j \<and>
        (\<forall>i s. table_get (ac_sessions a') i = Some s \<longrightarrow> table_get (ac_sessions a) i = Some s \<or>
           (\<exists>m < j. i = (ac_id a, ac_next_session a + of_nat m))))"

lemma shrinks_started: "shrinks a a' \<Longrightarrow> started k a a'"
  by (auto simp: shrinks_def started_def intro!: exI[of _ 0])

lemma started_trans:
  assumes "started k a b" "started l b c"
  shows "started (k + l) a c"
  unfolding started_def
proof
  assume ok: "table_ok (ac_sessions a)"
  obtain j where j: "table_ok (ac_sessions b)" "ac_id b = ac_id a" "j \<le> k" "ac_next_session b = ac_next_session a + of_nat j"
    "\<And>i s. table_get (ac_sessions b) i = Some s \<Longrightarrow> table_get (ac_sessions a) i = Some s \<or>
       (\<exists>m < j. i = (ac_id a, ac_next_session a + of_nat m))"
    using assms(1) ok unfolding started_def by blast
  obtain h where h: "table_ok (ac_sessions c)" "ac_id c = ac_id b" "h \<le> l" "ac_next_session c = ac_next_session b + of_nat h"
    "\<And>i s. table_get (ac_sessions c) i = Some s \<Longrightarrow> table_get (ac_sessions b) i = Some s \<or>
       (\<exists>m < h. i = (ac_id b, ac_next_session b + of_nat m))"
    using assms(2) j(1) unfolding started_def by blast
  have new: "table_get (ac_sessions a) i = Some s \<or> (\<exists>m < j + h. i = (ac_id a, ac_next_session a + of_nat m))"
    if c: "table_get (ac_sessions c) i = Some s" for i s
  proof (cases "table_get (ac_sessions b) i = Some s")
    case True
    then show ?thesis using j(5) by (meson trans_less_add1)
  next
    case False
    then obtain m where "m < h" "i = (ac_id b, ac_next_session b + of_nat m)" using h(5)[OF c] by blast
    then have "j + m < j + h \<and> i = (ac_id a, ac_next_session a + of_nat (j + m))" using j(2,4) by (simp add: add.assoc)
    then show ?thesis by blast
  qed
  show "table_ok (ac_sessions c) \<and> ac_id c = ac_id a \<and> (\<exists>j \<le> k + l. ac_next_session c = ac_next_session a + of_nat j \<and>
      (\<forall>i s. table_get (ac_sessions c) i = Some s \<longrightarrow> table_get (ac_sessions a) i = Some s \<or>
         (\<exists>m < j. i = (ac_id a, ac_next_session a + of_nat m))))"
    using h(1-4) j(2-4) new by (intro conjI exI[of _ "j + h"]) (auto simp: add.assoc)
qed

lemma session_start_started: "started 1 a (snd (session_start ns a))"
proof (cases "states_ensure_syncing ns a")
  case (Inr u)
  obtain t s where "snapshot_owned (ac_store a) = (t, s)" by fastforce
  then show ?thesis using Inr unfolding started_def
    by (intro impI conjI exI[of _ 1]) (auto simp: session_start_def Let_def table_insert_ok table_get_insert)
qed (simp add: session_start_def shrinks_started)

lemma action_started: "started 1 a (snd (on_action C ev act a))"
proof (cases "\<exists>ns. act = ActReplica ns ActSyncSessionStart")
  case True
  then show ?thesis using session_start_started
    by (auto simp: op_reply_def op_bind_def op_return_def split: prod.splits sum.splits) (metis snd_conv)+
qed (use action_shrinks shrinks_started in blast)

lemma shrinks_reclaim: "shrinks a (reclaim_abandoned_sessions held now a)"
  by (auto simp: reclaim_abandoned_sessions_def Let_def intro: shrinks_same shrinks_filter)

lemma shrinks_tick: "shrinks a (actor_tick held now a)"
  unfolding actor_tick_def by (rule shrinking.rel_trans[OF _ shrinks_reclaim]) (auto intro: shrinks_same)

lemma run_started: "started (length inputs) a (snd (run_async C inputs a))"
proof (induction inputs arbitrary: a)
  case (Cons i rest)
  have finish: "shrinks b (actor_finish b)" for b
    by (auto simp: actor_finish_def actor_close_all_def Let_def intro: shrinks_filter[where p = "\<lambda>_. False"])
  show ?case
  proof (cases i)
    case (InTimeout held now)
    let ?b = "reclaim_abandoned_sessions held now a"
    have "shrinks a (?b\<lparr>ac_store := flush (ac_store ?b)\<rparr>)" by (rule shrinking.rel_trans[OF shrinks_reclaim]) (auto intro: shrinks_same)
    from started_trans[OF shrinks_started[OF this, of 1] Cons] show ?thesis by (simp add: InTimeout Let_def)
  next
    case (InAction ev held now act)
    have "started 1 a (snd (on_action C ev act (actor_tick held now a)))"
      using started_trans[OF shrinks_started[OF shrinks_tick, of 0] action_started] by simp
    from started_trans[OF this Cons] show ?thesis by (simp add: InAction case_prod_beta)
  next
    case InTaskDone
    have "started 1 a a" by (auto intro: shrinks_started shrinks_same)
    from started_trans[OF this Cons] show ?thesis by (simp add: InTaskDone)
  next
    case (InShutdown held now)
    then show ?thesis using shrinks_started[OF shrinking.rel_trans[OF shrinks_tick finish]] by simp
  qed (simp add: shrinks_started finish)
qed (auto intro: shrinks_started shrinks_same)

text \<open>An identifier is not given out twice as long as the counter does not wrap.\<close>

lemma frozen_tables:
  assumes "actor_ok C a" "session_start ns a = (Inr session, a1)" "started k a1 a2" "k < 2 ^ 64 - 1"
    "actor_ok C a2" "session_tables a2 session ns = Inr t"
  shows "t = visible (ac_store a)"
proof -
  obtain st where st: "table_get (ac_states a) ns = Some st" "op_sync st"
    using assms(2) by (auto simp: session_start_def states_ensure_syncing_def states_get_def rbind_def split: option.splits if_splits)
  note eq = session_start_eq[OF assms(1) st]
  have a1: "session = (ac_id a, ac_next_session a)" "ac_id a1 = ac_id a" "ac_next_session a1 = ac_next_session a + 1"
    "table_get (ac_sessions a1) session = Some \<lparr>ss_namespace = ns, ss_tables = visible (ac_store a)\<rparr>" "table_ok (ac_sessions a1)"
    using eq assms(1,2) by (auto simp: table_get_insert actor_ok_def sessions_ok_def table_insert_ok)
  obtain j where j: "j \<le> k" "\<And>i s. table_get (ac_sessions a2) i = Some s \<Longrightarrow> table_get (ac_sessions a1) i = Some s \<or>
      (\<exists>m < j. i = (ac_id a1, ac_next_session a1 + of_nat m))"
    using assms(3) a1(5) unfolding started_def by blast
  have "session \<noteq> (ac_id a1, ac_next_session a1 + of_nat m)" if "m < j" for m
  proof -
    have "Suc m < 2 ^ 64" using that j(1) assms(4) by linarith
    then have "(of_nat (Suc m) :: u64) \<noteq> 0" using word_of_nat_eq_iff[of "Suc m" 0, where 'a = 64] by (simp add: take_bit_nat_def)
    then show ?thesis using a1 by (auto simp: add.assoc)
  qed
  then show ?thesis using j(2)[OF session_tables_ok(1)[OF assms(5,6)]] a1(4) by fastforce
qed

lemma initial_message_frozen:
  assumes "actor_ok C a" "session_tables a session ns = Inr t" "table_get (ac_states a) ns = Some st" "op_sync st"
  shows "fst (on_replica_action C ev ns (ActSyncInitialMessage session filt) a) =
    (let es = filter (admitted filt) (namespace_entries ns t); k = first_key (signed_entry_range C) rid_default es
     in Inr (ReplyMessage [RangeFingerprint (Range k k) (fingerprint_of C (signed_entry_range C) es)]))"
proof -
  let ?r = "replica_at C (Some t) st a"
  have "snap_ok C (Some t)" using session_tables_ok(2)[OF assms(1,2)] by (simp add: snap_ok_def)
  from replica_at_ok[OF assms(1,3) this] have r: "instance_valid C ns (Some t) (rp_store ?r)"
    by (simp add: replica_ok_def) (simp add: replica_at_def)
  obtain s' where m: "(initial_message (session_ops C filt (instance_ops C ns (Some t))) (rp_store ?r)
      :: (store_error + protocol_message) \<times> fs_store) =
      (let es = session_view ns (Some t) filt (rp_store ?r); k = first_key (signed_entry_range C) rid_default es
       in (Inr [RangeFingerprint (Range k k) (fingerprint_of C (signed_entry_range C) es)], s'))"
    by (rule instance_session.session.initial_message_eq[OF r, of filt]) (auto simp: Let_def)
  have ns: "rp_namespace ?r = ns" "rp_snapshot ?r = Some t" "\<not> ri_closed (rp_info ?r)"
    using actor_states_get[OF assms(1,3)] by (simp_all add: replica_at_def open_ok_def)
  have "fst (sync_initial_message C filt ?r) =
    (let es = filter (admitted filt) (namespace_entries ns t); k = first_key (signed_entry_range C) rid_default es
     in Inr [RangeFingerprint (Range k k) (fingerprint_of C (signed_entry_range C) es)])"
    using m ns by (simp add: sync_initial_message_def on_replica_store_def replica_ops_def instance_entries_def read_tables_def Let_def)
  then show ?thesis using assms(2-4)
    by (auto simp: op_reply_def op_bind_def op_return_def session_replica_def run_if_syncing_def run_replica_def
        states_ensure_syncing_def states_get_def rbind_def Let_def split: prod.splits)
qed

text \<open>C6. A session serves the document as it was when the session started. Whatever the actor processes in between (local and
  remote inserts, other sessions, closing and opening), as long as the session is still registered its
  snapshot is the store of the moment it started, and its first message summarises exactly the
  entries of that moment that its filter admits.\<close>

theorem session_view_frozen:
  assumes "crypto_ok C" "actor_ok C a" "on_action C ev (ActReplica ns ActSyncSessionStart) a = (Inr (ReplySession session), a1)"
    "\<forall>i \<in> set inputs. input_ok P i" "length inputs < 2 ^ 64 - 1" "a2 = snd (run_async C inputs a1)"
    "session_tables a2 session ns = Inr t"
  shows "t = visible (ac_store a) \<and>
    (\<forall>st filt. table_get (ac_states a2) ns = Some st \<and> op_sync st \<longrightarrow>
       fst (on_replica_action C ev' ns (ActSyncInitialMessage session filt) a2) =
       (let es = filter (admitted filt) (namespace_entries ns (visible (ac_store a)));
            k = first_key (signed_entry_range C) rid_default es
        in Inr (ReplyMessage [RangeFingerprint (Range k k) (fingerprint_of C (signed_entry_range C) es)])))"
proof -
  have start: "session_start ns a = (Inr session, a1)"
    using assms(3) by (auto simp: op_reply_def op_bind_def op_return_def split: prod.splits sum.splits)
  have ok1: "actor_ok C a1" using session_start_moves[of C P ns] start assms(2) by (auto simp: moves_def actor_moves_def dest: spec[of _ a])
  then have ok2: "actor_ok C a2" using run_async_moves[OF assms(1,4), of a1] assms(6) by (simp add: actor_moves_def)
  from frozen_tables[OF assms(2) start run_started assms(5)] ok2 assms(6,7) have "t = visible (ac_store a)" by blast
  then show ?thesis using initial_message_frozen[OF ok2 assms(7)] by blast
qed

section \<open>Concrete runs\<close>

definition sample_actor :: actor where
  "sample_actor = actor_spawn 7 0 sample_known None None None"

definition sample_opts :: open_opts where
  "sample_opts = \<lparr>oo_sync = True, oo_subscribe = None\<rparr>"

definition sample_env :: actor_env where
  "sample_env = \<lparr>ev_policy_codec = policy_postcard, ev_alive = (\<lambda>_. True), ev_now1 = 5, ev_now2 = 5, ev_since_epoch = Some 9\<rparr>"

definition sample_open :: actor where
  "sample_open = snd (actor_open sample_crypto sample_ns sample_opts sample_actor)"

lemma table_get_Nil [simp]: "table_get [] = (\<lambda>_. None)"
  by (simp add: fun_eq_iff table_get_def)

lemma sample_actor_ok: "actor_ok sample_crypto sample_actor"
proof -
  have "doc_authentic sample_crypto (visible sample_known)"
    by (simp add: doc_authentic_def sample_known_visible doc_map_def table_get_def tables_empty_def)
  moreover have "st_open_replicas sample_known = {}" by (simp add: sample_known_def store_memory_def)
  ultimately show ?thesis using spawn_ok[OF sample_known_ok] by (simp add: sample_actor_def)
qed

lemma sample_ns_length: "length sample_ns = 32"
  using sample_key_ids(1) crypto_ok_lengths(1)[OF sample_crypto_ok, of sample_secret] by simp

lemma sample_actor_simps [simp]:
  "ac_store sample_actor = sample_known" "ac_states sample_actor = []" "ac_sessions sample_actor = []" "ac_id sample_actor = 7"
  "ac_next_session sample_actor = 0"
  by (simp_all add: sample_actor_def actor_spawn_def)

lemma sample_open_ok: "actor_ok sample_crypto sample_open"
  using actor_open_moves[OF sample_ns_length, of sample_crypto policy_postcard sample_opts] sample_actor_ok
  by (simp add: sample_open_def moves_def actor_moves_def)

lemma sample_open_state:
  obtains st where "table_get (ac_states sample_open) sample_ns = Some st" "op_sync st" "ri_capability (op_info st) = Read sample_ns"
proof -
  obtain s' where "load_replica_info sample_crypto sample_ns sample_known = (Inr (Read sample_ns), s')"
    by (rule load_replica_eq[OF sample_known_ok, of policy_postcard sample_ns]) (simp add: sample_known_capability)
  then show thesis using that
    by (simp add: sample_open_def actor_open_def sample_opts_def) (simp add: table_get_def)
qed

theorem actor_run_invariant_witness:
  "actor_ok sample_crypto (snd (run_async sample_crypto
     [InAction sample_env (\<lambda>_. True) 1 (ActReplica sample_ns (ActOpen sample_opts)), InTimeout (\<lambda>_. False) 2, InDisconnected]
     (actor_spawn 7 0 sample_known None None None)))"
proof -
  have "doc_authentic sample_crypto (visible sample_known)" "st_open_replicas sample_known = {}"
    using sample_actor_ok by (simp_all add: actor_ok_def)
  moreover have "\<forall>i \<in> set [InAction sample_env (\<lambda>_. True) 1 (ActReplica sample_ns (ActOpen sample_opts)),
      InTimeout (\<lambda>_. False) 2, InDisconnected]. input_ok policy_postcard i"
    using sample_ns_length by (simp add: sample_env_def)
  ultimately show ?thesis by (rule actor_run_invariant[OF sample_crypto_ok sample_known_ok, THEN conjunct1])
qed

theorem shutdown_durable_witness:
  "st_db (ac_store (snd (run_async sample_crypto [InShutdown (\<lambda>_. True) 3] sample_open))) = visible (ac_store sample_open)"
  using shutdown_durable[OF sample_open_ok, of "InShutdown (\<lambda>_. True) 3" "\<lambda>_. True" 3 "[]"] by (simp add: Let_def)

theorem open_close_balance_witness:
  "handles_of sample_ns (closes sample_ns 2 (opens sample_crypto sample_ns sample_opts 3 sample_actor)) = Some 1"
  using open_close_balance[OF sample_actor_ok sample_ns_length, of 3 2 sample_opts] sample_known_capability
  by (simp add: handles_of_def table_get_def)

theorem upgrade_reaches_open_replica_witness:
  "fst (on_action sample_crypto sample_env (ActReplica sample_ns ActExportSecretKey)
     (snd (on_action sample_crypto sample_env (ActImportNamespace (Write sample_secret)) sample_open))) =
   Inr (ReplySecret sample_secret)"
proof -
  obtain st where st: "table_get (ac_states sample_open) sample_ns = Some st" "ri_capability (op_info st) = Read sample_ns"
    by (rule sample_open_state)
  show ?thesis
    using upgrade_reaches_open_replica[OF sample_open_ok st(1) _ sample_key_ids(1) prod.collapse[symmetric], of sample_env] st(2) by simp
qed

theorem reclaim_spares_held_witness:
  "ac_sessions (snd (session_start sample_ns sample_open)) \<noteq> [] \<and>
   ac_sessions (reclaim_abandoned_sessions (\<lambda>_. False) 600000000 (snd (session_start sample_ns sample_open))) = []"
proof -
  let ?a = "snd (session_start sample_ns sample_open)"
  obtain st where st: "table_get (ac_states sample_open) sample_ns = Some st" "op_sync st" by (rule sample_open_state)
  have some: "table_get (ac_sessions ?a) (ac_id sample_open, ac_next_session sample_open) \<noteq> None"
    by (simp add: session_start_eq[OF sample_open_ok st] table_get_insert)
  have ok: "actor_ok sample_crypto ?a"
    using session_start_moves[of sample_crypto policy_postcard sample_ns] sample_open_ok by (simp add: moves_def actor_moves_def)
  have "ac_last_sweep sample_open = 0"
    by (auto simp: sample_open_def actor_open_def sample_actor_def actor_spawn_def Let_def split: prod.splits sum.splits)
  then have "ac_last_sweep ?a = 0" by (simp add: session_start_eq[OF sample_open_ok st] record_open_sessions_def)
  then have "table_get (ac_sessions (reclaim_abandoned_sessions (\<lambda>_. False) 600000000 ?a)) i = None" for i
    using reclaim_spares_held[OF ok, of "\<lambda>_. False" 600000000] by (cases i) (simp add: Let_def MAX_COMMIT_DELAY_def)
  then have "ac_sessions (reclaim_abandoned_sessions (\<lambda>_. False) 600000000 ?a) = []"
    by (metis list.exhaust list.set_intros(1) table_get_None_iff image_eqI)
  then show ?thesis using some by auto
qed

theorem stray_session_refused_witness:
  "\<exists>e. on_replica_action sample_crypto sample_env sample_ns (ActSyncInitialMessage (8, 0) None) sample_open = (Inl e, sample_open)"
proof -
  have "ac_id sample_open = 7" using actor_open_moves[OF sample_ns_length, of sample_crypto policy_postcard sample_opts] sample_actor_ok
    by (simp add: sample_open_def moves_def actor_moves_def)
  then show ?thesis using stray_session_refused[of "(8, 0)" sample_open] by simp
qed

theorem session_view_frozen_witness:
  "\<exists>session a1 t. on_action sample_crypto sample_env (ActReplica sample_ns ActSyncSessionStart) sample_open = (Inr (ReplySession session), a1) \<and>
     session_tables (snd (run_async sample_crypto [InTaskDone] a1)) session sample_ns = Inr t \<and> t = visible (ac_store sample_open)"
proof -
  obtain st where st: "table_get (ac_states sample_open) sample_ns = Some st" "op_sync st" by (rule sample_open_state)
  obtain session a1 where s: "session_start sample_ns sample_open = (Inr session, a1)" "fst session = ac_id a1"
    "table_get (ac_sessions a1) session = Some \<lparr>ss_namespace = sample_ns, ss_tables = visible (ac_store sample_open)\<rparr>"
    using session_start_eq[OF sample_open_ok st] by (simp add: table_get_insert)
  have act: "on_action sample_crypto sample_env (ActReplica sample_ns ActSyncSessionStart) sample_open = (Inr (ReplySession session), a1)"
    using s(1) by (simp add: op_reply_def op_bind_def op_return_def)
  have reg: "session_tables (snd (run_async sample_crypto [InTaskDone] a1)) session sample_ns = Inr (visible (ac_store sample_open))"
    using s(2,3) by (simp add: session_tables_def)
  have "\<forall>i \<in> set [InTaskDone]. input_ok policy_postcard i" by simp
  from session_view_frozen[OF sample_crypto_ok sample_open_ok act this _ refl reg] act reg show ?thesis by auto
qed

end
