(* ===== verification/Codec_Laws.thy ===== *)
theory Codec_Laws
  imports Codec Actor_Props
begin

text \<open>
  What the frames of the wire protocol guarantee: they decode to what was encoded at any chunking, if the
  buffer they are encoded into is empty.
\<close>

section \<open>Frames\<close>

text \<open>The documented behaviour of the serializer, for one message.\<close>

definition serializes :: "sync_message postcard \<Rightarrow> sync_message \<Rightarrow> bool" where
  "serializes M m \<longleftrightarrow> pc_from_bytes M (pc_to_stdvec M m) = Some m \<and> pc_serialized_size M m = length (pc_to_stdvec M m)"

lemma codec_encode_empty:
  "serializes M item \<Longrightarrow> codec_encode M item [] =
     (if MAX_MESSAGE_SIZE < length (pc_to_stdvec M item) then (Inl (FrameTooLarge (length (pc_to_stdvec M item))), [])
      else (Inr (), be_bytes 4 (length (pc_to_stdvec M item)) @ pc_to_stdvec M item))"
  by (simp add: codec_encode_def write_at_def Let_def serializes_def)

lemma frame_length: "n \<le> MAX_MESSAGE_SIZE \<Longrightarrow> be_value (be_bytes 4 n) = n"
  by (simp add: be_value_be_bytes MAX_MESSAGE_SIZE_def)

text \<open>C31. Frames. What is encoded into an empty buffer is decoded back whatever follows it, and exactly the frame is
  consumed; from any proper part of the frame the decoder yields nothing and keeps its buffer, so the
  chunks in which a frame arrives do not matter. A message over the size limit is refused on both sides.\<close>

theorem frame_roundtrip:
  assumes "serializes M m"
  shows "(length (pc_to_stdvec M m) \<le> MAX_MESSAGE_SIZE \<longrightarrow>
      (\<exists>frame. codec_encode M m [] = (Inr (), frame) \<and>
         (\<forall>rest. codec_decode M (frame @ rest) = (Inr (Some m), rest)) \<and>
         (\<forall>part. strict_prefix part frame \<longrightarrow> codec_decode M part = (Inr None, part)))) \<and>
    (MAX_MESSAGE_SIZE < length (pc_to_stdvec M m) \<longrightarrow> isl (fst (codec_encode M m []))) \<and>
    (4 \<le> length src \<and> MAX_MESSAGE_SIZE < be_value (take 4 src) \<longrightarrow>
       codec_decode M src = (Inl (FrameTooLarge (be_value (take 4 src))), src))"
proof (intro conjI impI)
  let ?b = "pc_to_stdvec M m"
  assume len: "length ?b \<le> MAX_MESSAGE_SIZE"
  let ?frame = "be_bytes 4 (length ?b) @ ?b"
  have again: "pc_from_bytes M ?b = Some m" using assms by (simp add: serializes_def)
  have "codec_decode M (?frame @ rest) = (Inr (Some m), rest)" for rest
    using len by (simp add: codec_decode_def Let_def frame_length again not_less)
  moreover have "codec_decode M part = (Inr None, part)" if part: "strict_prefix part ?frame" for part
  proof (cases "length part < 4")
    case False
    obtain z where z: "?frame = part @ z" "z \<noteq> []" using part by (auto simp: strict_prefix_def prefix_def)
    have "take 4 part = take 4 ?frame" using z(1) False by simp
    then have "be_value (take 4 part) = length ?b" using len by (simp add: frame_length)
    moreover have "length part < 4 + length ?b" using arg_cong[OF z(1), of length] z(2) by (cases z) auto
    ultimately show ?thesis using False len by (simp add: codec_decode_def Let_def)
  qed (simp add: codec_decode_def)
  ultimately show "\<exists>frame. codec_encode M m [] = (Inr (), frame) \<and>
      (\<forall>rest. codec_decode M (frame @ rest) = (Inr (Some m), rest)) \<and>
      (\<forall>part. strict_prefix part frame \<longrightarrow> codec_decode M part = (Inr None, part))"
    using len by (intro exI[of _ ?frame]) (simp add: codec_encode_empty[OF assms])
next
  assume "MAX_MESSAGE_SIZE < length (pc_to_stdvec M m)"
  then show "isl (fst (codec_encode M m []))" by (simp add: codec_encode_empty[OF assms])
next
  assume "4 \<le> length src \<and> MAX_MESSAGE_SIZE < be_value (take 4 src)"
  then show "codec_decode M src = (Inl (FrameTooLarge (be_value (take 4 src))), src)"
    by (simp add: codec_decode_def Let_def)
qed

text \<open>Encoding behind another frame overwrites it. The encoder appends the length but writes the payload at byte four of
  the whole buffer. So when a frame of the same size is still in the buffer, what the peer reads first is
  the second message: the first one is lost.\<close>

theorem encode_overwrites_pending:
  assumes "serializes M m1" "serializes M m2" "length (pc_to_stdvec M m1) \<le> MAX_MESSAGE_SIZE"
     "length (pc_to_stdvec M m2) = length (pc_to_stdvec M m1)"
  shows "\<exists>d. codec_encode M m2 (snd (codec_encode M m1 [])) = (Inr (), d) \<and> fst (codec_decode M d) = Inr (Some m2)"
proof -
  let ?n = "length (pc_to_stdvec M m1)"
  have "codec_encode M m2 (snd (codec_encode M m1 [])) = (Inr (), be_bytes 4 ?n @ pc_to_stdvec M m2 @ be_bytes 4 ?n)"
    using assms(2-4) by (simp add: codec_encode_empty[OF assms(1)]) (simp add: codec_encode_def write_at_def Let_def serializes_def)
  moreover have "pc_from_bytes M (pc_to_stdvec M m2) = Some m2" using assms(2) by (simp add: serializes_def)
  ultimately show ?thesis using assms(3,4) by (simp add: codec_decode_def Let_def frame_length not_less)
qed

section \<open>A concrete serializer\<close>

text \<open>Refusals as two bytes; enough to run the frames.\<close>

fun reason_code :: "abort_reason \<Rightarrow> byte" where
  "reason_code AbortNotFound = 0"
| "reason_code AbortAlreadySyncing = 1"
| "reason_code AbortInternalServerError = 2"

fun sample_bytes :: "sync_message \<Rightarrow> bytes" where
  "sample_bytes (Init ns m) = [0]"
| "sample_bytes (SyncMsg m) = [1]"
| "sample_bytes (AbortMsg r) = [2, reason_code r]"

definition sample_parse :: "bytes \<Rightarrow> sync_message option" where
  "sample_parse b = find (\<lambda>m. sample_bytes m = b) (map AbortMsg [AbortNotFound, AbortAlreadySyncing, AbortInternalServerError])"

definition sample_codec :: "sync_message postcard" where
  "sample_codec = \<lparr>pc_to_stdvec = sample_bytes, pc_from_bytes = sample_parse, pc_serialized_size = \<lambda>m. length (sample_bytes m)\<rparr>"

lemma sample_codec_refusals: "serializes sample_codec (AbortMsg r)"
  by (cases r) (simp_all add: serializes_def sample_codec_def sample_parse_def)

theorem frame_roundtrip_witness:
  "\<exists>frame. codec_encode sample_codec (AbortMsg AbortNotFound) [] = (Inr (), frame) \<and>
     codec_decode sample_codec (frame @ [9]) = (Inr (Some (AbortMsg AbortNotFound)), [9])"
  using frame_roundtrip[OF sample_codec_refusals[of AbortNotFound], THEN conjunct1]
  by (auto simp: sample_codec_def MAX_MESSAGE_SIZE_def)

theorem encode_overwrites_pending_witness:
  "\<exists>d. codec_encode sample_codec (AbortMsg AbortAlreadySyncing) (snd (codec_encode sample_codec (AbortMsg AbortNotFound) [])) =
     (Inr (), d) \<and> fst (codec_decode sample_codec d) = Inr (Some (AbortMsg AbortAlreadySyncing))"
  by (rule encode_overwrites_pending[OF sample_codec_refusals sample_codec_refusals])
     (simp_all add: sample_codec_def MAX_MESSAGE_SIZE_def)

end
