(* ===== verification/Exchange.thy ===== *)
theory Exchange
  imports Codec_Laws
begin

text \<open>
  What an exchange reveals. Both sides of the wire protocol run against an actor that serves other
  requests in between; whatever the peer sends, the entries in the frames that leave are entries of
  the snapshot frozen when the session started, and the filter admits them.
\<close>

section \<open>What a session sends\<close>

text \<open>The entries a message carries.\<close>

definition message_entries :: "protocol_message \<Rightarrow> signed_entry set" where
  "message_entries m = fst ` set (message_values m)"

lemma sync_process_sends:
  assumes "replica_ok C r" "message_ok msg" "rp_snapshot r = Some t"
    "sync_process_message C P alive now msg peer filt (r, st) = (Inr (Some parts), out)"
  shows "message_entries parts \<subseteq> set (filter (admitted filt) (namespace_entries (rp_namespace r) t))"
proof -
  have opened: "\<not> ri_closed (rp_info r)" using assms(4) by (auto simp: sync_process_message_def)
  let ?ns = "rp_namespace r" and ?snap = "rp_snapshot r"
  let ?served = "\<lambda>x. x \<in> set (filter (admitted filt) (namespace_entries ?ns t))"
  obtain policy s1 where s1: "instance_valid C ?ns ?snap s1" and
    frame: "\<And>res s2 subs. session_run C alive now msg peer filt r policy (s1, ri_subscribers (rp_info r)) =
      (res, (s2, subs)) \<Longrightarrow> instance_valid C ?ns ?snap s2 \<Longrightarrow>
      sync_frame C res msg s2 r st (sync_process_message C P alive now msg peer filt (r, st))"
    by (rule sync_process_frame[OF assms(1) opened, where P = P and alive = alive and now = now and msg = msg and
          peer = peer and filt = filt and st = st]) blast
  have view: "\<forall>s x. instance_valid C ?ns ?snap s \<longrightarrow> x \<in> set (session_view ?ns ?snap filt s) \<longrightarrow> ?served x"
    using assms(3) by (simp add: instance_entries_def read_tables_def)
  obtain res s2 subs where pm: "session_run C alive now msg peer filt r policy (s1, ri_subscribers (rp_info r)) =
      (res, (s2, subs))" "instance_valid C ?ns ?snap s2"
    "res = Inl (Failure ForeignBoundary) \<or> (\<exists>reply. res = Inr reply \<and> (\<forall>parts. reply = Some parts \<longrightarrow> (\<forall>part \<in> set parts.
       part_ok (signed_entry_range C) ?served (content_status_cb (session_callbacks C alive now ?ns peer (rp_info r) policy))
         (session_verdict C now ?ns peer (ri_capability_validator (rp_info r))) (set (message_values msg)) part)))"
    using session_guarded.process_message_total[OF s1 _ _ _
        session_verdict_ok[where alive = alive and now = now and peer = peer and info = "rp_info r" and policy = policy] view,
        where cfg = sync_config_default and c = "ri_subscribers (rp_info r)"
          and msg = msg, unfolded session_guarded.wire_range_def] assms(2)
    unfolding message_ok_def by (auto simp: sync_config_default_def)
  have res: "res = Inr (Some parts)" using frame[OF pm(1,2)] assms(4)
    by (auto simp: sync_frame_def map_sum_def split: sum.splits)
  have "?served x" if x: "(x, cs) \<in> set (message_values parts)" for x cs
  proof -
    obtain part vs where part: "part \<in> set parts" "part_values part = Some vs" "(x, cs) \<in> set vs"
      using x by (auto simp: message_values_set)
    have "part_ok (signed_entry_range C) ?served (content_status_cb (session_callbacks C alive now ?ns peer (rp_info r) policy))
         (session_verdict C now ?ns peer (ri_capability_validator (rp_info r))) (set (message_values msg)) part"
      using pm(3) part(1) unfolding res by blast
    then show ?thesis using part(2,3) by (cases part) auto
  qed
  then show ?thesis by (auto simp: message_entries_def)
qed

lemma session_process_sends:
  assumes "actor_ok C a" "message_ok msg" "session_process C ev ns msg from outcome session filt a = (Inr (Some parts, outcome'), a')"
  obtains t where "session_tables a session ns = Inr t"
    "message_entries parts \<subseteq> set (filter (admitted filt) (namespace_entries ns t))"
proof -
  obtain t st where t: "session_tables a session ns = Inr t" "table_get (ac_states a) ns = Some st"
    using assms(3) by (auto simp: session_process_def session_replica_def run_if_syncing_def run_replica_def states_get_def
        split: sum.splits option.splits)
  have "snap_ok C (Some t)" using session_tables_ok(2)[OF assms(1) t(1)] by (simp add: snap_ok_def)
  note r = replica_at_ok[OF assms(1) t(2) this]
  have snap: "rp_snapshot (replica_at C (Some t) st a) = Some t" by (simp add: replica_at_def)
  obtain out where "sync_process_message C (ev_policy_codec ev) (ev_alive ev) (ev_now1 ev) msg from filt
      (replica_at C (Some t) st a, outcome) = (Inr (Some parts), out)"
    using assms(3) t by (auto simp: session_process_def session_replica_def run_if_syncing_def run_replica_def states_get_def
        map_sum_def split: sum.splits prod.splits)
  from sync_process_sends[OF r(1) assms(2) snap this] show thesis using that[OF t(1)] r(2) by simp
qed

section \<open>Calls to a shared actor\<close>

text \<open>The surroundings: what the actor processes before each call is well formed and at most \<open>L\<close> inputs.\<close>

definition world_ok :: "download_policy postcard \<Rightarrow> nat \<Rightarrow> world \<Rightarrow> bool" where
  "world_ok P L W \<longleftrightarrow> (\<forall>n. list_all (input_ok P) (cl_before (w_call W n)) \<and> length (cl_before (w_call W n)) \<le> L \<and>
     ev_policy_codec (cl_env (w_call W n)) = P)"

text \<open>What the peer sends was decoded.\<close>

fun item_ok :: "codec_error + sync_message \<Rightarrow> bool" where
  "item_ok (Inr (Init ns m)) = message_ok m"
| "item_ok (Inr (SyncMsg m)) = message_ok m"
| "item_ok _ = True"

fun sent_entries :: "sync_message \<Rightarrow> signed_entry set" where
  "sent_entries (Init ns m) = message_entries m"
| "sent_entries (SyncMsg m) = message_entries m"
| "sent_entries (AbortMsg r) = {}"

definition revealed :: "exchange_io \<Rightarrow> signed_entry set" where
  "revealed x = (\<Union>m \<in> set (ex_sent x). sent_entries m)"

lemma tick_store [simp]: "ac_store (actor_tick held now a) = ac_store a"
  by (simp add: actor_tick_def reclaim_abandoned_sessions_def record_open_sessions_def Let_def)

lemma io_call_sent [simp]: "ex_sent (snd (io_call C W m x)) = ex_sent x"
  by (simp add: io_call_def Let_def case_prod_beta)

lemma started_mono: "started k a b \<Longrightarrow> k \<le> l \<Longrightarrow> started l a b"
  unfolding started_def by (meson le_trans)

text \<open>The actor when a call is processed.\<close>

lemma called_actor:
  assumes "crypto_ok C" "world_ok P L W" "actor_ok C (ex_actor x)"
  defines "cl \<equiv> w_call W (ex_calls x)"
  defines "a \<equiv> snd (run_async C (cl_before cl) (ex_actor x))"
  shows "actor_ok C a" "actor_ok C (actor_tick (cl_held cl) (cl_now cl) a)" "started L (ex_actor x) a"
    "started L (ex_actor x) (actor_tick (cl_held cl) (cl_now cl) a)"
proof -
  show a: "actor_ok C a" using run_async_moves[OF assms(1), of "cl_before cl" P "ex_actor x"] assms(2,3)
    by (auto simp: world_ok_def actor_moves_def list_all_iff cl_def a_def)
  then show "actor_ok C (actor_tick (cl_held cl) (cl_now cl) a)" using tick_moves by (simp add: actor_moves_def)
  show s: "started L (ex_actor x) a"
    using started_mono[OF run_started] assms(2) unfolding world_ok_def cl_def a_def by blast
  show "started L (ex_actor x) (actor_tick (cl_held cl) (cl_now cl) a)"
    using started_trans[OF s shrinks_started[OF shrinks_tick, of 0]] by simp
qed

lemma io_call_ok:
  assumes "crypto_ok C" "world_ok P L W" "actor_ok C (ex_actor x)" "\<And>ev. ev_policy_codec ev = P \<Longrightarrow> moves (actor_moves C P) (m ev)"
  shows "actor_ok C (ex_actor (snd (io_call C W m x)))"
proof -
  have "actor_ok C (snd (m (cl_env (w_call W n)) b))" if "actor_ok C b" for b n
    using assms(2,4) that by (auto simp: world_ok_def moves_def actor_moves_def)
  then show ?thesis using assms(3) called_actor(1,2)[OF assms(1-3)] by (simp add: io_call_def Let_def case_prod_beta)
qed

lemma io_call_started:
  assumes "crypto_ok C" "world_ok P L W" "actor_ok C (ex_actor x)" "\<And>ev. moves shrinks (m ev)"
  shows "started L (ex_actor x) (ex_actor (snd (io_call C W m x)))"
proof -
  have "started L (ex_actor x) (snd (m ev b))" if "started L (ex_actor x) b" for ev b
    using started_trans[OF that shrinks_started, of _ 0] assms(4) by (simp add: moves_def)
  moreover have "started L (ex_actor x) (ex_actor x)" by (auto intro: shrinks_started shrinks_same)
  ultimately show ?thesis using called_actor(3,4)[OF assms(1-3)] by (simp add: io_call_def Let_def case_prod_beta)
qed

lemma io_call_result:
  assumes "crypto_ok C" "world_ok P L W" "actor_ok C (ex_actor x)" "io_call C W m x = (Inr y, x')"
  obtains ev a where "ev_policy_codec ev = P" "actor_ok C a" "started L (ex_actor x) a" "m ev a = (Inr y, ex_actor x')"
    "ac_store a = ac_store (snd (run_async C (cl_before (w_call W (ex_calls x))) (ex_actor x)))"
proof -
  let ?cl = "w_call W (ex_calls x)"
  let ?a = "actor_tick (cl_held ?cl) (cl_now ?cl) (snd (run_async C (cl_before ?cl) (ex_actor x)))"
  have "m (cl_env ?cl) ?a = (Inr y, ex_actor x')"
    using assms(4) by (auto simp: io_call_def Let_def map_sum_def split: if_splits prod.splits sum.splits)
  moreover have "ev_policy_codec (cl_env ?cl) = P" using assms(2) by (simp add: world_ok_def)
  ultimately show thesis using that[of "cl_env ?cl" ?a] called_actor(2,4)[OF assms(1-3)] by simp
qed

section \<open>A session of an exchange\<close>

text \<open>The session was started on a store with the tables \<open>t\<close>, and at most \<open>k\<close> others were since then.\<close>

definition in_session :: "crypto \<Rightarrow> namespace_id \<Rightarrow> session_id \<Rightarrow> tables \<Rightarrow> nat \<Rightarrow> exchange_io \<Rightarrow> bool" where
  "in_session C ns session t k x \<longleftrightarrow> actor_ok C (ex_actor x) \<and>
     (\<exists>a0 a1. actor_ok C a0 \<and> visible (ac_store a0) = t \<and> session_start ns a0 = (Inr session, a1) \<and> started k a1 (ex_actor x))"

lemma in_session_started:
  "in_session C ns session t k x \<Longrightarrow> started l (ex_actor x) (ex_actor y) \<Longrightarrow> actor_ok C (ex_actor y) \<Longrightarrow>
   in_session C ns session t (k + l) y"
  unfolding in_session_def using started_trans by blast

lemma io_session_started:
  assumes "crypto_ok C" "world_ok P L W" "actor_ok C (ex_actor x)" "io_session_start C W ns x = (Inr session, x')"
  shows "in_session C ns session (visible (ac_store (snd (run_async C (cl_before (w_call W (ex_calls x))) (ex_actor x))))) 0 x'"
proof -
  have "actor_ok C (ex_actor x')"
    using io_call_ok[OF assms(1-3), of "\<lambda>_. session_start ns"] assms(4) session_start_moves by (simp add: io_session_start_def)
  moreover obtain a where "actor_ok C a" "session_start ns a = (Inr session, ex_actor x')"
    "ac_store a = ac_store (snd (run_async C (cl_before (w_call W (ex_calls x))) (ex_actor x)))"
    using assms(4) unfolding io_session_start_def by (auto elim: io_call_result[OF assms(1-3)])
  moreover have "started 0 (ex_actor x') (ex_actor x')" by (auto intro: shrinks_started shrinks_same)
  ultimately show ?thesis by (auto simp: in_session_def)
qed

text \<open>What may be sent in the session.\<close>

abbreviation servable :: "namespace_id \<Rightarrow> entry_filter option \<Rightarrow> tables \<Rightarrow> signed_entry set" where
  "servable ns filt t \<equiv> set (filter (admitted filt) (namespace_entries ns t))"

lemma io_process_session:
  assumes "crypto_ok C" "world_ok P L W" "in_session C ns session t k x" "message_ok msg"
    "io_process C W ns msg peer progress session filt x = (r, x')"
  shows "in_session C ns session t (k + L) x'" "ex_sent x' = ex_sent x"
    "\<lbrakk>r = Inr (Some parts, progress'); k + L < 2 ^ 64 - 1\<rbrakk> \<Longrightarrow> message_entries parts \<subseteq> servable ns filt t"
proof -
  let ?m = "\<lambda>ev. session_process C ev ns msg peer progress session filt"
  have x: "actor_ok C (ex_actor x)" and x': "x' = snd (io_call C W ?m x)"
    using assms(3,5) by (simp_all add: in_session_def io_process_def)
  have "started L (ex_actor x) (ex_actor x')"
    unfolding x' by (rule io_call_started[OF assms(1,2) x]) (simp add: session_process_def shrinks_replica)
  moreover have "actor_ok C (ex_actor x')"
    unfolding x' using io_call_ok[OF assms(1,2) x, of ?m] session_process_moves[OF assms(4)] by blast
  ultimately show "in_session C ns session t (k + L) x'" by (rule in_session_started[OF assms(3)])
  show "ex_sent x' = ex_sent x" unfolding x' by simp
  show "message_entries parts \<subseteq> servable ns filt t" if r: "r = Inr (Some parts, progress')" and k: "k + L < 2 ^ 64 - 1"
  proof -
    obtain ev a where a: "actor_ok C a" "started L (ex_actor x) a"
      "session_process C ev ns msg peer progress session filt a = (Inr (Some parts, progress'), ex_actor x')"
      using assms(5) unfolding r io_process_def by (rule io_call_result[OF assms(1,2) x])
    obtain t' where t': "session_tables a session ns = Inr t'"
      "message_entries parts \<subseteq> set (filter (admitted filt) (namespace_entries ns t'))"
      by (rule session_process_sends[OF a(1) assms(4) a(3)])
    obtain a0 a1 where a0: "visible (ac_store a0) = t" "actor_ok C a0" "session_start ns a0 = (Inr session, a1)" "started (k + L) a1 a"
      using assms(3) a(2) started_trans unfolding in_session_def by blast
    from frozen_tables[OF a0(2-4) k a(1) t'(1)] t'(2) a0(1) show ?thesis by simp
  qed
qed

lemma io_send_revealed:
  "io_send W msg x = (r, x') \<Longrightarrow> ex_actor x' = ex_actor x \<and> revealed x' \<subseteq> revealed x \<union> sent_entries msg"
  by (auto simp: io_send_def revealed_def split: sum.splits if_splits)

section \<open>The initiator\<close>

lemma alice_rounds_reveal:
  assumes "crypto_ok C" "world_ok P L W"
  shows "in_session C ns session t k x \<Longrightarrow> list_all item_ok items \<Longrightarrow> k + length items * L < 2 ^ 64 - 1 \<Longrightarrow>
    revealed x \<subseteq> servable ns filt t \<Longrightarrow> alice_rounds C W ns peer filt session items progress x = (r, x') \<Longrightarrow>
    actor_ok C (ex_actor x') \<and> revealed x' \<subseteq> servable ns filt t"
proof (induction items arbitrary: k x progress)
  case Nil
  then show ?case by (auto simp: op_return_def in_session_def)
next
  case (Cons item rest)
  have fail: "actor_ok C (ex_actor x) \<and> revealed x \<subseteq> servable ns filt t" using Cons.prems by (simp add: in_session_def)
  show ?case
  proof (cases "\<exists>msg. item = Inr (SyncMsg msg)")
    case False
    then have "x' = x" using Cons.prems(5) by (cases item rule: item_ok.cases) (auto simp: op_fail_def)
    then show ?thesis using fail by simp
  next
    case True
    then obtain msg where item: "item = Inr (SyncMsg msg)" "message_ok msg" using Cons.prems(2) by auto
    obtain r1 x1 where p: "io_process C W ns msg peer progress session filt x = (r1, x1)" by fastforce
    note session = io_process_session[OF assms Cons.prems(1) item(2) p]
    have x1: "actor_ok C (ex_actor x1) \<and> revealed x1 \<subseteq> servable ns filt t"
      using session(1,2) Cons.prems(4) by (simp add: in_session_def revealed_def)
    show ?thesis
    proof (cases "\<exists>m progress'. r1 = Inr (Some m, progress')")
      case False
      then have "x' = x1" using Cons.prems(5) p item
        by (auto simp: op_bind_def op_map_err_def op_return_def split: sum.splits option.splits)
      then show ?thesis using x1 by simp
    next
      case True
      then obtain m progress' where r1: "r1 = Inr (Some m, progress')" by blast
      obtain r2 x2 where sent: "io_send W (SyncMsg m) x1 = (r2, x2)" by fastforce
      have m: "message_entries m \<subseteq> servable ns filt t" using session(3)[OF r1] Cons.prems(3) by simp
      have x2: "ex_actor x2 = ex_actor x1" "revealed x2 \<subseteq> servable ns filt t"
        using io_send_revealed[OF sent] x1 m by auto
      have k: "in_session C ns session t (k + L) x2" "(k + L) + length rest * L < 2 ^ 64 - 1"
        using session(1) x2(1) Cons.prems(3) by (simp_all add: in_session_def add.assoc)
      show ?thesis
      proof (cases r2)
        case (Inl e)
        then have "x' = x2" using Cons.prems(5) p sent by (simp add: item op_bind_def op_map_err_def r1)
        then show ?thesis using x1 x2 by simp
      next
        case (Inr u)
        then have "alice_rounds C W ns peer filt session rest progress' x2 = (r, x')"
          using Cons.prems(5) p sent by (simp add: item op_bind_def op_map_err_def r1)
        then show ?thesis using Cons.IH[OF k(1) _ k(2) x2(2)] Cons.prems(2) by simp
      qed
    qed
  qed
qed

lemma initial_reveals_nothing:
  assumes "actor_ok C a" "session_replica C ns session ErrSync (sync_initial_message C filt) a = (Inr m, a')"
  shows "message_entries m = {}"
proof -
  obtain t st where t: "session_tables a session ns = Inr t" "table_get (ac_states a) ns = Some st" "op_sync st"
    using assms(2) by (auto simp: session_replica_def run_if_syncing_def states_ensure_syncing_def states_get_def rbind_def
        split: sum.splits option.splits if_splits)
  have "fst (on_replica_action C undefined ns (ActSyncInitialMessage session filt) a) = Inr (ReplyMessage m)"
    using assms(2) by (simp add: op_reply_def op_bind_def op_return_def)
  then show ?thesis using initial_message_frozen[OF assms(1) t, of undefined filt]
    by (simp add: Let_def message_entries_def message_values_def)
qed

lemma io_initial_session:
  assumes "crypto_ok C" "world_ok P L W" "in_session C ns session t k x" "io_initial C W ns session filt x = (r, x')"
  shows "in_session C ns session t (k + L) x'" "ex_sent x' = ex_sent x" "r = Inr m \<Longrightarrow> message_entries m = {}"
proof -
  let ?m = "\<lambda>_ :: actor_env. session_replica C ns session ErrSync (sync_initial_message C filt)"
  have x: "actor_ok C (ex_actor x)" and x': "x' = snd (io_call C W ?m x)"
    using assms(3,4) by (simp_all add: in_session_def io_initial_def)
  have "started L (ex_actor x) (ex_actor x')" unfolding x' by (rule io_call_started[OF assms(1,2) x]) (simp add: shrinks_replica)
  moreover have "actor_ok C (ex_actor x')"
    unfolding x' by (rule io_call_ok[OF assms(1,2) x]) (intro session_replica_keeps replica_ops_sound assms(1))
  ultimately show "in_session C ns session t (k + L) x'" by (rule in_session_started[OF assms(3)])
  show "ex_sent x' = ex_sent x" unfolding x' by simp
  show "message_entries m = {}" if "r = Inr m"
    using assms(4) unfolding that io_initial_def by (rule io_call_result[OF assms(1,2) x]) (rule initial_reveals_nothing)
qed

lemma io_release_ok:
  assumes "crypto_ok C" "world_ok P L W" "actor_ok C (ex_actor x)"
  shows "actor_ok C (ex_actor (io_release C W session x)) \<and> ex_sent (io_release C W session x) = ex_sent x"
proof -
  have "actor_ok C (ex_actor (snd (io_call C W (\<lambda>_ a. (Inr (), session_end session a)) x)))"
    by (rule io_call_ok[OF assms]) (simp add: moves_def session_end_moves)
  then show ?thesis using assms(3) by (simp add: io_release_def)
qed

lemma alice_session_reveals:
  assumes "crypto_ok C" "world_ok P L W" "in_session C ns session t 0 x" "list_all item_ok items"
    "(length items + 1) * L < 2 ^ 64 - 1" "ex_sent x = []" "alice_session C W ns peer filt items session x = (r, x')"
  shows "actor_ok C (ex_actor x') \<and> revealed x' \<subseteq> servable ns filt t"
proof -
  obtain r1 x1 where i: "io_initial C W ns session filt x = (r1, x1)" by fastforce
  note one = io_initial_session[OF assms(1-3) i]
  have quiet: "revealed x1 = {}" "actor_ok C (ex_actor x1)" using one(1,2) assms(6) by (simp_all add: revealed_def in_session_def)
  show ?thesis
  proof (cases r1)
    case (Inl e)
    then have "x' = x1" using assms(7) i by (simp add: alice_session_def op_bind_def op_map_err_def)
    then show ?thesis using quiet by simp
  next
    case (Inr m)
    obtain r2 x2 where sent: "io_send W (Init ns m) x1 = (r2, x2)" by fastforce
    have x2: "ex_actor x2 = ex_actor x1" "revealed x2 = {}" using io_send_revealed[OF sent] one(3)[OF Inr] quiet(1) by auto
    then have k: "in_session C ns session t L x2" using one(1) by (simp add: in_session_def)
    have len: "L + length items * L < 2 ^ 64 - 1" using assms(5) by simp
    show ?thesis
    proof (cases r2)
      case (Inl e)
      then have "x' = x2" using assms(7) i sent \<open>r1 = Inr m\<close> by (simp add: alice_session_def op_bind_def op_map_err_def)
      then show ?thesis using quiet(2) x2 by simp
    next
      case (Inr u)
      then have "alice_rounds C W ns peer filt session items sync_outcome_default x2 = (r, x')"
        using assms(7) i sent \<open>r1 = Inr m\<close> by (simp add: alice_session_def op_bind_def op_map_err_def)
      then show ?thesis using alice_rounds_reveal[OF assms(1,2) k assms(4) len] x2(2) by simp
    qed
  qed
qed

lemma run_alice_reveals:
  assumes "crypto_ok C" "actor_ok C a" "world_ok P L W" "list_all item_ok items" "(length items + 1) * L < 2 ^ 64 - 1"
    "run_alice C W ns peer filt items (exchange_start a) = (r, x)"
  shows "actor_ok C (ex_actor x) \<and>
    revealed x \<subseteq> servable ns filt (visible (ac_store (snd (run_async C (cl_before (w_call W 0)) a))))"
proof -
  obtain r1 x1 where s: "io_session_start C W ns (exchange_start a) = (r1, x1)" by fastforce
  have x0: "actor_ok C (ex_actor (exchange_start a))" using assms(2) by (simp add: exchange_start_def)
  have "x1 = snd (io_call C W (\<lambda>_. session_start ns) (exchange_start a))" using s by (simp add: io_session_start_def)
  then have x1: "actor_ok C (ex_actor x1)" "ex_sent x1 = []"
    using io_call_ok[OF assms(1,3) x0, of "\<lambda>_. session_start ns"] session_start_moves by (auto simp: exchange_start_def)
  show ?thesis
  proof (cases r1)
    case (Inl e)
    then show ?thesis using assms(6) s x1 by (simp add: run_alice_def op_map_err_def revealed_def)
  next
    case (Inr session)
    let ?t = "visible (ac_store (snd (run_async C (cl_before (w_call W 0)) a)))"
    have t: "in_session C ns session ?t 0 x1"
      using io_session_started[OF assms(1,3) x0 s[unfolded Inr]] by (simp add: exchange_start_def)
    obtain r2 x2 where x2: "alice_session C W ns peer filt items session x1 = (r2, x2)" by fastforce
    have "actor_ok C (ex_actor x2) \<and> revealed x2 \<subseteq> servable ns filt ?t"
      by (rule alice_session_reveals[OF assms(1,3) t assms(4,5) x1(2) x2])
    then show ?thesis using io_release_ok[OF assms(1,3), of x2 session] assms(6) s x2
      by (simp add: run_alice_def op_map_err_def revealed_def Inr)
  qed
qed

text \<open>What a dial reveals. The initiator runs against an actor that serves up to \<open>L\<close> other inputs before each of its calls, and
  against a peer that answers with any decoded messages, in any order. Every entry in a frame it sends
  was in the document at the moment its session started and is admitted by the dial's
  filter; the actor stays well formed.\<close>

theorem initiator_reveals_admitted:
  assumes "crypto_ok C" "actor_ok C a" "world_ok P L W" "list_all item_ok items" "(length items + 1) * L < 2 ^ 64 - 1"
    "run_alice C W ns peer filt items (exchange_start a) = (r, x)"
  shows "actor_ok C (ex_actor x) \<and>
    revealed x \<subseteq> servable ns filt (visible (ac_store (snd (run_async C (cl_before (w_call W 0)) a))))"
  using assms by (rule run_alice_reveals)

section \<open>The receiver\<close>

text \<open>What a receiver may have sent: nothing before its session; afterwards what the filter of the accept decision admits.\<close>

definition bob_safe :: "crypto \<Rightarrow> (namespace_id \<Rightarrow> public_key \<Rightarrow> accept_outcome) \<Rightarrow> tables \<Rightarrow> bob_state \<Rightarrow> exchange_io \<Rightarrow> bool" where
  "bob_safe C accept_cb t b x \<longleftrightarrow> actor_ok C (ex_actor x) \<and>
     (case bs_session b of
        None \<Rightarrow> revealed x = {}
      | Some (ns, session) \<Rightarrow> accept_cb ns (bs_peer b) = Allow (bs_filter b) \<and> revealed x \<subseteq> servable ns (bs_filter b) t)"

text \<open>Between two messages.\<close>

definition bob_waits :: "crypto \<Rightarrow> (namespace_id \<Rightarrow> public_key \<Rightarrow> accept_outcome) \<Rightarrow> actor \<Rightarrow> tables \<Rightarrow> nat \<Rightarrow> bob_state \<Rightarrow> exchange_io \<Rightarrow> bool" where
  "bob_waits C accept_cb a t k b x \<longleftrightarrow> bob_safe C accept_cb t b x \<and>
     (case bs_session b of None \<Rightarrow> x = exchange_start a | Some (ns, session) \<Rightarrow> in_session C ns session t k x)"

lemma in_session_mono: "in_session C ns session t k x \<Longrightarrow> k \<le> l \<Longrightarrow> in_session C ns session t l x"
  unfolding in_session_def using started_mono by blast

lemma bob_processed:
  assumes "crypto_ok C" "world_ok P L W" "in_session C ns session t k x" "message_ok m" "k + L < 2 ^ 64 - 1"
    "bs_session b = Some (ns, session)" "bob_safe C accept_cb t b x"
    "on_exchange (io_process C W ns m (bs_peer b) (bs_progress b) session (bs_filter b)) (b, x) = (r, (b', x'))"
  shows "b' = b" "bob_waits C accept_cb a t (k + L) b x'"
    "r = Inr (Some parts, progress) \<Longrightarrow> message_entries parts \<subseteq> servable ns (bs_filter b) t"
proof -
  obtain r1 x1 where one: "io_process C W ns m (bs_peer b) (bs_progress b) session (bs_filter b) x = (r1, x1)" by fastforce
  then have p: "io_process C W ns m (bs_peer b) (bs_progress b) session (bs_filter b) x = (r1, x')"
    "r = map_sum (bob_fail b) id r1" "b' = b"
    using assms(8) by (auto simp add: on_exchange_def)
  note session = io_process_session[OF assms(1-4) p(1)]
  show "b' = b" by (fact p)
  show "bob_waits C accept_cb a t (k + L) b x'"
    using session(1,2) assms(6,7) by (simp add: bob_waits_def bob_safe_def in_session_def revealed_def)
  show "message_entries parts \<subseteq> servable ns (bs_filter b) t" if "r = Inr (Some parts, progress)"
  proof (rule session(3)[OF _ assms(5)])
    show "r1 = Inr (Some parts, progress)" using that p(2) by (cases r1) simp_all
  qed
qed

lemma bob_waits_mono: "bob_waits C accept_cb a t k b x \<Longrightarrow> k \<le> l \<Longrightarrow> bob_waits C accept_cb a t l b x"
  using in_session_mono by (auto simp: bob_waits_def split: option.splits)

text \<open>The first message: the accept decision, and the session if it is positive.\<close>

lemma bob_init_safe:
  assumes "crypto_ok C" "world_ok P L W" "actor_ok C a" "message_ok m" "L < 2 ^ 64 - 1" "bs_session b = None"
    "bob_message C W accept_cb (Init ns m) (b, exchange_start a) = (r, (b', x'))"
    "t = visible (ac_store (snd (run_async C (cl_before (w_call W 0)) a)))"
  shows "bob_safe C accept_cb t b' x'"
    "r = Inr (reply, progress) \<Longrightarrow> bob_waits C accept_cb a t L b' x' \<and> (\<exists>session. bs_session b' = Some (ns, session)) \<and>
       (\<forall>parts. reply = Some parts \<longrightarrow> message_entries parts \<subseteq> servable ns (bs_filter b') t)"
proof -
  let ?x = "exchange_start a" and ?peer = "bs_peer b"
  have x: "actor_ok C (ex_actor ?x)" "ex_sent ?x = []" "ex_calls ?x = 0" "ex_actor ?x = a"
    using assms(3) by (simp_all add: exchange_start_def)
  have "bob_safe C accept_cb t b' x' \<and> (r = Inr (reply, progress) \<longrightarrow> bob_waits C accept_cb a t L b' x' \<and>
      (\<exists>session. bs_session b' = Some (ns, session)) \<and>
      (\<forall>parts. reply = Some parts \<longrightarrow> message_entries parts \<subseteq> servable ns (bs_filter b') t))"
  proof (cases "accept_cb ns ?peer")
    case (RejectRequest reason)
    obtain r1 x1 where sent: "io_send W (AbortMsg reason) ?x = (r1, x1)" by fastforce
    then have "(\<exists>e. r = Inl e) \<and> x' = x1 \<and> bs_session b' = None"
      using assms(6,7) RejectRequest
      by (auto simp: bob_message_def op_bind_def bob_update_def on_exchange_def op_fail_def split: sum.splits)
    then show ?thesis using io_send_revealed[OF sent] x by (auto simp: bob_safe_def revealed_def)
  next
    case (Allow filt)
    let ?b = "b\<lparr>bs_namespace := Some ns, bs_filter := filt\<rparr>"
    obtain r1 x1 where started: "io_session_start C W ns ?x = (r1, x1)" by fastforce
    have "x1 = snd (io_call C W (\<lambda>_. session_start ns) ?x)" using started by (simp add: io_session_start_def)
    then have x1: "actor_ok C (ex_actor x1)" "revealed x1 = {}"
      using io_call_ok[OF assms(1,2) x(1), of "\<lambda>_. session_start ns"] session_start_moves x(2) by (auto simp: revealed_def)
    show ?thesis
    proof (cases r1)
      case (Inl e)
      then have "(\<exists>e. r = Inl e) \<and> x' = x1 \<and> bs_session b' = None"
        using assms(6,7) Allow started by (auto simp: bob_message_def op_bind_def bob_update_def on_exchange_def)
      then show ?thesis using x1 by (auto simp: bob_safe_def)
    next
      case (Inr session)
      let ?b2 = "?b\<lparr>bs_session := Some (ns, session)\<rparr>"
      have live: "in_session C ns session t 0 x1"
        using io_session_started[OF assms(1,2) x(1) started[unfolded Inr]] x(3,4) assms(8) by simp
      have safe: "bob_safe C accept_cb t ?b2 x1" using x1 Allow by (simp add: bob_safe_def)
      have "on_exchange (io_process C W ns m (bs_peer ?b2) (bs_progress ?b2) session (bs_filter ?b2)) (?b2, x1) = (r, (b', x'))"
        using assms(6,7) Allow started by (simp add: Inr bob_message_def op_bind_def bob_update_def on_exchange_def)
      note step = bob_processed[OF assms(1,2) live assms(4) _ _ safe this]
      show ?thesis using step(1) step(2)[of a] step(3)[of _ progress] assms(5) by (auto simp: bob_waits_def)
    qed
  qed
  then show "bob_safe C accept_cb t b' x'" "r = Inr (reply, progress) \<Longrightarrow> bob_waits C accept_cb a t L b' x' \<and>
      (\<exists>session. bs_session b' = Some (ns, session)) \<and>
      (\<forall>parts. reply = Some parts \<longrightarrow> message_entries parts \<subseteq> servable ns (bs_filter b') t)" by blast+
qed

lemma bob_message_safe:
  assumes "crypto_ok C" "world_ok P L W" "actor_ok C a" "item_ok (Inr msg)" "k + L < 2 ^ 64 - 1"
    "t = visible (ac_store (snd (run_async C (cl_before (w_call W 0)) a)))"
    "bob_waits C accept_cb a t k b x" "bob_message C W accept_cb msg (b, x) = (r, (b', x'))"
  shows "bob_safe C accept_cb t b' x'"
    "r = Inr (reply, progress) \<Longrightarrow> bob_waits C accept_cb a t (k + L) b' x' \<and> (\<exists>ns session. bs_session b' = Some (ns, session) \<and>
       (\<forall>parts. reply = Some parts \<longrightarrow> message_entries parts \<subseteq> servable ns (bs_filter b') t))"
proof -
  have "bob_safe C accept_cb t b' x' \<and> (r = Inr (reply, progress) \<longrightarrow> bob_waits C accept_cb a t (k + L) b' x' \<and>
      (\<exists>ns session. bs_session b' = Some (ns, session) \<and>
       (\<forall>parts. reply = Some parts \<longrightarrow> message_entries parts \<subseteq> servable ns (bs_filter b') t)))"
  proof (cases "bs_session b")
    case None
    then have x: "x = exchange_start a" "bob_safe C accept_cb t b x" using assms(7) by (auto simp: bob_waits_def)
    show ?thesis
    proof (cases msg)
      case (Init ns m)
      have "message_ok m" "L < 2 ^ 64 - 1" using assms(4,5) Init by simp_all
      note step = bob_init_safe[OF assms(1-3) this None assms(8)[unfolded Init x(1)] assms(6)]
      show ?thesis using step(1) step(2)[of reply progress] bob_waits_mono[of C accept_cb a t L b' x' "k + L"] by auto
    qed (use assms(8) None x(2) in \<open>auto simp: bob_message_def\<close>)
  next
    case (Some live)
    obtain ns session where live: "live = (ns, session)" by (cases live)
    have safe: "bob_safe C accept_cb t b x" "in_session C ns session t k x"
      using assms(7) Some live by (simp_all add: bob_waits_def)
    show ?thesis
    proof (cases msg)
      case (SyncMsg m)
      have "on_exchange (io_process C W ns m (bs_peer b) (bs_progress b) session (bs_filter b)) (b, x) = (r, (b', x'))"
        using assms(8) Some live SyncMsg by (simp add: bob_message_def)
      note step = bob_processed[OF assms(1,2) safe(2) _ assms(5) _ safe(1) this]
      show ?thesis using step(1) step(2)[of a] step(3)[of _ progress] assms(4) Some live SyncMsg by (auto simp: bob_waits_def)
    qed (use assms(8) Some safe in \<open>auto simp: bob_message_def\<close>)
  qed
  then show "bob_safe C accept_cb t b' x'"
    "r = Inr (reply, progress) \<Longrightarrow> bob_waits C accept_cb a t (k + L) b' x' \<and> (\<exists>ns session. bs_session b' = Some (ns, session) \<and>
       (\<forall>parts. reply = Some parts \<longrightarrow> message_entries parts \<subseteq> servable ns (bs_filter b') t))" by blast+
qed

lemma run_rounds_safe:
  assumes "crypto_ok C" "world_ok P L W" "actor_ok C a" "t = visible (ac_store (snd (run_async C (cl_before (w_call W 0)) a)))"
  shows "bob_waits C accept_cb a t k b x \<Longrightarrow> list_all item_ok items \<Longrightarrow> k + length items * L < 2 ^ 64 - 1 \<Longrightarrow>
    run_rounds C W accept_cb items (b, x) = (r, (b', x')) \<Longrightarrow> bob_safe C accept_cb t b' x'"
proof (induction items arbitrary: k b x)
  case Nil
  then have "b' = b \<and> x' = x" by (auto simp: bob_done_def split: option.splits)
  then show ?case using Nil by (auto simp: bob_waits_def)
next
  case (Cons item rest)
  show ?case
  proof (cases item)
    case (Inl e)
    then show ?thesis using Cons.prems by (auto simp: bob_waits_def)
  next
    case (Inr msg)
    obtain r1 b1 x1 where one: "bob_message C W accept_cb msg (b, x) = (r1, (b1, x1))" by (metis prod.exhaust)
    have ok: "item_ok (Inr msg)" "k + L < 2 ^ 64 - 1" using Cons.prems(2,3) Inr by simp_all
    note step = bob_message_safe[OF assms(1-3) ok assms(4) Cons.prems(1) one]
    have failed: ?thesis if "b' = b1 \<and> x' = x1" using that step(1) by simp
    show ?thesis
    proof (cases r1)
      case (Inl e)
      then show ?thesis using Cons.prems(4) one \<open>item = Inr msg\<close> by (intro failed) (simp add: op_bind_def)
    next
      case r1: (Inr res)
      obtain reply progress where res: "r1 = Inr (reply, progress)" using r1 by (cases res) simp
      let ?b = "b1\<lparr>bs_progress := progress\<rparr>"
      have next_round: "bob_waits C accept_cb a t (k + L) ?b x1" 
        using step(2)[OF res] by (auto simp: bob_waits_def bob_safe_def split: option.splits)
      show ?thesis
      proof (cases reply)
        case None
        then have "b' = ?b \<and> x' = x1" using Cons.prems(4) one res Inr
          by (auto simp: op_bind_def bob_update_def bob_done_def split: option.splits)
        then show ?thesis using next_round by (simp add: bob_waits_def)
      next
        case (Some m)
        obtain r2 x2 where sent: "io_send W (SyncMsg m) x1 = (r2, x2)" by fastforce
        obtain ns session where ns: "bs_session b1 = Some (ns, session)" "message_entries m \<subseteq> servable ns (bs_filter b1) t"
          using step(2)[OF res] Some by blast
        have x2: "bob_waits C accept_cb a t (k + L) ?b x2"
          using next_round ns io_send_revealed[OF sent] by (auto simp: bob_waits_def bob_safe_def in_session_def)
        show ?thesis
        proof (cases r2)
          case (Inl e)
          then have "b' = ?b \<and> x' = x2" using Cons.prems(4) one res Some sent \<open>item = Inr msg\<close>
            by (simp add: op_bind_def bob_update_def on_exchange_def)
          then show ?thesis using x2 by (simp add: bob_waits_def)
        next
          case (Inr u)
          then have "run_rounds C W accept_cb rest (?b, x2) = (r, (b', x'))"
            using Cons.prems(4) one res Some sent \<open>item = Inr msg\<close> by (simp add: op_bind_def bob_update_def on_exchange_def)
          then show ?thesis using Cons.IH[OF x2] Cons.prems(2,3) by (simp add: add.assoc)
        qed
      qed
    qed
  qed
qed

lemma bob_run_reveals:
  assumes "crypto_ok C" "actor_ok C a" "world_ok P L W" "list_all item_ok items" "length items * L < 2 ^ 64 - 1"
    "bob_run C W accept_cb items (bob_new peer, exchange_start a) = (r, (b, x))"
  shows "actor_ok C (ex_actor x) \<and>
    (case bs_session b of
       None \<Rightarrow> revealed x = {}
     | Some (ns, session) \<Rightarrow> accept_cb ns (bs_peer b) = Allow (bs_filter b) \<and>
         revealed x \<subseteq> servable ns (bs_filter b) (visible (ac_store (snd (run_async C (cl_before (w_call W 0)) a)))))"
proof -
  let ?t = "visible (ac_store (snd (run_async C (cl_before (w_call W 0)) a)))"
  obtain r1 b1 x1 where rounds: "run_rounds C W accept_cb items (bob_new peer, exchange_start a) = (r1, (b1, x1))" by (metis prod.exhaust)
  have "bob_waits C accept_cb a ?t 0 (bob_new peer) (exchange_start a)"
    using assms(2) by (simp add: bob_waits_def bob_safe_def bob_new_def exchange_start_def revealed_def)
  from run_rounds_safe[OF assms(1,3,2) refl this assms(4) _ rounds] assms(5) have safe: "bob_safe C accept_cb ?t b1 x1" by simp
  have "b = b1 \<and> (x = x1 \<or> (\<exists>s. io_send W (AbortMsg AbortInternalServerError) x1 = (s, x)))"
    using assms(6) rounds by (auto simp: bob_run_def split: sum.splits accept_error.splits) (metis prod.collapse)+
  then have "ex_actor x = ex_actor x1 \<and> revealed x \<subseteq> revealed x1 \<and> b = b1" using io_send_revealed by fastforce
  then show ?thesis using safe by (auto simp: bob_safe_def split: option.splits)
qed

text \<open>What accepting a request reveals. Whatever messages a peer sends, in any order and interleaved with anything the
  actor does for others: before the accept decision, after a refusal and after a failed session start
  no entry leaves; otherwise every entry in a frame sent was in the document at the moment the session
  started and is admitted by the filter the accept decision returned for this peer and namespace.\<close>

theorem receiver_reveals_admitted:
  assumes "crypto_ok C" "actor_ok C a" "world_ok P L W" "list_all item_ok items" "length items * L < 2 ^ 64 - 1"
    "bob_run C W accept_cb items (bob_new peer, exchange_start a) = (r, (b, x))"
  shows "actor_ok C (ex_actor x) \<and>
    (case bs_session b of
       None \<Rightarrow> revealed x = {}
     | Some (ns, session) \<Rightarrow> accept_cb ns (bs_peer b) = Allow (bs_filter b) \<and>
         revealed x \<subseteq> servable ns (bs_filter b) (visible (ac_store (snd (run_async C (cl_before (w_call W 0)) a)))))"
  using assms by (rule bob_run_reveals)

section \<open>How a receiver ends\<close>

definition unaborted :: "exchange_io \<Rightarrow> bool" where
  "unaborted x \<longleftrightarrow> (\<forall>reason. AbortMsg reason \<notin> set (ex_sent x))"

text \<open>An error of the rounds of a receiver: it names the peer and the namespace if one was seen; a refusal was
  announced, anything else was not yet.\<close>

definition bob_failed ::
  "(namespace_id \<Rightarrow> public_key \<Rightarrow> accept_outcome) \<Rightarrow> actor \<Rightarrow> public_key \<Rightarrow> accept_error \<Rightarrow> bob_state \<Rightarrow> exchange_io \<Rightarrow> bool" where
  "bob_failed accept_cb a peer err b x \<longleftrightarrow> accept_error_peer err = Some peer \<and> accept_error_namespace err = bs_namespace b \<and>
     (case err of
        AcceptAbort _ ns reason \<Rightarrow> accept_cb ns peer = RejectRequest reason \<and> ex_sent x = [AbortMsg reason] \<and> ex_actor x = a
      | AcceptSync _ _ _ \<Rightarrow> unaborted x
      | _ \<Rightarrow> False)"

lemma bob_fail_failed: "bs_peer b = peer \<Longrightarrow> unaborted x \<Longrightarrow> bob_failed accept_cb a peer (bob_fail b e) b x"
  by (simp add: bob_failed_def bob_fail_def)

lemma io_process_sent: "io_process C W ns m peer progress session filt x = (r, x') \<Longrightarrow> ex_sent x' = ex_sent x"
  using io_call_sent[of C W "\<lambda>ev. session_process C ev ns m peer progress session filt" x] by (simp add: io_process_def)

lemma bob_message_ends:
  assumes "\<forall>n. w_send W n" "\<forall>reason. fst (codec_encode (w_codec W) (AbortMsg reason) []) = Inr ()" "unaborted x" "bs_peer b = peer"
    "bs_session b = None \<longrightarrow> x = exchange_start a" "bob_message C W accept_cb msg (b, x) = (r, (b', x'))"
  shows "bs_peer b' = peer \<and> (case r of Inl err \<Rightarrow> bob_failed accept_cb a peer err b' x'
    | Inr _ \<Rightarrow> bs_session b' \<noteq> None \<and> unaborted x')"
proof (cases "bs_session b")
  case None
  then have x: "x = exchange_start a" using assms(5) by simp
  show ?thesis
  proof (cases msg)
    case (Init ns m)
    show ?thesis
    proof (cases "accept_cb ns peer")
      case (RejectRequest reason)
      have "io_send W (AbortMsg reason) x = (Inr (), x\<lparr>ex_sends := ex_sends x + 1, ex_sent := ex_sent x @ [AbortMsg reason]\<rparr>)"
        using assms(1,2) by (simp add: io_send_def)
      then show ?thesis using assms(4,6) None Init RejectRequest x
        by (auto simp: bob_message_def op_bind_def bob_update_def on_exchange_def op_fail_def bob_failed_def exchange_start_def)
    next
      case (Allow filt)
      let ?b = "b\<lparr>bs_namespace := Some ns, bs_filter := filt\<rparr>"
      obtain r1 x1 where s: "io_session_start C W ns x = (r1, x1)" by fastforce
      then have "ex_sent x1 = ex_sent x"
        using io_call_sent[of C W "\<lambda>_. session_start ns" x] by (simp add: io_session_start_def)
      then have x1: "unaborted x1" using assms(3) by (simp add: unaborted_def)
      show ?thesis
      proof (cases r1)
        case (Inl e)
        then show ?thesis using assms(4,6) None Init Allow s bob_fail_failed[of ?b peer x1, OF _ x1]
          by (auto simp: bob_message_def op_bind_def bob_update_def on_exchange_def)
      next
        case (Inr session)
        let ?b2 = "?b\<lparr>bs_session := Some (ns, session)\<rparr>"
        obtain r2 x2 where p: "io_process C W ns m peer (bs_progress b) session filt x1 = (r2, x2)" by fastforce
        then have x2: "unaborted x2" using x1 io_process_sent[OF p] by (simp add: unaborted_def)
        have "r = map_sum (bob_fail ?b2) id r2 \<and> b' = ?b2 \<and> x' = x2" using assms(4,6) None Init Allow s p Inr
          by (auto simp: bob_message_def op_bind_def bob_update_def on_exchange_def)
        then show ?thesis using assms(4) bob_fail_failed[of ?b2 peer x2, OF _ x2] x2 by (cases r2) auto
      qed
    qed
  qed (use assms(3,4,6) None bob_fail_failed in \<open>auto simp: bob_message_def\<close>)
next
  case (Some live)
  obtain ns session where live: "live = (ns, session)" by (cases live)
  show ?thesis
  proof (cases msg)
    case (SyncMsg m)
    obtain r2 x2 where p: "io_process C W ns m peer (bs_progress b) session (bs_filter b) x = (r2, x2)" by fastforce
    then have x2: "unaborted x2" using assms(3) io_process_sent[OF p] by (simp add: unaborted_def)
    have "r = map_sum (bob_fail b) id r2 \<and> b' = b \<and> x' = x2" using assms(4,6) SyncMsg Some live p
      by (auto simp: bob_message_def on_exchange_def)
    then show ?thesis using assms(4) Some bob_fail_failed[of b peer x2, OF _ x2] x2 by (cases r2) auto
  qed (use assms(3,4,6) Some bob_fail_failed in \<open>auto simp: bob_message_def\<close>)
qed

lemma run_rounds_ends:
  assumes "\<forall>n. w_send W n" "\<forall>reason. fst (codec_encode (w_codec W) (AbortMsg reason) []) = Inr ()"
  shows "unaborted x \<Longrightarrow> bs_peer b = peer \<Longrightarrow> bs_session b = None \<longrightarrow> x = exchange_start a \<Longrightarrow>
    run_rounds C W accept_cb items (b, x) = (r, (b', x')) \<Longrightarrow>
    (case r of Inl err \<Rightarrow> bob_failed accept_cb a peer err b' x' | Inr ns \<Rightarrow> bs_namespace b' = Some ns \<and> unaborted x')"
proof (induction items arbitrary: b x)
  case Nil
  then show ?case using bob_fail_failed by (auto simp: bob_done_def split: option.splits)
next
  case (Cons item rest)
  show ?case
  proof (cases item)
    case (Inl e)
    then show ?thesis using Cons.prems bob_fail_failed by auto
  next
    case (Inr msg)
    obtain r1 b1 x1 where one: "bob_message C W accept_cb msg (b, x) = (r1, (b1, x1))" by (metis prod.exhaust)
    note step = bob_message_ends[OF assms Cons.prems(1-3) one]
    show ?thesis
    proof (cases r1)
      case (Inl e)
      then show ?thesis using Cons.prems(4) one \<open>item = Inr msg\<close> step by (auto simp: op_bind_def)
    next
      case r1: (Inr res)
      obtain reply progress where res: "r1 = Inr (reply, progress)" using r1 by (cases res) simp
      let ?b = "b1\<lparr>bs_progress := progress\<rparr>"
      have b: "bs_peer ?b = peer" "bs_session ?b \<noteq> None" "unaborted x1" using step res by simp_all
      show ?thesis
      proof (cases reply)
        case None
        then show ?thesis using Cons.prems(4) one res Inr b bob_fail_failed[OF b(1,3)]
          by (auto simp: op_bind_def bob_update_def bob_done_def split: option.splits)
      next
        case (Some m)
        obtain r2 x2 where sent: "io_send W (SyncMsg m) x1 = (r2, x2)" by fastforce
        then have x2: "unaborted x2" using b(3) by (auto simp: io_send_def unaborted_def split: sum.splits if_splits)
        show ?thesis
        proof (cases r2)
          case (Inl e)
          then show ?thesis using Cons.prems(4) one res Some sent \<open>item = Inr msg\<close> bob_fail_failed[OF b(1) x2]
            by (auto simp: op_bind_def bob_update_def on_exchange_def)
        next
          case (Inr u)
          then have "run_rounds C W accept_cb rest (?b, x2) = (r, (b', x'))"
            using Cons.prems(4) one res Some sent \<open>item = Inr msg\<close> by (simp add: op_bind_def bob_update_def on_exchange_def)
          then show ?thesis using Cons.IH[OF x2 b(1)] b(2) by blast
        qed
      qed
    qed
  qed
qed

text \<open>C30. A receiver always tells its peer how it ended. As long as sends succeed, an exchange that fails ends with exactly one terminal
  frame: the reason of the refusal, in which case nothing else was sent and the actor was not called,
  or an internal error. The error names the peer, and the namespace as soon as one was requested. A
  successful exchange sends no terminal frame.\<close>

theorem receiver_terminal_frame:
  assumes "\<forall>n. w_send W n" "\<forall>reason. fst (codec_encode (w_codec W) (AbortMsg reason) []) = Inr ()"
    "bob_run C W accept_cb items (bob_new peer, exchange_start a) = (r, (b, x))"
  shows "case r of
      Inr ns \<Rightarrow> bs_namespace b = Some ns \<and> unaborted x
    | Inl err \<Rightarrow> accept_error_peer err = Some peer \<and> accept_error_namespace err = bs_namespace b \<and>
        (\<exists>prior reason. ex_sent x = prior @ [AbortMsg reason] \<and> (\<forall>other. AbortMsg other \<notin> set prior) \<and>
          (case err of
             AcceptAbort _ ns why \<Rightarrow> why = reason \<and> accept_cb ns peer = RejectRequest reason \<and> prior = [] \<and> ex_actor x = a
           | _ \<Rightarrow> reason = AbortInternalServerError))"
proof -
  obtain r1 b1 x1 where rounds: "run_rounds C W accept_cb items (bob_new peer, exchange_start a) = (r1, (b1, x1))" by (metis prod.exhaust)
  have "case r1 of Inl err \<Rightarrow> bob_failed accept_cb a peer err b1 x1 | Inr ns \<Rightarrow> bs_namespace b1 = Some ns \<and> unaborted x1"
    by (rule run_rounds_ends[OF assms(1,2) _ _ _ rounds]) (simp_all add: bob_new_def exchange_start_def unaborted_def)
  moreover have "io_send W (AbortMsg AbortInternalServerError) x1 =
      (Inr (), x1\<lparr>ex_sends := ex_sends x1 + 1, ex_sent := ex_sent x1 @ [AbortMsg AbortInternalServerError]\<rparr>)"
    using assms(1,2) by (simp add: io_send_def)
  ultimately show ?thesis using assms(3) rounds
    by (cases r1) (auto simp: bob_run_def bob_failed_def unaborted_def split: accept_error.splits)
qed

section \<open>Concrete exchanges\<close>

text \<open>Another task inserts nothing but the commit timer fires before every call; sends succeed.\<close>

definition sample_world :: world where
  "sample_world = \<lparr>w_codec = sample_codec,
     w_call = (\<lambda>n. \<lparr>cl_before = [InTimeout (\<lambda>_. True) n], cl_held = (\<lambda>_. True), cl_now = n, cl_env = sample_env\<rparr>),
     w_send = (\<lambda>_. True), w_release = True\<rparr>"

lemma sample_world_ok: "world_ok policy_postcard 1 sample_world"
  by (simp add: world_ok_def sample_world_def sample_env_def)

theorem initiator_reveals_admitted_witness:
  "\<exists>r x. run_alice sample_crypto sample_world sample_ns [9] None [Inr (SyncMsg []), Inl FramePostcard] (exchange_start sample_open) = (r, x) \<and>
     actor_ok sample_crypto (ex_actor x) \<and> revealed x \<subseteq> servable sample_ns None
       (visible (ac_store (snd (run_async sample_crypto (cl_before (w_call sample_world 0)) sample_open))))"
proof -
  obtain r x where run: "run_alice sample_crypto sample_world sample_ns [9] None [Inr (SyncMsg []), Inl FramePostcard]
      (exchange_start sample_open) = (r, x)" by fastforce
  have "list_all item_ok [Inr (SyncMsg []), Inl FramePostcard]" by (simp add: message_ok_def)
  from initiator_reveals_admitted[OF sample_crypto_ok sample_open_ok sample_world_ok this _ run] run show ?thesis by simp
qed

theorem receiver_reveals_admitted_witness:
  "\<exists>r b x. bob_run sample_crypto sample_world (\<lambda>_ _. Allow None) [Inr (Init sample_ns []), Inl FramePostcard]
       (bob_new [9], exchange_start sample_open) = (r, (b, x)) \<and> actor_ok sample_crypto (ex_actor x)"
proof -
  obtain r b x where run: "bob_run sample_crypto sample_world (\<lambda>_ _. Allow None) [Inr (Init sample_ns []), Inl FramePostcard]
      (bob_new [9], exchange_start sample_open) = (r, (b, x))" by (metis prod.exhaust)
  have "list_all item_ok [Inr (Init sample_ns []), Inl FramePostcard]" by (simp add: message_ok_def)
  from receiver_reveals_admitted[OF sample_crypto_ok sample_open_ok sample_world_ok this _ run] run show ?thesis by simp
qed

theorem receiver_terminal_frame_witness:
  "\<exists>b x. bob_run sample_crypto sample_world (\<lambda>_ _. RejectRequest AbortNotFound) [Inr (Init sample_ns [])]
       (bob_new [9], exchange_start sample_open) = (Inl (AcceptAbort [9] sample_ns AbortNotFound), (b, x)) \<and>
     ex_sent x = [AbortMsg AbortNotFound]"
proof -
  have frames: "\<forall>reason. fst (codec_encode (w_codec sample_world) (AbortMsg reason) []) = Inr ()"
    using codec_encode_empty[OF sample_codec_refusals] by (simp add: sample_world_def) (simp add: sample_codec_def MAX_MESSAGE_SIZE_def)
  have sends: "\<forall>n. w_send sample_world n" by (simp add: sample_world_def)
  obtain b x where run: "bob_run sample_crypto sample_world (\<lambda>_ _. RejectRequest AbortNotFound) [Inr (Init sample_ns [])]
      (bob_new [9], exchange_start sample_open) = (Inl (AcceptAbort [9] sample_ns AbortNotFound), (b, x))"
    using frames sends by (simp add: bob_run_def bob_message_def bob_new_def op_bind_def bob_update_def on_exchange_def io_send_def op_fail_def)
  from receiver_terminal_frame[OF sends frames run] run show ?thesis by simp
qed

end
