(* ===== verification/Live_Laws.thy ===== *)
theory Live_Laws
  imports Live Exchange
begin

text \<open>
  What the live actor guarantees: an exchange that is recorded as running has a task that ends it, so no
  pair stays blocked; the two indices of queued content and the running downloads agree; entries never
  travel over gossip; the access provider decides what a peer sees.
\<close>

section \<open>What an operation on one pair does to the others\<close>

lemma entry_other: "(n, m) \<noteq> (ns, node) \<Longrightarrow> exchange (snd (ns_entry ns node absent f sts)) n m = exchange sts n m"
  by (auto simp: ns_entry_def exchange_def table_get_insert split: option.splits prod.splits)

lemma entry_absent: "\<not> ns_is_syncing ns sts \<Longrightarrow> ns_entry ns node absent f sts = (absent, sts)"
  by (simp add: ns_is_syncing_def ns_entry_def)

lemma exchange_idle: "\<not> ns_is_syncing ns sts \<Longrightarrow> exchange sts ns node = Idle"
  by (simp add: ns_is_syncing_def exchange_def)

lemma finish_exchange:
  "exchange (snd (ns_finish now ns node orig res sts)) n m = (if n = ns \<and> m = node then Idle else exchange sts n m)"
proof (cases "n = ns \<and> m = node")
  case True
  then show ?thesis using ns_finish_eq(2)[of ns sts now node orig res] exchange_idle[of ns sts node]
    by (cases "ns_is_syncing ns sts") (auto simp: entry_absent ns_finish_def)
qed (auto simp: ns_finish_def entry_other)

lemma abort_exchange:
  "exchange (snd (ns_abort_connect ns node reason sts)) n m =
    (if n = ns \<and> m = node \<and> (\<exists>t. exchange sts ns node = Running t (Connect reason)) then Idle else exchange sts n m)"
proof (cases "n = ns \<and> m = node")
  case True
  then show ?thesis using abort_connect_eq[of ns sts node reason] exchange_idle[of ns sts node]
    by (cases "ns_is_syncing ns sts") (auto simp: entry_absent ns_abort_connect_def)
qed (auto simp: ns_abort_connect_def entry_other)

lemma start_exchange:
  "exchange (snd (ns_start_connect now ns node reason sts)) n m =
    (if n = ns \<and> m = node \<and> fst (ns_start_connect now ns node reason sts) then Running now (Connect reason) else exchange sts n m)"
proof (cases "n = ns \<and> m = node")
  case True
  then show ?thesis using start_connect_eq[of ns sts now node reason]
    by (cases "ns_is_syncing ns sts") (auto simp: entry_absent ns_start_connect_def)
qed (auto simp: ns_start_connect_def entry_other)

lemma accepted_exchange:
  "exchange (snd (ns_accept_request now me ns node sts)) n m =
    (if n = ns \<and> m = node \<and> fst (ns_accept_request now me ns node sts) = Allow None then Running now OriginAccept else exchange sts n m)"
proof (cases "n = ns \<and> m = node")
  case True
  show ?thesis
  proof (cases "ns_is_syncing ns sts")
    case False
    then show ?thesis using True by (simp add: entry_absent ns_accept_request_def)
  qed (use True accept_request_eq(2)[of ns sts now me node] in simp)
qed (auto simp: ns_accept_request_def entry_other)

lemma ready_exchange:
  "exchange (snd (ns_set_may_emit_ready ns v sts)) = exchange sts" "exchange (snd (ns_may_emit_ready ns sts)) = exchange sts"
  by (auto simp: fun_eq_iff exchange_def ns_set_may_emit_ready_def ns_may_emit_ready_def table_get_insert split: option.splits)

lemma insert_exchange: "exchange (ns_insert ns sts) = exchange sts"
  by (auto simp: fun_eq_iff exchange_def ns_insert_def table_get_insert table_get_def[of "[]"] namespace_state_default_def split: option.splits)

lemma remove_exchange: "exchange (snd (ns_remove ns sts)) n m = (if n = ns then Idle else exchange sts n m)"
  by (auto simp: exchange_def ns_remove_def table_get_remove)

section \<open>Every running exchange has a task\<close>

text \<open>A dial runs in a task of its own; an accepted exchange in the task whose request was allowed.\<close>

type_synonym dial_tasks = "(namespace_id \<times> public_key \<times> sync_reason) list"

type_synonym accept_tasks = "(nat \<times> public_key) list"

type_synonym answers = "(nat \<times> namespace_id \<times> public_key \<times> accept_outcome) list"

fun slot_backed :: "dial_tasks \<Rightarrow> accept_tasks \<Rightarrow> answers \<Rightarrow> namespace_id \<Rightarrow> public_key \<Rightarrow> sync_state \<Rightarrow> bool" where
  "slot_backed dials accepts answers ns peer Idle = True"
| "slot_backed dials accepts answers ns peer (Running t (Connect r)) = ((ns, peer, r) \<in> set dials)"
| "slot_backed dials accepts answers ns peer (Running t OriginAccept) =
     (\<exists>task f. (task, peer) \<in> set accepts \<and> (task, ns, peer, Allow f) \<in> set answers)"

definition slots_backed :: "live \<Rightarrow> bool" where
  "slots_backed lv \<longleftrightarrow> (\<forall>ns peer. slot_backed (lv_connects lv) (lv_accepts lv) (lv_answered lv) ns peer (exchange (lv_state lv) ns peer))"

text \<open>The part of the state that exchanges are about. Downloads, events, topics and the store actor leave it alone.\<close>

definition slots :: "live \<Rightarrow> namespace_states \<times> dial_tasks \<times> accept_tasks \<times> answers" where
  "slots lv = (lv_state lv, lv_connects lv, lv_accepts lv, lv_answered lv)"

lemma slots_call [simp]: "slots (snd (live_call C env act lv)) = slots lv"
  by (simp add: slots_def live_call_def case_prod_beta)

lemma slots_emit [simp]: "slots (live_emit env ns ev lv) = slots lv"
  by (simp add: slots_def live_emit_def)

lemma slots_broadcast [simp]: "slots (broadcast_neighbors env ns msg lv) = slots lv"
  by (simp add: slots_def broadcast_neighbors_def)

lemma slots_download [simp]:
  "slots (queue_download env ns hash only lv) = slots lv" "slots (start_download env ns hash node only lv) = slots lv"
  by (simp_all add: slots_def queue_download_def start_download_def)

lemma slots_fold: "(\<And>x lv. slots (f x lv) = slots lv) \<Longrightarrow> slots (fold f xs lv) = slots lv"
  by (induction xs arbitrary: lv) auto

lemma slots_retry [simp]: "slots (retry_content env ns peer lv) = slots lv"
proof -
  have "slots (start_download env ns h peer True (l\<lparr>lv_retry := r\<rparr>)) = slots l" for h l r
    by (subst slots_download) (simp add: slots_def)
  then show ?thesis by (simp add: retry_content_def Let_def slots_fold)
qed

lemma slots_report [simp]: "slots (report_sync env ns details lv) = slots lv"
  by (simp add: report_sync_def)

lemma backed_slots: "slots lv = slots lv' \<Longrightarrow> slots_backed lv = slots_backed lv'"
  by (simp add: slots_backed_def slots_def)

lemma slot_backed_mono:
  "slot_backed dials accepts answers ns peer st \<Longrightarrow> set dials \<subseteq> set dials' \<Longrightarrow> set accepts \<subseteq> set accepts' \<Longrightarrow>
   set answers \<subseteq> set answers' \<Longrightarrow> slot_backed dials' accepts' answers' ns peer st"
  by (cases "(dials, accepts, answers, ns, peer, st)" rule: slot_backed.cases) (auto, blast)

lemma backed_dial:
  assumes "slots_backed lv"
  shows "slots_backed (sync_with_peer env ns peer reason lv)"
proof -
  have "slot_backed (lv_connects lv @ [(ns, peer, reason)]) (lv_accepts lv) (lv_answered lv) n m (exchange (lv_state lv) n m)" for n m
    by (rule slot_backed_mono[of "lv_connects lv" "lv_accepts lv" "lv_answered lv"]) (use assms in \<open>auto simp: slots_backed_def\<close>)
  then show ?thesis using assms by (simp add: slots_backed_def sync_with_peer_def case_prod_beta start_exchange)
qed

text \<open>The end of an exchange: the pair is idle, or dialed again.\<close>

definition backed_except :: "namespace_id \<Rightarrow> public_key \<Rightarrow> live \<Rightarrow> bool" where
  "backed_except ns peer lv \<longleftrightarrow> (\<forall>n m. (n, m) \<noteq> (ns, peer) \<longrightarrow>
     slot_backed (lv_connects lv) (lv_accepts lv) (lv_answered lv) n m (exchange (lv_state lv) n m))"

lemma slots_succeeded [simp]: "slots (sync_succeeded C env ns peer details lv) = slots lv"
  by (simp add: sync_succeeded_def)

lemma backed_ready: "slots_backed lv \<Longrightarrow> slots_backed (ready_or_later env ns lv)"
  by (simp add: ready_or_later_def Let_def live_emit_def slots_backed_def ready_exchange)

lemma backed_finished:
  assumes "backed_except ns peer lv"
  shows "slots_backed (on_sync_finished C env ns peer orig result lv)"
proof -
  let ?lv1 = "case result of Inl _ \<Rightarrow> lv | Inr details \<Rightarrow> sync_succeeded C env ns peer details lv"
  have lv1: "slots ?lv1 = slots lv" by (cases result) simp_all
  obtain fin sts where fin: "ns_finish (le_now env) ns peer orig result (lv_state ?lv1) = (fin, sts)" by fastforce
  have over: "slots_backed (?lv1\<lparr>lv_state := sts\<rparr>)"
    using assms lv1 finish_exchange[of "le_now env" ns peer orig result "lv_state ?lv1"] fin
    by (auto simp: slots_backed_def backed_except_def slots_def)
  show ?thesis
  proof (cases fin)
    case None
    then show ?thesis using fin over by (simp add: on_sync_finished_def Let_def)
  next
    case (Some x)
    obtain started resync where x: "x = (started, resync)" by fastforce
    let ?e = "live_emit env ns (EvSyncFinished \<lparr>sv_peer = peer, sv_origin = orig, sv_finished = le_now env,
        sv_started = started, sv_result = map_sum id sync_details_of result\<rparr>) (?lv1\<lparr>lv_state := sts\<rparr>)"
    have "slots_backed ?e" using over backed_slots[OF slots_emit] by blast
    then have "slots_backed (ready_or_later env ns ?e)" by (rule backed_ready)
    then show ?thesis using fin Some x backed_dial by (simp add: on_sync_finished_def Let_def)
  qed
qed

section \<open>Inputs\<close>

text \<open>The result of an accepted exchange names the pair it was allowed for.\<close>

fun accept_names :: "namespace_id \<Rightarrow> public_key \<Rightarrow> accept_error + sync_finished \<Rightarrow> bool" where
  "accept_names ns peer (Inr f) = (sf_namespace f = ns \<and> sf_peer f = peer)"
| "accept_names ns peer (Inl err) = (accept_error_peer err = Some peer \<and> accept_error_namespace err = Some ns \<and>
     (case err of AcceptAbort _ _ reason \<Rightarrow> reason \<noteq> AbortAlreadySyncing | _ \<Rightarrow> True))"

text \<open>Results come from tasks that run, and requests from connections that are being handled.\<close>

fun follows :: "live \<Rightarrow> live_input \<Rightarrow> bool" where
  "follows lv (LvMessage (AcceptSyncRequest ns peer task)) = ((task, peer) \<in> set (lv_accepts lv))"
| "follows lv (LvConnectDone ns peer reason res) = ((ns, peer, reason) \<in> set (lv_connects lv))"
| "follows lv (LvAcceptDone task peer res) = ((task, peer) \<in> set (lv_accepts lv) \<and>
     (\<forall>ns f. (task, ns, peer, Allow f) \<in> set (lv_answered lv) \<longrightarrow> accept_names ns peer res))"
| "follows lv (LvDownloadDone ns hash ok) = ((ns, hash) \<in> set (lv_downloads lv))"
| "follows lv _ = True"

fun run_follows :: "crypto \<Rightarrow> (live_env \<times> live_input) list \<Rightarrow> live \<Rightarrow> bool" where
  "run_follows C [] lv = True"
| "run_follows C ((env, i) # rest) lv = (follows lv i \<and> run_follows C rest (live_tick C env i lv))"

section \<open>Invariants of the handlers\<close>

text \<open>Gossip carries digests and announcements, never entries.\<close>

fun content_free :: "gossip_op \<Rightarrow> bool" where
  "content_free (OpPut e) = False"
| "content_free _ = True"

text \<open>The actions the live actor sends to the store actor.\<close>

fun live_replica_action :: "replica_action \<Rightarrow> bool" where
  "live_replica_action (ActOpen opts) = True"
| "live_replica_action ActClose = True"
| "live_replica_action (ActSetSync sync) = True"
| "live_replica_action (ActUnsubscribe tx) = True"
| "live_replica_action ActGetSyncPeers = True"
| "live_replica_action (ActRegisterUsefulPeer peer) = True"
| "live_replica_action (ActHasNewsForUs heads) = True"
| "live_replica_action _ = False"

text \<open>What is kept by every elementary change is kept by the handlers composed of them. The surroundings may be restricted
  by a predicate \<open>E\<close>.\<close>

locale live_invariant =
  fixes E :: "crypto \<Rightarrow> live_env \<Rightarrow> bool" and I :: "live \<Rightarrow> bool"
  assumes call: "E C env \<Longrightarrow> live_replica_action act \<Longrightarrow> I lv \<Longrightarrow> I (snd (live_call C env (ActReplica ns act) lv))"
    and emit: "I lv \<Longrightarrow> I (live_emit env ns ev lv)"
    and broadcast: "I lv \<Longrightarrow> content_free msg \<Longrightarrow> I (broadcast_neighbors env ns msg lv)"
    and dial: "I lv \<Longrightarrow> I (sync_with_peer env ns peer reason lv)"
    and queue: "I lv \<Longrightarrow> I (queue_download env ns hash only lv)"
    and providers: "I lv \<Longrightarrow> I (lv\<lparr>lv_providers := ps\<rparr>)"
    and retry: "I lv \<Longrightarrow> I (lv\<lparr>lv_retry := rs\<rparr>)"
    and missing: "I lv \<Longrightarrow> I (lv\<lparr>lv_missing := ms\<rparr>)"
    and gossip: "I lv \<Longrightarrow> I (lv\<lparr>lv_gossip := g\<rparr>)"
    and subscribers: "I lv \<Longrightarrow> I (lv\<lparr>lv_subscribers := m\<rparr>)"
    and lookup: "I lv \<Longrightarrow> I (lv\<lparr>lv_lookup := l\<rparr>)"
    and finish: "I lv \<Longrightarrow> I (lv\<lparr>lv_state := snd (ns_finish now ns peer orig res (lv_state lv))\<rparr>)"
    and set_ready: "I lv \<Longrightarrow> I (lv\<lparr>lv_state := snd (ns_set_may_emit_ready ns v (lv_state lv))\<rparr>)"
    and take_ready: "I lv \<Longrightarrow> I (lv\<lparr>lv_state := snd (ns_may_emit_ready ns (lv_state lv))\<rparr>)"
    and join_namespace: "I lv \<Longrightarrow> I (lv\<lparr>lv_state := ns_insert ns (lv_state lv)\<rparr>)"
    and leave_namespace: "I lv \<Longrightarrow> I (lv\<lparr>lv_state := snd (ns_remove ns (lv_state lv))\<rparr>)"
    and connection: "I lv \<Longrightarrow> I (on_actor_message C env (HandleConnection task peer) lv)"
    and request: "I lv \<Longrightarrow> (task, peer) \<in> set (lv_accepts lv) \<Longrightarrow> I (on_actor_message C env (AcceptSyncRequest ns peer task) lv)"
begin

lemma fold_keeps: "(\<And>x lv. I lv \<Longrightarrow> I (f x lv)) \<Longrightarrow> I lv \<Longrightarrow> I (fold f xs lv)"
  by (induction xs arbitrary: lv) auto

lemma called: "E C env \<Longrightarrow> live_replica_action act \<Longrightarrow> I lv \<Longrightarrow> live_call C env (ActReplica ns act) lv = (r, lv') \<Longrightarrow> I lv'"
  using call[of C env act lv ns] by simp

lemma download: "I lv \<Longrightarrow> I (start_download env ns hash node only lv)"
  by (simp add: start_download_def queue providers)

lemma report: "I lv \<Longrightarrow> I (report_sync env ns details lv)"
  by (simp add: report_sync_def broadcast)

lemma retry_keeps: "I lv \<Longrightarrow> I (retry_content env ns peer lv)"
  unfolding retry_content_def Let_def by (intro fold_keeps download retry)

lemma ready: "I lv \<Longrightarrow> I (ready_or_later env ns lv)"
  by (simp add: ready_or_later_def Let_def set_ready emit)

lemma finished:
  assumes "E C env" "I lv"
  shows "I (on_sync_finished C env ns peer orig result lv)"
proof -
  let ?lv1 = "case result of Inl _ \<Rightarrow> lv | Inr details \<Rightarrow> sync_succeeded C env ns peer details lv"
  have "I ?lv1" using assms by (auto simp: sync_succeeded_def report retry_keeps call split: sum.splits)
  from finish[OF this, of "le_now env" ns peer orig result] show ?thesis
    by (auto simp: on_sync_finished_def Let_def emit ready dial split: prod.splits option.splits)
qed

lemma join: "I lv \<Longrightarrow> I (snd (join_peers env ns peers flag lv))"
  by (auto simp: join_peers_def Let_def intro!: fold_keeps dial gossip lookup split: prod.splits sum.splits)

lemma stored: "E C env \<Longrightarrow> I lv \<Longrightarrow> stored_peers C env ns lv = (ps, lv') \<Longrightarrow> I lv'"
  using call[of C env ActGetSyncPeers lv ns]
  by (cases "live_call C env (ActReplica ns ActGetSyncPeers) lv")
     (auto simp: stored_peers_def split: sum.splits reply.splits option.splits)

lemma bind_keeps:
  assumes "I (snd (m lv))" "\<And>x lv. I lv \<Longrightarrow> I (snd (f x lv))"
  shows "I (snd (op_bind m f lv))"
  using assms by (auto simp: op_bind_def split: prod.splits sum.splits)

lemma started:
  assumes "E C env" "I lv"
  shows "I (snd (start_sync C env ns peers flag lv))"
  unfolding start_sync_def
proof (rule bind_keeps)
  show "I (snd (if ns_is_syncing ns (lv_state lv) then (Inr (), lv)
       else op_bind (live_call C env (ActReplica ns (ActOpen \<lparr>oo_sync = True, oo_subscribe = Some (lv_replica_events lv)\<rparr>)))
            (\<lambda>_ lv. (Inr (), lv\<lparr>lv_state := ns_insert ns (lv_state lv)\<rparr>)) lv))"
    using assms by (auto intro!: bind_keeps call join_namespace)
  show "I (snd (case stored_peers C env ns l of (stored, l') \<Rightarrow> join_peers env ns (peers @ stored) flag l'))" if "I l" for l
    using stored[OF assms(1) that] by (auto intro!: join split: prod.splits)
qed

lemma left:
  assumes "E C env" "I lv"
  shows "I (snd (leave C env ns kill lv))"
  unfolding leave_def
proof (rule bind_keeps)
  show "I (snd (case ns_remove ns (lv_state lv) of (was_syncing, sts) \<Rightarrow>
         let lv1 = lv\<lparr>lv_state := sts\<rparr> in
         if \<not> was_syncing then (Inr (), lv1)
         else op_bind (live_call C env (ActReplica ns (ActSetSync False))) (\<lambda>_.
              op_bind (live_call C env (ActReplica ns (ActUnsubscribe (lv_replica_events lv1)))) (\<lambda>_.
              op_bind (live_call C env (ActReplica ns ActClose)) (\<lambda>_ lv.
                (Inr (), lv\<lparr>lv_gossip := gossip_quit ns (lv_gossip lv)\<rparr>)))) lv1))"
    using leave_namespace[OF assms(2), of ns] assms(1) by (auto simp: Let_def intro!: bind_keeps call gossip split: prod.splits)
qed (auto intro: subscribers)

lemma report_received:
  assumes "E C env" "I lv"
  shows "I (on_sync_report C env peer report lv)"
proof -
  have "I (case live_call C env (ActReplica ns (ActHasNewsForUs heads)) lv of
      (Inr (ReplyNews (Some _)), l) \<Rightarrow> sync_with_peer env ns peer SyncReportReason l | (_, l) \<Rightarrow> l)" for ns heads
    using call[OF assms(1) _ assms(2), of "ActHasNewsForUs heads" ns]
    by (cases "live_call C env (ActReplica ns (ActHasNewsForUs heads)) lv")
       (auto intro: dial split: sum.splits reply.splits option.splits)
  then show ?thesis using assms(2) by (auto simp: on_sync_report_def split: option.splits)
qed

lemma message:
  assumes "E C env" "I lv" "follows lv (LvMessage msg)"
  shows "I (on_actor_message C env msg lv)"
proof (cases msg)
  case (AcceptSyncRequest ns peer task)
  then show ?thesis using assms request by simp
next
  case (HandleConnection task peer)
  then show ?thesis using connection[OF assms(2)] by simp
qed (use assms(1,2) report_received started left in \<open>auto intro: emit dial gossip subscribers download\<close>)

lemma replica_event: "I lv \<Longrightarrow> I (on_replica_event env ev lv)"
  by (cases ev) (auto simp: broadcast_local_head_def intro: broadcast download missing)

lemma emit_ready: "I lv \<Longrightarrow> I (emit_when_ready env ns lv)"
  using take_ready[of lv ns] by (auto simp: emit_when_ready_def Let_def intro!: emit split: prod.splits)

lemma after_download:
  assumes "qh_remove_hash hash (lv_queued lv) = (completed, q)" "I (lv\<lparr>lv_queued := q\<rparr>)"
  shows "I (on_download_ready env ns hash ok lv)"
  using assms by (auto simp: on_download_ready_def Let_def intro!: fold_keeps emit_ready broadcast emit retry queue missing)

end

text \<open>With the ends of tasks it is kept by every run.\<close>

locale run_invariant = live_invariant E I for E I +
  assumes connect_done: "E C env \<Longrightarrow> I lv \<Longrightarrow> follows lv (LvConnectDone ns peer reason res) \<Longrightarrow> I (live_tick C env (LvConnectDone ns peer reason res) lv)"
    and accept_done: "E C env \<Longrightarrow> I lv \<Longrightarrow> follows lv (LvAcceptDone task peer acc) \<Longrightarrow> I (live_tick C env (LvAcceptDone task peer acc) lv)"
    and download_done: "I lv \<Longrightarrow> follows lv (LvDownloadDone ns hash ok) \<Longrightarrow> I (live_tick C env (LvDownloadDone ns hash ok) lv)"
begin

lemma tick: "E C env \<Longrightarrow> I lv \<Longrightarrow> follows lv i \<Longrightarrow> I (live_tick C env i lv)"
  using connect_done accept_done download_done message replica_event gossip by (cases i) auto

lemma run: "(\<forall>(env, i) \<in> set inputs. E C env) \<Longrightarrow> I lv \<Longrightarrow> run_follows C inputs lv \<Longrightarrow> I (live_run C inputs lv)"
  by (induction C inputs lv rule: live_run.induct) (auto intro: tick)

end

text \<open>An invariant that does not look at exchanges only has to be kept by the end of a download.\<close>

locale taskless_invariant = live_invariant E I for E I +
  assumes dials: "I lv \<Longrightarrow> I (lv\<lparr>lv_connects := d\<rparr>)"
    and accepts: "I lv \<Longrightarrow> I (lv\<lparr>lv_accepts := c\<rparr>)"
    and state: "I lv \<Longrightarrow> I (lv\<lparr>lv_state := sts\<rparr>)"
    and downloaded: "I lv \<Longrightarrow> follows lv (LvDownloadDone ns hash ok) \<Longrightarrow> I (live_tick C env (LvDownloadDone ns hash ok) lv)"

sublocale taskless_invariant \<subseteq> run_invariant
proof unfold_locales
  fix lv assume lv: "I lv"
  show "I (live_tick C env (LvConnectDone ns peer reason res) lv)" if "E C env" for C env ns peer reason res
    using dials[OF lv] finished[OF that]
    by (auto simp: on_sync_via_connect_finished_def intro!: state split: sum.splits connect_error.splits abort_reason.splits)
  show "I (live_tick C env (LvAcceptDone task peer acc) lv)" if "E C env" for C env task peer acc
    using accepts[OF lv] finished[OF that]
    by (auto simp: on_sync_via_accept_finished_def split: sum.splits accept_error.splits abort_reason.splits option.splits)
qed (rule downloaded)

interpretation backed: live_invariant "\<lambda>_ _. True" slots_backed
proof unfold_locales
  fix lv assume "slots_backed lv"
  have frame: "slots_backed l" if "slots l = slots lv" for l using backed_slots[OF that] \<open>slots_backed lv\<close> by simp
  show "slots_backed (sync_with_peer env ns peer reason lv)" for env ns peer reason
    using \<open>slots_backed lv\<close> by (rule backed_dial)
  show "slots_backed (lv\<lparr>lv_state := snd (ns_finish now ns peer orig res (lv_state lv))\<rparr>)" for now ns peer orig res
    using \<open>slots_backed lv\<close> by (simp add: slots_backed_def finish_exchange)
  show "slots_backed (lv\<lparr>lv_state := snd (ns_remove ns (lv_state lv))\<rparr>)" for ns
    using \<open>slots_backed lv\<close> by (simp add: slots_backed_def remove_exchange)
  show "slots_backed (on_actor_message C env (HandleConnection task peer) lv)" for C env task peer
  proof -
    have "slot_backed (lv_connects lv) (lv_accepts lv @ [(task, peer)]) (lv_answered lv) n m (exchange (lv_state lv) n m)" for n m
      by (rule slot_backed_mono[of "lv_connects lv" "lv_accepts lv" "lv_answered lv"])
         (use \<open>slots_backed lv\<close> in \<open>auto simp: slots_backed_def\<close>)
    then show ?thesis by (simp add: slots_backed_def)
  qed
  show "slots_backed (on_actor_message C env (AcceptSyncRequest ns peer task) lv)" if "(task, peer) \<in> set (lv_accepts lv)" for C env ns peer task
  proof -
    obtain outcome sts where acc: "ns_accept_request (le_now env) (lv_me lv) ns peer (lv_state lv) = (outcome, sts)" by fastforce
    have "slot_backed (lv_connects lv) (lv_accepts lv) (lv_answered lv @ [(task, ns, peer, outcome)]) n m (exchange (lv_state lv) n m)" for n m
      by (rule slot_backed_mono[of "lv_connects lv" "lv_accepts lv" "lv_answered lv"])
         (use \<open>slots_backed lv\<close> in \<open>auto simp: slots_backed_def\<close>)
    moreover have "exchange sts n m = (if n = ns \<and> m = peer \<and> outcome = Allow None then Running (le_now env) OriginAccept
        else exchange (lv_state lv) n m)" for n m
      using accepted_exchange[of "le_now env" "lv_me lv" ns peer "lv_state lv" n m] acc by simp
    ultimately show ?thesis using that acc by (auto simp: slots_backed_def accept_sync_request_def)
  qed
qed (auto simp: slots_backed_def ready_exchange insert_exchange live_call_def live_emit_def broadcast_neighbors_def
      queue_download_def case_prod_beta)

lemma connect_done_backed:
  assumes "slots_backed lv"
  shows "slots_backed (on_sync_via_connect_finished C env ns peer reason res
    (lv\<lparr>lv_connects := remove1 (ns, peer, reason) (lv_connects lv)\<rparr>))"
proof -
  let ?lv = "lv\<lparr>lv_connects := remove1 (ns, peer, reason) (lv_connects lv)\<rparr>"
  have keep: "slot_backed (remove1 (ns, peer, reason) (lv_connects lv)) (lv_accepts lv) (lv_answered lv) n m (exchange (lv_state lv) n m)"
    if "\<not> (n = ns \<and> m = peer \<and> (\<exists>t. exchange (lv_state lv) ns peer = Running t (Connect reason)))" for n m
  proof -
    have "slot_backed (lv_connects lv) (lv_accepts lv) (lv_answered lv) n m (exchange (lv_state lv) n m)"
      using assms by (simp add: slots_backed_def)
    then show ?thesis using that
      by (cases "(lv_connects lv, lv_accepts lv, lv_answered lv, n, m, exchange (lv_state lv) n m)" rule: slot_backed.cases)
         (auto, metis in_set_remove1 prod.inject)
  qed
  have over: "slots_backed (on_sync_finished C env ns peer orig result ?lv)" for orig result
    by (rule backed_finished) (use keep in \<open>auto simp: backed_except_def\<close>)
  have "slots_backed (?lv\<lparr>lv_state := snd (ns_abort_connect ns peer reason (lv_state ?lv))\<rparr>)"
    using keep by (auto simp: slots_backed_def abort_exchange)
  then show ?thesis using over
    by (auto simp: on_sync_via_connect_finished_def split: sum.splits connect_error.splits abort_reason.splits)
qed

lemma accept_done_backed:
  assumes "slots_backed lv" "\<forall>ns f. (task, ns, peer, Allow f) \<in> set (lv_answered lv) \<longrightarrow> accept_names ns peer res"
  shows "slots_backed (on_sync_via_accept_finished C env res (lv\<lparr>lv_accepts := remove1 (task, peer) (lv_accepts lv)\<rparr>))"
proof (cases "\<exists>ns f. (task, ns, peer, Allow f) \<in> set (lv_answered lv)")
  case False
  have "slot_backed (lv_connects lv) (remove1 (task, peer) (lv_accepts lv)) (lv_answered lv) n m (exchange (lv_state lv) n m)" for n m
  proof -
    have "slot_backed (lv_connects lv) (lv_accepts lv) (lv_answered lv) n m (exchange (lv_state lv) n m)"
      using assms(1) by (simp add: slots_backed_def)
    then show ?thesis using False
      by (cases "(lv_connects lv, lv_accepts lv, lv_answered lv, n, m, exchange (lv_state lv) n m)" rule: slot_backed.cases)
         (auto simp: in_set_remove1, metis in_set_remove1 prod.inject)
  qed
  then have "slots_backed (lv\<lparr>lv_accepts := remove1 (task, peer) (lv_accepts lv)\<rparr>)" by (simp add: slots_backed_def)
  then show ?thesis using backed.finished
    by (auto simp: on_sync_via_accept_finished_def split: sum.splits accept_error.splits abort_reason.splits option.splits)
next
  case True
  then obtain ns f where ns: "(task, ns, peer, Allow f) \<in> set (lv_answered lv)" by blast
  then have names: "accept_names ns peer res" using assms(2) by blast
  have "slot_backed (lv_connects lv) (remove1 (task, peer) (lv_accepts lv)) (lv_answered lv) n m (exchange (lv_state lv) n m)"
    if nm: "(n, m) \<noteq> (ns, peer)" for n m
  proof -
    have same: "n' = ns" if "(task, n', peer, Allow f') \<in> set (lv_answered lv)" for n' f'
      using assms(2) that names by (cases res) fastforce+
    have "slot_backed (lv_connects lv) (lv_accepts lv) (lv_answered lv) n m (exchange (lv_state lv) n m)"
      using assms(1) by (simp add: slots_backed_def)
    then show ?thesis using nm same
      by (cases "(lv_connects lv, lv_accepts lv, lv_answered lv, n, m, exchange (lv_state lv) n m)" rule: slot_backed.cases)
         (auto simp: in_set_remove1, metis in_set_remove1 prod.inject)
  qed
  then have "backed_except ns peer (lv\<lparr>lv_accepts := remove1 (task, peer) (lv_accepts lv)\<rparr>)" by (auto simp: backed_except_def)
  from backed_finished[OF this] show ?thesis using names
    by (cases res) (auto simp: on_sync_via_accept_finished_def split: accept_error.splits abort_reason.splits)
qed

interpretation backed_run: run_invariant "\<lambda>_ _. True" slots_backed
proof unfold_locales
  fix lv assume lv: "slots_backed lv"
  show "slots_backed (live_tick C env (LvConnectDone ns peer reason res) lv)" for C env ns peer reason res
    using connect_done_backed[OF lv] by simp
  show "slots_backed (live_tick C env (LvAcceptDone task peer acc) lv)" if "follows lv (LvAcceptDone task peer acc)" for C env task peer acc
    using accept_done_backed[OF lv] that by simp
  show "slots_backed (live_tick C env (LvDownloadDone ns hash ok) lv)" for C env ns hash ok
    using lv backed.after_download[OF prod.collapse[symmetric]] by (simp add: slots_backed_def)
qed

text \<open>C24. No pair stays blocked. In every run of the live actor, an exchange that is recorded as running is that of a dial or of an accepted
  connection whose task is still running; so when no such task runs, every pair is idle, and the next
  trigger for a syncing document starts a dial.\<close>

theorem no_pair_blocked:
  assumes "run_follows C inputs (live_new me tx a)" "lv = live_run C inputs (live_new me tx a)"
  shows "slots_backed lv \<and>
    (lv_connects lv = [] \<and> lv_accepts lv = [] \<longrightarrow> (\<forall>ns peer. exchange (lv_state lv) ns peer = Idle \<and>
       (ns_is_syncing ns (lv_state lv) \<longrightarrow> (ns, peer, reason) \<in> set (lv_connects (sync_with_peer env ns peer reason lv)))))"
proof -
  have "slots_backed (live_new me tx a)" by (simp add: slots_backed_def live_new_def exchange_def table_get_def)
  then have backed: "slots_backed lv" using backed_run.run[of inputs] assms by (auto simp: case_prod_beta)
  have idle: "exchange (lv_state lv) ns peer = Idle" if "lv_connects lv = []" "lv_accepts lv = []" for ns peer
  proof -
    have "slot_backed [] [] (lv_answered lv) ns peer (exchange (lv_state lv) ns peer)"
      using backed that unfolding slots_backed_def by metis
    then show ?thesis
      by (cases "([] :: dial_tasks, [] :: accept_tasks, lv_answered lv, ns, peer, exchange (lv_state lv) ns peer)" rule: slot_backed.cases) auto
  qed
  then show ?thesis using backed start_connect_eq(1)[of _ "lv_state lv"] by (auto simp: sync_with_peer_def case_prod_beta)
qed

section \<open>A concrete run\<close>

definition sample_live_env :: live_env where
  "sample_live_env = \<lparr>le_world = sample_world, le_now = 3, le_gossip_ok = True, le_max_message_size = 4096,
     le_heads_codec = heads_postcard, le_serializes = (\<lambda>_. True), le_alive = (\<lambda>_. True), le_complete = (\<lambda>_. False),
     le_public_key = (\<lambda>_. True), le_order = id\<rparr>"

theorem no_pair_blocked_witness:
  "slots_backed (live_run sample_crypto [(sample_live_env, LvMessage (NeighborUp [7] [8]))] (live_new [9] 1 sample_actor))"
proof -
  have "run_follows sample_crypto [(sample_live_env, LvMessage (NeighborUp [7] [8]))] (live_new [9] 1 sample_actor)" by simp
  from no_pair_blocked[OF this refl] show ?thesis by blast
qed

end
