(* ===== verification/Live_Content.thy ===== *)
theory Live_Content
  imports Live_Laws
begin

text \<open>
  Content downloads of the live actor: the indices of what is queued, the running downloads, and when
  subscribers are told that nothing is pending.
\<close>

section \<open>The two indices\<close>

definition bucket :: "('k::linorder, 'x list) table \<Rightarrow> 'k \<Rightarrow> 'x list" where
  "bucket m k = (case table_get m k of Some xs \<Rightarrow> xs | None \<Rightarrow> [])"

definition qh_ok :: "queued_hashes \<Rightarrow> bool" where
  "qh_ok q \<longleftrightarrow> (\<forall>hash ns. ns \<in> set (bucket (qh_by_hash q) hash) \<longleftrightarrow> hash \<in> set (bucket (qh_by_namespace q) ns)) \<and>
     (\<forall>hash. table_get (qh_by_hash q) hash \<noteq> Some []) \<and> (\<forall>ns. table_get (qh_by_namespace q) ns \<noteq> Some [])"

lemma bucket_insert_get:
  "table_get (bucket_insert k x m) k' = (if k' = k then Some (List.insert x (bucket m k)) else table_get m k')"
  by (simp add: bucket_insert_def bucket_def table_get_insert)

lemma bucket_insert_bucket: "set (bucket (bucket_insert k x m) k') = (if k' = k then insert x (set (bucket m k)) else set (bucket m k'))"
proof -
  have "bucket (bucket_insert k x m) k' = (if k' = k then List.insert x (bucket m k) else bucket m k')"
    by (cases "k' = k") (simp_all add: bucket_insert_get bucket_def)
  then show ?thesis by simp
qed

lemma insert_not_empty: "List.insert x xs \<noteq> []"
  by (metis List.set_insert insert_not_empty set_empty)

lemma qh_insert_ok: "qh_ok q \<Longrightarrow> qh_ok (qh_insert hash ns q)"
  by (auto simp: qh_ok_def qh_insert_def bucket_insert_bucket bucket_insert_get insert_not_empty split: if_splits)

lemma qh_insert_contains: "qh_contains_hash h (qh_insert hash ns q) \<longleftrightarrow> h = hash \<or> qh_contains_hash h q"
  by (simp add: qh_contains_hash_def qh_insert_def bucket_insert_get)

lemma remove_from_namespaces_get:
  "remove_from_namespaces hash nss m = (emptied, m') \<Longrightarrow>
   table_get m' ns = (if ns \<in> set nss \<and> removeAll hash (bucket m ns) = [] then None
     else if ns \<in> set nss then Some (removeAll hash (bucket m ns)) else table_get m ns) \<and>
   (ns \<in> set emptied \<longleftrightarrow> ns \<in> set nss \<and> table_get m ns \<noteq> None \<and> removeAll hash (bucket m ns) = [])"
proof (induction hash nss m arbitrary: emptied m' rule: remove_from_namespaces.induct)
  case (2 hash n rest m)
  show ?case
  proof (cases "table_get m n")
    case None
    then show ?thesis using 2 by (auto simp: bucket_def)
  next
    case (Some hashes)
    show ?thesis
    proof (cases "removeAll hash hashes = []")
      case True
      obtain e1 where e1: "remove_from_namespaces hash rest (table_remove n m) = (e1, m')" "emptied = n # e1"
        using 2(4) Some True by (auto simp: Let_def split: prod.splits)
      have "bucket (table_remove n m) ns = (if ns = n then [] else bucket m ns)" by (simp add: bucket_def table_get_remove)
      then show ?thesis using 2(2)[OF Some refl True e1(1)] e1(2) Some True by (auto simp: table_get_remove bucket_def)
    next
      case False
      have e1: "remove_from_namespaces hash rest (table_insert n (removeAll hash hashes) m) = (emptied, m')"
        using 2(4) Some False by (simp add: Let_def)
      have "bucket (table_insert n (removeAll hash hashes) m) ns = (if ns = n then removeAll hash hashes else bucket m ns)"
        by (simp add: bucket_def table_get_insert)
      then show ?thesis using 2(3)[OF Some refl False e1] Some False by (auto simp: table_get_insert bucket_def)
    qed
  qed
qed simp

lemma qh_remove_laws:
  assumes "qh_ok q" "qh_remove_hash hash q = (emptied, q')"
  shows "qh_ok q'" "qh_contains_hash h q' \<longleftrightarrow> h \<noteq> hash \<and> qh_contains_hash h q"
    "ns \<in> set emptied \<longleftrightarrow> qh_contains_namespace ns q \<and> \<not> qh_contains_namespace ns q'"
proof -
  obtain m where m: "remove_from_namespaces hash (bucket (qh_by_hash q) hash) (qh_by_namespace q) = (emptied, m)"
    "q' = \<lparr>qh_by_hash = table_remove hash (qh_by_hash q), qh_by_namespace = m\<rparr>"
    using assms(2) by (auto simp: qh_remove_hash_def Let_def bucket_def split: prod.splits)
  note get = remove_from_namespaces_get[OF m(1)]
  have agree: "n \<in> set (bucket (qh_by_hash q) h) \<longleftrightarrow> h \<in> set (bucket (qh_by_namespace q) n)" for h n
    using assms(1) by (simp add: qh_ok_def)
  have some: "table_get (qh_by_namespace q) n \<noteq> None" if "n \<in> set (bucket (qh_by_hash q) hash)" for n
    using agree[of n hash] that by (cases "table_get (qh_by_namespace q) n") (auto simp: bucket_def)
  have bm: "set (bucket m n) = set (bucket (qh_by_namespace q) n) - {hash}" for n
  proof (cases "n \<in> set (bucket (qh_by_hash q) hash)")
    case True
    then have "bucket m n = removeAll hash (bucket (qh_by_namespace q) n)" using get[of n] by (auto simp: bucket_def[of m])
    then show ?thesis by simp
  next
    case False
    then show ?thesis using get[of n] agree[of n hash] by (simp add: bucket_def[of m]) (simp add: bucket_def)
  qed
  have bh: "bucket (table_remove hash (qh_by_hash q)) h = (if h = hash then [] else bucket (qh_by_hash q) h)" for h
    by (simp add: bucket_def table_get_remove)
  show "qh_ok q'" using assms(1) get agree bm bh by (auto simp: qh_ok_def m(2) table_get_remove split: if_splits)
  show "qh_contains_hash h q' \<longleftrightarrow> h \<noteq> hash \<and> qh_contains_hash h q" by (simp add: qh_contains_hash_def m(2) table_get_remove)
  show "ns \<in> set emptied \<longleftrightarrow> qh_contains_namespace ns q \<and> \<not> qh_contains_namespace ns q'"
    using get[of ns] some[of ns] by (auto simp: qh_contains_namespace_def m(2) split: if_splits)
qed

section \<open>Queued content is being downloaded\<close>

definition content_ok :: "live \<Rightarrow> bool" where
  "content_ok lv \<longleftrightarrow> qh_ok (lv_queued lv) \<and> distinct (map snd (lv_downloads lv)) \<and>
     (\<forall>hash. qh_contains_hash hash (lv_queued lv) \<longleftrightarrow> hash \<in> snd ` set (lv_downloads lv))"

interpretation content: live_invariant "\<lambda>_ _. True" content_ok
proof unfold_locales
  fix lv assume ok: "content_ok lv"
  show "content_ok (queue_download env ns hash only lv)" for env ns hash only
    using ok by (auto simp: content_ok_def queue_download_def qh_insert_ok qh_insert_contains)
qed (auto simp: content_ok_def live_call_def live_emit_def broadcast_neighbors_def sync_with_peer_def accept_sync_request_def
      split: prod.splits)

definition broadcasts_free :: "live \<Rightarrow> bool" where
  "broadcasts_free lv \<longleftrightarrow> list_all (\<lambda>(ns, msg). content_free msg) (lv_broadcasts lv)"

interpretation broadcasts: live_invariant "\<lambda>_ _. True" broadcasts_free
  by unfold_locales (auto simp: broadcasts_free_def live_call_def live_emit_def broadcast_neighbors_def sync_with_peer_def
      accept_sync_request_def queue_download_def split: prod.splits)

lemma remove1_snd:
  assumes "distinct (map snd xs)" "(a, b) \<in> set xs"
  shows "distinct (map snd (remove1 (a, b) xs))" "snd ` set (remove1 (a, b) xs) = snd ` set xs - {b}"
proof -
  have "distinct (map snd (remove1 (a, b) xs)) \<and> set (map snd (remove1 (a, b) xs)) = set (map snd xs) - {b}"
    using assms by (induction xs) (auto simp: image_iff)
  then show "distinct (map snd (remove1 (a, b) xs))" "snd ` set (remove1 (a, b) xs) = snd ` set xs - {b}" by simp_all
qed

lemma download_done_ok:
  assumes "content_ok lv" "(ns, hash) \<in> set (lv_downloads lv)"
  shows "content_ok (on_download_ready env ns hash ok (lv\<lparr>lv_downloads := remove1 (ns, hash) (lv_downloads lv)\<rparr>))"
proof -
  let ?d = "remove1 (ns, hash) (lv_downloads lv)"
  obtain emptied q where q: "qh_remove_hash hash (lv_queued lv) = (emptied, q)" by fastforce
  have dist: "distinct (map snd (lv_downloads lv))" using assms(1) by (simp add: content_ok_def)
  have "content_ok (lv\<lparr>lv_downloads := ?d, lv_queued := q\<rparr>)"
    using qh_remove_laws(1,2)[OF _ q] assms(1) remove1_snd[OF dist assms(2)] by (simp add: content_ok_def) blast
  then show ?thesis using content.after_download[of hash "lv\<lparr>lv_downloads := ?d\<rparr>" emptied q] q by simp
qed

interpretation content_run: taskless_invariant "\<lambda>_ _. True" content_ok
  by unfold_locales (use download_done_ok in \<open>auto simp: content_ok_def\<close>)

interpretation broadcasts_run: taskless_invariant "\<lambda>_ _. True" broadcasts_free
proof unfold_locales
  fix lv assume "broadcasts_free lv"
  then have "broadcasts_free (lv\<lparr>lv_downloads := d, lv_queued := q\<rparr>)" for d q by (simp add: broadcasts_free_def)
  from broadcasts.after_download[OF prod.collapse[symmetric]] this
  show "broadcasts_free (live_tick C env (LvDownloadDone ns hash ok) lv)" for C env ns hash ok by simp
qed (simp_all add: broadcasts_free_def)

lemma content_new: "content_ok (live_new me tx a)"
  by (simp add: content_ok_def live_new_def queued_default_def qh_ok_def bucket_def qh_contains_hash_def table_get_def)

text \<open>C25. Queued content is being downloaded, once. In every run of the live actor the index by hash and the index by document
  agree and hold no empty sets, a hash is queued exactly while a download of it runs, and no hash is
  downloaded twice at a time.\<close>

theorem downloads_match_queue:
  assumes "run_follows C inputs (live_new me tx a)" "lv = live_run C inputs (live_new me tx a)"
  shows "(\<forall>hash ns. ns \<in> set (bucket (qh_by_hash (lv_queued lv)) hash) \<longleftrightarrow> hash \<in> set (bucket (qh_by_namespace (lv_queued lv)) ns)) \<and>
    (\<forall>hash. qh_contains_hash hash (lv_queued lv) \<longleftrightarrow> (\<exists>ns. (ns, hash) \<in> set (lv_downloads lv))) \<and>
    (\<forall>hash. qh_contains_hash hash (lv_queued lv) \<longleftrightarrow> (\<exists>ns. hash \<in> set (bucket (qh_by_namespace (lv_queued lv)) ns))) \<and>
    distinct (map snd (lv_downloads lv))"
proof -
  have ok: "content_ok lv" using content_run.run[OF _ content_new] assms by blast
  then have queued: "qh_ok (lv_queued lv)" "distinct (map snd (lv_downloads lv))"
    "\<And>hash. qh_contains_hash hash (lv_queued lv) \<longleftrightarrow> hash \<in> snd ` set (lv_downloads lv)"
    by (simp_all add: content_ok_def)
  have agree: "\<forall>hash ns. ns \<in> set (bucket (qh_by_hash (lv_queued lv)) hash) \<longleftrightarrow> hash \<in> set (bucket (qh_by_namespace (lv_queued lv)) ns)"
    using queued(1) by (simp add: qh_ok_def)
  have "qh_contains_hash hash (lv_queued lv) \<longleftrightarrow> set (bucket (qh_by_hash (lv_queued lv)) hash) \<noteq> {}" for hash
  proof -
    have "table_get (qh_by_hash (lv_queued lv)) hash \<noteq> Some []" using queued(1) by (simp add: qh_ok_def)
    then show ?thesis by (cases "table_get (qh_by_hash (lv_queued lv)) hash") (simp_all add: qh_contains_hash_def bucket_def)
  qed
  then have "\<forall>hash. qh_contains_hash hash (lv_queued lv) \<longleftrightarrow> (\<exists>ns. hash \<in> set (bucket (qh_by_namespace (lv_queued lv)) ns))"
    using agree by (metis empty_iff equals0I)
  moreover have "\<forall>hash. qh_contains_hash hash (lv_queued lv) \<longleftrightarrow> (\<exists>ns. (ns, hash) \<in> set (lv_downloads lv))"
    unfolding queued(3) by (simp add: image_iff) (metis snd_conv surj_pair)
  ultimately show ?thesis using agree queued(2) by blast
qed

text \<open>Received entries are dropped: no message of the receive loop comes from one.\<close>

definition drops_entries :: "gossip_op postcard \<Rightarrow> gossip_event \<Rightarrow> bool" where
  "drops_entries M ev = (case ev of GReceived _ content \<Rightarrow> (case pc_from_bytes M content of Some (OpPut _) \<Rightarrow> True | _ \<Rightarrow> False) | _ \<Rightarrow> False)"

lemma receive_skips: "receive_events M ns events = receive_events M ns (filter (\<lambda>ev. \<not> drops_entries M ev) events)"
  by (induction M ns events rule: receive_events.induct)
     (auto simp: drops_entries_def split: option.splits gossip_op.splits)

text \<open>C27. Entries never travel over gossip. Whatever the live actor has broadcast in a run is a report of author heads or an
  announcement of content; and a receive loop passes on the same messages as if the entries other
  peers broadcast had never been received.\<close>

theorem gossip_content_free:
  assumes "run_follows C inputs (live_new me tx a)"
  shows "(\<forall>ns msg. (ns, msg) \<in> set (lv_broadcasts (live_run C inputs (live_new me tx a))) \<longrightarrow> (\<forall>e. msg \<noteq> OpPut e)) \<and>
    receive_loop M topic neighbors events = receive_loop M topic neighbors (filter (\<lambda>ev. \<not> drops_entries M ev) events)"
proof -
  have "broadcasts_free (live_new me tx a)" by (simp add: broadcasts_free_def live_new_def)
  then have "broadcasts_free (live_run C inputs (live_new me tx a))" using broadcasts_run.run assms by blast
  then show ?thesis using receive_skips[of M topic events] by (auto simp: broadcasts_free_def list_all_iff receive_loop_def)
qed

section \<open>When nothing is pending\<close>

text \<open>The documents a step announces as having no pending content.\<close>

definition announced_ready :: "live \<Rightarrow> live \<Rightarrow> namespace_id set" where
  "announced_ready lv lv' = {ns. \<exists>tx. (tx, ns, EvPendingContentReady) \<in> set (drop (length (lv_delivered lv)) (lv_delivered lv'))}"

lemma delivered_frames [simp]:
  "lv_delivered (queue_download env ns hash only lv) = lv_delivered lv"
  "lv_delivered (start_download env ns hash node only lv) = lv_delivered lv"
  "lv_delivered (broadcast_neighbors env ns msg lv) = lv_delivered lv"
  "lv_delivered (sync_with_peer env ns peer reason lv) = lv_delivered lv"
  "lv_delivered (snd (live_call C env act lv)) = lv_delivered lv"
  "lv_queued (broadcast_neighbors env ns msg lv) = lv_queued lv"
  "lv_queued (live_emit env ns ev lv) = lv_queued lv"
  "lv_queued (sync_with_peer env ns peer reason lv) = lv_queued lv"
  by (simp_all add: queue_download_def start_download_def broadcast_neighbors_def sync_with_peer_def live_call_def live_emit_def case_prod_beta)

lemma delivered_retry [simp]: "lv_delivered (retry_content env ns peer lv) = lv_delivered lv"
proof -
  have "lv_delivered (fold f xs l) = lv_delivered l" if "\<And>x l. lv_delivered (f x l) = lv_delivered l" for f :: "bytes \<Rightarrow> live \<Rightarrow> live" and xs l
    using that by (induction xs arbitrary: l) auto
  then show ?thesis by (simp add: retry_content_def Let_def)
qed

lemma delivered_emit: "\<exists>es. lv_delivered (live_emit env ns ev lv) = lv_delivered lv @ es \<and> (\<forall>e \<in> set es. snd e = (ns, ev))"
  by (auto simp: live_emit_def)

lemma emit_when_ready_frames:
  "lv_queued (emit_when_ready env ns lv) = lv_queued lv"
  "\<exists>es. lv_delivered (emit_when_ready env ns lv) = lv_delivered lv @ es \<and> (\<forall>e \<in> set es. snd e = (ns, EvPendingContentReady))"
  using delivered_emit[of env ns EvPendingContentReady "lv\<lparr>lv_state := sts\<rparr>" for sts]
  by (auto simp: emit_when_ready_def Let_def split: prod.splits)

lemma fold_emit_ready:
  "lv_queued (fold (emit_when_ready env) nss lv) = lv_queued lv \<and>
   (\<exists>es. lv_delivered (fold (emit_when_ready env) nss lv) = lv_delivered lv @ es \<and> (\<forall>e \<in> set es. fst (snd e) \<in> set nss))"
proof (induction nss arbitrary: lv)
  case (Cons n nss)
  obtain es where es: "lv_delivered (emit_when_ready env n lv) = lv_delivered lv @ es" "\<forall>e \<in> set es. snd e = (n, EvPendingContentReady)"
    using emit_when_ready_frames(2) by blast
  obtain es' where es': "lv_delivered (fold (emit_when_ready env) nss (emit_when_ready env n lv)) = lv_delivered (emit_when_ready env n lv) @ es'"
    "\<forall>e \<in> set es'. fst (snd e) \<in> set nss" using Cons by blast
  have "lv_queued (fold (emit_when_ready env) (n # nss) lv) = lv_queued lv" using Cons emit_when_ready_frames(1) by simp
  moreover have "lv_delivered (fold (emit_when_ready env) (n # nss) lv) = lv_delivered lv @ es @ es' \<and>
      (\<forall>e \<in> set (es @ es'). fst (snd e) \<in> set (n # nss))" using es es' by auto
  ultimately show ?case by blast
qed simp

lemma download_announces:
  assumes "content_ok lv" "follows lv (LvDownloadDone ns hash ok)" "ok \<or> (ns, hash) \<notin> set (lv_retry lv)"
    "lv' = live_tick C env (LvDownloadDone ns hash ok) lv" "n \<in> announced_ready lv lv'"
  shows "\<not> qh_contains_namespace n (lv_queued lv')"
proof -
  let ?lv = "lv\<lparr>lv_downloads := remove1 (ns, hash) (lv_downloads lv)\<rparr>"
  obtain emptied q where q: "qh_remove_hash hash (lv_queued lv) = (emptied, q)" by fastforce
  let ?lv2 = "if ok then broadcast_neighbors env ns (OpContentReady hash) (live_emit env ns (EvContentReady hash)
        (?lv\<lparr>lv_queued := q, lv_retry := filter (\<lambda>(_, h). h \<noteq> hash) (lv_retry lv)\<rparr>))
      else ?lv\<lparr>lv_queued := q, lv_missing := List.insert (ns, hash) (lv_missing lv)\<rparr>"
  have lv': "lv' = fold (emit_when_ready env) emptied ?lv2"
    using assms(3,4) q by (auto simp: on_download_ready_def Let_def)
  obtain es where es: "lv_delivered lv' = lv_delivered ?lv2 @ es" "\<forall>e \<in> set es. fst (snd e) \<in> set emptied" and queued: "lv_queued lv' = q"
    using fold_emit_ready[of env emptied ?lv2] unfolding lv' by (auto split: if_splits)
  obtain es' where "lv_delivered ?lv2 = lv_delivered lv @ es'" "\<forall>e \<in> set es'. snd (snd e) = EvContentReady hash"
    using delivered_emit[of env ns "EvContentReady hash" "?lv\<lparr>lv_queued := q, lv_retry := filter (\<lambda>(_, h). h \<noteq> hash) (lv_retry lv)\<rparr>"]
    by (cases ok) auto
  then have "n \<in> set emptied" using es assms(5) by (auto simp: announced_ready_def)
  then show ?thesis using qh_remove_laws(3)[OF _ q, of n] assms(1) queued by (simp add: content_ok_def)
qed

lemma finished_announces:
  assumes "n \<in> announced_ready lv (on_sync_finished C env ns peer orig result lv)"
  shows "\<not> qh_contains_namespace n (lv_queued (on_sync_finished C env ns peer orig result lv))"
proof -
  let ?lv1 = "case result of Inl _ \<Rightarrow> lv | Inr details \<Rightarrow> sync_succeeded C env ns peer details lv"
  have lv1: "lv_delivered ?lv1 = lv_delivered lv" by (simp add: sync_succeeded_def report_sync_def split: sum.splits)
  obtain fin sts where fin: "ns_finish (le_now env) ns peer orig result (lv_state ?lv1) = (fin, sts)" by fastforce
  show ?thesis
  proof (cases fin)
    case None
    then show ?thesis using assms fin lv1 by (simp add: on_sync_finished_def announced_ready_def)
  next
    case (Some x)
    obtain started resync where x: "x = (started, resync)" by fastforce
    let ?ev = "EvSyncFinished \<lparr>sv_peer = peer, sv_origin = orig, sv_finished = le_now env,
        sv_started = started, sv_result = map_sum id sync_details_of result\<rparr>"
    let ?e = "live_emit env ns ?ev (?lv1\<lparr>lv_state := sts\<rparr>)"
    let ?r = "ready_or_later env ns ?e" and ?lv' = "on_sync_finished C env ns peer orig result lv"
    have lv': "lv_delivered ?lv' = lv_delivered ?r" "lv_queued ?lv' = lv_queued ?r"
      using fin Some x by (simp_all add: on_sync_finished_def Let_def)
    obtain es where es: "lv_delivered ?e = lv_delivered lv @ es" "\<forall>e \<in> set es. snd e = (ns, ?ev)"
      using delivered_emit[of env ns ?ev "?lv1\<lparr>lv_state := sts\<rparr>"] lv1 by auto
    obtain es' where es': "lv_delivered (live_emit env ns EvPendingContentReady ?e) = lv_delivered ?e @ es'"
      "\<forall>e \<in> set es'. snd e = (ns, EvPendingContentReady)" using delivered_emit by blast
    show ?thesis
    proof (cases "qh_contains_namespace ns (lv_queued ?e)")
      case True
      then show ?thesis using assms lv' es by (auto simp: announced_ready_def ready_or_later_def)
    next
      case False
      then have "n = ns" using assms lv' es es' by (auto simp: announced_ready_def ready_or_later_def Let_def)
      then show ?thesis using False lv' by (simp add: ready_or_later_def Let_def)
    qed
  qed
qed

text \<open>Nothing else announces it: messages, replica events and topics that end leave no such event behind.\<close>

lemma delivered_fold: "(\<And>x l. lv_delivered (f x l) = lv_delivered l) \<Longrightarrow> lv_delivered (fold f xs l) = lv_delivered l"
  by (induction xs arbitrary: l) auto

lemma delivered_bind:
  "lv_delivered (snd (m lv)) = d \<Longrightarrow> (\<And>x l. lv_delivered l = d \<Longrightarrow> lv_delivered (snd (f x l)) = d) \<Longrightarrow>
   lv_delivered (snd (op_bind m f lv)) = d"
  by (auto simp: op_bind_def split: prod.splits sum.splits)

lemma delivered_call: "live_call C env act lv = (r, lv') \<Longrightarrow> lv_delivered lv' = lv_delivered lv"
  using delivered_frames(5)[of C env act lv] by simp

lemma delivered_requests [simp]:
  "lv_delivered (snd (join_peers env ns peers join lv)) = lv_delivered lv"
  "lv_delivered (snd (stored_peers C env ns lv)) = lv_delivered lv"
  "lv_delivered (snd (start_sync C env ns peers join lv)) = lv_delivered lv"
  "lv_delivered (snd (leave C env ns kill lv)) = lv_delivered lv"
  "lv_delivered (on_sync_report C env peer report lv) = lv_delivered lv"
proof -
  show join: "lv_delivered (snd (join_peers env ns peers join lv)) = lv_delivered lv" for peers join lv
    by (simp add: join_peers_def Let_def delivered_fold split: prod.splits sum.splits)
  show stored: "lv_delivered (snd (stored_peers C env ns lv)) = lv_delivered lv" for lv
    using delivered_call by (auto simp: stored_peers_def split: prod.splits sum.splits reply.splits option.splits)
  show "lv_delivered (snd (start_sync C env ns peers join lv)) = lv_delivered lv"
    unfolding start_sync_def by (auto intro!: delivered_bind simp: case_prod_beta join stored)
  show "lv_delivered (snd (leave C env ns kill lv)) = lv_delivered lv"
    unfolding leave_def by (auto intro!: delivered_bind simp: case_prod_beta Let_def)
  show "lv_delivered (on_sync_report C env peer report lv) = lv_delivered lv"
    using delivered_call by (auto simp: on_sync_report_def split: prod.splits sum.splits reply.splits option.splits)
qed

fun task_ends :: "live_input \<Rightarrow> bool" where
  "task_ends (LvMessage msg) = False"
| "task_ends (LvReplicaEvent ev) = False"
| "task_ends (LvGossipDone i) = False"
| "task_ends _ = True"

lemma announcing_input:
  assumes "n \<in> announced_ready lv (live_tick C env input lv)"
  shows "task_ends input"
proof -
  have emit: "announced_ready lv (live_emit env ns ev l) = {}" if "lv_delivered l = lv_delivered lv" "ev \<noteq> EvPendingContentReady" for ns ev l
    using delivered_emit[of env ns ev l] that by (fastforce simp: announced_ready_def)
  have same: "announced_ready lv l = {}" if "lv_delivered l = lv_delivered lv" for l using that by (simp add: announced_ready_def)
  have "announced_ready lv (on_actor_message C env msg lv) = {}" for msg
    by (cases msg) (simp_all add: emit same accept_sync_request_def split: prod.splits)
  moreover have "announced_ready lv (on_replica_event env ev lv) = {}" for ev
    by (cases ev) (auto intro!: same simp: broadcast_local_head_def)
  ultimately show ?thesis using assms by (cases input) (auto simp: same)
qed

text \<open>C28. Subscribers are told that nothing is pending only when nothing is. In every run and for every further input of the loop: if
  the input makes the live actor announce that a document has no pending content, it is the end of a
  dialled exchange, an accepted exchange or a download, and no content of that document is queued afterwards. The one exception is
  a download that failed and is retried at once.\<close>

theorem ready_means_nothing_queued:
  assumes "run_follows C inputs (live_new me tx a)" "lv = live_run C inputs (live_new me tx a)" "follows lv input"
    "\<forall>ns hash. input = LvDownloadDone ns hash False \<longrightarrow> (ns, hash) \<notin> set (lv_retry lv)"
    "n \<in> announced_ready lv (live_tick C env input lv)"
  shows "task_ends input \<and> \<not> qh_contains_namespace n (lv_queued (live_tick C env input lv))"
proof -
  have ok: "content_ok lv" using content_run.run[OF _ content_new] assms(1,2) by blast
  have fin: "\<not> qh_contains_namespace n (lv_queued (on_sync_finished C env ns peer orig result l))"
    if "lv_delivered l = lv_delivered lv" "n \<in> announced_ready lv (on_sync_finished C env ns peer orig result l)" for ns peer orig result l
    using finished_announces[of n l C env ns peer orig result] that by (simp add: announced_ready_def)
  have quiet: "n \<notin> announced_ready lv l" if "lv_delivered l = lv_delivered lv" for l using that by (simp add: announced_ready_def)
  note ends = announcing_input[OF assms(5)]
  show ?thesis
  proof (cases input)
    case (LvDownloadDone ns hash ok')
    then show ?thesis using download_announces[OF ok _ _ refl, of ns hash ok'] assms(3-5) by (cases ok') auto
  next
    case (LvConnectDone ns peer reason res)
    then show ?thesis using assms(5) fin quiet
      by (auto simp: on_sync_via_connect_finished_def split: sum.splits connect_error.splits abort_reason.splits)
  next
    case (LvAcceptDone task peer res)
    then show ?thesis using assms(5) fin quiet
      by (auto simp: on_sync_via_accept_finished_def split: sum.splits accept_error.splits abort_reason.splits option.splits)
  qed (use ends in auto)
qed

text \<open>The exception. When the only queued content of a document fails to download and a peer became known meanwhile, the download is
  started again, and subscribers are told that nothing is pending while it runs.\<close>

theorem retry_announces_early:
  assumes "qh_remove_hash hash (lv_queued lv) = ([ns], q)" "(ns, hash) \<in> set (lv_retry lv)" "\<not> le_complete env hash"
    "\<not> qh_contains_hash hash q" "table_get (lv_state lv) ns = Some n" "nst_may_emit_ready n"
    "table_get (lv_subscribers lv) ns = Some txs" "tx \<in> set txs" "le_alive env tx"
    "lv' = live_tick C env (LvDownloadDone ns hash False) lv"
  shows "(tx, ns, EvPendingContentReady) \<in> set (lv_delivered lv') \<and> ns \<in> announced_ready lv lv' \<and>
    qh_contains_namespace ns (lv_queued lv') \<and> (ns, hash) \<in> set (lv_downloads lv')"
  using assms
  by (auto simp: on_download_ready_def Let_def queue_download_def emit_when_ready_def ns_may_emit_ready_def live_emit_def
      announced_ready_def qh_contains_namespace_def qh_insert_def bucket_insert_get)

section \<open>Concrete content\<close>

text \<open>A document whose only content is being downloaded, with a subscriber, and a peer that became known meanwhile.\<close>

definition sample_pending :: live where
  "sample_pending = (live_new [9] 1 sample_actor)\<lparr>lv_queued := qh_insert [1] [7] queued_default, lv_retry := [([7], [1])],
     lv_downloads := [([7], [1])], lv_state := snd (ns_set_may_emit_ready [7] True (ns_insert [7] [])), lv_subscribers := [([7], [3])]\<rparr>"

theorem downloads_match_queue_witness:
  "qh_contains_hash [1] (lv_queued (live_run sample_crypto
     [(sample_live_env, LvMessage (NeighborContentReady [7] [8] [1]))] (live_new [9] 1 sample_actor))) = False"
proof -
  let ?in = "[(sample_live_env, LvMessage (NeighborContentReady [7] [8] [1]))]"
  have "run_follows sample_crypto ?in (live_new [9] 1 sample_actor)" by simp
  from downloads_match_queue[OF this refl] show ?thesis
    by (auto simp: live_new_def start_download_def queue_download_def sample_live_env_def queued_default_def qh_contains_hash_def)
qed

theorem gossip_content_free_witness:
  "\<forall>e. OpPut e \<notin> snd ` set (lv_broadcasts (live_run sample_crypto
     [(sample_live_env, LvMessage (NeighborUp [7] [8]))] (live_new [9] 1 sample_actor)))"
proof -
  have "run_follows sample_crypto [(sample_live_env, LvMessage (NeighborUp [7] [8]))] (live_new [9] 1 sample_actor)" by simp
  from gossip_content_free[OF this] show ?thesis by fastforce
qed

text \<open>A document that is synced and has a subscriber, and a peer whose exchange is being served. No peers are known when it starts.\<close>

definition starting_env :: live_env where
  "starting_env = sample_live_env\<lparr>le_public_key := \<lambda>_. False, le_world := sample_world\<lparr>w_call :=
     (\<lambda>n. \<lparr>cl_before = [], cl_held = (\<lambda>_. True), cl_now = n, cl_env = sample_env\<rparr>)\<rparr>\<rparr>"

definition sample_serving :: "(live_env \<times> live_input) list" where
  "sample_serving = [(starting_env, LvMessage (StartSync sample_ns [] False)),
     (sample_live_env, LvMessage (Subscribe sample_ns 3)), (sample_live_env, LvMessage (HandleConnection 5 [8])),
     (sample_live_env, LvMessage (AcceptSyncRequest sample_ns [8] 5))]"

lemma serving_start:
  defines "l \<equiv> snd (start_sync sample_crypto starting_env sample_ns [] False (live_new [9] 1 sample_actor))"
  shows "lv_me l = [9] \<and> lv_state l = ns_insert sample_ns [] \<and> lv_subscribers l = [] \<and> lv_queued l = queued_default \<and>
    lv_accepts l = [] \<and> lv_answered l = [] \<and> lv_delivered l = []"
proof -
  let ?env = starting_env and ?lv = "live_new [9] 1 sample_actor"
  let ?open = "ActReplica sample_ns (ActOpen \<lparr>oo_sync = True, oo_subscribe = Some 1\<rparr>)"
  have frame: "\<exists>act running calls. snd (live_call C env a lv) = lv\<lparr>lv_actor := act, lv_actor_running := running, lv_calls := calls\<rparr>" for C env a lv
    by (simp add: live_call_def case_prod_beta) blast
  let ?a = "actor_tick (\<lambda>_. True) 0 sample_actor"
  have a: "actor_ok sample_crypto ?a" using tick_moves[of sample_crypto undefined sample_actor] sample_actor_ok by (simp add: actor_moves_def)
  have known: "stored_capability (visible (ac_store ?a)) sample_ns \<noteq> None"
    using sample_known_capability by (simp add: actor_tick_def reclaim_abandoned_sessions_def record_open_sessions_def Let_def)
  have "fst (live_call sample_crypto ?env ?open ?lv) = Inr ReplyUnit"
    using open_handles(1)[OF a sample_ns_length known, of "\<lparr>oo_sync = True, oo_subscribe = Some 1\<rparr>"]
    by (simp add: live_call_def io_call_def starting_env_def live_new_def op_reply_def op_bind_def op_return_def Let_def case_prod_beta split: sum.splits)
  then obtain r where opened: "fst (live_call sample_crypto ?env ?open ?lv) = Inr r" by blast
  obtain act running calls where lv1: "live_call sample_crypto ?env ?open ?lv =
      (Inr r, ?lv\<lparr>lv_actor := act, lv_actor_running := running, lv_calls := calls\<rparr>)"
    using frame[of sample_crypto ?env ?open ?lv] opened by (metis prod.collapse)
  let ?l = "?lv\<lparr>lv_actor := act, lv_actor_running := running, lv_calls := calls, lv_state := ns_insert sample_ns []\<rparr>"
  obtain act' running' calls' where lv2: "snd (live_call sample_crypto ?env (ActReplica sample_ns ActGetSyncPeers) ?l) =
      ?l\<lparr>lv_actor := act', lv_actor_running := running', lv_calls := calls'\<rparr>"
    using frame by blast
  have stored: "stored_peers sample_crypto ?env sample_ns ?l = ([], ?l\<lparr>lv_actor := act', lv_actor_running := running', lv_calls := calls'\<rparr>)"
    using lv2 by (auto simp: stored_peers_def starting_env_def split: prod.splits sum.splits reply.splits option.splits)
  have "lv_state ?lv = []" "lv_replica_events ?lv = 1" "lv_lookup ?lv = []" by (simp_all add: live_new_def)
  then have "snd (start_sync sample_crypto ?env sample_ns [] False ?lv) =
      ?l\<lparr>lv_actor := act', lv_actor_running := running', lv_calls := calls'\<rparr>"
    using lv1 stored by (simp add: start_sync_def op_bind_def ns_is_syncing_def join_peers_def Let_def)
  then show ?thesis unfolding l_def by (simp add: live_new_def)
qed

lemma sample_served:
  defines "lv \<equiv> live_run sample_crypto sample_serving (live_new [9] 1 sample_actor)"
  shows "run_follows sample_crypto sample_serving (live_new [9] 1 sample_actor)"
    "follows lv (LvAcceptDone 5 [8] (Inl (AcceptSync [8] (Some sample_ns) NetActorGone)))"
    "sample_ns \<in> announced_ready lv (live_tick sample_crypto sample_live_env (LvAcceptDone 5 [8] (Inl (AcceptSync [8] (Some sample_ns) NetActorGone))) lv)"
proof -
  let ?ps = "set_sync_running 3 OriginAccept peer_state_default"
  have sts: "ns_accept_request 3 [9] sample_ns [8] (ns_insert sample_ns []) =
      (Allow None, [(sample_ns, \<lparr>nst_nodes = [([8], ?ps)], nst_may_emit_ready = False\<rparr>)])"
    by (simp add: ns_accept_request_def ns_entry_def ns_insert_def table_get_def peer_accept_request_def peer_state_default_def
        namespace_state_default_def)
  have lv: "lv_subscribers lv = [(sample_ns, [3])]" "lv_accepts lv = [(5, [8])]" "lv_answered lv = [(5, sample_ns, [8], Allow None)]"
    "lv_delivered lv = []" "lv_queued lv = queued_default"
    "lv_state lv = [(sample_ns, \<lparr>nst_nodes = [([8], ?ps)], nst_may_emit_ready = False\<rparr>)]"
    using serving_start sts
    by (simp_all add: lv_def sample_serving_def accept_sync_request_def case_prod_beta map_subscribe_def sample_live_env_def)
  show "run_follows sample_crypto sample_serving (live_new [9] 1 sample_actor)"
    using serving_start by (simp add: sample_serving_def)
  show "follows lv (LvAcceptDone 5 [8] (Inl (AcceptSync [8] (Some sample_ns) NetActorGone)))" by (simp add: lv)
  have "snd (map_send (\<lambda>_. True) sample_ns [(sample_ns, [3])]) = [(sample_ns, [3])]"
    by (simp add: map_send_def event_send_def table_get_def)
  then show "sample_ns \<in> announced_ready lv (live_tick sample_crypto sample_live_env (LvAcceptDone 5 [8] (Inl (AcceptSync [8] (Some sample_ns) NetActorGone))) lv)"
    by (simp add: lv on_sync_via_accept_finished_def on_sync_finished_def ns_finish_def ns_entry_def peer_finish_def table_get_def
        set_sync_running_def peer_state_default_def ready_or_later_def queued_default_def qh_contains_namespace_def announced_ready_def
        live_emit_def sample_live_env_def Let_def)
qed

theorem ready_means_nothing_queued_witness:
  "\<exists>lv. lv = live_run sample_crypto sample_serving (live_new [9] 1 sample_actor) \<and>
     sample_ns \<in> announced_ready lv (live_tick sample_crypto sample_live_env (LvAcceptDone 5 [8] (Inl (AcceptSync [8] (Some sample_ns) NetActorGone))) lv) \<and>
     \<not> qh_contains_namespace sample_ns (lv_queued (live_tick sample_crypto sample_live_env
         (LvAcceptDone 5 [8] (Inl (AcceptSync [8] (Some sample_ns) NetActorGone))) lv))"
  using ready_means_nothing_queued[OF sample_served(1) refl sample_served(2) _ sample_served(3)] sample_served(3) by simp

theorem retry_announces_early_witness:
  "(3, [7], EvPendingContentReady) \<in> set (lv_delivered (live_tick sample_crypto sample_live_env (LvDownloadDone [7] [1] False) sample_pending)) \<and>
   ([7], [1]) \<in> set (lv_downloads (live_tick sample_crypto sample_live_env (LvDownloadDone [7] [1] False) sample_pending))"
proof -
  have "qh_remove_hash [1] (lv_queued sample_pending) = ([[7]], \<lparr>qh_by_hash = [], qh_by_namespace = []\<rparr>)"
    by (simp add: sample_pending_def qh_remove_hash_def qh_insert_def bucket_insert_def queued_default_def table_get_def table_remove_def)
  from retry_announces_early[OF this _ _ _ _ _ _ _ _ refl, of sample_live_env "\<lparr>nst_nodes = [], nst_may_emit_ready = True\<rparr>" "[3]" 3 sample_crypto]
  show ?thesis
    by (simp add: sample_pending_def sample_live_env_def qh_contains_hash_def ns_set_may_emit_ready_def ns_insert_def
        namespace_state_default_def table_get_def)
qed

end
