(* ===== verification/Engine_Props.thy ===== *)
theory Engine_Props
  imports Live_Content
begin

text \<open>
  The live actor and the exchanges it starts, together: what an accepted connection reports back, and
  what the access provider of the embedder makes of both roles of an exchange.
\<close>

section \<open>What an accepted connection reports\<close>

text \<open>Errors name the peer and the namespace that was asked for; a refusal is that of the accept decision.\<close>

definition names_asked ::
  "(namespace_id \<Rightarrow> public_key \<Rightarrow> accept_outcome) \<Rightarrow> public_key \<Rightarrow> namespace_id option \<Rightarrow> accept_error \<Rightarrow> bool" where
  "names_asked accept_cb peer asked err \<longleftrightarrow> accept_error_peer err = Some peer \<and> accept_error_namespace err = asked \<and>
     (\<forall>p ns reason. err = AcceptAbort p ns reason \<longrightarrow> accept_cb ns peer = RejectRequest reason)"

lemma bob_fail_names: "bs_peer b = peer \<Longrightarrow> names_asked accept_cb peer (bs_namespace b) (bob_fail b e)"
  by (simp add: names_asked_def bob_fail_def)

lemma on_exchange_names:
  "bs_peer b = peer \<Longrightarrow> on_exchange m (b, x) = (r, (b', x')) \<Longrightarrow> b' = b \<and> (\<forall>err. r = Inl err \<longrightarrow> names_asked accept_cb peer (bs_namespace b) err)"
  using bob_fail_names by (cases "fst (m x)") (auto simp: on_exchange_def split: prod.splits)

lemma bob_message_names:
  assumes "bs_peer b = peer" "bob_message C W accept_cb msg (b, x) = (r, (b', x'))"
  shows "bs_peer b' = peer \<and> (\<forall>err. r = Inl err \<longrightarrow> names_asked accept_cb peer (bs_namespace b') err)"
proof (cases msg)
  case (Init ns m)
  show ?thesis
  proof (cases "bs_session b")
    case None
    let ?b = "b\<lparr>bs_namespace := Some ns\<rparr>"
    show ?thesis
    proof (cases "accept_cb ns peer")
      case (RejectRequest reason)
      obtain r1 b1 x1 where one: "on_exchange (io_send W (AbortMsg reason)) (?b, x) = (r1, (b1, x1))" by (metis prod.exhaust)
      have "names_asked accept_cb peer (Some ns) (AcceptAbort peer ns reason)" using RejectRequest by (simp add: names_asked_def)
      then show ?thesis using on_exchange_names[OF _ one, of peer accept_cb] assms None Init RejectRequest one
        by (cases r1) (auto simp: bob_message_def op_bind_def bob_update_def op_fail_def)
    next
      case (Allow filt)
      let ?b1 = "?b\<lparr>bs_filter := filt\<rparr>"
      obtain r1 b1 x1 where one: "on_exchange (io_session_start C W ns) (?b1, x) = (r1, (b1, x1))" by (metis prod.exhaust)
      note start = on_exchange_names[OF _ one, of peer accept_cb]
      show ?thesis
      proof (cases r1)
        case (Inl e)
        then show ?thesis using start assms None Init Allow one by (auto simp: bob_message_def op_bind_def bob_update_def)
      next
        case (Inr session)
        let ?b2 = "?b1\<lparr>bs_session := Some (ns, session)\<rparr>"
        have "on_exchange (io_process C W ns m peer (bs_progress b) session filt) (?b2, x1) = (r, (b', x'))"
          using start assms None Init Allow one Inr by (simp add: bob_message_def op_bind_def bob_update_def)
        from on_exchange_names[OF _ this, of peer accept_cb] assms(1) show ?thesis by auto
      qed
    qed
  qed (use assms Init bob_fail_names in \<open>auto simp: bob_message_def\<close>)
next
  case (SyncMsg m)
  show ?thesis
  proof (cases "bs_session b")
    case (Some live)
    obtain ns session where live: "live = (ns, session)" by (cases live)
    have "on_exchange (io_process C W ns m (bs_peer b) (bs_progress b) session (bs_filter b)) (b, x) = (r, (b', x'))"
      using assms(2) Some live SyncMsg by (simp add: bob_message_def)
    from on_exchange_names[OF assms(1) this, of accept_cb] assms(1) show ?thesis by auto
  qed (use assms SyncMsg bob_fail_names in \<open>auto simp: bob_message_def\<close>)
qed (use assms bob_fail_names in \<open>auto simp: bob_message_def\<close>)

lemma bob_done_names:
  "bs_peer b = peer \<Longrightarrow> bob_done (b, x) = (r, (b', x')) \<Longrightarrow> b' = b \<and>
   (case r of Inr ns \<Rightarrow> bs_namespace b = Some ns | Inl err \<Rightarrow> names_asked accept_cb peer (bs_namespace b) err)"
  using bob_fail_names[of b peer accept_cb NetClosedBeforeInit] by (auto simp: bob_done_def split: option.splits)

lemma run_rounds_names:
  "bs_peer b = peer \<Longrightarrow> run_rounds C W accept_cb items (b, x) = (r, (b', x')) \<Longrightarrow> bs_peer b' = peer \<and>
   (case r of Inr ns \<Rightarrow> bs_namespace b' = Some ns | Inl err \<Rightarrow> names_asked accept_cb peer (bs_namespace b') err)"
proof (induction items arbitrary: b x)
  case Nil
  then show ?case using bob_done_names[of b peer x r b' x' accept_cb] by auto
next
  case (Cons item rest)
  show ?case
  proof (cases item)
    case (Inl e)
    then show ?thesis using Cons.prems bob_fail_names by auto
  next
    case (Inr msg)
    obtain r1 b1 x1 where one: "bob_message C W accept_cb msg (b, x) = (r1, (b1, x1))" by (metis prod.exhaust)
    note step = bob_message_names[OF Cons.prems(1) one]
    show ?thesis
    proof (cases r1)
      case (Inl e)
      then show ?thesis using Cons.prems(2) one \<open>item = Inr msg\<close> step by (auto simp: op_bind_def)
    next
      case r1: (Inr res)
      obtain reply progress where res: "r1 = Inr (reply, progress)" using r1 by (cases res) simp
      let ?b = "b1\<lparr>bs_progress := progress\<rparr>"
      have b: "bs_peer ?b = peer" using step by simp
      show ?thesis
      proof (cases reply)
        case None
        then have "bob_done (?b, x1) = (r, (b', x'))" using Cons.prems(2) one res Inr by (simp add: op_bind_def bob_update_def)
        from bob_done_names[OF b this, of accept_cb] b show ?thesis by auto
      next
        case (Some m)
        obtain r2 b2 x2 where sent: "on_exchange (io_send W (SyncMsg m)) (?b, x1) = (r2, (b2, x2))" by (metis prod.exhaust)
        note names = on_exchange_names[OF b sent, of accept_cb]
        show ?thesis
        proof (cases r2)
          case (Inl e)
          then show ?thesis using Cons.prems(2) one res Some sent \<open>item = Inr msg\<close> names b by (auto simp: op_bind_def bob_update_def)
        next
          case (Inr u)
          then have "run_rounds C W accept_cb rest (?b, x2) = (r, (b', x'))"
            using Cons.prems(2) one res Some sent names \<open>item = Inr msg\<close> by (simp add: op_bind_def bob_update_def)
          then show ?thesis using Cons.IH[OF b] by blast
        qed
      qed
    qed
  qed
qed

lemma bob_run_names:
  assumes "bob_run C W accept_cb items (bob_new peer, x) = (r, (b, x'))"
  shows "bs_peer b = peer \<and>
    (case r of Inr ns \<Rightarrow> bs_namespace b = Some ns | Inl err \<Rightarrow> names_asked accept_cb peer (bs_namespace b) err)"
proof -
  obtain r1 b1 x1 where rounds: "run_rounds C W accept_cb items (bob_new peer, x) = (r1, (b1, x1))" by (metis prod.exhaust)
  have same: "r1 = r" "b1 = b" using assms rounds by (cases r1; auto simp: bob_run_def)+
  show ?thesis using run_rounds_names[OF _ rounds, of peer] unfolding same by (simp add: bob_new_def)
qed

lemma allowed_not_busy: "accept_request_cb provider (Some (Allow f)) ns peer \<noteq> RejectRequest AbortAlreadySyncing"
  by (auto simp: accept_request_cb_def split: option.splits session_access.splits)

text \<open>An accepted connection reports the pair its request was allowed for. Whatever the peer sends, however the connection is
  torn down, and also when the time bound cuts it off: once the live actor has allowed a request about a
  namespace, the result of the connection names this namespace and this peer and is not mistaken for
  a refusal of ours, so the live actor releases the pair.\<close>

theorem allowed_result_names_pair:
  assumes "accept_exchange C W elapsed accepted partial tr peer accept_cb items (counters, x) = (res, st)" "tr_opens tr"
    "bob_run C W accept_cb items (bob_new peer, x) = (r, (b, x'))"
    "(if elapsed then accepted else bs_namespace b) = Some ns"
    "accept_cb ns peer = accept_request_cb provider (Some (Allow f)) ns peer"
  shows "accept_names ns peer res"
proof (cases elapsed)
  case True
  then have "res = Inl (AcceptSync peer accepted NetTimeout)" using assms(1) by (simp add: accept_exchange_def handle_connection_def)
  then show ?thesis using True assms(4) by simp
next
  case False
  obtain outcome x'' where out: "bob_into_outcome C W (b, x') = (outcome, x'')" by fastforce
  have res: "res = (case r of Inl e \<Rightarrow> Inl e | Inr n \<Rightarrow> if closed_ok tr
      then Inr \<lparr>sf_namespace = n, sf_peer = peer, sf_outcome = outcome, sf_timings = sync_timings tr\<rparr>
      else Inl (AcceptClose peer (bs_namespace b) NetTransport))"
    using assms(1-3) out False by (auto simp: accept_exchange_def handle_connection_def handle_connection_inner_def split: sum.splits)
  have b: "bs_namespace b = Some ns" using assms(4) False by simp
  note names = bob_run_names[OF assms(3)]
  show ?thesis
  proof (cases r)
    case (Inl err)
    then have "names_asked accept_cb peer (Some ns) err" using names b by simp
    then show ?thesis using res Inl assms(5) allowed_not_busy[of provider f ns peer]
      by (cases err) (auto simp: names_asked_def)
  next
    case (Inr n)
    then show ?thesis using names b res by simp
  qed
qed

section \<open>The access provider\<close>

text \<open>What a decision of the provider lets a peer see.\<close>

fun access_admits :: "session_access \<Rightarrow> signed_entry \<Rightarrow> bool" where
  "access_admits Full e = True"
| "access_admits (Filtered f) e = f e"
| "access_admits Deny e = False"

text \<open>C7. The access provider decides what a peer sees, in both roles. Every entry that leaves on an accepted connection was in the document the peer asked for when the session started, the live actor allowed the
  request, and the provider, asked about this namespace, this peer and the accepting role, admits it.
  Every entry that leaves on a dial is admitted by the provider for the dialing role; a denied dial
  does not even start.\<close>

theorem provider_decides_reveal:
  assumes "crypto_ok C" "actor_ok C a" "world_ok P L W" "list_all item_ok items" "(length items + 1) * L < 2 ^ 64 - 1"
    "bob_run C W (\<lambda>ns peer. accept_request_cb (Some p) (answer ns peer) ns peer) items (bob_new peer, exchange_start a) = (r, (b, x))"
    "dial_task (Some p) ns peer (\<lambda>filt. dial_exchange C W False partial tr ns peer filt items) (counters, exchange_start a) =
      (res, (counters', y))"
    "t = visible (ac_store (snd (run_async C (cl_before (w_call W 0)) a)))"
  shows "(\<forall>e \<in> revealed x. \<exists>n f. e \<in> set (namespace_entries n t) \<and> answer n peer = Some (Allow f) \<and>
      access_admits (p n peer RoleAccept) e) \<and>
    (\<forall>e \<in> revealed y. e \<in> set (namespace_entries ns t) \<and> access_admits (p ns peer RoleDial) e)"
proof
  let ?cb = "\<lambda>ns peer. accept_request_cb (Some p) (answer ns peer) ns peer"
  have "length items * L < 2 ^ 64 - 1" using assms(5) by simp
  note safe = bob_run_reveals[OF assms(1-4) this assms(6)]
  have peer: "bs_peer b = peer" using bob_run_names[OF assms(6)] by simp
  show "\<forall>e \<in> revealed x. \<exists>n f. e \<in> set (namespace_entries n t) \<and> answer n peer = Some (Allow f) \<and> access_admits (p n peer RoleAccept) e"
  proof
    fix e assume e: "e \<in> revealed x"
    then obtain n session where n: "bs_session b = Some (n, session)" using safe by (cases "bs_session b") auto
    then have ok: "?cb n peer = Allow (bs_filter b)" "e \<in> servable n (bs_filter b) t" using safe e peer assms(8) by auto
    have "(\<exists>f. answer n peer = Some (Allow f)) \<and> (p n peer RoleAccept = Full \<or> (\<exists>g. p n peer RoleAccept = Filtered g \<and> bs_filter b = Some g))"
      using ok(1) by (auto simp: accept_request_cb_def Let_def split: option.splits accept_outcome.splits session_access.splits)
    then have "(\<exists>f. answer n peer = Some (Allow f)) \<and> access_admits (p n peer RoleAccept) e" using ok(2) by (auto simp: admitted_Some)
    then show "\<exists>n f. e \<in> set (namespace_entries n t) \<and> answer n peer = Some (Allow f) \<and> access_admits (p n peer RoleAccept) e"
      using ok(2) by auto
  qed
next
  have "revealed y \<subseteq> servable ns filt t" if "dial_exchange C W False partial tr ns peer filt items (counters, exchange_start a) = (res, (counters', y))" for filt
  proof (cases "tr_opens tr")
    case True
    obtain r1 x1 where one: "run_alice C W ns peer filt items (exchange_start a) = (r1, x1)" by fastforce
    have "y = x1" using that True one
      by (auto simp: dial_exchange_def connect_and_sync_def connect_and_sync_inner_def split: if_splits)
    then show ?thesis using run_alice_reveals[OF assms(1-5) one] assms(8) by simp
  next
    case False
    then have "y = exchange_start a" using that by (simp add: dial_exchange_def connect_and_sync_def connect_and_sync_inner_def)
    then show ?thesis by (simp add: exchange_start_def revealed_def)
  qed
  note dial = this
  show "\<forall>e \<in> revealed y. e \<in> set (namespace_entries ns t) \<and> access_admits (p ns peer RoleDial) e"
  proof (cases "p ns peer RoleDial")
    case Full
    then show ?thesis using dial[of None] assms(7) by (auto simp: dial_task_def)
  next
    case (Filtered f)
    then show ?thesis using dial[of "Some f"] assms(7) by (auto simp: dial_task_def admitted_Some)
  next
    case Deny
    then have "y = exchange_start a" using assms(7) by (simp add: dial_task_def)
    then show ?thesis by (simp add: exchange_start_def revealed_def)
  qed
qed

section \<open>Concrete connections\<close>

definition sample_transport :: transport where
  "sample_transport = \<lparr>tr_opens = True, tr_finish = True, tr_stopped = True, tr_read_to_end = True,
     tr_start = 0, tr_connected = 2, tr_processed = 5\<rparr>"

theorem allowed_result_names_pair_witness:
  "\<exists>res st. accept_exchange sample_crypto sample_world True (Some sample_ns) id sample_transport [9]
       (accept_request_cb None (Some (Allow None))) [Inr (Init sample_ns [])] (Some (0, 0), exchange_start sample_open) = (res, st) \<and>
     accept_names sample_ns [9] res"
proof -
  let ?cb = "accept_request_cb None (Some (Allow None))" and ?items = "[Inr (Init sample_ns [])]"
  obtain r b x where run: "bob_run sample_crypto sample_world ?cb ?items (bob_new [9], exchange_start sample_open) = (r, (b, x))"
    by (metis prod.exhaust)
  obtain res st where res: "accept_exchange sample_crypto sample_world True (Some sample_ns) id sample_transport [9] ?cb ?items
      (Some (0, 0), exchange_start sample_open) = (res, st)" by (metis prod.exhaust)
  have "tr_opens sample_transport" by (simp add: sample_transport_def)
  from allowed_result_names_pair[OF res this run _ refl, of sample_ns] res show ?thesis by simp
qed

theorem provider_decides_reveal_witness:
  "\<exists>r b x. bob_run sample_crypto sample_world (\<lambda>ns peer. accept_request_cb (Some (\<lambda>_ _ _. Deny)) (Some (Allow None)) ns peer)
       [Inr (Init sample_ns [])] (bob_new [9], exchange_start sample_open) = (r, (b, x)) \<and> revealed x = {}"
proof -
  let ?p = "\<lambda>_ _ _. Deny" and ?items = "[Inr (Init sample_ns [])]"
  obtain r b x where run: "bob_run sample_crypto sample_world (\<lambda>ns peer. accept_request_cb (Some ?p) (Some (Allow None)) ns peer) ?items
      (bob_new [9], exchange_start sample_open) = (r, (b, x))" by (metis prod.exhaust)
  obtain res c y where dial: "dial_task (Some ?p) sample_ns [9]
      (\<lambda>filt. dial_exchange sample_crypto sample_world False id sample_transport sample_ns [9] filt ?items)
      (None, exchange_start sample_open) = (res, (c, y))" by (metis prod.exhaust)
  have "list_all item_ok ?items" by (simp add: message_ok_def)
  from provider_decides_reveal[OF sample_crypto_ok sample_open_ok sample_world_ok this _ run dial refl] run show ?thesis by auto
qed

end
