(* ===== verification/Default_Author.thy ===== *)
theory Default_Author
  imports Docs Engine_Props
begin

text \<open>
  The default author of a node, across \<^verbatim>\<open>src/src/engine.rs\<close>, \<^verbatim>\<open>src/src/api/actor.rs\<close> and the store: no action but its deletion
  takes a durable author away from the store actor, the interface does not delete the default author,
  and so a node started again after a crash finds the author its file names. Setting another default
  author is the exception.
\<close>

section \<open>Durable authors in the store\<close>

lemma durable_reads:
  assumes "durable_author i s"
  shows "durable_author i (snd (store_tables s))" "durable_author i (snd (snapshot s))"
    "durable_author i (snd (snapshot_owned s))" "durable_author i (flush s)"
proof -
  have tx: "tx_ok s" using assms by (simp add: durable_author_def)
  show "durable_author i (snd (store_tables s))" "durable_author i (snd (snapshot s))"
    "durable_author i (snd (snapshot_owned s))" "durable_author i (flush s)"
    using assms store_tables_laws[OF tx prod.collapse[symmetric]] snapshot_laws[OF tx prod.collapse[symmetric]]
      snapshot_owned_laws[OF tx prod.collapse[symmetric]] flush_laws[OF tx]
    by (auto simp: durable_author_def)
qed

lemma durable_frame: "durable_author i s \<Longrightarrow> (\<And>t. t_authors (snd (f t)) = t_authors t) \<Longrightarrow> durable_author i (snd (modify f s))"
  using authors_modify[of f s] by (simp add: authors_kept_def)

lemma durable_writes:
  assumes "durable_author i s"
  shows "durable_author i (snd (register_useful_peer now ns peer s))" "durable_author i (snd (retract_entry ns au k up_to s))"
    "durable_author i (snd (set_download_policy P ns policy s))" "durable_author i (snd (get_download_policy P ns s))"
    "durable_author i (snd (import_author C author s))" "j \<noteq> i \<Longrightarrow> durable_author i (snd (delete_author j s))"
    "durable_author i (snd (import_namespace C cap s))" "durable_author i (snd (remove_replica ns s))"
proof -
  have frame: "durable_author i (snd (modify f s))" if "\<And>t. t_authors (snd (f t)) = t_authors t" for f :: "(tables, 'e, 'b) op"
    using durable_frame[OF assms that] .
  have "t_authors (snd (register_peer_tables ns peer n t)) = t_authors t" for n t
    by (auto simp: register_peer_tables_def Let_def split: option.splits list.splits prod.splits)
  then show "durable_author i (snd (register_useful_peer now ns peer s))"
    using assms frame[of "register_peer_tables ns peer n" for n] by (auto simp: register_useful_peer_def split: option.splits)
  show "durable_author i (snd (retract_entry ns au k up_to s))" unfolding retract_entry_def
    by (rule frame) (auto simp: retract_entry_tables_def split: option.splits)
  show "durable_author i (snd (set_download_policy P ns policy s))" unfolding set_download_policy_def
    by (rule frame) auto
  show "durable_author i (snd (get_download_policy P ns s))" using durable_reads(1)[OF assms] by (simp add: policy_tables)
  have known: "table_get (t_authors (visible s)) i \<noteq> None" using assms by (simp add: durable_author_def)
  then show "durable_author i (snd (import_author C author s))" unfolding import_author_def
    by (intro durable_modify[OF assms]) (auto simp: table_get_insert)
  from known show "durable_author i (snd (delete_author j s))" if "j \<noteq> i" unfolding delete_author_def
    using that by (intro durable_modify[OF assms]) (auto simp: table_get_remove)
  show "durable_author i (snd (import_namespace C cap s))" unfolding import_namespace_def
    by (rule frame) (auto simp: import_namespace_tables_def Let_def split: option.splits sum.splits prod.splits)
  show "durable_author i (snd (remove_replica ns s))"
    using assms frame[of "remove_replica_tables ns"] by (auto simp: remove_replica_def remove_replica_tables_def)
qed

section \<open>Durable authors in the actor\<close>

definition author_kept :: "author_id \<Rightarrow> actor \<Rightarrow> actor \<Rightarrow> bool" where
  "author_kept i a a' \<longleftrightarrow> (durable_author i (ac_store a) \<longrightarrow> durable_author i (ac_store a'))"

interpretation author_trace: trace_relation "author_kept i" for i
  by unfold_locales (auto simp: author_kept_def)

lemma kept_same: "ac_store a' = ac_store a \<Longrightarrow> author_kept i a a'"
  by (simp add: author_kept_def)

lemma durable_set_open [simp]: "durable_author i (s\<lparr>st_open_replicas := o1\<rparr>) = durable_author i s"
  by (auto simp: durable_author_def tx_ok_def visible_def split: current_transaction.splits)

lemma kept_store: "(\<And>s. durable_author i s \<Longrightarrow> durable_author i (snd (m s))) \<Longrightarrow> moves (author_kept i) (on_actor_store err m)"
  by (auto simp: moves_def author_kept_def on_actor_store_def split: prod.splits) (metis snd_conv)

lemma kept_read: "(\<And>s. durable_author i s \<Longrightarrow> durable_author i (snd (f s))) \<Longrightarrow> moves (author_kept i) (actor_read f)"
  by (auto simp: moves_def author_kept_def actor_read_def split: prod.splits) (metis snd_conv)

lemma kept_replica:
  assumes "\<And>r. replica_run C P r (snd (m r))"
  shows "moves (author_kept i) (run_replica C ns snap err m)" "moves (author_kept i) (run_if_syncing C ns snap err m)"
    "moves (author_kept i) (session_replica C ns session err m)"
proof -
  have keeps: "durable_author i (rp_store r) \<Longrightarrow> m r = (res, r') \<Longrightarrow> durable_author i (rp_store r')" for r res r'
    using assms[of r] by (auto simp: store_run_def authors_kept_def)
  show run: "moves (author_kept i) (run_replica C ns snap err m)" for snap
    by (auto simp: moves_def author_kept_def run_replica_def replica_back_def split: sum.splits prod.splits dest: keeps)
       (metis keeps replica.select_convs(3) replica_at_def)
  then show sync: "moves (author_kept i) (run_if_syncing C ns snap err m)" for snap
    by (auto simp: moves_def run_if_syncing_def split: sum.splits)
  then show "moves (author_kept i) (session_replica C ns session err m)"
    by (auto simp: moves_def session_replica_def split: sum.splits)
qed

lemma kept_ops:
  "moves (author_kept i) (actor_open C ns opts)" "author_kept i a (snd (actor_close ns a))" "moves (author_kept i) (change_state ns g)"
  "moves (author_kept i) (import_namespace_action C cap)" "moves (author_kept i) (drop_replica ns)" "moves (author_kept i) (session_start ns)"
  "author_kept i a (session_end session a)" "author_kept i a (reclaim_abandoned_sessions held now a)"
proof -
  have load: "durable_author i s'" if "load_replica_info C ns s = (r, s')" "durable_author i s" for s r s'
    using that durable_reads(1)[OF that(2)] by (auto simp: load_replica_info_def split: prod.splits option.splits sum.splits)
  show "moves (author_kept i) (actor_open C ns opts)"
    by (auto simp: moves_def author_kept_def actor_open_def Let_def split: option.splits prod.splits sum.splits dest: load)
  show close: "author_kept i a (snd (actor_close ns a))" for a
    by (auto simp: author_kept_def actor_close_eq close_replica_def split: option.splits)
  show "moves (author_kept i) (change_state ns g)"
    by (auto simp: moves_def change_state_def author_kept_def split: sum.splits)
  show "moves (author_kept i) (import_namespace_action C cap)"
    unfolding import_namespace_action_def Let_def
    by (intro author_trace.moves_bind kept_store durable_writes(7)) (auto simp: moves_def author_kept_def split: option.splits prod.splits)
  show "moves (author_kept i) (drop_replica ns)"
    using kept_store[OF durable_writes(8), where i = i and err = ErrStore] author_trace.rel_trans[OF close]
    by (auto simp: moves_def drop_replica_def case_prod_beta)
  show "moves (author_kept i) (session_start ns)"
    using durable_reads(3) by (auto simp: moves_def author_kept_def session_start_def Let_def case_prod_beta split: sum.splits)
  show "author_kept i a (session_end session a)" "author_kept i a (reclaim_abandoned_sessions held now a)"
    by (auto simp: author_kept_def session_end_def reclaim_abandoned_sessions_def Let_def)
qed

lemma kept_inserts:
  assumes "crypto_ok C"
  shows "moves (author_kept i) (insert_local C ev ns author key hash len)" "moves (author_kept i) (delete_local C ev ns author key)"
    "entry_ok e \<Longrightarrow> moves (author_kept i) (insert_remote C ev ns e from status)"
proof -
  have au: "moves (author_kept i) (actor_get_author au)" for au
    unfolding actor_get_author_def
    by (intro author_trace.moves_bind kept_read) (auto simp: read_results durable_reads split: option.splits)
  have count: "moves (author_kept i) (op_update (count_local n))" "moves (author_kept i) (op_update (count_remote n))" for n
    by (auto simp: moves_def op_update_def count_local_def count_remote_def intro: kept_same)
  show "moves (author_kept i) (insert_local C ev ns author key hash len)" "moves (author_kept i) (delete_local C ev ns author key)"
    unfolding insert_local_def delete_local_def
    by (intro author_trace.moves_bind au count kept_replica[where P = "ev_policy_codec ev"] local_insert_run[OF assms])+
  show "entry_ok e \<Longrightarrow> moves (author_kept i) (insert_remote C ev ns e from status)"
    unfolding insert_remote_def by (intro author_trace.moves_bind count kept_replica[where P = "ev_policy_codec ev"] remote_insert_run)
qed

lemma kept_process:
  assumes "message_ok msg"
  shows "moves (author_kept i) (session_process C ev ns msg from outcome session filt)"
  unfolding session_process_def
proof (rule kept_replica)
  fix r
  let ?m = "sync_process_message C (ev_policy_codec ev) (ev_alive ev) (ev_now1 ev) msg from filt (r, outcome)"
  have "snd (case ?m of (Inl e, (r', _)) \<Rightarrow> (Inl e, r') | (Inr reply, (r', outcome')) \<Rightarrow> (Inr (reply, outcome'), r')) = fst (snd ?m)"
    by (auto split: prod.splits sum.splits)
  then show "replica_run C (ev_policy_codec ev) r
      (snd (case ?m of (Inl e, (r', _)) \<Rightarrow> (Inl e, r') | (Inr reply, (r', outcome')) \<Rightarrow> (Inr (reply, outcome'), r')))"
    using sync_process_run[OF assms] by presburger
qed

lemma kept_reply: "moves (author_kept i) m \<Longrightarrow> author_kept i a (snd (op_reply f m a))"
  using author_trace.moves_bind[OF _ author_trace.moves_pure(1), of i m f] by (simp add: op_reply_def moves_def)

lemma kept_when_open: "moves (author_kept i) m \<Longrightarrow> moves (author_kept i) (when_open ns m)"
  by (auto simp: moves_def when_open_def split: sum.splits)

lemmas kept_reads = kept_read[of i "get_author j" for i j] kept_read[of i "get_sync_peers ns" for i ns]
  kept_read[of i "get_exact C ns au k ie" for i C ns au k ie] kept_read[of i "has_news_for_us ns h" for i ns h]
  kept_read[of i list_authors for i] kept_read[of i "list_namespaces C" for i C] kept_read[of i content_hashes for i]
  kept_read[of i "get_many ns q" for i ns q]

lemmas kept_writes = durable_writes(1-6)[THEN kept_store]

text \<open>What an action carries from a peer was decoded.\<close>

fun decoded_action :: "action \<Rightarrow> bool" where
  "decoded_action (ActReplica ns act) \<longleftrightarrow> replica_action_ok act"
| "decoded_action _ \<longleftrightarrow> True"

lemma action_kept:
  assumes "crypto_ok C" "decoded_action act" "act \<noteq> ActDeleteAuthor i"
  shows "author_kept i a (snd (on_action C ev act a))"
proof (cases act)
  case (ActReplica ns ract)
  have "author_kept i a (snd (on_replica_action C ev ns ract a))" if "replica_action_ok ract"
    using that kept_ops(2)[of i a ns]
    by (cases ract)
       (auto simp: read_results durable_reads case_prod_beta intro!: kept_reply kept_ops kept_inserts[OF assms(1)] kept_process
         kept_replica(3) sync_initial_run kept_reads kept_writes kept_when_open author_trace.moves_pure)
  then show ?thesis using assms ActReplica by auto
next
  case (ActDeleteAuthor j)
  then have "moves (author_kept i) (on_actor_store ErrStore (delete_author j))"
    using assms(3) durable_writes(6) by (intro kept_store) auto
  then show ?thesis using ActDeleteAuthor kept_reply by simp
qed (auto simp: read_results durable_reads author_kept_def[of i a "a\<lparr>ac_store := flush (ac_store a)\<rparr>"]
    intro!: kept_reply kept_ops kept_reads kept_writes)

section \<open>Runs of the actor\<close>

text \<open>An input of the store actor that leaves the author alone.\<close>

fun spares_author :: "author_id \<Rightarrow> actor_input \<Rightarrow> bool" where
  "spares_author i (InAction ev held now act) \<longleftrightarrow> decoded_action act \<and> act \<noteq> ActDeleteAuthor i"
| "spares_author i _ \<longleftrightarrow> True"

lemma tick_kept: "author_kept i a (actor_tick held now a)"
  by (rule kept_same) simp

lemma finish_kept: "author_kept i a (actor_finish a)"
proof -
  have "durable_author i (fold close_replica ids s) = durable_author i s" for ids s
    by (induction ids arbitrary: s) (simp_all add: close_replica_def)
  then show ?thesis using durable_reads(4) by (auto simp: author_kept_def actor_finish_def actor_close_all_def Let_def)
qed

lemma run_kept:
  assumes "crypto_ok C" "list_all (spares_author i) inputs"
  shows "author_kept i a (snd (run_async C inputs a))"
  using assms(2)
proof (induction inputs arbitrary: a)
  case (Cons input rest)
  then have rest: "author_kept i b (snd (run_async C rest b))" for b by simp
  show ?case
  proof (cases input)
    case (InTimeout held now)
    let ?b = "reclaim_abandoned_sessions held now a"
    have "author_kept i a (?b\<lparr>ac_store := flush (ac_store ?b)\<rparr>)"
      using kept_ops(8)[of i a held now] durable_reads(4) by (auto simp: author_kept_def)
    then show ?thesis using author_trace.rel_trans[OF _ rest] by (simp add: InTimeout Let_def)
  next
    case (InAction ev held now act)
    have "author_kept i a (snd (on_action C ev act (actor_tick held now a)))"
      using author_trace.rel_trans[OF tick_kept action_kept[OF assms(1)]] Cons.prems InAction by simp
    then show ?thesis using author_trace.rel_trans[OF _ rest] by (simp add: InAction case_prod_beta)
  next
    case (InShutdown held now)
    then show ?thesis using author_trace.rel_trans[OF tick_kept finish_kept] by simp
  qed (simp_all add: rest finish_kept)
qed simp

section \<open>Calls and the live actor\<close>

definition world_spares :: "author_id \<Rightarrow> world \<Rightarrow> bool" where
  "world_spares i W \<longleftrightarrow> (\<forall>n. list_all (spares_author i) (cl_before (w_call W n)))"

definition env_spares :: "author_id \<Rightarrow> crypto \<Rightarrow> live_env \<Rightarrow> bool" where
  "env_spares i C env \<longleftrightarrow> crypto_ok C \<and> world_spares i (le_world env)"

abbreviation live_durable :: "author_id \<Rightarrow> live \<Rightarrow> bool" where
  "live_durable i lv \<equiv> durable_author i (ac_store (lv_actor lv))"

lemma call_kept:
  assumes "env_spares i C env" "decoded_action act" "act \<noteq> ActDeleteAuthor i" "live_durable i lv"
  shows "live_durable i (snd (live_call C env act lv))"
proof -
  let ?cl = "w_call (le_world env) (lv_calls lv)"
  let ?a = "snd (run_async C (cl_before ?cl) (lv_actor lv))"
  have "durable_author i (ac_store ?a)"
    using run_kept[of C i "cl_before ?cl" "lv_actor lv"] assms(1,4) by (simp add: env_spares_def world_spares_def author_kept_def)
  moreover have "author_kept i (actor_tick (cl_held ?cl) (cl_now ?cl) ?a)
      (snd (on_action C (cl_env ?cl) act (actor_tick (cl_held ?cl) (cl_now ?cl) ?a)))"
    using assms(1-3) action_kept by (simp add: env_spares_def)
  ultimately show ?thesis using assms(4)
    by (simp add: live_call_def io_call_def Let_def case_prod_beta author_kept_def)
qed

lemma live_actions_decoded: "live_replica_action act \<Longrightarrow> replica_action_ok act"
  by (cases act) auto

interpretation default_live: live_invariant "env_spares i" "live_durable i" for i
proof unfold_locales
  show "env_spares i C env \<Longrightarrow> live_replica_action act \<Longrightarrow> live_durable i lv \<Longrightarrow> live_durable i (snd (live_call C env (ActReplica ns act) lv))"
    for C env act ns lv
    by (rule call_kept) (auto simp: live_actions_decoded)
qed (auto simp: live_emit_def broadcast_neighbors_def sync_with_peer_def queue_download_def accept_sync_request_def case_prod_beta)

lemma tick_durable:
  assumes "env_spares i C env" "live_durable i lv"
  shows "live_durable i (live_tick C env input lv)"
proof (cases input)
  case (LvMessage msg)
  show ?thesis
  proof (cases msg)
    case (AcceptSyncRequest ns peer task)
    then show ?thesis using assms LvMessage by (simp add: accept_sync_request_def case_prod_beta)
  qed (use assms LvMessage default_live.message[OF assms, of msg] in simp_all)
next
  case (LvReplicaEvent ev)
  then show ?thesis using default_live.replica_event[OF assms(2)] by simp
next
  case (LvConnectDone ns peer reason res)
  then show ?thesis using assms(2)
    by (auto simp: on_sync_via_connect_finished_def intro!: default_live.finished[OF assms(1)]
        split: sum.splits connect_error.splits abort_reason.splits)
next
  case (LvAcceptDone task peer res)
  then show ?thesis using assms(2)
    by (auto simp: on_sync_via_accept_finished_def intro!: default_live.finished[OF assms(1)]
        split: sum.splits accept_error.splits abort_reason.splits option.splits)
next
  case (LvDownloadDone ns hash ok)
  then show ?thesis using assms(2) default_live.after_download[OF prod.collapse[symmetric]] by simp
qed (use assms in simp_all)

lemma live_run_durable:
  "\<forall>(env, input) \<in> set inputs. env_spares i C env \<Longrightarrow> live_durable i lv \<Longrightarrow> live_durable i (live_run C inputs lv)"
  by (induction C inputs lv rule: live_run.induct) (auto simp: tick_durable)

section \<open>Requests\<close>

text \<open>What a request may change: not the default author nor its file, and not the durability of an author.\<close>

definition default_kept :: "author_id \<Rightarrow> engine \<Rightarrow> engine \<Rightarrow> bool" where
  "default_kept i e e' \<longleftrightarrow> en_default_author e' = en_default_author e \<and> en_files e' = en_files e \<and> en_storage e' = en_storage e \<and>
     (live_durable i (en_live e) \<longrightarrow> live_durable i (en_live e'))"

interpretation default_trace: trace_relation "default_kept i" for i
  by unfold_locales (auto simp: default_kept_def)

lemma handle_call_state: "snd (handle_call C env act answer lv) = snd (live_call C env act lv)"
  by (auto simp: handle_call_def op_bind_def op_return_def op_fail_def split: prod.splits sum.splits option.splits)

lemma engine_call_kept: "(\<And>lv. live_durable i lv \<Longrightarrow> live_durable i (snd (m lv))) \<Longrightarrow> moves (default_kept i) (engine_call m)"
  by (auto simp: moves_def default_kept_def engine_call_def case_prod_beta)

lemma handle_kept:
  "env_spares i C env \<Longrightarrow> decoded_action act \<Longrightarrow> act \<noteq> ActDeleteAuthor i \<Longrightarrow>
   moves (default_kept i) (engine_call (handle_call C env act answer))"
  by (rule engine_call_kept) (simp add: handle_call_state call_kept)

lemma ask_kept:
  assumes "\<forall>(env, input) \<in> set before. env_spares i C env" "\<And>lv. live_durable i lv \<Longrightarrow> live_durable i (snd (m lv))"
  shows "moves (default_kept i) (engine_ask C before m)"
  unfolding moves_def
proof
  fix e :: engine
  let ?e = "e\<lparr>en_live := live_run C before (en_live e)\<rparr>"
  have "default_kept i e ?e" using live_run_durable[OF assms(1)] by (simp add: default_kept_def)
  moreover have "default_kept i ?e (snd (engine_call m ?e))" using engine_call_kept[OF assms(2)] by (simp add: moves_def)
  ultimately show "default_kept i e (snd (engine_ask C before m e))"
    using default_trace.rel_trans by (auto simp: engine_ask_def)
qed

lemmas handle_defs = handle_open_def handle_close_def handle_subscribe_def handle_insert_local_def handle_delete_prefix_def
  handle_get_sync_peers_def handle_get_many_def handle_get_exact_def handle_retract_entry_def handle_drop_replica_def
  handle_export_secret_key_def handle_get_state_def handle_get_download_policy_def handle_set_download_policy_def
  handle_list_authors_def handle_list_replicas_def handle_import_author_def handle_export_author_def handle_delete_author_def
  handle_import_namespace_def handle_content_hashes_def handle_flush_store_def

definition api_spares :: "author_id \<Rightarrow> crypto \<Rightarrow> api_env \<Rightarrow> bool" where
  "api_spares i C ev \<longleftrightarrow> env_spares i C (ae_env ev) \<and> (\<forall>(env, input) \<in> set (ae_before ev). env_spares i C env)"

lemma requests_to_live:
  assumes "api_spares i C ev"
  shows "moves (default_kept i) (engine_start_sync C (ae_env ev) (ae_before ev) ns peers)"
    "moves (default_kept i) (engine_start_sync_scoped C (ae_env ev) (ae_before ev) ns peers)"
    "moves (default_kept i) (engine_leave C (ae_env ev) (ae_before ev) ns kill)"
    "moves (default_kept i) (engine_leave_gossip C (ae_env ev) (ae_before ev) ns)"
    "moves (default_kept i) (engine_subscribe C (ae_env ev) (ae_before ev) ns tx1 tx2)"
  using assms unfolding engine_start_sync_def engine_start_sync_scoped_def engine_leave_def engine_leave_gossip_def
    engine_subscribe_def handle_defs api_spares_def
  by (auto intro!: ask_kept default_trace.moves_bind handle_kept default_live.started default_live.left)

lemma stream_state: "snd (stream_of m e) = snd (m e)"
  by (auto simp: stream_of_def split: prod.splits sum.splits)

lemma respond_kept: "moves (default_kept i) m \<Longrightarrow> default_kept i e (snd (respond f m e))"
  by (simp add: respond_def moves_def case_prod_beta)

lemma stream_kept: "moves (default_kept i) m \<Longrightarrow> default_kept i e (snd (stream_of m e))"
  by (simp add: stream_state moves_def)

text \<open>No request but the one that sets it takes the default author away: the one to delete it is refused.\<close>

lemma request_kept:
  assumes "api_spares i C ev" "\<And>j. req \<noteq> ReqAuthorSetDefault j" "en_default_author e = i"
  shows "default_kept i e (snd (rpc_handle C ev req e))"
proof -
  have env: "env_spares i C (ae_env ev)" using assms(1) by (simp add: api_spares_def)
  note live = requests_to_live[OF assms(1)]
  show ?thesis
  proof (cases req)
    case (ReqAuthorDelete j)
    show ?thesis
    proof (cases "j = i")
      case False
      have "moves (default_kept i) (engine_call (handle_delete_author C (ae_env ev) j))"
        unfolding handle_defs using False env by (auto intro: handle_kept)
      then show ?thesis using ReqAuthorDelete False assms(3)
        by (simp add: respond_def author_delete_def default_author_get_def moves_def case_prod_beta)
    qed (use ReqAuthorDelete assms(3) in \<open>simp add: respond_def author_delete_def default_author_get_def\<close>)
  next
    case (ReqShare ns mode opts)
    have "moves (default_kept i) (doc_share C ev ns mode opts)"
      unfolding doc_share_def Let_def handle_defs
      by (cases mode) (auto intro!: default_trace.moves_bind default_trace.moves_pure handle_kept[OF env] live)
    then show ?thesis using ReqShare respond_kept by simp
  next
    case (ReqSet ns author key content)
    have "moves (default_kept i) (doc_set C ev ns author key content)"
      unfolding doc_set_def handle_defs
      by (intro default_trace.moves_bind default_trace.moves_pure handle_kept[OF env]) (auto split: option.splits)
    then show ?thesis using ReqSet respond_kept by simp
  next
    case ReqAuthorGetDefault
    then show ?thesis by (simp add: respond_def author_default_def)
  next
    case (ReqAuthorSetDefault j)
    then show ?thesis using assms(2) by blast
  qed (auto simp: doc_open_def doc_close_def doc_status_def doc_list_def doc_create_def doc_drop_def doc_import_def doc_set_hash_def
      doc_get_many_def doc_get_exact_def doc_del_def doc_retract_def doc_start_sync_def doc_leave_def doc_leave_gossip_def
      doc_subscribe_def doc_get_download_policy_def doc_set_download_policy_def doc_get_sync_peers_def author_list_def
      author_create_def author_import_def author_export_def Let_def handle_defs
      intro!: respond_kept stream_kept default_trace.moves_bind default_trace.moves_pure handle_kept[OF env] live)
qed

lemma rpc_run_kept:
  assumes "list_all (\<lambda>(ev, req). api_spares i C ev \<and> (\<forall>j. req \<noteq> ReqAuthorSetDefault j)) requests" "en_default_author e = i"
  shows "default_kept i e (snd (rpc_run C requests e))"
  using assms
proof (induction C requests e rule: rpc_run.induct)
  case (2 C ev req rest e)
  have one: "default_kept i e (snd (rpc_handle C ev req e))" using 2(2,3) by (intro request_kept) auto
  obtain resp e' where h: "rpc_handle C ev req e = (resp, e')" by fastforce
  have "default_kept i e' (snd (rpc_run C rest e'))"
    using one h 2(2,3) by (intro 2(1)[OF h[symmetric]]) (auto simp: default_kept_def)
  then show ?case using one h default_trace.rel_trans by (auto simp: case_prod_beta)
qed simp

section \<open>Starting\<close>

text \<open>While the engine is being spawned nobody else uses its store actor.\<close>

definition private_world :: "live_env \<Rightarrow> bool" where
  "private_world env \<longleftrightarrow> (\<forall>n. cl_before (w_call (le_world env) n) = [])"

lemma private_call:
  assumes "private_world env" "lv_actor_running lv"
  obtains ev a where "ac_store a = ac_store (lv_actor lv)" "live_call C env act lv =
    (map_sum NetActor id (fst (on_action C ev act a)),
     lv\<lparr>lv_actor := snd (on_action C ev act a), lv_calls := lv_calls lv + 1\<rparr>)"
proof -
  let ?cl = "w_call (le_world env) (lv_calls lv)"
  have "live_call C env act lv = (map_sum NetActor id (fst (on_action C (cl_env ?cl) act (actor_tick (cl_held ?cl) (cl_now ?cl) (lv_actor lv)))),
     lv\<lparr>lv_actor := snd (on_action C (cl_env ?cl) act (actor_tick (cl_held ?cl) (cl_now ?cl) (lv_actor lv))), lv_calls := lv_calls lv + 1\<rparr>)"
    using assms by (simp add: live_call_def io_call_def private_world_def Let_def case_prod_beta)
  then show thesis using that[of "actor_tick (cl_held ?cl) (cl_now ?cl) (lv_actor lv)" "cl_env ?cl"] by simp
qed

lemma private_import:
  assumes "private_world env" "lv_actor_running lv" "tx_ok (ac_store (lv_actor lv))"
  obtains lv' where "handle_import_author C env author lv = (Inr (author_id C author), lv')" "lv_actor_running lv'"
    "tx_ok (ac_store (lv_actor lv'))" "table_get (t_authors (visible (ac_store (lv_actor lv')))) (author_id C author) \<noteq> None"
proof -
  obtain ev a where a: "ac_store a = ac_store (lv_actor lv)" "live_call C env (ActImportAuthor author) lv =
      (map_sum NetActor id (fst (on_action C ev (ActImportAuthor author) a)),
       lv\<lparr>lv_actor := snd (on_action C ev (ActImportAuthor author) a), lv_calls := lv_calls lv + 1\<rparr>)"
    by (rule private_call[OF assms(1,2)])
  let ?t = "(visible (ac_store a))\<lparr>t_authors := table_insert (author_id C author) (author_to_bytes author) (t_authors (visible (ac_store a)))\<rparr>"
  obtain s where "import_author C author (ac_store a) = (Inr (), s)" "visible s = ?t" "tx_ok s"
    unfolding import_author_def by (rule modify_eq[of "ac_store a"]) (use assms(3) a(1) in auto)
  then show thesis using a assms(2)
    by (intro that[of "lv\<lparr>lv_actor := snd (on_action C ev (ActImportAuthor author) a), lv_calls := lv_calls lv + 1\<rparr>"])
       (auto simp: handle_import_author_def handle_call_def op_bind_def op_reply_def on_actor_store_def op_return_def
        table_get_insert)
qed

lemma private_export:
  assumes "private_world env" "lv_actor_running lv" "tx_ok (ac_store (lv_actor lv))"
  obtains lv' where "handle_export_author C env i lv =
      (Inr (map_option author_from_bytes (table_get (t_authors (visible (ac_store (lv_actor lv)))) i)), lv')"
    "ac_store (lv_actor lv') = snd (store_tables (ac_store (lv_actor lv)))" "lv_actor_running lv'"
proof -
  obtain ev a where a: "ac_store a = ac_store (lv_actor lv)" "live_call C env (ActExportAuthor i) lv =
      (map_sum NetActor id (fst (on_action C ev (ActExportAuthor i) a)),
       lv\<lparr>lv_actor := snd (on_action C ev (ActExportAuthor i) a), lv_calls := lv_calls lv + 1\<rparr>)"
    by (rule private_call[OF assms(1,2)])
  have "store_tables (ac_store a) = (visible (ac_store a), snd (store_tables (ac_store a)))"
    using store_tables_laws(1)[of "ac_store a", OF _ prod.collapse[symmetric]] assms(3) a(1) by (metis prod.collapse)
  then show thesis using a assms(2)
    by (intro that[of "lv\<lparr>lv_actor := snd (on_action C ev (ActExportAuthor i) a), lv_calls := lv_calls lv + 1\<rparr>"])
       (auto simp: handle_export_author_def handle_call_def op_bind_def op_reply_def actor_read_def get_author_def op_return_def
        split: prod.splits)
qed

lemma private_flush:
  assumes "private_world env" "lv_actor_running lv"
  obtains lv' where "handle_flush_store C env lv = (Inr (), lv')"
    "ac_store (lv_actor lv') = flush (ac_store (lv_actor lv))" "lv_actor_running lv'"
proof -
  obtain ev a where "ac_store a = ac_store (lv_actor lv)" "live_call C env ActFlushStore lv =
      (map_sum NetActor id (fst (on_action C ev ActFlushStore a)),
       lv\<lparr>lv_actor := snd (on_action C ev ActFlushStore a), lv_calls := lv_calls lv + 1\<rparr>)"
    by (rule private_call[OF assms])
  then show thesis using assms(2)
    by (intro that[of "lv\<lparr>lv_actor := snd (on_action C ev ActFlushStore a), lv_calls := lv_calls lv + 1\<rparr>"])
       (auto simp: handle_flush_store_def handle_call_def op_bind_def op_return_def)
qed

text \<open>Documented behaviour of the hex library: what it encodes it decodes.\<close>

definition hex_ok :: "hexlib \<Rightarrow> bool" where
  "hex_ok H \<longleftrightarrow> (\<forall>b. hex_decode_to_slice H (length b) (hex_encode H b) = Some b)"

definition file_names :: "crypto \<Rightarrow> hexlib \<Rightarrow> author_files \<Rightarrow> string \<Rightarrow> author_id \<Rightarrow> bool" where
  "file_names C H files path i \<longleftrightarrow> (\<exists>data. files path = Some data \<and> author_id_from_str C H data = Inr i)"

lemma author_display_parses:
  assumes "crypto_ok C" "hex_ok H"
  shows "author_id_from_str C H (author_id_display H (author_id C author)) = Inr (author_id C author)"
proof -
  have id: "author_id C author = sk_public C (author_signing_key author)"
    by (cases author) (simp add: author_id_def author_public_key_def)
  then have "length (author_id C author) = 32" "pk_valid C (author_id C author)" using assms(1) by (simp_all add: crypto_ok_def)
  moreover from this(1) have "hex_decode_to_slice H 32 (hex_encode H (author_id C author)) = Some (author_id C author)"
    using assms(2) unfolding hex_ok_def by metis
  ultimately show ?thesis
    by (simp add: author_id_from_str_def author_pk_from_str_def parse_hex_array_def author_id_display_def
        author_pk_from_bytes_def public_key_from_bytes_def map_key_error_def)
qed

lemma load_existing:
  assumes "private_world env" "lv_actor_running lv" "tx_ok (ac_store (lv_actor lv))" "files path = Some data"
    "author_id_from_str C H data = Inr i"
  obtains lv' where "ac_store (lv_actor lv') = snd (store_tables (ac_store (lv_actor lv)))"
    "storage_load C env H w rng (StoragePersistent path) (lv, files) =
      (if table_get (t_authors (visible (ac_store (lv_actor lv)))) i = None then Inl DefaultAuthorMissing else Inr i, (lv', files))"
proof -
  obtain lv' where lv': "handle_export_author C env i lv =
      (Inr (map_option author_from_bytes (table_get (t_authors (visible (ac_store (lv_actor lv)))) i)), lv')"
    "ac_store (lv_actor lv') = snd (store_tables (ac_store (lv_actor lv)))" by (rule private_export[OF assms(1-3)])
  show thesis
    by (rule that[OF lv'(2)])
       (use assms(4,5) lv'(1) in \<open>auto simp: storage_load_def Let_def op_bind_def op_lift_def with_store_def op_fail_def op_return_def\<close>)
qed

lemma load_creates:
  assumes "private_world env" "lv_actor_running lv" "tx_ok (ac_store (lv_actor lv))" "files path = None"
  obtains lv' where "live_durable (author_id C (author_new rng)) lv'"
    "storage_load C env H w rng (StoragePersistent path) (lv, files) =
      (case author_persist H w (StoragePersistent path) (author_id C (author_new rng)) files of (r, files') \<Rightarrow>
         (map_sum id (\<lambda>_. author_id C (author_new rng)) r, (lv', files')))"
proof -
  let ?i = "author_id C (author_new rng)"
  obtain lv1 where one: "handle_import_author C env (author_new rng) lv = (Inr ?i, lv1)" "lv_actor_running lv1"
    "tx_ok (ac_store (lv_actor lv1))" "table_get (t_authors (visible (ac_store (lv_actor lv1)))) ?i \<noteq> None"
    by (rule private_import[OF assms(1-3)])
  obtain lv2 where two: "handle_flush_store C env lv1 = (Inr (), lv2)" "ac_store (lv_actor lv2) = flush (ac_store (lv_actor lv1))"
    by (rule private_flush[OF assms(1) one(2)])
  have "live_durable ?i lv2" using one(3,4) two(2) flush_laws[OF one(3)] by (simp add: durable_author_def)
  moreover have "storage_load C env H w rng (StoragePersistent path) (lv, files) =
      (case author_persist H w (StoragePersistent path) ?i files of (r, files') \<Rightarrow> (map_sum id (\<lambda>_. ?i) r, (lv2, files')))"
    using assms(4) one(1) two(1)
    by (simp add: storage_load_def Let_def op_bind_def with_store_def with_files_def op_return_def split: prod.splits sum.splits)
  ultimately show thesis using that by blast
qed

lemma load_durable:
  assumes "crypto_ok C" "hex_ok H" "private_world env" "lv_actor_running lv" "tx_ok (ac_store (lv_actor lv))"
    "st_db (ac_store (lv_actor lv)) = visible (ac_store (lv_actor lv))"
    "storage_load C env H w rng (StoragePersistent path) (lv, files) = (Inr i, (lv', files'))"
  shows "live_durable i lv'" "file_names C H files' path i"
proof -
  have "live_durable i lv' \<and> file_names C H files' path i"
  proof (cases "files path")
    case (Some data)
    obtain stored where stored: "author_id_from_str C H data = Inr stored"
      using assms(7) Some by (cases "author_id_from_str C H data") (simp_all add: storage_load_def Let_def op_bind_def op_lift_def)
    obtain lv1 where lv1: "ac_store (lv_actor lv1) = snd (store_tables (ac_store (lv_actor lv)))"
      "storage_load C env H w rng (StoragePersistent path) (lv, files) =
        (if table_get (t_authors (visible (ac_store (lv_actor lv)))) stored = None then Inl DefaultAuthorMissing else Inr stored, (lv1, files))"
      by (rule load_existing[where files = files and path = path, OF assms(3-5) Some stored])
    have res: "i = stored" "lv' = lv1" "files' = files" "table_get (t_authors (visible (ac_store (lv_actor lv)))) i \<noteq> None"
      using lv1(2) assms(7) by (auto split: if_splits)
    then have "durable_author i (ac_store (lv_actor lv))" using assms(5,6) by (simp add: durable_author_def)
    then show ?thesis using res lv1(1) durable_reads(1) Some stored by (auto simp: file_names_def)
  next
    case None
    let ?i = "author_id C (author_new rng)"
    obtain lv1 where "live_durable ?i lv1" "storage_load C env H w rng (StoragePersistent path) (lv, files) =
        (case author_persist H w (StoragePersistent path) ?i files of (r, files') \<Rightarrow> (map_sum id (\<lambda>_. ?i) r, (lv1, files')))"
      by (rule load_creates[where files = files and path = path, OF assms(3-5) None])
    then show ?thesis using assms(7) author_display_parses[OF assms(1,2)]
      by (auto simp: author_persist_def file_names_def split: write_outcome.splits option.splits)
  qed
  then show "live_durable i lv'" "file_names C H files' path i" by blast+
qed

end
