(* ===== verification/Restart.thy ===== *)
theory Restart
  imports Default_Author
begin

text \<open>
  A node that crashes and starts again: what was committed is in the file of the store, the default author
  is named by its own file.
\<close>

section \<open>Opening what a crash left\<close>

lemma tables_new_current: "tables_new (file_of t) = (Inr (), file_of t)"
  by (simp add: tables_new_def file_of_def opened_tagged_def Let_def)

lemma migrate_latest: "\<exists>l. run_migration migration_001_populate_latest_table (file_of t) = (Inr (), file_of (t\<lparr>t_latest_per_author := l\<rparr>))"
  by (rule exI[of _ "if t_latest_per_author t \<noteq> [] \<or> t_records t = [] then t_latest_per_author t
        else fold (\<lambda>(k, v). table_insert k v) (fold head_step (t_records t) []) (t_latest_per_author t)"])
     (simp add: run_migration_def migration_001_populate_latest_table_def file_of_def opened_tagged_def Let_def)

lemma migrate_index: "\<exists>ix. run_migration migration_004_populate_by_key_index (file_of t) = (Inr (), file_of (t\<lparr>t_records_by_key := ix\<rparr>))"
  by (rule exI[of _ "if t_records_by_key t \<noteq> [] then t_records_by_key t
        else fold (\<lambda>((namespace, author, key), _). table_insert (namespace, key, author) ()) (t_records t) (t_records_by_key t)"])
     (simp add: run_migration_def migration_004_populate_by_key_index_def file_of_def opened_tagged_def)

lemma migrate_namespaces:
  "run_migration (migration_002_namespaces_populate_v2 C) (file_of t) = (Inr (), file_of t)"
  "run_migration migration_003_namespaces_delete_v1 (file_of t) = (Inr (), file_of t)"
  by (simp_all add: run_migration_def migration_002_namespaces_populate_v2_def migration_003_namespaces_delete_v1_def file_of_def)

lemma open_current:
  assumes "fs path = Some (DbFile (file_of t))"
  obtains t' where "t_authors t' = t_authors t"
    "persistent C clock parent target path fs = (Inr (store_new clock (file_of t')), fs(path \<mapsto> DbFile (file_of t')))"
proof -
  obtain l where l: "run_migration migration_001_populate_latest_table (file_of t) = (Inr (), file_of (t\<lparr>t_latest_per_author := l\<rparr>))"
    using migrate_latest by blast
  obtain ix where ix: "run_migration migration_004_populate_by_key_index (file_of (t\<lparr>t_latest_per_author := l\<rparr>)) =
      (Inr (), file_of (t\<lparr>t_latest_per_author := l, t_records_by_key := ix\<rparr>))"
    using migrate_index by blast
  have "new_impl C (file_of t) = (Inr (), file_of (t\<lparr>t_latest_per_author := l, t_records_by_key := ix\<rparr>))"
    by (simp add: new_impl_def tables_new_current run_migrations_def op_bind_def l ix migrate_namespaces)
  then show thesis using assms
    by (intro that[of "t\<lparr>t_latest_per_author := l, t_records_by_key := ix\<rparr>"])
       (simp_all add: persistent_def open_once_def op_bind_def open_database_def)
qed

lemma map_sum_Inr: "map_sum id f r = Inr y \<longleftrightarrow> (\<exists>x. r = Inr x \<and> y = f x)"
  by (cases r) auto

lemma opened_store:
  assumes "persistent C clock parent target path fs = (Inr s, fs')"
  shows "\<exists>db. s = store_new clock db"
  using assms by (auto simp: persistent_def open_once_def op_bind_def map_sum_Inr split: prod.splits sum.splits open_failure.splits)

lemma store_new_laws: "tx_ok (store_new clock db)" "st_db (store_new clock db) = visible (store_new clock db)"
  by (simp_all add: store_new_def tx_ok_def visible_def store_memory_def)

section \<open>Starting a node\<close>

abbreviation author_path :: "string \<Rightarrow> string" where
  "author_path path \<equiv> path_join path ''default-author''"

lemma spawned_live [simp]: "lv_actor_running (live_new me tx a)" "ac_store (lv_actor (live_new me tx (actor_spawn i now s cb v ob))) = s"
  by (simp_all add: live_new_def actor_spawn_def)

lemma spawn_default:
  assumes "crypto_ok C" "hex_ok (se_hex ev)" "private_world (se_env ev)" "bd_storage b = DocsPersistent path"
    "docs_spawn C ev b disk = (Inr d, fs, files)"
  shows "live_durable (en_default_author (dk_engine d)) (en_live (dk_engine d))"
    "file_names C (se_hex ev) (en_files (dk_engine d)) (author_path path) (en_default_author (dk_engine d))"
proof -
  obtain s fs1 where s: "persistent C (se_clock ev) (se_parent ev) (se_temp ev) (path_join path ''docs.redb'') (fst disk) = (Inr s, fs1)"
    using assms(4,5) by (auto simp: docs_spawn_def docs_open_store_def split: prod.splits sum.splits)
  then obtain db where db: "s = store_new (se_clock ev) db" using opened_store by blast
  let ?lv = "live_new (se_me ev) (se_events_tx ev)
    (actor_spawn (se_actor_id ev) (se_now ev) s (Some (\<lambda>hash. entry_to_content_status (se_blobs ev hash))) (bd_validator b) (bd_observer b))"
  obtain i lv' files' where load: "storage_load C (se_env ev) (se_hex ev) (se_write ev) (se_rng ev) (StoragePersistent (author_path path))
      (?lv, snd disk) = (Inr i, (lv', files'))" "dk_engine d = \<lparr>en_live = lv', en_running = True, en_default_author = i,
      en_storage = StoragePersistent (author_path path), en_files = files'\<rparr>"
    using assms(4,5) s
    by (auto simp: docs_spawn_def docs_open_store_def docs_author_storage_def engine_spawn_def Let_def split: prod.splits sum.splits)
  from load_durable[OF assms(1-3) _ _ _ load(1)] store_new_laws db load(2)
  show "live_durable (en_default_author (dk_engine d)) (en_live (dk_engine d))"
    "file_names C (se_hex ev) (en_files (dk_engine d)) (author_path path) (en_default_author (dk_engine d))" by simp_all
qed

lemma respawn:
  assumes "private_world (se_env ev)" "bd_storage b = DocsPersistent path" "fst disk (path_join path ''docs.redb'') = Some (DbFile (file_of t))"
    "file_names C (se_hex ev) (snd disk) (author_path path) i"
  shows "\<exists>fs r. docs_spawn C ev b disk = (r, fs, snd disk) \<and>
    (if table_get (t_authors t) i = None then r = Inl (DocsEngine DefaultAuthorMissing)
     else \<exists>d. r = Inr d \<and> en_default_author (dk_engine d) = i)"
proof -
  obtain t' where t': "t_authors t' = t_authors t" "persistent C (se_clock ev) (se_parent ev) (se_temp ev) (path_join path ''docs.redb'') (fst disk) =
      (Inr (store_new (se_clock ev) (file_of t')), (fst disk)(path_join path ''docs.redb'' \<mapsto> DbFile (file_of t')))"
    by (rule open_current[where fs = "fst disk" and path = "path_join path ''docs.redb''", OF assms(3)])
  let ?s = "store_new (se_clock ev) (file_of t')"
  let ?lv = "live_new (se_me ev) (se_events_tx ev)
    (actor_spawn (se_actor_id ev) (se_now ev) ?s (Some (\<lambda>hash. entry_to_content_status (se_blobs ev hash))) (bd_validator b) (bd_observer b))"
  obtain data where data: "snd disk (author_path path) = Some data" "author_id_from_str C (se_hex ev) data = Inr i"
    using assms(4) by (auto simp: file_names_def)
  have lv: "lv_actor_running ?lv" "tx_ok (ac_store (lv_actor ?lv))" by (simp_all add: store_new_laws)
  obtain lv' where "storage_load C (se_env ev) (se_hex ev) (se_write ev) (se_rng ev) (StoragePersistent (author_path path)) (?lv, snd disk) =
      (if table_get (t_authors (visible (ac_store (lv_actor ?lv)))) i = None then Inl DefaultAuthorMissing else Inr i, (lv', snd disk))"
    by (rule load_existing[where files = "snd disk" and path = "author_path path", OF assms(1) lv data])
  then show ?thesis using assms(2) t'
    by (auto simp: docs_spawn_def docs_open_store_def docs_author_storage_def engine_spawn_def Let_def)
qed

text \<open>C12. The default author survives a crash. A node over a directory is started, serves any requests but one that sets the default
  author, while other users of its store actor do anything but delete that author, and crashes at any
  point between requests. Starting it again succeeds and gives the same default author.\<close>

theorem default_author_survives:
  assumes "crypto_ok C" "hex_ok (se_hex ev)" "private_world (se_env ev)" "bd_storage b = DocsPersistent path"
    "docs_spawn C ev b disk = (Inr d, fs, files)"
    "list_all (\<lambda>(ev, req). api_spares (en_default_author (dk_engine d)) C ev \<and> (\<forall>j. req \<noteq> ReqAuthorSetDefault j)) requests"
    "rpc_run C requests (dk_engine d) = (replies, e)"
    "private_world (se_env ev')" "se_hex ev' = se_hex ev" "bd_storage b' = DocsPersistent path"
  shows "\<exists>d' fs' files'. docs_spawn C ev' b' (crash_disk path fs (d\<lparr>dk_engine := e\<rparr>)) = (Inr d', fs', files') \<and>
    en_default_author (dk_engine d') = en_default_author (dk_engine d)"
proof -
  let ?i = "en_default_author (dk_engine d)"
  note start = spawn_default[OF assms(1-5)]
  have kept: "default_kept ?i (dk_engine d) e" using rpc_run_kept[OF assms(6) refl] assms(7) by simp
  then have i: "live_durable ?i (en_live e)" "en_files e = en_files (dk_engine d)" using start(1) by (simp_all add: default_kept_def)
  let ?disk = "crash_disk path fs (d\<lparr>dk_engine := e\<rparr>)"
  have "fst ?disk (path_join path ''docs.redb'') = Some (DbFile (file_of (st_db (ac_store (lv_actor (en_live e))))))"
    "file_names C (se_hex ev') (snd ?disk) (author_path path) ?i"
    using start(2) i(2) assms(9) by (simp_all add: crash_disk_def)
  from respawn[OF assms(8,10) this] i(1) show ?thesis by (fastforce simp: durable_author_def)
qed

section \<open>Setting the default author\<close>

text \<open>A clock that stands still: no write transaction gets old.\<close>

lemma fresh_modify:
  assumes "st_transaction s = NoTransaction" "st_clock s = (\<lambda>_. now)"
  obtains s' w where "modify f s = (fst (f (st_db s)), s')" "st_transaction s' = WriteTransaction w" "tx_since w = now"
    "tx_tables w = snd (f (st_db s))" "st_db s' = st_db s" "st_clock s' = (\<lambda>_. now)" "tx_ok s'"
proof -
  obtain r t where f: "f (st_db s) = (r, t)" by fastforce
  show thesis
    by (rule that[of "s\<lparr>st_ticks := Suc (st_ticks s), st_transaction := WriteTransaction \<lparr>tx_tables = t, tx_since = now, tx_dirty = True\<rparr>\<rparr>"
          "\<lparr>tx_tables = t, tx_since = now, tx_dirty = True\<rparr>"])
       (use assms f in \<open>simp_all add: modify_def current_write_transaction_def with_tables_mut_def store_unfold\<close>)
qed

lemma young_tables:
  assumes "st_transaction s = WriteTransaction w" "tx_since w = now" "st_clock s = (\<lambda>_. now)"
  shows "st_db (snd (store_tables s)) = st_db s"
  using assms by (simp add: store_tables_def current_write_transaction_def store_unfold)

lemma uncommitted_import:
  assumes "private_world env" "lv_actor_running lv" "st_transaction (ac_store (lv_actor lv)) = NoTransaction"
    "st_clock (ac_store (lv_actor lv)) = (\<lambda>_. now)"
  obtains lv' w where "handle_import_author C env author lv = (Inr (author_id C author), lv')" "lv_actor_running lv'"
    "tx_ok (ac_store (lv_actor lv'))" "table_get (t_authors (visible (ac_store (lv_actor lv')))) (author_id C author) \<noteq> None"
    "st_db (ac_store (lv_actor lv')) = st_db (ac_store (lv_actor lv))"
    "st_db (snd (store_tables (ac_store (lv_actor lv')))) = st_db (ac_store (lv_actor lv))"
proof -
  obtain ev a where a: "ac_store a = ac_store (lv_actor lv)" "live_call C env (ActImportAuthor author) lv =
      (map_sum NetActor id (fst (on_action C ev (ActImportAuthor author) a)),
       lv\<lparr>lv_actor := snd (on_action C ev (ActImportAuthor author) a), lv_calls := lv_calls lv + 1\<rparr>)"
    by (rule private_call[OF assms(1,2)])
  let ?f = "\<lambda>t. (Inr (), t\<lparr>t_authors := table_insert (author_id C author) (author_to_bytes author) (t_authors t)\<rparr>) :: (store_error + unit) \<times> tables"
  obtain s w where s: "modify ?f (ac_store (lv_actor lv)) = (fst (?f (st_db (ac_store (lv_actor lv)))), s)"
    "st_transaction s = WriteTransaction w" "tx_since w = now" "tx_tables w = snd (?f (st_db (ac_store (lv_actor lv))))"
    "st_db s = st_db (ac_store (lv_actor lv))" "st_clock s = (\<lambda>_. now)" "tx_ok s"
    by (rule fresh_modify[OF assms(3,4), where f = ?f])
  then have "import_author C author (ac_store a) = (Inr (), s)" using a(1) by (simp add: import_author_def)
  then have act: "on_action C ev (ActImportAuthor author) a = (Inr (ReplyAuthorId (author_id C author)), a\<lparr>ac_store := s\<rparr>)"
    by (simp add: op_reply_def op_bind_def on_actor_store_def op_return_def)
  have db: "st_db (snd (store_tables s)) = st_db (ac_store (lv_actor lv))" using young_tables[OF s(2,3,6)] s(5) by simp
  show thesis
    by (rule that[of "lv\<lparr>lv_actor := a\<lparr>ac_store := s\<rparr>, lv_calls := lv_calls lv + 1\<rparr>"])
       (use a(2) act s assms(2) db in \<open>auto simp: handle_import_author_def handle_call_def op_bind_def op_return_def visible_def table_get_insert\<close>)
qed

text \<open>C34. Setting the default author can leave a node that does not start. An author is created and set as the default author, both
  requests are answered, and the node crashes before the store committed its transaction: the file names an
  author the store does not have, and starting fails.\<close>

theorem default_author_dangles:
  assumes "crypto_ok C" "hex_ok (ae_hex ev)" "en_storage e = StoragePersistent (author_path path)" "lv_actor_running (en_live e)"
    "st_transaction (ac_store (lv_actor (en_live e))) = NoTransaction" "st_clock (ac_store (lv_actor (en_live e))) = (\<lambda>_. now)"
    "private_world (ae_env ev)" "ae_write ev = WriteDone" "i = author_id C (author_new (ae_rng ev))"
    "table_get (t_authors (st_db (ac_store (lv_actor (en_live e))))) i = None"
    "private_world (se_env ev')" "se_hex ev' = ae_hex ev" "bd_storage b = DocsPersistent path"
  shows "\<exists>e'. rpc_run C [(ev, ReqAuthorCreate), (ev, ReqAuthorSetDefault i)] e = ([RespAuthorId (Inr i), RespUnit (Inr ())], e') \<and>
    en_default_author e' = i \<and>
    (\<exists>fs' files'. docs_spawn C ev' b (crash_disk path fs (d\<lparr>dk_engine := e'\<rparr>)) = (Inl (DocsEngine DefaultAuthorMissing), fs', files'))"
proof -
  obtain lv1 where one: "handle_import_author C (ae_env ev) (author_new (ae_rng ev)) (en_live e) = (Inr i, lv1)" "lv_actor_running lv1"
    "tx_ok (ac_store (lv_actor lv1))" "table_get (t_authors (visible (ac_store (lv_actor lv1)))) i \<noteq> None"
    "st_db (snd (store_tables (ac_store (lv_actor lv1)))) = st_db (ac_store (lv_actor (en_live e)))"
    unfolding assms(9) by (rule uncommitted_import[OF assms(7,4-6)])
  obtain lv2 where two: "handle_export_author C (ae_env ev) i lv1 =
      (Inr (map_option author_from_bytes (table_get (t_authors (visible (ac_store (lv_actor lv1)))) i)), lv2)"
    "ac_store (lv_actor lv2) = snd (store_tables (ac_store (lv_actor lv1)))" by (rule private_export[OF assms(7) one(2,3)])
  let ?e = "e\<lparr>en_live := lv2, en_files := (en_files e)(author_path path \<mapsto> author_id_display (ae_hex ev) i), en_default_author := i\<rparr>"
  have "rpc_run C [(ev, ReqAuthorCreate), (ev, ReqAuthorSetDefault i)] e = ([RespAuthorId (Inr i), RespUnit (Inr ())], ?e)"
    using one(1,4) two(1) assms(3,8,9)
    by (auto simp: respond_def author_create_def author_set_default_def default_author_set_def engine_call_def op_bind_def op_return_def
        author_persist_def Let_def)
  moreover
  let ?disk = "crash_disk path fs (d\<lparr>dk_engine := ?e\<rparr>)"
  have "fst ?disk (path_join path ''docs.redb'') = Some (DbFile (file_of (st_db (ac_store (lv_actor (en_live e))))))"
    "file_names C (se_hex ev') (snd ?disk) (author_path path) i"
    using two(2) one(5) author_display_parses[OF assms(1,2)] assms(9,12) by (simp_all add: crash_disk_def file_names_def)
  from respawn[OF assms(11,13) this] assms(10)
  have "\<exists>fs' files'. docs_spawn C ev' b ?disk = (Inl (DocsEngine DefaultAuthorMissing), fs', files')" by auto
  ultimately show ?thesis by fastforce
qed

section \<open>Closed instances\<close>

definition quiet_world :: world where
  "quiet_world = sample_world\<lparr>w_call := (\<lambda>n. \<lparr>cl_before = [], cl_held = (\<lambda>_. True), cl_now = n, cl_env = sample_env\<rparr>)\<rparr>"

definition quiet_env :: live_env where
  "quiet_env = sample_live_env\<lparr>le_world := quiet_world\<rparr>"

definition sample_spawn :: spawn_env where
  "sample_spawn = \<lparr>se_clock = (\<lambda>_. 5), se_parent = (\<lambda>_. Some ''/''), se_temp = ''tmp'', se_env = quiet_env, se_hex = plain_hex,
     se_write = WriteDone, se_rng = replicate 32 1, se_actor_id = 0, se_now = 0, se_me = [9], se_events_tx = 0,
     se_blobs = (\<lambda>_. Inr BlobNotFound)\<rparr>"

definition sample_api :: api_env where
  "sample_api = \<lparr>ae_env = quiet_env, ae_before = [], ae_hex = plain_hex, ae_write = WriteDone, ae_rng = replicate 32 2,
     ae_add_bytes = (\<lambda>b. Some (hash_fn sample_crypto b)), ae_addr = ([9], [[1]]), ae_kinds = \<lparr>is_relay = (\<lambda>_. False), is_ip = (\<lambda>_. True)\<rparr>,
     ae_replica_tx = 1, ae_live_tx = 2\<rparr>"

lemma quiet_private: "private_world quiet_env"
  by (simp add: private_world_def quiet_env_def quiet_world_def)

lemma quiet_spares: "env_spares i sample_crypto quiet_env"
  using sample_crypto_ok by (simp add: env_spares_def world_spares_def quiet_env_def quiet_world_def)

lemma plain_hex_ok: "hex_ok plain_hex"
  by (simp add: hex_ok_def plain_hex_def)

lemma sample_spawn_simps [simp]:
  "se_env sample_spawn = quiet_env" "se_hex sample_spawn = plain_hex" "se_write sample_spawn = WriteDone"
  by (simp_all add: sample_spawn_def)

text \<open>A first start in an empty directory.\<close>

lemma sample_start:
  obtains d fs files where "docs_spawn sample_crypto sample_spawn (docs_persistent ''d'') (Map.empty, Map.empty) = (Inr d, fs, files)"
proof -
  have "run_migrations sample_crypto (file_of tables_empty) = (Inr (), file_of tables_empty)"
    by (simp add: run_migrations_def op_bind_def run_migration_def migration_001_populate_latest_table_def
        migration_002_namespaces_populate_v2_def migration_003_namespaces_delete_v1_def migration_004_populate_by_key_index_def
        file_of_def tables_empty_def opened_tagged_def)
  moreover have "tables_new db_empty = (Inr (), file_of tables_empty)"
    by (simp add: tables_new_def db_empty_def file_of_def tables_empty_def opened_tagged_def opened_def Let_def)
  ultimately have opened: "persistent sample_crypto clock parent target path Map.empty =
      (Inr (store_new clock (file_of tables_empty)), [path \<mapsto> DbFile (file_of tables_empty)])" for clock parent target path
    by (simp add: persistent_def open_once_def op_bind_def open_database_def new_impl_def)
  let ?lv = "live_new (se_me sample_spawn) (se_events_tx sample_spawn) (actor_spawn (se_actor_id sample_spawn) (se_now sample_spawn)
     (store_new (se_clock sample_spawn) (file_of tables_empty)) (Some (\<lambda>hash. entry_to_content_status (se_blobs sample_spawn hash))) None None)"
  have lv: "lv_actor_running ?lv" "tx_ok (ac_store (lv_actor ?lv))" by (simp_all add: store_new_laws)
  obtain lv' where "storage_load sample_crypto quiet_env plain_hex WriteDone (se_rng sample_spawn) (StoragePersistent (author_path ''d''))
      (?lv, Map.empty) = (case author_persist plain_hex WriteDone (StoragePersistent (author_path ''d''))
        (author_id sample_crypto (author_new (se_rng sample_spawn))) Map.empty of (r, files') \<Rightarrow>
         (map_sum id (\<lambda>_. author_id sample_crypto (author_new (se_rng sample_spawn))) r, (lv', files')))"
    by (rule load_creates[OF quiet_private lv, where files = Map.empty and path = "author_path ''d''"]) simp
  then show thesis using that opened
    by (simp add: docs_spawn_def docs_open_store_def docs_author_storage_def docs_persistent_def engine_spawn_def Let_def author_persist_def)
qed

theorem default_author_survives_witness:
  "\<exists>d fs files e d' fs' files'. docs_spawn sample_crypto sample_spawn (docs_persistent ''d'') (Map.empty, Map.empty) = (Inr d, fs, files) \<and>
     snd (rpc_run sample_crypto [(sample_api, ReqCreate), (sample_api, ReqAuthorDelete (en_default_author (dk_engine d)))] (dk_engine d)) = e \<and>
     docs_spawn sample_crypto sample_spawn (docs_persistent ''d'') (crash_disk ''d'' fs (d\<lparr>dk_engine := e\<rparr>)) = (Inr d', fs', files') \<and>
     en_default_author (dk_engine d') = en_default_author (dk_engine d)"
proof -
  obtain d fs files where start: "docs_spawn sample_crypto sample_spawn (docs_persistent ''d'') (Map.empty, Map.empty) = (Inr d, fs, files)"
    by (rule sample_start)
  let ?reqs = "[(sample_api, ReqCreate), (sample_api, ReqAuthorDelete (en_default_author (dk_engine d)))]"
  have "list_all (\<lambda>(ev, req). api_spares (en_default_author (dk_engine d)) sample_crypto ev \<and> (\<forall>j. req \<noteq> ReqAuthorSetDefault j)) ?reqs"
    using quiet_spares by (simp add: api_spares_def sample_api_def)
  from default_author_survives[OF sample_crypto_ok _ _ _ start this prod.collapse[symmetric], of "''d''" sample_spawn "docs_persistent ''d''"]
  show ?thesis using start plain_hex_ok quiet_private by (fastforce simp: docs_persistent_def)
qed

definition fresh_node :: docs where
  "fresh_node = \<lparr>dk_engine = \<lparr>en_live = live_new [9] 0 (actor_spawn 0 0 (store_memory (\<lambda>_. 5)) None None None), en_running = True,
     en_default_author = [], en_storage = StoragePersistent (author_path ''d''), en_files = Map.empty\<rparr>, dk_access = None, dk_protect = False\<rparr>"

theorem default_author_dangles_witness:
  "\<exists>i e' fs files. rpc_run sample_crypto [(sample_api, ReqAuthorCreate), (sample_api, ReqAuthorSetDefault i)] (dk_engine fresh_node) =
       ([RespAuthorId (Inr i), RespUnit (Inr ())], e') \<and>
     docs_spawn sample_crypto sample_spawn (docs_persistent ''d'') (crash_disk ''d'' Map.empty (fresh_node\<lparr>dk_engine := e'\<rparr>)) =
       (Inl (DocsEngine DefaultAuthorMissing), fs, files)"
proof -
  let ?e = "dk_engine fresh_node"
  have "en_storage ?e = StoragePersistent (author_path ''d'')" "lv_actor_running (en_live ?e)"
    "st_transaction (ac_store (lv_actor (en_live ?e))) = NoTransaction" "st_clock (ac_store (lv_actor (en_live ?e))) = (\<lambda>_. 5)"
    "table_get (t_authors (st_db (ac_store (lv_actor (en_live ?e))))) (author_id sample_crypto (author_new (ae_rng sample_api))) = None"
    by (simp_all add: fresh_node_def store_memory_def tables_empty_def)
  from default_author_dangles[OF sample_crypto_ok _ this(1-4) _ _ refl this(5), of sample_spawn "docs_persistent ''d''" Map.empty fresh_node]
  show ?thesis using plain_hex_ok quiet_private by (fastforce simp: sample_api_def docs_persistent_def)
qed

end
