(* ===== verification/Api_Props.thy ===== *)
theory Api_Props
  imports Restart
begin

text \<open>
  The garbage collector of the blob store, \<^verbatim>\<open>src/src/engine.rs\<close>: content that is referenced is protected, and what becomes of that
  when the request is broken off.
\<close>

section \<open>Content that is referenced\<close>

definition referenced :: "tables \<Rightarrow> bytes set" where
  "referenced t = (\<lambda>row. entry_content_hash (se_entry (into_entry row))) ` set (t_records t)"

lemma protect_collect_hashes: "protect_collect (map Inr hashes) live = (ProtectContinue, fold List.insert hashes live)"
  by (induction hashes arbitrary: live) simp_all

lemma set_fold_insert: "set (fold List.insert hashes live) = set hashes \<union> set live"
  by (induction hashes arbitrary: live) auto

text \<open>The store when a call of the live actor's handle is processed.\<close>

definition store_at_call :: "crypto \<Rightarrow> live_env \<Rightarrow> live \<Rightarrow> fs_store" where
  "store_at_call C env lv = ac_store (snd (run_async C (cl_before (w_call (le_world env) (lv_calls lv))) (lv_actor lv)))"

text \<open>Whether the store actor is there to answer the call.\<close>

definition answers_call :: "live_env \<Rightarrow> live \<Rightarrow> bool" where
  "answers_call env lv \<longleftrightarrow> lv_actor_running lv \<and> \<not> list_ex input_stops (cl_before (w_call (le_world env) (lv_calls lv)))"

lemma content_hashes_call:
  assumes "tx_ok (store_at_call C env lv)"
  shows "fst (handle_content_hashes C env lv) = (if answers_call env lv
    then Inr (map (\<lambda>row. entry_content_hash (se_entry (into_entry row))) (t_records (visible (store_at_call C env lv)))) else Inl NetActorGone)"
proof -
  let ?cl = "w_call (le_world env) (lv_calls lv)"
  let ?a = "actor_tick (cl_held ?cl) (cl_now ?cl) (snd (run_async C (cl_before ?cl) (lv_actor lv)))"
  have s: "ac_store ?a = store_at_call C env lv" by (simp add: store_at_call_def)
  have "fst (snapshot_owned (ac_store ?a)) = visible (ac_store ?a)"
    using snapshot_owned_laws(1)[OF _ prod.collapse[symmetric], of "ac_store ?a"] assms s by simp
  then show ?thesis using s
    by (simp add: handle_content_hashes_def handle_call_def live_call_def io_call_def answers_call_def op_bind_def op_return_def op_reply_def
        actor_read_def content_hashes_def Let_def case_prod_beta)
qed

text \<open>C19. Content that a document references is not collected. When the engine answers a request of the garbage collector, everything
  the store references when it is asked is protected, and nothing else is added; when the store actor is
  gone, the collection is called off.\<close>

theorem collector_spares_content:
  assumes "crypto_ok C" "world_ok P L (le_world env)" "actor_ok C (lv_actor lv)" "protect_task C env None lv = (msgs, lv')"
    "protect_cb (RequestStream msgs) live = (outcome, live')"
  shows "if answers_call env lv
    then outcome = ProtectContinue \<and> set live' = set live \<union> referenced (visible (store_at_call C env lv))
    else outcome = ProtectAbort \<and> live' = live"
proof -
  have "actor_ok C (snd (run_async C (cl_before (w_call (le_world env) (lv_calls lv))) (lv_actor lv)))"
    using run_async_moves[OF assms(1), of "cl_before (w_call (le_world env) (lv_calls lv))" P] assms(2,3)
    by (auto simp: world_ok_def actor_moves_def list_all_iff)
  then have tx: "tx_ok (store_at_call C env lv)" by (simp add: actor_ok_def store_ok_def store_at_call_def)
  show ?thesis using content_hashes_call[OF tx] assms(4,5)
    by (auto simp: protect_task_def protect_messages_def case_prod_beta referenced_def protect_collect_hashes set_fold_insert
        map_map[symmetric] simp del: map_map split: if_splits)
qed

text \<open>C35. An engine that goes away in the middle does not call the collection off. When the task is aborted after some of the
  hashes, the collector is told to continue, and every other referenced blob is collected.\<close>

theorem aborted_protection_continues:
  assumes "handle_content_hashes C env lv = (Inr hashes, lv')" "protect_task C env (Some n) lv = (msgs, lv'')"
  shows "protect_cb (RequestStream msgs) live = (ProtectContinue, fold List.insert (take n hashes) live) \<and>
    (hash \<in> set hashes \<and> hash \<notin> set (take n hashes) \<union> set live \<longrightarrow> hash \<notin> set (snd (protect_cb (RequestStream msgs) live)))"
proof -
  have "msgs = map Inr (take n hashes)" using assms by (simp add: protect_task_def protect_messages_def take_map)
  then show ?thesis by (simp add: protect_collect_hashes set_fold_insert)
qed

section \<open>Closed instances\<close>

text \<open>A node whose store has one entry, with the content hash \<open>[7]\<close>.\<close>

definition stocked :: live where
  "stocked = live_new [9] 0 (actor_spawn 7 0 (sample_store [sample_signed]) None None None)"

lemma stocked_rows: "t_records (tables_place sample_signed tables_empty) = [records_row sample_signed]"
  by (simp add: tables_place_def entry_put_tables_def Let_def tables_empty_def records_row_def)

lemma stocked_ok: "actor_ok sample_crypto (lv_actor stocked)"
proof -
  have "doc_map (visible (sample_store [sample_signed])) k = Some v \<Longrightarrow> into_entry (k, v) = sample_signed" for k v
    using into_entry_records_row[of sample_signed] by (auto simp: doc_map_def stocked_rows table_get_def split: if_splits)
  then have "doc_authentic sample_crypto (visible (sample_store [sample_signed]))"
    using sample_signed_ok(2) unfolding doc_authentic_def by metis
  then show ?thesis using spawn_ok[OF sample_store_store_ok[of "[sample_signed]"]] sample_signed_ok(1)
    by (simp add: stocked_def live_new_def) (simp add: sample_store_def store_memory_def)
qed

lemma stocked_call:
  "answers_call quiet_env stocked" "visible (store_at_call sample_crypto quiet_env stocked) = tables_place sample_signed tables_empty"
  by (simp_all add: answers_call_def store_at_call_def stocked_def quiet_env_def quiet_world_def)

lemma stocked_hash: "entry_content_hash (se_entry (into_entry (records_row sample_signed))) = [7]"
  by (simp add: into_entry_records_row sample_signed_def entry_sign_def signed_entry_from_entry_def entry_new_def entry_content_hash_def
      record_new_def)

theorem collector_spares_content_witness:
  "\<exists>live'. protect_cb (RequestStream (fst (protect_task sample_crypto quiet_env None stocked))) [[8]] = (ProtectContinue, live') \<and>
     set live' = {[7], [8]}"
proof -
  have "world_ok policy_postcard 0 (le_world quiet_env)"
    by (simp add: world_ok_def quiet_env_def quiet_world_def sample_env_def)
  from collector_spares_content[OF sample_crypto_ok this stocked_ok prod.collapse[symmetric] prod.collapse[symmetric], of "[[8]]"]
  show ?thesis by (auto simp: stocked_call referenced_def stocked_rows stocked_hash intro!: prod_eqI)
qed

theorem aborted_protection_continues_witness:
  "protect_cb (RequestStream (fst (protect_task sample_crypto quiet_env (Some 0) stocked))) [] = (ProtectContinue, []) \<and>
     [7] \<in> referenced (visible (store_at_call sample_crypto quiet_env stocked))"
proof -
  have "tx_ok (store_at_call sample_crypto quiet_env stocked)"
    using stocked_ok by (simp add: store_at_call_def quiet_env_def quiet_world_def actor_ok_def store_ok_def)
  from content_hashes_call[OF this] have "handle_content_hashes sample_crypto quiet_env stocked =
      (Inr [[7]], snd (handle_content_hashes sample_crypto quiet_env stocked))"
    by (simp add: stocked_call stocked_rows stocked_hash prod_eq_iff)
  from aborted_protection_continues[OF this prod.collapse[symmetric], of 0 "[]"]
  show ?thesis by (simp add: stocked_call referenced_def stocked_rows stocked_hash)
qed

end
