(* ===== verification/Sharing.thy ===== *)
theory Sharing
  imports Restart
begin

text \<open>
  Documents through the public interface, \<^verbatim>\<open>src/src/api/actor.rs\<close> and \<^verbatim>\<open>src/src/api.rs\<close>: tickets that are shared and imported, documents
  that are dropped, files that are added.
\<close>

section \<open>Calls by a single user\<close>

lemma private_action:
  assumes "private_world env" "lv_actor_running lv" "actor_ok C (lv_actor lv)"
  obtains ev a where "actor_ok C a" "ac_store a = ac_store (lv_actor lv)" "ac_states a = ac_states (lv_actor lv)"
    "live_call C env act lv = (map_sum NetActor id (fst (on_action C ev act a)),
       lv\<lparr>lv_actor := snd (on_action C ev act a), lv_calls := lv_calls lv + 1\<rparr>)"
proof -
  let ?cl = "w_call (le_world env) (lv_calls lv)"
  let ?a = "actor_tick (cl_held ?cl) (cl_now ?cl) (lv_actor lv)"
  have "actor_ok C ?a" using tick_moves[of C undefined "lv_actor lv"] assms(3) by (simp add: actor_moves_def)
  moreover have "ac_states ?a = ac_states (lv_actor lv)"
    by (simp add: actor_tick_def reclaim_abandoned_sessions_def record_open_sessions_def Let_def)
  moreover have "live_call C env act lv = (map_sum NetActor id (fst (on_action C (cl_env ?cl) act ?a)),
      lv\<lparr>lv_actor := snd (on_action C (cl_env ?cl) act ?a), lv_calls := lv_calls lv + 1\<rparr>)"
    using assms by (simp add: live_call_def io_call_def private_world_def Let_def case_prod_beta)
  ultimately show thesis using that[of ?a "cl_env ?cl"] by simp
qed

section \<open>Importing a capability\<close>

definition merged_capability :: "crypto \<Rightarrow> capability option \<Rightarrow> capability \<Rightarrow> capability" where
  "merged_capability C known cap = (case known of None \<Rightarrow> cap | Some old \<Rightarrow> snd (capability_merge C old cap))"

lemma import_action_eq:
  assumes "actor_ok C a"
  obtains a' where "import_namespace_action C cap a = (Inr (capability_id C cap), a')" "actor_ok C a'"
    "stored_capability (visible (ac_store a')) (capability_id C cap) =
       Some (merged_capability C (stored_capability (visible (ac_store a)) (capability_id C cap)) cap)"
proof -
  let ?i = "capability_id C cap"
  have ok: "store_ok C (ac_store a)" using assms by (simp add: actor_ok_def)
  obtain out s' where s': "import_namespace C cap (ac_store a) = (Inr out, s')"
    "stored_capability (visible s') ?i = Some (merged_capability C (stored_capability (visible (ac_store a)) ?i) cap)"
    "out = ImportUpgraded \<longleftrightarrow> (\<exists>old. stored_capability (visible (ac_store a)) ?i = Some old \<and> fst (capability_merge C old cap) = Inr True)"
    by (rule import_namespace_eq[OF ok, of cap undefined]) (auto simp: merged_capability_def)
  have open_cap: "stored_capability (visible (ac_store a)) ?i = Some (ri_capability (op_info st))"
    if "table_get (ac_states a) ?i = Some st" for st
    using actor_states_get(1)[OF assms that] by (simp add: open_ok_def)
  have "fst (import_namespace_action C cap a) = Inr ?i \<and> ac_store (snd (import_namespace_action C cap a)) = s'"
    using s' open_cap
    by (auto simp: import_namespace_action_def Let_def op_bind_def on_actor_store_def merge_capability_def case_prod_beta split: option.splits)
  moreover have "actor_ok C (snd (import_namespace_action C cap a))"
    using import_action_moves[of C undefined cap] assms by (simp add: moves_def actor_moves_def)
  ultimately show thesis using that s'(2) by (metis prod.collapse)
qed

lemma import_opens:
  assumes "private_world (ae_env ev)" "lv_actor_running (en_live e)" "actor_ok C (lv_actor (en_live e))" "length (capability_id C cap) = 32"
  obtains e' st where "doc_import C ev cap e = (Inr (capability_id C cap), e')" "actor_ok C (lv_actor (en_live e'))"
    "table_get (ac_states (lv_actor (en_live e'))) (capability_id C cap) = Some st"
    "ri_capability (op_info st) = merged_capability C (stored_capability (visible (ac_store (lv_actor (en_live e)))) (capability_id C cap)) cap"
proof -
  let ?i = "capability_id C cap"
  obtain ev1 a where a: "actor_ok C a" "ac_store a = ac_store (lv_actor (en_live e))"
    "live_call C (ae_env ev) (ActImportNamespace cap) (en_live e) = (map_sum NetActor id (fst (on_action C ev1 (ActImportNamespace cap) a)),
       (en_live e)\<lparr>lv_actor := snd (on_action C ev1 (ActImportNamespace cap) a), lv_calls := lv_calls (en_live e) + 1\<rparr>)"
    by (rule private_action[OF assms(1-3)])
  obtain a1 where a1: "import_namespace_action C cap a = (Inr ?i, a1)" "actor_ok C a1"
    "stored_capability (visible (ac_store a1)) ?i = Some (merged_capability C (stored_capability (visible (ac_store a)) ?i) cap)"
    by (rule import_action_eq[OF a(1)])
  let ?lv = "(en_live e)\<lparr>lv_actor := a1, lv_calls := lv_calls (en_live e) + 1\<rparr>"
  have one: "live_call C (ae_env ev) (ActImportNamespace cap) (en_live e) = (Inr (ReplyNamespace ?i), ?lv)"
    using a(3) a1(1) by (simp add: op_reply_def op_bind_def op_return_def)
  have lv1: "lv_actor_running ?lv" "actor_ok C (lv_actor ?lv)" using assms(2) a1(2) by simp_all
  obtain ev2 b where b: "actor_ok C b" "ac_store b = ac_store a1"
    "live_call C (ae_env ev) (ActReplica ?i (ActOpen open_default)) ?lv =
       (map_sum NetActor id (fst (on_action C ev2 (ActReplica ?i (ActOpen open_default)) b)),
        ?lv\<lparr>lv_actor := snd (on_action C ev2 (ActReplica ?i (ActOpen open_default)) b), lv_calls := lv_calls ?lv + 1\<rparr>)"
    by (rule private_action[OF assms(1) lv1, where act = "ActReplica ?i (ActOpen open_default)"]) auto
  let ?b = "snd (actor_open C ?i open_default b)"
  have known: "stored_capability (visible (ac_store b)) ?i \<noteq> None" using b(2) a1(3) by simp
  note opened = open_handles[OF b(1) assms(4) known, of open_default]
  have ok: "actor_ok C ?b" using actor_open_moves[OF assms(4), of C undefined open_default] b(1) by (simp add: moves_def actor_moves_def)
  obtain st where st: "table_get (ac_states ?b) ?i = Some st" using opened(2) by (auto simp: handles_of_def)
  have "ri_capability (op_info st) = merged_capability C (stored_capability (visible (ac_store (lv_actor (en_live e)))) ?i) cap"
    using actor_states_get(1)[OF ok st] opened(3) b(2) a1(3) a(2) by (simp add: open_ok_def)
  moreover have "doc_import C ev cap e = (Inr ?i, e\<lparr>en_live := ?lv\<lparr>lv_actor := ?b, lv_calls := lv_calls ?lv + 1\<rparr>\<rparr>)"
    using one b(3) opened(1)
    by (simp add: doc_import_def engine_call_def handle_import_namespace_def handle_open_def handle_call_def op_bind_def op_return_def op_reply_def
        case_prod_beta split: sum.splits)
  ultimately show thesis using that st ok by simp
qed

section \<open>Sharing\<close>

lemma export_secret_call:
  assumes "crypto_ok C" "world_ok P L (le_world env)" "actor_ok C (lv_actor lv)" "handle_export_secret_key C env ns lv = (Inr secret, lv')"
  shows "namespace_id C secret = ns \<and> length ns = 32"
proof -
  let ?cl = "w_call (le_world env) (lv_calls lv)"
  let ?a = "actor_tick (cl_held ?cl) (cl_now ?cl) (snd (run_async C (cl_before ?cl) (lv_actor lv)))"
  have "actor_ok C (snd (run_async C (cl_before ?cl) (lv_actor lv)))"
    using run_async_moves[OF assms(1), of "cl_before ?cl" P] assms(2,3) by (auto simp: world_ok_def actor_moves_def list_all_iff)
  then have ok: "actor_ok C ?a" using tick_moves[of C undefined] by (simp add: actor_moves_def)
  have "export_secret_key ns ?a = Inr secret"
    using assms(4) by (auto simp: handle_export_secret_key_def handle_call_def live_call_def io_call_def op_bind_def op_return_def op_fail_def
        op_reply_def op_lift_def Let_def case_prod_beta map_sum_def split: if_splits sum.splits option.splits)
  then obtain st where st: "table_get (ac_states ?a) ns = Some st" "ri_capability (op_info st) = Write secret"
    by (auto simp: export_secret_key_def rbind_def states_get_def map_sum_def split: option.splits sum.splits elim!: capability_secret_key.elims)
  show ?thesis using actor_states_get[OF ok st(1)] st(2) by (auto simp: open_ok_def)
qed

text \<open>C20. A ticket grants what it was shared for. The text of a shared ticket reads back as the ticket, which names this node by the
  addresses that were chosen. It carries the secret of the document if it is shared for writing and not
  otherwise. A node that imports it opens the document, with what it had merged with what it is given.\<close>

theorem shared_ticket_grants:
  assumes "crypto_ok C" "postcard_ok M" "ticket_text_ok T"
    "world_ok P L (le_world (ae_env ev))" "actor_ok C (lv_actor (en_live e))" "length ns = 32"
    "doc_share C ev ns mode opts e = (Inr ticket, e1)"
    "private_world (ae_env ev')" "lv_actor_running (en_live e')" "actor_ok C (lv_actor (en_live e'))"
  shows "ticket_from_str T M (ticket_display T M ticket) = Inr ticket \<and>
    dt_nodes ticket = [addr_apply (ae_kinds ev) opts (ae_addr ev)] \<and> capability_id C (dt_capability ticket) = ns \<and>
    kind_of_capability (dt_capability ticket) = (if mode = ShareWrite then KindWrite else KindRead) \<and>
    (\<exists>e'' st. doc_import C ev' (dt_capability ticket) e' = (Inr ns, e'') \<and>
       table_get (ac_states (lv_actor (en_live e''))) ns = Some st \<and>
       ri_capability (op_info st) =
         merged_capability C (stored_capability (visible (ac_store (lv_actor (en_live e')))) ns) (dt_capability ticket))"
proof -
  have t: "dt_nodes ticket = [addr_apply (ae_kinds ev) opts (ae_addr ev)] \<and> capability_id C (dt_capability ticket) = ns \<and>
      kind_of_capability (dt_capability ticket) = (if mode = ShareWrite then KindWrite else KindRead)"
    using assms(7) export_secret_call[OF assms(1,4,5)]
    by (cases mode) (auto simp: doc_share_def Let_def op_bind_def op_return_def engine_call_def map_sum_def split: prod.splits sum.splits)
  then have len: "length (capability_id C (dt_capability ticket)) = 32" using assms(6) by simp
  obtain e'' st where "doc_import C ev' (dt_capability ticket) e' = (Inr ns, e'')"
    "table_get (ac_states (lv_actor (en_live e''))) ns = Some st"
    "ri_capability (op_info st) =
       merged_capability C (stored_capability (visible (ac_store (lv_actor (en_live e')))) ns) (dt_capability ticket)"
    using t by (auto intro: import_opens[OF assms(8-10) len])
  then show ?thesis using t ticket_roundtrip[OF assms(2,3), of ticket] by simp
qed

section \<open>Dropping a document\<close>

text \<open>What is left of the handles of a document after one more of them is given back.\<close>

definition released :: "u64 option \<Rightarrow> u64 option" where
  "released handles = (if handles = Some 1 then None else map_option (\<lambda>h. h - 1) handles)"

lemma private_change:
  assumes "private_world env" "lv_actor_running lv" "actor_ok C (lv_actor lv)" "act = ActSetSync sync \<or> act = ActUnsubscribe tx"
  obtains b where "live_call C env (ActReplica ns act) lv =
      (if handles_of ns (lv_actor lv) = None then Inl (NetActor ErrNotOpen) else Inr ReplyUnit, lv\<lparr>lv_actor := b, lv_calls := lv_calls lv + 1\<rparr>)"
    "actor_ok C b" "handles_of ns b = handles_of ns (lv_actor lv)" "visible (ac_store b) = visible (ac_store (lv_actor lv))"
proof -
  obtain ev a where a: "actor_ok C a" "ac_store a = ac_store (lv_actor lv)" "ac_states a = ac_states (lv_actor lv)"
    "live_call C env (ActReplica ns act) lv = (map_sum NetActor id (fst (on_action C ev (ActReplica ns act) a)),
       lv\<lparr>lv_actor := snd (on_action C ev (ActReplica ns act) a), lv_calls := lv_calls lv + 1\<rparr>)"
    by (rule private_action[OF assms(1-3), where act = "ActReplica ns act"]) blast
  define f :: "open_replica_state \<Rightarrow> open_replica_state" where "f = (if act = ActSetSync sync then (\<lambda>st. st\<lparr>op_sync := sync\<rparr>) else (\<lambda>st. st\<lparr>op_info := info_unsubscribe tx (op_info st)\<rparr>))"
  have act: "on_action C ev (ActReplica ns act) a = op_reply (\<lambda>_. ReplyUnit) (change_state ns f) a"
    using assms(4) by (auto simp: f_def)
  let ?b = "snd (change_state ns f a)"
  have "moves (actor_moves C undefined) (change_state ns f)" by (simp add: f_def action_moves)
  then have ok: "actor_ok C ?b" using a(1) by (simp add: moves_def actor_moves_def)
  have f: "op_handles (f st) = op_handles st" for st by (simp add: f_def)
  show thesis
  proof (rule that[of ?b])
    show "live_call C env (ActReplica ns act) lv = (if handles_of ns (lv_actor lv) = None then Inl (NetActor ErrNotOpen) else Inr ReplyUnit,
        lv\<lparr>lv_actor := ?b, lv_calls := lv_calls lv + 1\<rparr>)"
      using a(3,4) unfolding act
      by (auto simp: op_reply_def op_bind_def op_return_def change_state_def states_get_def handles_of_def split: option.splits)
    show "handles_of ns ?b = handles_of ns (lv_actor lv)" "visible (ac_store ?b) = visible (ac_store (lv_actor lv))"
      using a(2,3) f by (auto simp: change_state_def states_get_def handles_of_def table_get_insert split: option.splits)
  qed (rule ok)
qed

lemma private_close:
  assumes "private_world env" "lv_actor_running lv" "actor_ok C (lv_actor lv)"
  obtains r b where "live_call C env (ActReplica ns ActClose) lv = (Inr r, lv\<lparr>lv_actor := b, lv_calls := lv_calls lv + 1\<rparr>)"
    "actor_ok C b" "handles_of ns b = released (handles_of ns (lv_actor lv))" "visible (ac_store b) = visible (ac_store (lv_actor lv))"
proof -
  obtain ev a where a: "actor_ok C a" "ac_store a = ac_store (lv_actor lv)" "ac_states a = ac_states (lv_actor lv)"
    "live_call C env (ActReplica ns ActClose) lv = (map_sum NetActor id (fst (on_action C ev (ActReplica ns ActClose) a)),
       lv\<lparr>lv_actor := snd (on_action C ev (ActReplica ns ActClose) a), lv_calls := lv_calls lv + 1\<rparr>)"
    by (rule private_action[OF assms, where act = "ActReplica ns ActClose"]) blast
  let ?b = "snd (actor_close ns a)"
  have "live_call C env (ActReplica ns ActClose) lv = (Inr (ReplyBool (fst (actor_close ns a))), lv\<lparr>lv_actor := ?b, lv_calls := lv_calls lv + 1\<rparr>)"
    using a(4) by (simp add: case_prod_beta)
  moreover have "actor_ok C ?b" using actor_close_moves[OF a(1), of undefined ns] a(1) by (simp add: actor_moves_def)
  moreover have "handles_of ns ?b = released (handles_of ns (lv_actor lv))"
    using close_handles(2)[of ns a] a(3) unfolding released_def by (simp only: handles_of_def)
  moreover have "visible (ac_store ?b) = visible (ac_store (lv_actor lv))"
    using a(2) by (auto simp: actor_close_eq split: option.splits)
  ultimately show thesis by (rule that)
qed

text \<open>Leaving gives back the handle of the exchanges, if there are any.\<close>

lemma leave_call:
  fixes ns :: namespace_id
  assumes "private_world env" "lv_actor_running lv" "actor_ok C (lv_actor lv)"
  defines "syncing \<equiv> ns_is_syncing ns (lv_state lv)" and "handles \<equiv> handles_of ns (lv_actor lv)"
  obtains r lv' where "leave C env ns kill lv = (r, lv')" "lv_actor_running lv'" "actor_ok C (lv_actor lv')"
    "visible (ac_store (lv_actor lv')) = visible (ac_store (lv_actor lv))" "\<not> ns_is_syncing ns (lv_state lv')"
    "r = (if syncing \<and> handles = None then Inl (NetActor ErrNotOpen) else Inr ())"
    "handles_of ns (lv_actor lv') = (if syncing then released handles else handles)"
proof (cases syncing)
  case False
  then show thesis using that assms(2,3)
    by (auto simp: syncing_def handles_def leave_def ns_remove_def ns_is_syncing_def op_bind_def table_get_remove)
next
  case True
  let ?lv1 = "lv\<lparr>lv_state := table_remove ns (lv_state lv)\<rparr>"
  have sync: "ns_remove ns (lv_state lv) = (True, table_remove ns (lv_state lv))" using True by (simp add: syncing_def ns_remove_def ns_is_syncing_def)
  obtain b1 where b1: "live_call C env (ActReplica ns (ActSetSync False)) ?lv1 =
      (if handles = None then Inl (NetActor ErrNotOpen) else Inr ReplyUnit, ?lv1\<lparr>lv_actor := b1, lv_calls := lv_calls lv + 1\<rparr>)"
    "actor_ok C b1" "handles_of ns b1 = handles" "visible (ac_store b1) = visible (ac_store (lv_actor lv))"
    by (rule private_change[OF assms(1), where lv = ?lv1 and act = "ActSetSync False" and C = C and ns = ns])
       (use assms(2,3) in \<open>auto simp: handles_def\<close>)
  let ?lv2 = "?lv1\<lparr>lv_actor := b1, lv_calls := lv_calls lv + 1\<rparr>"
  show thesis
  proof (cases "handles = None")
    case None: True
    have "leave C env ns kill lv = (Inl (NetActor ErrNotOpen), ?lv2)"
      using b1(1) None sync by (simp add: leave_def op_bind_def)
    then show thesis by (rule that) (use b1 None True assms(2) in \<open>simp_all add: released_def ns_is_syncing_def table_get_remove\<close>)
  next
    case open1: False
    obtain b2 where b2: "live_call C env (ActReplica ns (ActUnsubscribe (lv_replica_events lv))) ?lv2 =
        (Inr ReplyUnit, ?lv2\<lparr>lv_actor := b2, lv_calls := lv_calls ?lv2 + 1\<rparr>)"
      "actor_ok C b2" "handles_of ns b2 = handles" "visible (ac_store b2) = visible (ac_store (lv_actor lv))"
      by (rule private_change[OF assms(1), where lv = ?lv2 and act = "ActUnsubscribe (lv_replica_events lv)" and C = C and ns = ns])
         (use assms(2) b1 open1 in auto)
    let ?lv3 = "?lv2\<lparr>lv_actor := b2, lv_calls := lv_calls ?lv2 + 1\<rparr>"
    obtain r b3 where b3: "live_call C env (ActReplica ns ActClose) ?lv3 = (Inr r, ?lv3\<lparr>lv_actor := b3, lv_calls := lv_calls ?lv3 + 1\<rparr>)"
      "actor_ok C b3" "handles_of ns b3 = released handles" "visible (ac_store b3) = visible (ac_store (lv_actor lv))"
      by (rule private_close[OF assms(1), where lv = ?lv3 and C = C and ns = ns]) (use assms(2) b2 in auto)
    let ?lv4 = "?lv3\<lparr>lv_actor := b3, lv_calls := lv_calls ?lv3 + 1, lv_gossip := gossip_quit ns (lv_gossip lv)\<rparr>"
    have "leave C env ns kill lv = (Inr (), if kill then ?lv4\<lparr>lv_subscribers := table_remove ns (lv_subscribers lv)\<rparr> else ?lv4)"
      using b1(1) b2(1) b3(1) open1 sync by (simp add: leave_def op_bind_def)
    then show thesis by (rule that) (use b3 open1 True assms(2) in \<open>simp_all add: ns_is_syncing_def table_get_remove\<close>)
  qed
qed

lemma drop_call:
  fixes ns :: namespace_id
  assumes "private_world (ae_env ev)" "ae_before ev = []" "en_running e" "lv_actor_running (en_live e)" "actor_ok C (lv_actor (en_live e))"
  defines "syncing \<equiv> ns_is_syncing ns (lv_state (en_live e))" and "handles \<equiv> handles_of ns (lv_actor (en_live e))"
  obtains (kept) "syncing" "handles = None" "fst (doc_drop C ev ns e) = Inl (EngineNet (NetActor ErrNotOpen))"
      "visible (ac_store (lv_actor (en_live (snd (doc_drop C ev ns e))))) = visible (ac_store (lv_actor (en_live e)))"
      "handles_of ns (lv_actor (en_live (snd (doc_drop C ev ns e)))) = None"
  | (dropped) a where "\<not> (syncing \<and> handles = None)" "actor_ok C a" "visible (ac_store a) = visible (ac_store (lv_actor (en_live e)))"
      "handles_of ns a = (if syncing then released handles else handles)"
      "fst (doc_drop C ev ns e) = map_sum (\<lambda>err. EngineNet (NetActor err)) id (fst (drop_replica ns a))"
      "lv_actor (en_live (snd (doc_drop C ev ns e))) = snd (drop_replica ns a)"
proof -
  obtain r lv where left: "leave C (ae_env ev) ns True (en_live e) = (r, lv)" "lv_actor_running lv" "actor_ok C (lv_actor lv)"
    "visible (ac_store (lv_actor lv)) = visible (ac_store (lv_actor (en_live e)))" "\<not> ns_is_syncing ns (lv_state lv)"
    "r = (if syncing \<and> handles = None then Inl (NetActor ErrNotOpen) else Inr ())"
    "handles_of ns (lv_actor lv) = (if syncing then released handles else handles)"
    unfolding syncing_def handles_def by (rule leave_call[OF assms(1,4,5)])
  obtain ev1 a where a: "actor_ok C a" "ac_store a = ac_store (lv_actor lv)" "ac_states a = ac_states (lv_actor lv)"
    "live_call C (ae_env ev) (ActReplica ns ActDropReplica) lv = (map_sum NetActor id (fst (on_action C ev1 (ActReplica ns ActDropReplica) a)),
       lv\<lparr>lv_actor := snd (on_action C ev1 (ActReplica ns ActDropReplica) a), lv_calls := lv_calls lv + 1\<rparr>)"
    by (rule private_action[OF assms(1) left(2,3), where act = "ActReplica ns ActDropReplica"]) blast
  have step: "doc_drop C ev ns e = (case r of Inl err \<Rightarrow> (Inl (EngineNet err), e\<lparr>en_live := lv\<rparr>)
      | Inr _ \<Rightarrow> engine_call (handle_drop_replica C (ae_env ev) ns) (e\<lparr>en_live := lv\<rparr>))"
    using left(1) assms(2,3) by (simp add: doc_drop_def engine_leave_def engine_ask_def engine_call_def op_bind_def split: sum.splits)
  show thesis
  proof (cases "syncing \<and> handles = None")
    case True
    then show thesis using step left kept by (simp add: released_def)
  next
    case False
    obtain r' a' where d: "drop_replica ns a = (r', a')" by fastforce
    have "doc_drop C ev ns e = (map_sum (\<lambda>err. EngineNet (NetActor err)) id r', e\<lparr>en_live := lv\<lparr>lv_actor := a', lv_calls := lv_calls lv + 1\<rparr>\<rparr>)"
      using step left(6) False a(4) d
      by (cases r') (simp_all add: engine_call_def handle_drop_replica_def handle_call_def op_bind_def op_return_def op_reply_def)
    then show thesis using dropped[OF False a(1)] a left(4,7) d by (simp add: handles_of_def)
  qed
qed

text \<open>C21. A document is dropped with its last handle, and only then. The request first leaves the exchanges, which gives back the handle
  they hold if the document is syncing, and then gives back one more. If that was the last one, or there was none left, the
  entries, capability, policy and peers are removed and the document is closed. With more handles the request fails; it leaves
  the data as it is, but the handles are gone. For a syncing document that is not open the request fails
  and the data is kept.\<close>

theorem drop_takes_a_handle:
  assumes "private_world (ae_env ev)" "ae_before ev = []" "en_running e" "lv_actor_running (en_live e)" "actor_ok C (lv_actor (en_live e))"
    "length ns = 32" "doc_drop C ev ns e = (res, e')"
  defines "s \<equiv> ac_store (lv_actor (en_live e))" and "s' \<equiv> ac_store (lv_actor (en_live e'))"
    and "syncing \<equiv> ns_is_syncing ns (lv_state (en_live e))" and "handles \<equiv> handles_of ns (lv_actor (en_live e))"
  defines "remaining \<equiv> if syncing then released handles else handles"
  shows "handles_of ns (lv_actor (en_live e')) = released remaining \<and>
    (if syncing \<and> handles = None then res = Inl (EngineNet (NetActor ErrNotOpen)) \<and> visible s' = visible s
     else if remaining = None \<or> remaining = Some 1
     then res = Inr () \<and> stored_capability (visible s') ns = None \<and>
       (\<forall>author key. length author = 32 \<longrightarrow> doc_map (visible s') (ns, author, key) = None) \<and>
       table_get (t_download_policy (visible s')) ns = None \<and> multimap_get (t_namespace_peers (visible s')) ns = []
     else res = Inl (EngineNet (NetActor (ErrStore ReplicaNotClosed))) \<and> visible s' = visible s)"
proof (cases rule: drop_call[OF assms(1-5), where ns = ns, case_names kept dropped])
  case kept
  then show ?thesis using assms(7) by (simp add: s_def s'_def syncing_def handles_def remaining_def released_def)
next
  case (dropped a)
  have a: "actor_ok C a" "visible (ac_store a) = visible s" "handles_of ns a = remaining" "\<not> (syncing \<and> handles = None)"
    "res = map_sum (\<lambda>err. EngineNet (NetActor err)) id (fst (drop_replica ns a))" "lv_actor (en_live e') = snd (drop_replica ns a)"
    using dropped assms(7) by (simp_all add: s_def syncing_def handles_def remaining_def)
  obtain closed b where b: "actor_close ns a = (closed, b)" by fastforce
  have drop: "drop_replica ns a = on_actor_store ErrStore (remove_replica ns) b" using b by (simp add: drop_replica_def)
  have b_handles: "closed \<longleftrightarrow> remaining = None \<or> remaining = Some 1" "handles_of ns b = released remaining"
    using close_handles[of ns a] b a(3) by (simp_all add: released_def)
  have b_ok: "actor_ok C b" using actor_close_moves[OF a(1), of undefined ns] a(1) b by (simp add: actor_moves_def)
  have vis: "visible (ac_store b) = visible s" using b a(2) by (auto simp: actor_close_eq split: option.splits if_splits)
  have h: "handles_of ns (lv_actor (en_live e')) = released remaining"
    using a(6) drop b_handles(2) by (simp add: on_actor_store_def handles_of_def case_prod_beta)
  have "ns \<in> st_open_replicas (ac_store b) \<longleftrightarrow> handles_of ns b \<noteq> None"
    using b_ok by (auto simp: actor_ok_def handles_of_def domIff)
  then have opened: "ns \<in> st_open_replicas (ac_store b) \<longleftrightarrow> \<not> closed" using b_handles by (simp add: released_def)
  have ok: "store_ok C (ac_store b)" using b_ok by (simp add: actor_ok_def)
  show ?thesis
  proof (cases closed)
    case True
    obtain s2 where s2: "remove_replica ns (ac_store b) = (Inr (), s2)"
      "\<forall>i. records_id_ok i \<longrightarrow> doc_map (visible s2) i = (if fst i = ns then None else doc_map (visible (ac_store b)) i)"
      "\<forall>n. stored_capability (visible s2) n = (if n = ns then None else stored_capability (visible (ac_store b)) n)"
      "\<forall>n. table_get (t_download_policy (visible s2)) n = (if n = ns then None else table_get (t_download_policy (visible (ac_store b))) n)"
      "\<forall>n. set (multimap_get (t_namespace_peers (visible s2)) n) =
         (if n = ns then {} else set (multimap_get (t_namespace_peers (visible (ac_store b))) n))"
      using remove_replica_clears[OF ok assms(6)] opened True by blast
    have peers: "multimap_get (t_namespace_peers (visible s2)) ns = []" using s2(5)[rule_format, of ns] by simp
    have "res = Inr ()" "s' = s2" using a(5,6) drop s2(1) by (simp_all add: s'_def on_actor_store_def)
    then show ?thesis using s2(2-4) peers h b_handles(1) a(4) True assms(6) by (auto simp: records_id_ok_def)
  next
    case False
    then have "remove_replica ns (ac_store b) = (Inl ReplicaNotClosed, ac_store b)" using opened by (simp add: remove_replica_def)
    then have "res = Inl (EngineNet (NetActor (ErrStore ReplicaNotClosed)))" "visible s' = visible s"
      using a(5,6) drop vis by (simp_all add: s'_def on_actor_store_def)
    then show ?thesis using h b_handles(1) a(4) False by auto
  qed
qed

section \<open>Adding a file\<close>

text \<open>What adding a file comes to, in one piece: the blob store announces the size and in the end the hash, and
  then the entry is inserted. Without an end, or with a hash before any size, the code panics.\<close>

fun progressing :: "add_progress \<Rightarrow> bool" where
  "progressing (AddSize len) = True" | "progressing (AddCopy n) = True" | "progressing _ = False"

fun announced :: "add_progress list \<Rightarrow> u64 option" where
  "announced [] = None"
| "announced (AddSize len # rest) = (case announced rest of None \<Rightarrow> Some len | Some later \<Rightarrow> Some later)"
| "announced (_ # rest) = announced rest"

definition import_reference ::
  "crypto \<Rightarrow> api_env \<Rightarrow> doc \<Rightarrow> author_id \<Rightarrow> bytes \<Rightarrow> u64 option \<Rightarrow> add_progress list \<Rightarrow> engine
     \<Rightarrow> (engine_error + import_outcome) polled \<times> engine" where
  "import_reference C ev d author key known items e =
     (case (dropWhile progressing items, case announced (takeWhile progressing items) of None \<Rightarrow> known | Some len \<Rightarrow> Some len) of
        (AddError # _, _) \<Rightarrow> (Yielded (Inl BlobAddFailed), e)
      | (AddDone hash # _, Some len) \<Rightarrow>
          (case client_set_hash C ev d author key hash len e of (r, e') \<Rightarrow>
             (Yielded (map_sum id (\<lambda>_. \<lparr>io_hash = hash, io_size = len, io_key = key\<rparr>) r), e'))
      | _ \<Rightarrow> (Panicked, e))"

declare import_await.simps [simp del]

lemma import_await_reference:
  "import_await C ev (ImportBlobs items (Some \<lparr>ec_doc = d, ec_author = author, ec_key = key, ec_size = known\<rparr>)) e =
     import_reference C ev d author key known items e"
proof (induction items arbitrary: known)
  case (Cons item items)
  then show ?case
  proof (cases item)
    case (AddSize len)
    then show ?thesis using Cons[of "Some len"]
      by (subst import_await.simps) (simp add: import_reference_def split: option.splits)
  next
    case (AddDone hash)
    then show ?thesis
      by (subst import_await.simps)
         (auto simp: import_reference_def import_await.simps[of C ev "ImportEntry _ _ _"] split: option.splits prod.splits sum.splits)
  next
    case (AddCopy n)
    then show ?thesis using Cons[of known] by (subst import_await.simps) (simp add: import_reference_def)
  qed (subst import_await.simps, simp add: import_reference_def)
qed (subst import_await.simps, simp add: import_reference_def)

text \<open>C26. Adding a file does what its specification says. On a closed handle it fails; otherwise awaiting the state machine of the
  import, whatever the blob store reports, comes to the outcome of the specification: the entry is inserted
  with the reported hash and the size announced last, under the given key, or nothing is inserted.\<close>

theorem import_file_outcome:
  "case import_file d author key items of
     Inl err \<Rightarrow> dc_closed d \<and> err = DocumentClosed
   | Inr st \<Rightarrow> \<not> dc_closed d \<and> import_await C ev st e = import_reference C ev d author key None items e"
  by (simp add: import_file_def doc_ensure_open_def rbind_def import_await_reference)

section \<open>Closed instances\<close>

text \<open>A codec of tickets: the capability, then each node as a list of its own, and the text is the kind followed by the bytes.\<close>

definition ticket_chunks :: "ticket_wire_format \<Rightarrow> bytes list" where
  "ticket_chunks w = (case w of Variant0 t \<Rightarrow>
     (case capability_raw (dt_capability t) of (kind, raw) \<Rightarrow> (kind # raw) # map (\<lambda>(i, addrs). concat (map chunk_encode (i # addrs))) (dt_nodes t)))"

definition chunks_node :: "bytes \<Rightarrow> endpoint_addr" where
  "chunks_node b = (case chunks_decode [] b of Some (i # addrs) \<Rightarrow> (i, addrs) | _ \<Rightarrow> ([], []))"

fun chunks_ticket :: "bytes list \<Rightarrow> ticket_wire_format option" where
  "chunks_ticket ((kind # raw) # nodes) =
     (case capability_from_raw kind raw of
        Inl _ \<Rightarrow> None
      | Inr cap \<Rightarrow> Some (Variant0 \<lparr>dt_capability = cap, dt_nodes = map chunks_node nodes\<rparr>))"
| "chunks_ticket _ = None"

definition ticket_postcard :: "ticket_wire_format postcard" where
  "ticket_postcard = chunk_postcard ticket_chunks chunks_ticket"

definition plain_text :: ticket_text where
  "plain_text = \<lparr>tt_encode = (\<lambda>kind b. kind @ string_of_bytes b), tt_decode = (\<lambda>kind s. Some (bytes_of_string (drop (length kind) s)))\<rparr>"

lemma ticket_postcard_ok: "postcard_ok ticket_postcard"
  unfolding ticket_postcard_def
proof (rule chunk_postcard_ok)
  fix w
  obtain t where w: "w = Variant0 t" by (cases w)
  have node: "chunks_node (concat (map chunk_encode (i # addrs))) = (i, addrs)" for i addrs
    by (simp add: chunks_node_def chunks_decode_encode del: list.map concat.simps)
  obtain kind raw where raw: "capability_raw (dt_capability t) = (kind, raw)" by fastforce
  then have "capability_from_raw kind raw = Inr (dt_capability t)" using capability_raw_roundtrip[of "dt_capability t"] by simp
  then show "chunks_ticket (ticket_chunks w) = Some w"
    using node by (simp add: w ticket_chunks_def raw comp_def case_prod_unfold del: list.map(2) concat.simps)
qed

lemma plain_text_ok: "ticket_text_ok plain_text"
  by (simp add: ticket_text_ok_def plain_text_def)

definition node_over :: "actor \<Rightarrow> engine" where
  "node_over a = \<lparr>en_live = live_new [9] 0 a, en_running = True, en_default_author = [], en_storage = StorageMem, en_files = Map.empty\<rparr>"

lemma node_over_simps [simp]:
  "lv_actor (en_live (node_over a)) = a" "lv_actor_running (en_live (node_over a))" "en_running (node_over a)"
  "\<not> ns_is_syncing ns (lv_state (en_live (node_over a)))"
  by (simp_all add: node_over_def live_new_def ns_is_syncing_def)

lemma sample_api_simps [simp]: "ae_env sample_api = quiet_env" "ae_before sample_api = []"
  by (simp_all add: sample_api_def)

definition twice_open :: actor where
  "twice_open = snd (actor_open sample_crypto sample_ns sample_opts sample_open)"

lemma twice_open_laws:
  "actor_ok sample_crypto twice_open" "handles_of sample_ns twice_open = Some 2" "visible (ac_store twice_open) = visible sample_known"
proof -
  have one: "handles_of sample_ns sample_open = Some 1" "visible (ac_store sample_open) = visible sample_known"
    using open_handles[OF sample_actor_ok sample_ns_length, of sample_opts] sample_known_capability
    by (simp_all add: sample_open_def handles_of_def)
  show "handles_of sample_ns twice_open = Some 2" "visible (ac_store twice_open) = visible sample_known"
    using open_handles[OF sample_open_ok sample_ns_length, of sample_opts] sample_known_capability one by (simp_all add: twice_open_def)
  show "actor_ok sample_crypto twice_open"
    using actor_open_moves[OF sample_ns_length, of sample_crypto undefined sample_opts] sample_open_ok
    by (simp add: twice_open_def moves_def actor_moves_def)
qed

theorem drop_takes_a_handle_witness:
  "\<exists>e'. doc_drop sample_crypto sample_api sample_ns (node_over twice_open) = (Inl (EngineNet (NetActor (ErrStore ReplicaNotClosed))), e') \<and>
     handles_of sample_ns (lv_actor (en_live e')) = Some 1 \<and> visible (ac_store (lv_actor (en_live e'))) = visible sample_known"
proof -
  obtain res e' where d: "doc_drop sample_crypto sample_api sample_ns (node_over twice_open) = (res, e')" by fastforce
  from drop_takes_a_handle[OF _ _ _ _ _ sample_ns_length d] show ?thesis
    using d twice_open_laws quiet_private by (simp add: released_def)
qed

lemma start_sync_succeeds:
  assumes "private_world env" "lv_actor_running lv" "actor_ok C (lv_actor lv)" "length ns = 32" "le_gossip_ok env"
    "table_get (ac_states (lv_actor lv)) ns = Some st"
  shows "fst (start_sync C env ns peers True lv) = Inr ()"
proof -
  have join: "fst (join_peers env ns ps True lv) = Inr ()" for ps lv
    using assms(5) by (auto simp: join_peers_def Let_def gossip_join_def split: option.splits)
  let ?act = "ActReplica ns (ActOpen \<lparr>oo_sync = True, oo_subscribe = Some (lv_replica_events lv)\<rparr>)"
  obtain ev a where a: "ac_states a = ac_states (lv_actor lv)" "live_call C env ?act lv = (map_sum NetActor id (fst (on_action C ev ?act a)),
      lv\<lparr>lv_actor := snd (on_action C ev ?act a), lv_calls := lv_calls lv + 1\<rparr>)"
    by (rule private_action[OF assms(1-3), where act = ?act]) blast
  have "fst (on_action C ev ?act a) = Inr ReplyUnit"
    using a(1) assms(6) by (simp add: op_reply_def op_bind_def op_return_def actor_open_def)
  then show ?thesis using a(2) join by (simp add: start_sync_def op_bind_def case_prod_beta)
qed

lemma write_share_succeeds:
  assumes "private_world (ae_env ev)" "ae_before ev = []" "en_running e" "lv_actor_running (en_live e)" "actor_ok C (lv_actor (en_live e))"
    "length ns = 32" "le_gossip_ok (ae_env ev)" "table_get (ac_states (lv_actor (en_live e))) ns = Some st" "ri_capability (op_info st) = Write secret"
  obtains ticket e1 where "doc_share C ev ns ShareWrite opts e = (Inr ticket, e1)"
proof -
  let ?act = "ActReplica ns ActExportSecretKey"
  obtain ev1 a where a: "actor_ok C a" "ac_states a = ac_states (lv_actor (en_live e))"
    "live_call C (ae_env ev) ?act (en_live e) = (map_sum NetActor id (fst (on_action C ev1 ?act a)),
       (en_live e)\<lparr>lv_actor := snd (on_action C ev1 ?act a), lv_calls := lv_calls (en_live e) + 1\<rparr>)"
    by (rule private_action[OF assms(1,4,5), where act = ?act]) blast
  have "on_action C ev1 ?act a = (Inr (ReplySecret secret), a)"
    using a(2) assms(8,9) by (simp add: op_reply_def op_bind_def op_return_def op_lift_def export_secret_key_def states_get_def rbind_def)
  then have one: "live_call C (ae_env ev) ?act (en_live e) =
      (Inr (ReplySecret secret), (en_live e)\<lparr>lv_actor := a, lv_calls := lv_calls (en_live e) + 1\<rparr>)" (is "_ = (_, ?lv)")
    using a(3) by simp
  have "fst (start_sync C (ae_env ev) ns [] True ?lv) = Inr ()"
    by (rule start_sync_succeeds[OF assms(1) _ _ assms(6,7)]) (use a assms(4,8) in simp_all)
  then show thesis using that one assms(2,3)
    by (simp add: doc_share_def Let_def engine_call_def handle_export_secret_key_def handle_call_def op_bind_def op_return_def
        engine_start_sync_def engine_ask_def case_prod_beta)
qed

theorem shared_ticket_grants_witness:
  "\<exists>e ticket e1 e'' st. doc_share sample_crypto sample_api sample_ns ShareWrite AddrAddresses e = (Inr ticket, e1) \<and>
     ticket_from_str plain_text ticket_postcard (ticket_display plain_text ticket_postcard ticket) = Inr ticket \<and>
     dt_nodes ticket = [([9], [[1]])] \<and> kind_of_capability (dt_capability ticket) = KindWrite \<and>
     doc_import sample_crypto sample_api (dt_capability ticket) (node_over sample_actor) = (Inr sample_ns, e'') \<and>
     table_get (ac_states (lv_actor (en_live e''))) sample_ns = Some st \<and> kind_of_capability (ri_capability (op_info st)) = KindWrite"
proof -
  let ?W = "Write sample_secret"
  have id: "capability_id sample_crypto ?W = sample_ns" by simp
  obtain e st where e: "doc_import sample_crypto sample_api ?W (node_over sample_actor) = (Inr sample_ns, e)"
    "actor_ok sample_crypto (lv_actor (en_live e))" "table_get (ac_states (lv_actor (en_live e))) sample_ns = Some st"
    "ri_capability (op_info st) = merged_capability sample_crypto (Some (Read sample_ns)) ?W"
    by (rule import_opens[of sample_api "node_over sample_actor" sample_crypto ?W])
       (use quiet_private sample_actor_ok sample_known_capability sample_ns_length id in simp_all)
  then have cap: "ri_capability (op_info st) = ?W" using id by (simp add: merged_capability_def capability_merge_def)
  define a where "a = lv_actor (en_live e)"
  obtain ticket e1 where share: "doc_share sample_crypto sample_api sample_ns ShareWrite AddrAddresses (node_over a) = (Inr ticket, e1)"
    by (rule write_share_succeeds[where ev = sample_api and C = sample_crypto and e = "node_over a" and ns = sample_ns and st = st
          and secret = sample_secret and opts = AddrAddresses])
       (use quiet_private e a_def cap sample_ns_length in \<open>simp_all add: quiet_env_def sample_live_env_def\<close>)
  have world: "world_ok policy_postcard 0 (le_world (ae_env sample_api))"
    by (simp add: world_ok_def quiet_env_def quiet_world_def sample_env_def)
  have own: "actor_ok sample_crypto (lv_actor (en_live (node_over a)))" using e(2) a_def by simp
  have "private_world (ae_env sample_api)" "lv_actor_running (en_live (node_over sample_actor))"
    "actor_ok sample_crypto (lv_actor (en_live (node_over sample_actor)))"
    using quiet_private sample_actor_ok by simp_all
  note grant = shared_ticket_grants[OF sample_crypto_ok ticket_postcard_ok plain_text_ok world own sample_ns_length share this]
  have kind: "kind_of_capability (merged_capability sample_crypto (Some (Read sample_ns)) (dt_capability ticket)) = KindWrite"
    using grant capability_merge_kind[of sample_crypto "dt_capability ticket" "Read sample_ns"] by (simp add: merged_capability_def)
  have "dt_nodes ticket = [([9], [[1]])]" using grant by (simp add: sample_api_def)
  then show ?thesis using share grant kind sample_known_capability by auto metis
qed

end
