(* ===== verification/Spec2Isabelle.thy ===== *)
theory Spec2Isabelle
  imports Convergence Api_Props Sharing
begin

text \<open>
  Verification of the document store under \<^verbatim>\<open>src/src\<close>: replicated key-value documents whose entries
  are signed by authors and a namespace, kept in a local database and reconciled between peers.

  \<^bold>\<open>The program.\<close> A \<^emph>\<open>document\<close> is the set of signed entries of a namespace, keyed by author and
  key. The replica store (\<^verbatim>\<open>store/fs.rs\<close>) keeps the entries of all documents in database tables with
  one lazily opened write transaction. A replica (\<^verbatim>\<open>sync.rs\<close>) is an open document: it validates
  entries, inserts them and runs the two steps of a reconciliation session, which is the generic
  handler of \<^verbatim>\<open>ranger.rs\<close> over the store instance of the namespace, wrapped by the access filter of
  \<^verbatim>\<open>filter.rs\<close>. The sync actor (\<^verbatim>\<open>actor.rs\<close>) owns the store, the open replicas and the snapshots of the
  running sessions and serves requests one at a time. An exchange (\<^verbatim>\<open>net.rs\<close>, \<^verbatim>\<open>net/codec.rs\<close>) is a
  connection on which two actors exchange reconciliation messages in frames. The live actor
  (\<^verbatim>\<open>engine/live.rs\<close>) decides which exchanges, downloads and gossip topics run, with the bookkeeping of
  \<^verbatim>\<open>engine/state.rs\<close> and \<^verbatim>\<open>engine/gossip.rs\<close>. The engine (\<^verbatim>\<open>engine.rs\<close>) starts the two actors, keeps the default
  author and answers the garbage collector of the blob store. Clients (\<^verbatim>\<open>api.rs\<close>) send requests to the actor
  of \<^verbatim>\<open>api/actor.rs\<close>, which passes them to the engine; \<^verbatim>\<open>protocol.rs\<close> starts a node in memory or over a
  directory, whose file is brought up to date by \<^verbatim>\<open>store/fs/migrations.rs\<close>.

  \<^bold>\<open>Modelling conventions.\<close> Fallible code returns \<open>Inl error\<close> or \<open>Inr value\<close>; a method with
  \<open>&mut self\<close> takes the state and returns it, on error paths too. Integers are words of their width.
  Bytes are words of length 8 and byte strings are lists ordered lexicographically. Code outside the
  repository is an argument: the signature scheme and the hex codec (record \<open>crypto\<close>), postcard, the
  hash function of the fingerprints, the clock, the transport, the blob store and its downloader, the
  gossip network and the access provider of the embedder. What a theorem needs of them is a
  hypothesis or a locale assumption, and each witness instantiates them.

  \<^bold>\<open>Theories.\<close>
  \<^item> \<open>Prelude\<close>: results, state-changing operations, shared lemmas on lists and words.
    \<open>Ordered_Table\<close>: the contents of a \<open>redb\<close> table as an association list sorted by key, with point
    and range access.
  \<^item> \<open>Keys\<close> (\<^verbatim>\<open>keys.rs\<close>, \<^verbatim>\<open>store/pubkeys.rs\<close>): authors, namespaces, printing and parsing, the key cache.
    \<open>Records\<close> (\<^verbatim>\<open>sync.rs\<close>): record identifiers, records, entries, signatures, orderings, encodings.
    \<open>Capabilities\<close> (\<^verbatim>\<open>sync.rs\<close>): write and read access, its raw form and \<open>merge\<close>.
  \<^item> \<open>Ranger\<close> (\<^verbatim>\<open>ranger.rs\<close>): ranges with wrap-around, messages, the store trait as a record of
    functions, \<open>process_message\<close> and \<open>put\<close>. \<open>Ranger_Laws\<close> and \<open>Ranger_Ingest\<close> state the contracts a
    store promises as locales and prove the handler once inside them; \<open>Ranger_Runs\<close> transports
    relations on stores through the handler without any contract; \<open>Ranger_Dialogue\<close> runs two
    handlers against each other.
  \<^item> \<open>Bounds\<close>, \<open>Store_Types\<close>, \<open>Heads\<close> (\<^verbatim>\<open>store/fs/bounds.rs\<close>, \<^verbatim>\<open>store.rs\<close>, \<^verbatim>\<open>heads.rs\<close>): key filters and
    table bounds, download policies, queries, author heads and their size-limited encoding.
  \<^item> \<open>Fs_Store\<close>, \<open>Fs_Laws\<close> (\<^verbatim>\<open>store/fs.rs\<close>, \<^verbatim>\<open>store/fs/tables.rs\<close>): the store with its transactions;
    \<open>visible\<close> is the state a client sees. \<open>Store_Instance\<close> and \<open>Store_Ingest\<close> interpret the contracts
    of \<open>Ranger_Laws\<close> and \<open>Ranger_Ingest\<close> on the store instance and refine \<open>put\<close> to an abstract
    document. \<open>Store_History\<close> closes the store under every operation.
  \<^item> \<open>Query\<close> (\<^verbatim>\<open>store/util.rs\<close>, \<^verbatim>\<open>store/fs/ranges.rs\<close>, \<^verbatim>\<open>store/fs/query.rs\<close>): the lazy query iterator
    against filtering, sorting and paging of the document.
  \<^item> \<open>Session_Filter\<close> (\<^verbatim>\<open>filter.rs\<close>): the filtered store is again an instance of the read contract, with
    the admitted entries as its view.
  \<^item> \<open>Replica\<close>, \<open>Replica_Laws\<close>, \<open>Replica_Runs\<close> (\<^verbatim>\<open>sync.rs\<close>): validation, inserts, sessions, authenticity.
    \<open>Reconciliation\<close> and \<open>Convergence\<close> run two replicas against each other until one has nothing to say.
  \<^item> \<open>Actor\<close>, \<open>Actor_Laws\<close>, \<open>Actor_Sessions\<close>, \<open>Actor_Props\<close> (\<^verbatim>\<open>actor.rs\<close>): every action, the main loop,
    its invariant, sessions, handles and shutdown.
  \<^item> \<open>Net\<close>, \<open>Codec\<close>, \<open>Codec_Laws\<close>, \<open>Exchange\<close> (\<^verbatim>\<open>net.rs\<close>, \<^verbatim>\<open>net/codec.rs\<close>): frames, initiator and receiver
    against an actor that serves others between any two calls, and what leaves on the wire.
  \<^item> \<open>Engine_State\<close>, \<open>Gossip\<close>, \<open>Live\<close>, \<open>Live_Laws\<close>, \<open>Live_Content\<close> (\<^verbatim>\<open>engine/\<close>): the slot of each pair of
    namespace and peer, topics and their receive loops, the handlers of the live actor with its tasks,
    downloads and subscribers. \<open>Engine_Props\<close> joins the live actor with the exchanges it starts.
  \<^item> \<open>Migrations\<close> (\<^verbatim>\<open>store/fs.rs\<close>, \<^verbatim>\<open>store/fs/migrations.rs\<close>, \<^verbatim>\<open>store/fs/migrate_redb_v2_tuples.rs\<close>): opening a file, its four
    migrations, and rewriting a file with the old tuple encoding step by step, so that it can be interrupted.
  \<^item> \<open>Handle\<close> (\<open>SyncHandle\<close> of \<^verbatim>\<open>actor.rs\<close>), \<open>Engine\<close> (\<^verbatim>\<open>engine.rs\<close>), \<open>Tickets\<close> (\<^verbatim>\<open>ticket.rs\<close>), \<open>Api\<close> (\<^verbatim>\<open>api/protocol.rs\<close>,
    \<^verbatim>\<open>api/actor.rs\<close>), \<open>Client\<close> (\<^verbatim>\<open>api.rs\<close>) and \<open>Docs\<close> (\<^verbatim>\<open>protocol.rs\<close>): a call through the handle is one action of the
    store actor after what other users of it do; a request of the public interface is one step of
    \<open>rpc_handle\<close> on the state of the engine, and \<open>rpc_run\<close> serves a list of them.
  \<^item> \<open>Default_Author\<close> shows that no action but its deletion takes an author that is committed away from the
    store actor, by interpreting the locale of invariants of the live actor; \<open>Restart\<close> starts a node on what a crash left. \<open>Api_Props\<close> holds the
    properties of garbage collection, \<open>Sharing\<close> those of tickets, documents and files at the public interface.

  \<^bold>\<open>What is shown.\<close>
  \<^item> Reconciliation: a received message is answered, or refused if the replica is closed or a range is not of
    its namespace; exactly the entries that validation accepts are applied, in order; \<open>put\<close> refines an abstract document. Two replicas that answer each
    other finish within four messages more than the entries they serve; each gets what it lacks unless
    fingerprints collide; documents without deletion markers and nested keys converge. A deletion marker
    and the older entry it deletes are shown to change places instead.
  \<^item> Authenticity and gates: only entries with two valid signatures are ever stored; closed and
    read-only replicas refuse writes.
  \<^item> Confidentiality: what leaves in a session is admitted by the filter and belongs to the snapshot
    frozen at its start, at the level of the handler, of the session, of the frames on the wire and of
    the access provider of the embedder; sessions over snapshots that differ in hidden entries only answer
    alike, but for the entries they refuse.
  \<^item> Durability: the disk always holds a state a client saw, shutdown makes the last one durable.
  \<^item> Queries equal their reference definitions, where the bound of a key prefix has no overshoot and, for the latest entry per
    key, no author is asked for. Deleting a prefix deletes exactly the older entries in its range.
  \<^item> Scheduling: an exchange that is recorded as running has a task that ends it; of two nodes that
    dial each other one wins; downloads match the queue, and a document is announced as complete only when nothing of it is queued, unless a failed download is retried.
  \<^item> A node: opening a file completes its missing tables from those it has and keeps the others; the default author survives a crash, unless
    it was set anew; content that is referenced is protected from collection; a ticket grants exactly what it was shared for; a document is
    dropped with its last handle; adding a file equals its specification.
  \<^item> Deviations: theorems named in the manifest's findings show, on concrete inputs, where the code
    does not do what its documentation says.

  \<^bold>\<open>Bounds.\<close> The split factor and the size below which a range is sent whole are those of the default
  configuration of \<^verbatim>\<open>ranger.rs\<close>. Session identifiers are 64-bit words; the statements about fresh
  identifiers assume that fewer sessions were started than the counter holds. Runs of an actor and of
  an exchange are over arbitrary finite lists of inputs; no fuel is used in the handlers themselves.

  \<^bold>\<open>Not modelled.\<close> Input/output errors of the database, and back pressure of full channels, which surface
  as errors the callers pass on, also for single hashes of the iterator over referenced content; frames that were written in part and
  are left in the buffer of the encoder (\<open>io_send\<close> encodes into an empty one); tasks that panic; counters and sizes of type
  \<open>usize\<close> are natural numbers, and the debug assertions of \<^verbatim>\<open>ranger.rs\<close> are left out. Storing an entry is two steps of the store, the removal of
  what it supersedes and the insertion, because the transaction may be committed between them. Not modelled either are the tick counters of the live actor and the counter declarations of
  \<^verbatim>\<open>metrics.rs\<close>; listening on and connecting to a remote interface, and the serialization derived by macros of
  the rpc package, which add transport errors only; exporting a file, which is a call of the blob store; the migration from redb 1 in
  \<^verbatim>\<open>store/fs/migrate_v1_v2.rs\<close>, which is not a module of the crate; tests.
\<close>

end
